(* ===== verification/Prelude.thy ===== *)
theory Prelude
  imports Main "HOL-Library.AList"
begin

text \<open>
  The shared vocabulary of the development: Go's strings and byte slices, its \<open>error\<close> values,
  the outcome of a call that returns \<open>(value, error)\<close> or panics, and Go's \<open>map\<close> type, together with
  the generic facts that the component theories use.

  \<^item> A Go \<open>string\<close> and a \<open>[]byte\<close> are both sequences of 8-bit bytes and convert into each other for
    free; both are HOL strings here, whose characters are exactly the 256 byte values.
  \<^item> A Go \<open>error\<close> return is \<open>err option\<close> (\<open>None\<close> is \<open>nil\<close>). A \<open>(value, error)\<close> return is \<open>'a res\<close>.
  \<^item> A Go map is \<open>None\<close> for the \<open>nil\<close> map and \<open>Some al\<close> for an allocated one. The order of the
    association list stands for the iteration order that the runtime happens to choose; facts about
    maps that the code may rely on are those that do not depend on it.
\<close>

type_synonym bytes = string

named_theorems res_simps \<open>evaluation of outcomes and error checks\<close>
named_theorems gomap_simps \<open>lookup after a map operation\<close>

section \<open>Errors and outcomes\<close>

text \<open>
  The sentinel errors that the program tests for with \<open>errors.Is\<close> and \<open>errors.As\<close> are
  constructors of their own: \<open>os.ErrNotExist\<close>, \<open>blobstore.ErrBlobNotExist\<close>,
  \<open>http.ErrServerClosed\<close>, \<open>syscall.ECONNRESET\<close>, \<open>os.ErrClosed\<close>, \<open>os.ErrInvalid\<close> and an AWS
  response error with its HTTP status. \<open>Errorf\<close> is \<open>fmt.Errorf\<close>: the constant part of the message
  and the errors wrapped by its \<open>%w\<close> verbs (none for a plain message).
\<close>

datatype err =
    ErrNotExist
  | ErrBlobNotExist
  | ErrServerClosed
  | ECONNRESET
  | ErrClosed
  | ErrInvalid
  | ErrShortWrite
  | ResponseError nat
  | OsError string
  | Errorf string "err list"

fun err_is :: "err \<Rightarrow> err \<Rightarrow> bool" where
  "err_is (Errorf m es) t = (Errorf m es = t \<or> list_ex (\<lambda>e. err_is e t) es)"
| "err_is e t = (e = t)"

datatype 'a res = Ok 'a | Err err | Panic string

fun is_Ok :: "'a res \<Rightarrow> bool" where
  "is_Ok (Ok _) = True"
| "is_Ok (Err _) = False"
| "is_Ok (Panic _) = False"

fun is_Panic :: "'a res \<Rightarrow> bool" where
  "is_Panic (Panic _) = True"
| "is_Panic (Ok _) = False"
| "is_Panic (Err _) = False"

text \<open>\<open>if err != nil { return fmt.Errorf("...: %w", err) }\<close>\<close>

fun wrap :: "string \<Rightarrow> err \<Rightarrow> err" where
  "wrap m e = Errorf m [e]"

fun wrap_opt :: "string \<Rightarrow> err option \<Rightarrow> err option" where
  "wrap_opt m None = None"
| "wrap_opt m (Some e) = Some (Errorf m [e])"

fun wrap_res :: "string \<Rightarrow> 'a res \<Rightarrow> 'a res" where
  "wrap_res m (Err e) = Err (Errorf m [e])"
| "wrap_res m (Ok x) = Ok x"
| "wrap_res m (Panic p) = Panic p"

text \<open>An \<open>error\<close> return seen as the outcome of a call without a value.\<close>

fun of_err :: "err option \<Rightarrow> unit res" where
  "of_err None = Ok ()"
| "of_err (Some e) = Err e"

text \<open>
  The deferred clean-up that occurs throughout the program:
  \<open>defer func() { if err := c(); err != nil && retErr == nil { retErr = err } }()\<close>.
  A panic is not changed by it.
\<close>

fun defer_err :: "'a res \<Rightarrow> err option \<Rightarrow> 'a res" where
  "defer_err (Ok x) (Some e) = Err e"
| "defer_err (Ok x) None = Ok x"
| "defer_err (Err e) _ = Err e"
| "defer_err (Panic p) _ = Panic p"

text \<open>A \<open>for\<close> loop over a slice whose body may return early with an error or panic.\<close>

fun res_fold :: "('a \<Rightarrow> 's \<Rightarrow> 's res) \<Rightarrow> 'a list \<Rightarrow> 's \<Rightarrow> 's res" where
  "res_fold f [] s = Ok s"
| "res_fold f (x # xs) s =
     (case f x s of Ok s2 \<Rightarrow> res_fold f xs s2 | Err e \<Rightarrow> Err e | Panic p \<Rightarrow> Panic p)"

lemma res_fold_append:
  "res_fold f (xs @ ys) s =
     (case res_fold f xs s of Ok s2 \<Rightarrow> res_fold f ys s2 | Err e \<Rightarrow> Err e | Panic p \<Rightarrow> Panic p)"
  by (induction xs arbitrary: s) (auto split: res.splits)

lemma res_fold_inv:
  assumes "res_fold f xs s = Ok s2" and "P s" and "\<And>x s s2. x \<in> set xs \<Longrightarrow> P s \<Longrightarrow> f x s = Ok s2 \<Longrightarrow> P s2"
  shows "P s2"
  using assms
proof (induction xs arbitrary: s)
  case (Cons x xs)
  then obtain s1 where s1: "f x s = Ok s1" "res_fold f xs s1 = Ok s2" by (auto split: res.splits)
  then have "P s1" using Cons.prems(2,3) by auto
  then show ?case using Cons.IH [OF s1(2)] Cons.prems(3) by auto
qed simp

lemma defer_err_Ok [res_simps]: "defer_err r e = Ok x \<longleftrightarrow> r = Ok x \<and> e = None"
  by (cases r; cases e) auto

lemma defer_err_Panic [res_simps]: "defer_err r e = Panic p \<longleftrightarrow> r = Panic p"
  by (cases r; cases e) auto

lemma defer_err_None [simp]: "defer_err r None = r"
  by (cases r) auto

lemma wrap_res_Ok [res_simps]: "wrap_res m r = Ok x \<longleftrightarrow> r = Ok x"
  by (cases r) auto

lemma wrap_opt_None [res_simps]: "wrap_opt m e = None \<longleftrightarrow> e = None"
  by (cases e) auto

lemma of_err_Ok [res_simps]: "of_err e = Ok u \<longleftrightarrow> e = None"
  by (cases e) auto

lemma of_err_not_Panic [simp]: "of_err e \<noteq> Panic p"
  by (cases e) auto

lemma err_is_wrap [simp]: "err_is (Errorf m [e]) ErrBlobNotExist = err_is e ErrBlobNotExist"
  "err_is (Errorf m [e]) ErrNotExist = err_is e ErrNotExist"
  by simp_all

section \<open>Go maps\<close>

type_synonym ('k, 'v) gomap = "('k \<times> 'v) list option"

definition gm_make :: "('k, 'v) gomap" where
  "gm_make = Some []"

definition gm_entries :: "('k, 'v) gomap \<Rightarrow> ('k \<times> 'v) list" where
  "gm_entries m = (case m of None \<Rightarrow> [] | Some al \<Rightarrow> al)"

text \<open>\<open>v, ok := m[k]\<close> (reading a \<open>nil\<close> map finds nothing)\<close>

definition gm_get :: "('k, 'v) gomap \<Rightarrow> 'k \<Rightarrow> 'v option" where
  "gm_get m k = map_of (gm_entries m) k"

text \<open>\<open>m[k] = v\<close> panics on the \<open>nil\<close> map; the outcome is the new map.\<close>

definition gm_put :: "'k \<Rightarrow> 'v \<Rightarrow> ('k, 'v) gomap \<Rightarrow> ('k, 'v) gomap res" where
  "gm_put k v m =
     (case m of None \<Rightarrow> Panic ''assignment to entry in nil map''
      | Some al \<Rightarrow> Ok (Some (AList.update k v al)))"

text \<open>\<open>delete(m, k)\<close> (a no-op on the \<open>nil\<close> map)\<close>

definition gm_delete :: "'k \<Rightarrow> ('k, 'v) gomap \<Rightarrow> ('k, 'v) gomap" where
  "gm_delete k m = map_option (AList.delete k) m"

definition gm_len :: "('k, 'v) gomap \<Rightarrow> nat" where
  "gm_len m = length (gm_entries m)"

text \<open>The representation invariant: a key occurs once.\<close>

definition gm_wf :: "('k, 'v) gomap \<Rightarrow> bool" where
  "gm_wf m \<longleftrightarrow> distinct (map fst (gm_entries m))"

text \<open>\<open>maps.Equal\<close>: the same number of entries, and each entry of the first is in the second.\<close>

definition maps_Equal :: "('k, 'v) gomap \<Rightarrow> ('k, 'v) gomap \<Rightarrow> bool" where
  "maps_Equal m1 m2 \<longleftrightarrow>
     gm_len m1 = gm_len m2 \<and> list_all (\<lambda>(k, v). gm_get m2 k = Some v) (gm_entries m1)"

text \<open>\<open>m[k]\<close> of a map of booleans is false for a key that is not in the map.\<close>

definition gm_flag :: "('k, bool) gomap \<Rightarrow> 'k \<Rightarrow> bool" where
  "gm_flag m k = (gm_get m k = Some True)"

lemma gm_entries_simps [simp]: "gm_entries None = []" "gm_entries (Some al) = al"
  by (simp_all add: gm_entries_def)

lemma gm_get_make [gomap_simps, simp]: "gm_get gm_make k = None"
  by (simp add: gm_get_def gm_make_def)

lemma gm_get_nil [gomap_simps, simp]: "gm_get None k = None"
  by (simp add: gm_get_def)

lemma gm_get_put [gomap_simps]:
  "gm_put k v m = Ok m' \<Longrightarrow> gm_get m' = (gm_get m)(k \<mapsto> v)"
  by (auto simp: gm_put_def gm_get_def fun_eq_iff update_conv split: option.splits)

lemma gm_get_delete [gomap_simps]: "gm_get (gm_delete k m) = (gm_get m)(k := None)"
  by (cases m) (auto simp: gm_delete_def gm_get_def fun_eq_iff delete_conv)

lemma gm_wf_make [simp]: "gm_wf gm_make"
  by (simp add: gm_wf_def gm_make_def)

lemma gm_wf_nil [simp]: "gm_wf None"
  by (simp add: gm_wf_def)

lemma gm_wf_put: "gm_put k v m = Ok m' \<Longrightarrow> gm_wf m \<Longrightarrow> gm_wf m'"
  by (auto simp: gm_put_def gm_wf_def distinct_update split: option.splits)

lemma gm_wf_delete: "gm_wf m \<Longrightarrow> gm_wf (gm_delete k m)"
  by (cases m) (auto simp: gm_delete_def gm_wf_def distinct_delete)

lemma gm_put_Panic: "gm_put k v m = Panic p \<Longrightarrow> m = None"
  by (auto simp: gm_put_def split: option.splits)

lemma gm_put_not_Err [simp]: "gm_put k v m \<noteq> Err e"
  by (auto simp: gm_put_def split: option.splits)

lemma gm_put_Some [simp]: "gm_put k v (Some al) = Ok (Some (AList.update k v al))"
  by (simp add: gm_put_def)

lemma gm_get_mem: "gm_wf m \<Longrightarrow> gm_get m k = Some v \<longleftrightarrow> (k, v) \<in> set (gm_entries m)"
  by (simp add: gm_wf_def gm_get_def)

lemma gm_get_dom: "gm_get m k \<noteq> None \<longleftrightarrow> k \<in> fst ` set (gm_entries m)"
  by (simp add: gm_get_def map_of_eq_None_iff)

lemma gm_get_perm:
  assumes "gm_wf m" and "gm_wf m'" and "set (gm_entries m) = set (gm_entries m')"
  shows "gm_get m = gm_get m'"
  using assms map_of_inject_set [of "gm_entries m" "gm_entries m'"]
  by (auto simp: gm_wf_def gm_get_def fun_eq_iff)

text \<open>On well-formed maps \<open>maps.Equal\<close> is equality of the two maps as functions.\<close>

lemma maps_Equal_iff:
  assumes "gm_wf m1" and "gm_wf m2"
  shows "maps_Equal m1 m2 \<longleftrightarrow> gm_get m1 = gm_get m2"
proof
  assume eq: "maps_Equal m1 m2"
  then have sub: "set (gm_entries m1) \<subseteq> set (gm_entries m2)"
    using assms by (auto simp: maps_Equal_def list_all_iff gm_get_mem)
  have "card (set (gm_entries m)) = gm_len m" if "gm_wf m" for m :: "('a, 'b) gomap"
    using that distinct_card [of "gm_entries m"] by (auto simp: gm_wf_def gm_len_def distinct_map)
  then have "card (set (gm_entries m1)) = card (set (gm_entries m2))"
    using assms eq by (simp add: maps_Equal_def)
  then have "set (gm_entries m1) = set (gm_entries m2)"
    using sub by (simp add: card_subset_eq)
  then show "gm_get m1 = gm_get m2" by (rule gm_get_perm [OF assms])
next
  assume eq: "gm_get m1 = gm_get m2"
  have "set (gm_entries m1) = set (gm_entries m2)"
    using gm_get_mem [OF assms(1)] gm_get_mem [OF assms(2)] eq by auto
  moreover have "card (set (gm_entries m)) = gm_len m" if "gm_wf m" for m :: "('a, 'b) gomap"
    using that distinct_card [of "gm_entries m"] by (auto simp: gm_wf_def gm_len_def distinct_map)
  ultimately show "maps_Equal m1 m2"
    using assms eq by (auto simp: maps_Equal_def list_all_iff gm_get_mem) (metis assms)
qed

lemma maps_Equal_refl [simp]: "gm_wf m \<Longrightarrow> maps_Equal m m"
  by (simp add: maps_Equal_iff)

lemma map_le_Some_D: "m \<subseteq>\<^sub>m m' \<Longrightarrow> m k = Some v \<Longrightarrow> m' k = Some v"
  by (auto simp: map_le_def dom_def)

section \<open>Strings\<close>

text \<open>\<open>strings.HasPrefix\<close>, \<open>strings.HasSuffix\<close> and \<open>strings.Contains\<close>\<close>

fun has_prefix :: "string \<Rightarrow> string \<Rightarrow> bool" where
  "has_prefix s [] = True"
| "has_prefix [] (p # ps) = False"
| "has_prefix (c # s) (p # ps) = (c = p \<and> has_prefix s ps)"

definition has_suffix :: "string \<Rightarrow> string \<Rightarrow> bool" where
  "has_suffix s x = has_prefix (rev s) (rev x)"

fun str_contains :: "string \<Rightarrow> string \<Rightarrow> bool" where
  "str_contains [] x = (x = [])"
| "str_contains (c # s) x = (has_prefix (c # s) x \<or> str_contains s x)"

lemma has_prefix_iff: "has_prefix s p \<longleftrightarrow> (\<exists>r. s = p @ r)"
  by (induction s p rule: has_prefix.induct) auto

lemma has_prefix_append [simp]: "has_prefix (p @ r) p"
  by (auto simp: has_prefix_iff)

lemma has_suffix_iff: "has_suffix s x \<longleftrightarrow> (\<exists>r. s = r @ x)"
proof -
  have "(\<exists>r. rev s = rev x @ r) \<longleftrightarrow> (\<exists>r. s = r @ x)"
    by (metis rev_append rev_rev_ident)
  then show ?thesis by (simp add: has_suffix_def has_prefix_iff)
qed

lemma str_contains_iff: "str_contains s x \<longleftrightarrow> (\<exists>l r. s = l @ x @ r)"
proof (induction s)
  case Nil
  then show ?case by auto
next
  case (Cons c s)
  show ?case
    by (auto simp: Cons has_prefix_iff append_eq_Cons_conv Cons_eq_append_conv)
qed

text \<open>\<open>strconv.Itoa\<close>, for a number that is not negative\<close>

fun nat_string :: "nat \<Rightarrow> string" where
  "nat_string n = (if n < 10 then [char_of (48 + n)] else nat_string (n div 10) @ [char_of (48 + n mod 10)])"

declare nat_string.simps [simp del]

text \<open>\<open>strings.Split(s, sep)\<close> for a one-character separator: always at least one part.\<close>

fun str_split :: "char \<Rightarrow> string \<Rightarrow> string list" where
  "str_split d [] = [[]]"
| "str_split d (c # s) =
     (if c = d then [] # str_split d s
      else (case str_split d s of [] \<Rightarrow> [[c]] | p # ps \<Rightarrow> (c # p) # ps))"

text \<open>\<open>strings.Join\<close> for a one-character separator.\<close>

fun str_join :: "char \<Rightarrow> string list \<Rightarrow> string" where
  "str_join d [] = []"
| "str_join d [p] = p"
| "str_join d (p # q # ps) = p @ d # str_join d (q # ps)"

lemma str_split_not_Nil [simp]: "str_split d s \<noteq> []"
  by (induction s) (auto split: list.splits)

lemma str_join_split: "str_join d (str_split d s) = s"
proof (induction s)
  case Nil
  then show ?case by simp
next
  case (Cons c s)
  obtain p ps where p: "str_split d s = p # ps"
    using str_split_not_Nil by (metis list.exhaust)
  show ?case using Cons p by (cases ps) auto
qed

lemma str_split_no_sep: "p \<in> set (str_split d s) \<Longrightarrow> d \<notin> set p"
  by (induction s arbitrary: p) (auto split: list.splits if_splits)

lemma str_split_join:
  "ps \<noteq> [] \<Longrightarrow> \<forall>p \<in> set ps. d \<notin> set p \<Longrightarrow> str_split d (str_join d ps) = ps"
proof (induction d ps rule: str_join.induct)
  case (2 d p)
  then have "d \<notin> set p" by simp
  then show ?case by (induction p) auto
next
  case (3 d p q ps)
  then have IH: "str_split d (str_join d (q # ps)) = q # ps" and p: "d \<notin> set p" by auto
  from p have "str_split d (p @ d # str_join d (q # ps)) = p # q # ps"
    by (induction p) (auto simp: IH)
  then show ?case by simp
qed simp

end
