(* ===== verification/OS.thy ===== *)
theory OS
  imports Prelude "HOL-Library.Char_ord" "HOL-Library.List_Lexorder"
begin

text \<open>
  The part of Go's \<open>os\<close> and \<open>io\<close> packages that the program uses, as operations on an explicit file
  system. A path is its list of cleaned components, so that \<open>filepath.Join\<close> is \<open>@\<close> and
  \<open>filepath.Dir\<close> is \<open>butlast\<close>; the empty path is the root of the tree that is modelled.

  Any call may fail for reasons outside the program (permissions, a full disk, an I/O error). The
  state therefore carries a script of faults, of which each call consumes the next entry: \<open>Pass\<close>
  lets it through and \<open>FailAt n e\<close> makes it fail with error \<open>e\<close> after doing as much of its work as
  \<open>n\<close> says (bytes written or read, entries removed). Theorems quantify over every script, so that
  every error branch of the program is a reachable branch of the model.
\<close>

type_synonym path = "string list"

datatype fault = Pass | FailAt nat err

record os =
  files :: "(path \<times> bytes) list"
  dirs :: "path list"
  faults :: "fault list"

text \<open>An open \<open>*os.File\<close>: its name and whether it was closed.\<close>

record file_h =
  h_name :: path
  h_closed :: bool

text \<open>
  An \<open>io.ReadCloser\<close>: the chunks its reads deliver, the error that ends them (\<open>None\<close> is
  \<open>io.EOF\<close>) and what closing it returns.
\<close>

record reader =
  rd_chunks :: "bytes list"
  rd_err :: "err option"
  rd_close :: "err option"

definition rd_content :: "reader \<Rightarrow> bytes" where
  "rd_content r = concat (rd_chunks r)"

definition pop_fault :: "os \<Rightarrow> fault \<times> os" where
  "pop_fault w = (case faults w of [] \<Rightarrow> (Pass, w) | f # fs \<Rightarrow> (f, w\<lparr>faults := fs\<rparr>))"

definition fs_get :: "os \<Rightarrow> path \<Rightarrow> bytes option" where
  "fs_get w p = map_of (files w) p"

definition fs_put :: "path \<Rightarrow> bytes \<Rightarrow> os \<Rightarrow> os" where
  "fs_put p c w = w\<lparr>files := AList.update p c (files w)\<rparr>"

definition fs_del :: "path \<Rightarrow> os \<Rightarrow> os" where
  "fs_del p w = w\<lparr>files := AList.delete p (files w)\<rparr>"

definition dir_exists :: "os \<Rightarrow> path \<Rightarrow> bool" where
  "dir_exists w p \<longleftrightarrow> p = [] \<or> p \<in> set (dirs w)"

section \<open>Reading\<close>

text \<open>A reader over a byte sequence delivers it in chunks of the size of \<open>io.Copy\<close>'s buffer.\<close>

function chunked :: "bytes \<Rightarrow> bytes list" where
  "chunked c = (if c = [] then [] else take 32768 c # chunked (drop 32768 c))"
  by pat_completeness auto
termination
  by (relation "measure length") auto

declare chunked.simps [simp del]

definition open_reader :: "bytes \<Rightarrow> fault \<Rightarrow> fault \<Rightarrow> reader" where
  "open_reader c rf cf =
     \<lparr>rd_chunks = (case rf of Pass \<Rightarrow> chunked c | FailAt n e \<Rightarrow> chunked (take n c)),
      rd_err = (case rf of Pass \<Rightarrow> None | FailAt n e \<Rightarrow> Some e),
      rd_close = (case cf of Pass \<Rightarrow> None | FailAt n e \<Rightarrow> Some e)\<rparr>"

text \<open>\<open>os.Open\<close>; the faults of the later reads and of the close are drawn here.\<close>

definition os_Open :: "path \<Rightarrow> os \<Rightarrow> reader res \<times> os" where
  "os_Open p w =
     (case pop_fault w of
        (FailAt n e, w1) \<Rightarrow> (Err e, w1)
      | (Pass, w1) \<Rightarrow>
          (case fs_get w1 p of
             Some c \<Rightarrow>
               (let (rf, w2) = pop_fault w1; (cf, w3) = pop_fault w2 in (Ok (open_reader c rf cf), w3))
           | None \<Rightarrow>
               (if dir_exists w1 p
                then (Ok \<lparr>rd_chunks = [], rd_err = Some (OsError ''is a directory''), rd_close = None\<rparr>, w1)
                else (Err ErrNotExist, w1))))"

definition os_Stat :: "path \<Rightarrow> os \<Rightarrow> err option \<times> os" where
  "os_Stat p w =
     (case pop_fault w of
        (FailAt n e, w1) \<Rightarrow> (Some e, w1)
      | (Pass, w1) \<Rightarrow>
          (if fs_get w1 p \<noteq> None \<or> dir_exists w1 p then (None, w1) else (Some ErrNotExist, w1)))"

definition os_ReadFile :: "path \<Rightarrow> os \<Rightarrow> bytes res \<times> os" where
  "os_ReadFile p w =
     (case pop_fault w of
        (FailAt n e, w1) \<Rightarrow> (Err e, w1)
      | (Pass, w1) \<Rightarrow>
          (case fs_get w1 p of
             Some c \<Rightarrow> (Ok c, w1)
           | None \<Rightarrow>
               (if dir_exists w1 p then (Err (OsError ''is a directory''), w1)
                else (Err ErrNotExist, w1))))"

text \<open>\<open>os.ReadDir\<close>: the names in a directory, sorted.\<close>

definition dir_entries :: "os \<Rightarrow> path \<Rightarrow> string list" where
  "dir_entries w d =
     sort (remdups (map last (filter (\<lambda>p. p \<noteq> [] \<and> butlast p = d) (map fst (files w) @ dirs w))))"

definition os_ReadDir :: "path \<Rightarrow> os \<Rightarrow> string list res \<times> os" where
  "os_ReadDir d w =
     (case pop_fault w of
        (FailAt n e, w1) \<Rightarrow> (Err e, w1)
      | (Pass, w1) \<Rightarrow>
          (if dir_exists w1 d then (Ok (dir_entries w1 d), w1) else (Err ErrNotExist, w1)))"

section \<open>Creating and changing files\<close>

text \<open>\<open>os.MkdirAll\<close>: every prefix of the path becomes a directory, unless one of them is a file.\<close>

definition prefixes_of :: "path \<Rightarrow> path list" where
  "prefixes_of p = map (\<lambda>n. take n p) [1..<Suc (length p)]"

definition os_MkdirAll :: "path \<Rightarrow> os \<Rightarrow> err option \<times> os" where
  "os_MkdirAll p w =
     (case pop_fault w of
        (FailAt n e, w1) \<Rightarrow> (Some e, w1)
      | (Pass, w1) \<Rightarrow>
          (if list_ex (\<lambda>q. fs_get w1 q \<noteq> None) (prefixes_of p)
           then (Some (OsError ''not a directory''), w1)
           else (None, w1\<lparr>dirs := dirs w1 @ filter (\<lambda>q. q \<notin> set (dirs w1)) (prefixes_of p)\<rparr>)))"

definition os_Mkdir :: "path \<Rightarrow> os \<Rightarrow> err option \<times> os" where
  "os_Mkdir p w =
     (case pop_fault w of
        (FailAt n e, w1) \<Rightarrow> (Some e, w1)
      | (Pass, w1) \<Rightarrow>
          (if fs_get w1 p \<noteq> None \<or> dir_exists w1 p then (Some (OsError ''file exists''), w1)
           else if \<not> dir_exists w1 (butlast p) then (Some ErrNotExist, w1)
           else (None, w1\<lparr>dirs := dirs w1 @ [p]\<rparr>)))"

text \<open>
  \<open>os.CreateTemp(dir, "tmp")\<close> picks a name that does not exist yet: \<open>tmp\<close> followed by digits. The
  model takes the first free one of a fixed sequence of such names.
\<close>

definition tmp_name :: "nat \<Rightarrow> string" where
  "tmp_name n = ''tmp'' @ replicate n (CHR ''0'')"

definition used_names :: "os \<Rightarrow> path list" where
  "used_names w = map fst (files w) @ dirs w"

definition fresh_tmp :: "os \<Rightarrow> path \<Rightarrow> path" where
  "fresh_tmp w d =
     (case find (\<lambda>n. d @ [tmp_name n] \<notin> set (used_names w)) [0..<Suc (length (used_names w))] of
        Some n \<Rightarrow> d @ [tmp_name n]
      | None \<Rightarrow> d @ [tmp_name 0])"

definition os_CreateTemp :: "path \<Rightarrow> os \<Rightarrow> file_h res \<times> os" where
  "os_CreateTemp d w =
     (case pop_fault w of
        (FailAt n e, w1) \<Rightarrow> (Err e, w1)
      | (Pass, w1) \<Rightarrow>
          (if dir_exists w1 d
           then (Ok \<lparr>h_name = fresh_tmp w1 d, h_closed = False\<rparr>, fs_put (fresh_tmp w1 d) [] w1)
           else (Err ErrNotExist, w1)))"

text \<open>
  \<open>(*os.File).Write\<close>: the number of bytes written and the error. A file removed in the meantime
  still accepts writes, which nobody can read.
\<close>

definition fs_append :: "path \<Rightarrow> bytes \<Rightarrow> os \<Rightarrow> os" where
  "fs_append p b w = (case fs_get w p of None \<Rightarrow> w | Some c \<Rightarrow> fs_put p (c @ b) w)"

definition os_Write :: "file_h \<Rightarrow> bytes \<Rightarrow> os \<Rightarrow> (nat \<times> err option) \<times> os" where
  "os_Write h b w =
     (if h_closed h then ((0, Some ErrClosed), w)
      else
        (case pop_fault w of
           (FailAt n e, w1) \<Rightarrow>
             ((min n (length b), Some e), fs_append (h_name h) (take n b) w1)
         | (Pass, w1) \<Rightarrow> ((length b, None), fs_append (h_name h) b w1)))"

definition os_Close :: "file_h \<Rightarrow> os \<Rightarrow> err option \<times> file_h \<times> os" where
  "os_Close h w =
     (if h_closed h then (Some ErrClosed, h, w)
      else
        (case pop_fault w of
           (FailAt n e, w1) \<Rightarrow> (Some e, h\<lparr>h_closed := True\<rparr>, w1)
         | (Pass, w1) \<Rightarrow> (None, h\<lparr>h_closed := True\<rparr>, w1)))"

definition os_Rename :: "path \<Rightarrow> path \<Rightarrow> os \<Rightarrow> err option \<times> os" where
  "os_Rename p q w =
     (case pop_fault w of
        (FailAt n e, w1) \<Rightarrow> (Some e, w1)
      | (Pass, w1) \<Rightarrow>
          (case fs_get w1 p of
             None \<Rightarrow> (Some ErrNotExist, w1)
           | Some c \<Rightarrow>
               (if dir_exists w1 q then (Some (OsError ''file exists''), w1)
                else if \<not> dir_exists w1 (butlast q) then (Some ErrNotExist, w1)
                else (None, fs_put q c (fs_del p w1)))))"

definition os_Remove :: "path \<Rightarrow> os \<Rightarrow> err option \<times> os" where
  "os_Remove p w =
     (case pop_fault w of
        (FailAt n e, w1) \<Rightarrow> (Some e, w1)
      | (Pass, w1) \<Rightarrow>
          (if fs_get w1 p \<noteq> None then (None, fs_del p w1)
           else if dir_exists w1 p then
             (if dir_entries w1 p = [] then (None, w1\<lparr>dirs := removeAll p (dirs w1)\<rparr>)
              else (Some (OsError ''directory not empty''), w1))
           else (Some ErrNotExist, w1)))"

text \<open>\<open>os.RemoveAll\<close>: an absent path is no error; a fault leaves part of the tree removed.\<close>

definition below :: "path \<Rightarrow> path \<Rightarrow> bool" where
  "below d p \<longleftrightarrow> take (length d) p = d"

definition os_RemoveAll :: "path \<Rightarrow> os \<Rightarrow> err option \<times> os" where
  "os_RemoveAll d w =
     (case pop_fault w of
        (FailAt n e, w1) \<Rightarrow>
          (Some e, fold fs_del (take n (filter (below d) (map fst (files w1)))) w1)
      | (Pass, w1) \<Rightarrow>
          (None, w1\<lparr>files := filter (\<lambda>(p, c). \<not> below d p) (files w1),
                    dirs := filter (\<lambda>p. \<not> below d p) (dirs w1)\<rparr>))"

text \<open>
  \<open>os.WriteFile\<close> truncates and writes. \<open>FailAt 0\<close> fails to open the file and leaves it as it was;
  \<open>FailAt (Suc n)\<close> fails after \<open>n\<close> bytes of the new content.
\<close>

definition os_WriteFile :: "path \<Rightarrow> bytes \<Rightarrow> os \<Rightarrow> err option \<times> os" where
  "os_WriteFile p b w =
     (let (f, w1) = pop_fault w in
      case f of
        FailAt 0 e \<Rightarrow> (Some e, w1)
      | _ \<Rightarrow>
          (if dir_exists w1 p then (Some (OsError ''is a directory''), w1)
           else if \<not> dir_exists w1 (butlast p) then (Some ErrNotExist, w1)
           else
             (case f of
                FailAt n e \<Rightarrow> (Some e, fs_put p (take (n - 1) b) w1)
              | Pass \<Rightarrow> (None, fs_put p b w1))))"

section \<open>Facts about single operations\<close>

named_theorems fs_simps \<open>file contents after an operation\<close>

lemma fs_get_put [fs_simps]: "fs_get (fs_put p c w) = (fs_get w)(p \<mapsto> c)"
  by (simp add: fs_get_def fs_put_def fun_eq_iff update_conv)

lemma fs_get_del [fs_simps]: "fs_get (fs_del p w) = (fs_get w)(p := None)"
  by (simp add: fs_get_def fs_del_def fun_eq_iff delete_conv)

lemma fs_get_append [fs_simps]:
  "fs_get (fs_append p b w) = (case fs_get w p of None \<Rightarrow> fs_get w | Some c \<Rightarrow> (fs_get w)(p \<mapsto> c @ b))"
  by (simp add: fs_append_def fs_get_put split: option.splits)

lemma fs_get_faults [fs_simps]: "fs_get (w\<lparr>faults := f\<rparr>) = fs_get w"
  by (simp add: fs_get_def fun_eq_iff)

lemma fs_get_dirs [fs_simps]: "fs_get (w\<lparr>dirs := d\<rparr>) = fs_get w"
  by (simp add: fs_get_def fun_eq_iff)

lemma dirs_fs [simp]: "dirs (fs_put p c w) = dirs w" "dirs (fs_del p w) = dirs w"
  "dirs (fs_append p b w) = dirs w"
  by (simp_all add: fs_put_def fs_del_def fs_append_def split: option.splits)

lemma faults_fs [simp]: "faults (fs_put p c w) = faults w" "faults (fs_del p w) = faults w"
  "faults (fs_append p b w) = faults w"
  by (simp_all add: fs_put_def fs_del_def fs_append_def split: option.splits)

lemma dir_exists_fs [simp]: "dir_exists (fs_put p c w) = dir_exists w"
  "dir_exists (fs_del p w) = dir_exists w" "dir_exists (fs_append p b w) = dir_exists w"
  by (simp_all add: dir_exists_def fun_eq_iff)

lemma pop_fault_same:
  assumes "pop_fault w = (f, w')"
  shows "fs_get w' = fs_get w \<and> dirs w' = dirs w \<and> files w' = files w \<and> dir_exists w' = dir_exists w"
  using assms by (auto simp: pop_fault_def fs_get_def dir_exists_def fun_eq_iff split: list.splits)

lemma pop_fault_none [simp]: "faults w = [] \<Longrightarrow> pop_fault w = (Pass, w)"
  by (simp add: pop_fault_def)

lemma concat_chunked [simp]: "concat (chunked c) = c"
proof (induction c rule: chunked.induct)
  case (1 c)
  then show ?case by (subst chunked.simps) (auto simp del: drop_eq_Nil)
qed

lemma chunked_nonempty: "x \<in> set (chunked c) \<Longrightarrow> x \<noteq> []"
proof (induction c arbitrary: x rule: chunked.induct)
  case (1 c)
  then show ?case by (subst (asm) (2) chunked.simps) (auto split: if_splits)
qed

lemma chunked_short: "c \<noteq> [] \<Longrightarrow> length c \<le> 32768 \<Longrightarrow> chunked c = [c]"
  by (simp add: chunked.simps)

lemma rd_content_open [simp]: "rd_err (open_reader c rf cf) = None \<Longrightarrow> rd_content (open_reader c rf cf) = c"
  by (auto simp: open_reader_def rd_content_def split: fault.splits)

lemma os_Open_same: "os_Open p w = (r, w') \<Longrightarrow> fs_get w' = fs_get w \<and> dirs w' = dirs w"
  by (auto simp: os_Open_def Let_def split: prod.splits fault.splits option.splits if_splits
      dest!: pop_fault_same)

lemma os_Open_Ok:
  "os_Open p w = (Ok rd, w') \<Longrightarrow> rd_err rd = None \<Longrightarrow> fs_get w p = Some (rd_content rd)"
  by (auto simp: os_Open_def Let_def split: prod.splits fault.splits option.splits if_splits
      dest!: pop_fault_same)

lemma os_Open_not_Panic: "os_Open p w \<noteq> (Panic m, w')"
  by (auto simp: os_Open_def Let_def split: prod.splits fault.splits option.splits)

lemma os_Open_nofault:
  "faults w = [] \<Longrightarrow> fs_get w p = Some c \<Longrightarrow> os_Open p w = (Ok (open_reader c Pass Pass), w)"
  by (simp add: os_Open_def)

lemma os_Open_missing:
  "faults w = [] \<Longrightarrow> fs_get w p = None \<Longrightarrow> \<not> dir_exists w p \<Longrightarrow> os_Open p w = (Err ErrNotExist, w)"
  by (simp add: os_Open_def)

lemma os_Stat_same: "os_Stat p w = (r, w') \<Longrightarrow> fs_get w' = fs_get w \<and> dirs w' = dirs w"
  by (auto simp: os_Stat_def split: prod.splits fault.splits if_splits dest!: pop_fault_same)

lemma os_Stat_None: "os_Stat p w = (None, w') \<Longrightarrow> fs_get w p \<noteq> None \<or> dir_exists w p"
  by (auto simp: os_Stat_def split: prod.splits fault.splits if_splits dest!: pop_fault_same)

lemma os_ReadFile_same: "os_ReadFile p w = (r, w') \<Longrightarrow> fs_get w' = fs_get w \<and> dirs w' = dirs w"
  by (auto simp: os_ReadFile_def split: prod.splits fault.splits option.splits if_splits
      dest!: pop_fault_same)

lemma os_ReadFile_Ok: "os_ReadFile p w = (Ok c, w') \<Longrightarrow> fs_get w p = Some c"
  by (auto simp: os_ReadFile_def split: prod.splits fault.splits option.splits if_splits
      dest!: pop_fault_same)

lemma os_ReadFile_not_Panic: "os_ReadFile p w \<noteq> (Panic m, w')"
  by (auto simp: os_ReadFile_def split: prod.splits fault.splits option.splits if_splits)

lemma os_ReadDir_same: "os_ReadDir p w = (r, w') \<Longrightarrow> fs_get w' = fs_get w \<and> dirs w' = dirs w"
  by (auto simp: os_ReadDir_def split: prod.splits fault.splits if_splits dest!: pop_fault_same)

lemma os_MkdirAll_fs: "os_MkdirAll p w = (r, w') \<Longrightarrow> fs_get w' = fs_get w"
  by (auto simp: os_MkdirAll_def fs_simps split: prod.splits fault.splits if_splits
      dest!: pop_fault_same)

lemma prefixes_of_self: "p \<noteq> [] \<Longrightarrow> p \<in> set (prefixes_of p)"
  unfolding prefixes_of_def by (auto simp: image_iff intro!: bexI [of _ "length p"] simp: Suc_le_eq)

lemma os_MkdirAll_dir: "os_MkdirAll p w = (None, w') \<Longrightarrow> dir_exists w' p"
  by (cases "p = []")
    (auto simp: os_MkdirAll_def dir_exists_def dest: prefixes_of_self
      split: prod.splits fault.splits if_splits)

lemma os_Mkdir_fs: "os_Mkdir p w = (r, w') \<Longrightarrow> fs_get w' = fs_get w"
  by (auto simp: os_Mkdir_def fs_simps split: prod.splits fault.splits if_splits
      dest!: pop_fault_same)

lemma os_Write_closed [simp]: "h_closed h \<Longrightarrow> os_Write h b w = ((0, Some ErrClosed), w)"
  by (simp add: os_Write_def)

lemma os_Write_Ok:
  "os_Write h b w = ((n, None), w') \<Longrightarrow>
     n = length b \<and> \<not> h_closed h \<and> fs_get w' = fs_get (fs_append (h_name h) b w)"
  by (auto simp: os_Write_def fs_simps split: prod.splits fault.splits option.splits if_splits
      dest!: pop_fault_same)

lemma os_Write_frame:
  "os_Write h b w = (r, w') \<Longrightarrow> p \<noteq> h_name h \<Longrightarrow> fs_get w' p = fs_get w p"
  by (auto simp: os_Write_def fs_simps split: prod.splits fault.splits option.splits if_splits
      dest!: pop_fault_same)

lemma os_Write_short: "os_Write h b w = ((n, None), w') \<Longrightarrow> n = length b"
  by (simp add: os_Write_Ok)

lemma os_Close_fs: "os_Close h w = (r, h', w') \<Longrightarrow> fs_get w' = fs_get w"
  by (auto simp: os_Close_def split: prod.splits fault.splits if_splits dest!: pop_fault_same)

lemma os_Close_h: "os_Close h w = (r, h', w') \<Longrightarrow> h_name h' = h_name h \<and> h_closed h'"
  by (auto simp: os_Close_def split: prod.splits fault.splits if_splits)

lemma os_Rename_Ok:
  "os_Rename p q w = (None, w') \<Longrightarrow>
     \<exists>c. fs_get w p = Some c \<and> fs_get w' = ((fs_get w)(p := None))(q \<mapsto> c)"
  by (auto simp: os_Rename_def fs_simps split: prod.splits fault.splits option.splits if_splits
      dest!: pop_fault_same)

lemma os_Rename_Err: "os_Rename p q w = (Some e, w') \<Longrightarrow> fs_get w' = fs_get w"
  by (auto simp: os_Rename_def split: prod.splits fault.splits option.splits if_splits
      dest!: pop_fault_same)

lemma os_Remove_cases:
  "os_Remove p w = (r, w') \<Longrightarrow> fs_get w' = fs_get w \<or> fs_get w' = (fs_get w)(p := None)"
  by (auto simp: os_Remove_def fs_simps split: prod.splits fault.splits if_splits
      dest!: pop_fault_same)

lemma os_Remove_frame: "os_Remove p w = (r, w') \<Longrightarrow> q \<noteq> p \<Longrightarrow> fs_get w' q = fs_get w q"
  by (drule os_Remove_cases) auto

lemma os_Remove_Ok: "os_Remove p w = (None, w') \<Longrightarrow> fs_get w' p = None"
  by (auto simp: os_Remove_def fs_simps split: prod.splits fault.splits if_splits
      dest!: pop_fault_same)

lemma os_WriteFile_Ok: "os_WriteFile p b w = (None, w') \<Longrightarrow> fs_get w' = (fs_get w)(p \<mapsto> b)"
  by (auto simp: os_WriteFile_def Let_def fs_simps
      split: prod.splits fault.splits nat.splits if_splits dest!: pop_fault_same)

lemma os_WriteFile_frame: "os_WriteFile p b w = (r, w') \<Longrightarrow> q \<noteq> p \<Longrightarrow> fs_get w' q = fs_get w q"
  by (auto simp: os_WriteFile_def Let_def fs_simps
      split: prod.splits fault.splits nat.splits if_splits dest!: pop_fault_same)

subsection \<open>Temporary names are fresh\<close>

lemma tmp_name_inject [simp]: "tmp_name m = tmp_name n \<longleftrightarrow> m = n"
  by (auto simp: tmp_name_def replicate_eq_replicate)

lemma fresh_tmp_shape: "\<exists>n. fresh_tmp w d = d @ [tmp_name n]"
  by (auto simp: fresh_tmp_def split: option.splits)

text \<open>A sequence of different names always has one that is free.\<close>

lemma fresh_name_found:
  assumes "inj f"
  shows "\<exists>n. find (\<lambda>n. d @ [f n] \<notin> set used) [0..<Suc (length used)] = Some n \<and> d @ [f n] \<notin> set used"
proof -
  let ?N = "Suc (length used)"
  have "\<exists>n \<in> set [0..<?N]. d @ [f n] \<notin> set used"
  proof (rule ccontr)
    assume "\<not> ?thesis"
    then have "(\<lambda>n. d @ [f n]) ` {0..<?N} \<subseteq> set used" unfolding set_upt by blast
    then have "card ((\<lambda>n. d @ [f n]) ` {0..<?N}) \<le> length used"
      by (meson card_length card_mono finite_set le_trans)
    moreover have "card ((\<lambda>n. d @ [f n]) ` {0..<?N}) = ?N"
      using assms by (subst card_image) (auto simp: inj_on_def)
    ultimately show False by simp
  qed
  then obtain n where n: "find (\<lambda>n. d @ [f n] \<notin> set used) [0..<?N] = Some n"
    by (metis (mono_tags, lifting) find_None_iff not_None_eq)
  then have "d @ [f n] \<notin> set used" unfolding find_Some_iff by blast
  then show ?thesis using n by blast
qed

lemma fresh_tmp_unused: "fresh_tmp w d \<notin> set (used_names w)"
proof -
  have "inj tmp_name" by (simp add: inj_on_def)
  from fresh_name_found [OF this, of d "used_names w"] show ?thesis by (auto simp: fresh_tmp_def)
qed

lemma fresh_tmp_absent: "fs_get w (fresh_tmp w d) = None"
  using fresh_tmp_unused [of w d] by (auto simp: fs_get_def used_names_def map_of_eq_None_iff)

lemma os_CreateTemp_Ok:
  "os_CreateTemp d w = (Ok h, w') \<Longrightarrow>
     \<not> h_closed h \<and> (\<exists>n. h_name h = d @ [tmp_name n]) \<and> fs_get w (h_name h) = None
     \<and> fs_get w' = (fs_get w)(h_name h \<mapsto> [])"
  by (auto simp: os_CreateTemp_def fs_simps fresh_tmp_shape fresh_tmp_absent
      split: prod.splits fault.splits if_splits dest!: pop_fault_same)
    (metis fresh_tmp_absent)

lemma os_CreateTemp_Err: "os_CreateTemp d w = (Err e, w') \<Longrightarrow> fs_get w' = fs_get w"
  by (auto simp: os_CreateTemp_def split: prod.splits fault.splits if_splits dest!: pop_fault_same)

lemma os_CreateTemp_not_Panic: "os_CreateTemp d w \<noteq> (Panic m, w')"
  by (auto simp: os_CreateTemp_def split: prod.splits fault.splits if_splits)

subsection \<open>What an operation leaves alone\<close>

text \<open>
  \<open>env_le w w'\<close>: from \<open>w\<close> to \<open>w'\<close> faults were only consumed and the directories are the same.
\<close>

definition env_le :: "os \<Rightarrow> os \<Rightarrow> bool" where
  "env_le w w' \<longleftrightarrow> set (faults w') \<subseteq> set (faults w) \<and> dirs w' = dirs w"

named_theorems os_env \<open>operations only consume faults and keep the directories\<close>

lemma env_le_refl [simp]: "env_le w w"
  by (simp add: env_le_def)

lemma env_le_trans: "env_le w1 w2 \<Longrightarrow> env_le w2 w3 \<Longrightarrow> env_le w1 w3"
  by (auto simp: env_le_def)

lemma env_le_fs [simp]: "env_le w (fs_put p c w') = env_le w w'" "env_le w (fs_del p w') = env_le w w'"
  "env_le w (fs_append p c w') = env_le w w'"
  by (simp_all add: env_le_def)

lemma pop_fault_env: "pop_fault w = (f, w') \<Longrightarrow> env_le w w'"
  by (auto simp: pop_fault_def env_le_def split: list.splits)

lemma pop_fault_mem:
  "pop_fault w = (f, w') \<Longrightarrow> (f = Pass \<or> f \<in> set (faults w)) \<and> fs_get w' = fs_get w"
  using pop_fault_same [of w f w'] by (auto simp: pop_fault_def split: list.splits)

lemma os_Open_env [os_env]: "os_Open p w = (r, w') \<Longrightarrow> env_le w w'"
  by (auto simp: os_Open_def Let_def split: prod.splits fault.splits option.splits if_splits
      dest!: pop_fault_env intro: env_le_trans)

lemma os_Stat_env [os_env]: "os_Stat p w = (r, w') \<Longrightarrow> env_le w w'"
  by (auto simp: os_Stat_def split: prod.splits fault.splits if_splits dest!: pop_fault_env)

lemma os_ReadFile_env [os_env]: "os_ReadFile p w = (r, w') \<Longrightarrow> env_le w w'"
  by (auto simp: os_ReadFile_def split: prod.splits fault.splits option.splits if_splits
      dest!: pop_fault_env)

lemma os_ReadDir_env [os_env]: "os_ReadDir p w = (r, w') \<Longrightarrow> env_le w w'"
  by (auto simp: os_ReadDir_def split: prod.splits fault.splits if_splits dest!: pop_fault_env)

lemma os_CreateTemp_env [os_env]: "os_CreateTemp d w = (r, w') \<Longrightarrow> env_le w w'"
  by (auto simp: os_CreateTemp_def split: prod.splits fault.splits if_splits dest!: pop_fault_env)

lemma os_Write_env [os_env]: "os_Write h b w = (r, w') \<Longrightarrow> env_le w w'"
  by (auto simp: os_Write_def split: prod.splits fault.splits if_splits dest!: pop_fault_env)

lemma os_Close_env [os_env]: "os_Close h w = (r, h', w') \<Longrightarrow> env_le w w'"
  by (auto simp: os_Close_def split: prod.splits fault.splits if_splits dest!: pop_fault_env)

lemma os_Rename_env [os_env]: "os_Rename p q w = (r, w') \<Longrightarrow> env_le w w'"
  by (auto simp: os_Rename_def split: prod.splits fault.splits option.splits if_splits
      dest!: pop_fault_env)

lemma os_WriteFile_env [os_env]: "os_WriteFile p b w = (r, w') \<Longrightarrow> env_le w w'"
  by (auto simp: os_WriteFile_def Let_def split: prod.splits fault.splits nat.splits if_splits
      dest!: pop_fault_env)

lemma os_Remove_faults:
  "os_Remove p w = (r, w') \<Longrightarrow> set (faults w') \<subseteq> set (faults w) \<and> set (dirs w') \<subseteq> set (dirs w)"
  by (auto simp: os_Remove_def env_le_def split: prod.splits fault.splits if_splits
      dest!: pop_fault_env)

lemma os_MkdirAll_faults:
  "os_MkdirAll p w = (r, w') \<Longrightarrow>
     set (faults w') \<subseteq> set (faults w) \<and> set (dirs w') \<subseteq> set (dirs w) \<union> set (prefixes_of p)"
  by (auto simp: os_MkdirAll_def env_le_def split: prod.splits fault.splits if_splits
      dest!: pop_fault_env)

lemma prefixes_of_length: "q \<in> set (prefixes_of p) \<Longrightarrow> length q \<le> length p"
  by (auto simp: prefixes_of_def)

lemma os_Open_Err:
  "os_Open p w = (Err e, w') \<Longrightarrow>
     e = ErrNotExist \<and> fs_get w p = None \<or> (\<exists>n. FailAt n e \<in> set (faults w))"
  by (auto simp: os_Open_def Let_def split: prod.splits fault.splits option.splits if_splits
      dest!: pop_fault_mem)

lemma os_Stat_Some:
  "os_Stat p w = (Some e, w') \<Longrightarrow>
     e = ErrNotExist \<and> fs_get w p = None \<or> (\<exists>n. FailAt n e \<in> set (faults w))"
  by (auto simp: os_Stat_def split: prod.splits fault.splits if_splits
      dest!: pop_fault_mem)

end
