(* ===== verification/Hex.thy ===== *)
theory Hex
  imports Prelude
begin

text \<open>
  \<open>encoding/hex\<close>: \<open>EncodeToString\<close> and \<open>DecodeString\<close>. Blob names, the \<open>Sha256\<close> strings of the
  manifest and the keys of the export command are such strings. Decoding accepts upper and lower
  case and reports an invalid byte before an odd length, as the library does.
\<close>

definition hex_digit :: "nat \<Rightarrow> char" where
  "hex_digit n = char_of (if n < 10 then 48 + n else 87 + n)"

definition unhex :: "char \<Rightarrow> nat option" where
  "unhex c =
     (let n = of_char c :: nat in
      if 48 \<le> n \<and> n \<le> 57 then Some (n - 48)
      else if 97 \<le> n \<and> n \<le> 102 then Some (n - 87)
      else if 65 \<le> n \<and> n \<le> 70 then Some (n - 55)
      else None)"

fun hex_encode :: "bytes \<Rightarrow> string" where
  "hex_encode [] = []"
| "hex_encode (c # cs) =
     hex_digit (of_char c div 16) # hex_digit (of_char c mod 16) # hex_encode cs"

definition ErrHexByte :: err where
  "ErrHexByte = Errorf ''encoding/hex: invalid byte'' []"

definition ErrHexLength :: err where
  "ErrHexLength = Errorf ''encoding/hex: odd length hex string'' []"

fun hex_decode :: "string \<Rightarrow> bytes res" where
  "hex_decode [] = Ok []"
| "hex_decode [c] = (if unhex c = None then Err ErrHexByte else Err ErrHexLength)"
| "hex_decode (c # d # cs) =
     (case unhex c of None \<Rightarrow> Err ErrHexByte
      | Some a \<Rightarrow>
        (case unhex d of None \<Rightarrow> Err ErrHexByte
         | Some b \<Rightarrow>
           (case hex_decode cs of Ok r \<Rightarrow> Ok (char_of (16 * a + b) # r) | e \<Rightarrow> e)))"

definition hex_lower :: "char \<Rightarrow> char" where
  "hex_lower c = (if 65 \<le> (of_char c :: nat) \<and> (of_char c :: nat) \<le> 70 then char_of (of_char c + 32 :: nat) else c)"

lemma of_char_div_16 [simp]: "(of_char c :: nat) div 16 < 16"
  using nat_of_char_less_256 [of c] by (simp only: less_mult_imp_div_less)

lemma unhex_digit: "n < 16 \<Longrightarrow> unhex (hex_digit n) = Some n"
  by (auto simp: hex_digit_def unhex_def Let_def of_char_of)

lemma unhex_bound: "unhex c = Some n \<Longrightarrow> n < 16"
  by (auto simp: unhex_def Let_def split: if_splits)

lemma hex_digit_unhex: "unhex c = Some n \<Longrightarrow> hex_digit n = hex_lower c"
  by (auto simp: hex_digit_def unhex_def hex_lower_def Let_def split: if_splits)

lemma hex_decode_encode [simp]: "hex_decode (hex_encode b) = Ok b"
proof (induction b)
  case (Cons c b)
  have "16 * (of_char c div 16) + of_char c mod 16 = (of_char c :: nat)" by simp
  with Cons show ?case by (simp add: unhex_digit)
qed simp

lemma hex_encode_inject [simp]: "hex_encode a = hex_encode b \<longleftrightarrow> a = b"
  by (metis hex_decode_encode res.inject(1))

lemma hex_encode_append: "hex_encode (a @ b) = hex_encode a @ hex_encode b"
  by (induction a) auto

lemma length_hex_encode [simp]: "length (hex_encode b) = 2 * length b"
  by (induction b) auto

text \<open>Decoding and encoding again gives the canonical, lower-case form.\<close>

lemma hex_encode_decode: "hex_decode s = Ok b \<Longrightarrow> hex_encode b = map hex_lower s"
proof (induction s arbitrary: b rule: hex_decode.induct)
  case (3 c d cs)
  then obtain x y r where x: "unhex c = Some x" and y: "unhex d = Some y"
    and r: "hex_decode cs = Ok r" and b: "b = char_of (16 * x + y) # r"
    by (auto split: option.splits res.splits)
  have "x < 16" "y < 16" using x y by (auto dest: unhex_bound)
  then have "of_char (char_of (16 * x + y) :: char) = 16 * x + y" by (simp add: of_char_of)
  with \<open>y < 16\<close> show ?case
    using "3.IH" [OF x y r] by (simp add: b hex_digit_unhex [OF x] hex_digit_unhex [OF y])
qed (auto split: if_splits)

lemma hex_decode_length: "hex_decode s = Ok b \<Longrightarrow> length s = 2 * length b"
  by (metis hex_encode_decode length_hex_encode length_map)

lemma hex_decode_not_Panic [simp]: "hex_decode s \<noteq> Panic p"
  by (induction s rule: hex_decode.induct) (auto split: option.splits res.splits)

lemma hex_encode_chars: "c \<in> set (hex_encode b) \<Longrightarrow> unhex c \<noteq> None"
  by (induction b) (auto simp: unhex_digit)

text \<open>Temporary file names start with \<open>tmp\<close>, so none of them is the hex form of a digest.\<close>

lemma hex_encode_not_tmp [simp]: "hex_encode b \<noteq> ''tmp'' @ s"
proof
  assume "hex_encode b = ''tmp'' @ s"
  then have "CHR ''t'' \<in> set (hex_encode b)" by simp
  then have "unhex (CHR ''t'') \<noteq> None" by (rule hex_encode_chars)
  then show False by (simp add: unhex_def)
qed

end
