(* ===== verification/BlobStore.thy ===== *)
theory BlobStore
  imports OS Sha256 Hex
begin

text \<open>
  \<open>blobstore/store.go\<close>: the interface \<open>Store\<close> and the \<open>ContentAddressableBlob\<close> that \<open>Put\<close> returns,
  as a record of functions over a world \<open>'w\<close> and a type of unfinished blobs \<open>'b\<close>; together with
  \<open>io.Copy\<close> and \<open>io.TeeReader\<close>, through which every client moves bytes into and out of a store. The
  locale \<open>blob_store\<close> is what the comments of the interface promise; the clients (the proxy handler,
  the export and verify commands) are proved against it, and the directory, registry and S3 stores are
  interpretations of it in their own theories.
\<close>

record ('w, 'b) Store =
  Store_Get :: "bytes \<Rightarrow> 'w \<Rightarrow> reader res \<times> 'w"
  Store_Exists :: "bytes \<Rightarrow> 'w \<Rightarrow> bool res \<times> 'w"
  Store_Put :: "'w \<Rightarrow> 'b res \<times> 'w"
  Store_Destroy :: "'w \<Rightarrow> err option \<times> 'w"
  Store_RemoveExcept :: "(string, bool) gomap \<Rightarrow> 'w \<Rightarrow> err option \<times> 'w"
  Blob_Write :: "'b \<Rightarrow> bytes \<Rightarrow> 'w \<Rightarrow> (nat \<times> err option) \<times> 'b \<times> 'w"
  Blob_Commit :: "'b \<Rightarrow> 'w \<Rightarrow> bytes res \<times> 'b \<times> 'w"
  Blob_Cleanup :: "'b \<Rightarrow> 'w \<Rightarrow> err option \<times> 'b \<times> 'w"

section \<open>Copying\<close>

text \<open>
  \<open>io.Copy(dst, src)\<close>: each chunk that the source delivers is written; a failed or short write ends
  the copy, otherwise the source's own error does (\<open>None\<close> for end of file).
\<close>

fun io_Copy :: "(bytes \<Rightarrow> 's \<Rightarrow> (nat \<times> err option) \<times> 's) \<Rightarrow> bytes list \<Rightarrow> err option \<Rightarrow> 's \<Rightarrow> err option \<times> 's" where
  "io_Copy wr [] e s = (e, s)"
| "io_Copy wr (c # cs) e s =
     (case wr c s of
        ((n, Some er), s1) \<Rightarrow> (Some er, s1)
      | ((n, None), s1) \<Rightarrow>
          (if n \<noteq> length c then (Some ErrShortWrite, s1) else io_Copy wr cs e s1))"

text \<open>
  \<open>io.Copy(dst, io.TeeReader(src, tee))\<close>: every chunk goes to \<open>tee\<close> first. When that write fails,
  the read returns the bytes that \<open>tee\<close> took together with its error: they still reach \<open>dst\<close>.
\<close>

fun io_CopyTee :: "(bytes \<Rightarrow> 's \<Rightarrow> (nat \<times> err option) \<times> 's) \<Rightarrow> (bytes \<Rightarrow> 's \<Rightarrow> (nat \<times> err option) \<times> 's)
    \<Rightarrow> bytes list \<Rightarrow> err option \<Rightarrow> 's \<Rightarrow> err option \<times> 's" where
  "io_CopyTee wr tee [] e s = (e, s)"
| "io_CopyTee wr tee (c # cs) e s =
     (case tee c s of
        ((n, Some er), s1) \<Rightarrow>
          (if n = 0 then (Some er, s1)
           else
             (case wr (take n c) s1 of
                ((m, Some er2), s2) \<Rightarrow> (Some er2, s2)
              | ((m, None), s2) \<Rightarrow> (Some (if m \<noteq> n then ErrShortWrite else er), s2)))
      | ((n, None), s1) \<Rightarrow>
          (case wr c s1 of
             ((m, Some er2), s2) \<Rightarrow> (Some er2, s2)
           | ((m, None), s2) \<Rightarrow>
               (if m \<noteq> length c then (Some ErrShortWrite, s2) else io_CopyTee wr tee cs e s2)))"

text \<open>
  The Hoare-style rule for a copy: what every write keeps holds at the end, and if the copy
  succeeds, an invariant \<open>J\<close> over the bytes written so far holds for all of them.
\<close>

lemma io_Copy_keeps:
  assumes "io_Copy wr cs e s = (r, s')" and "I s"
    and "\<And>c s res s1. wr c s = (res, s1) \<Longrightarrow> I s \<Longrightarrow> I s1"
  shows "I s'"
  using assms(1,2)
proof (induction cs arbitrary: s)
  case (Cons c cs)
  obtain n er s1 where w: "wr c s = ((n, er), s1)" by (metis surj_pair)
  then have "I s1" using assms(3) Cons.prems(2) by blast
  then show ?case using Cons w by (auto split: option.splits if_splits)
qed simp

lemma io_Copy_success:
  assumes "io_Copy wr cs e s = (None, s')" and "J d s"
    and "\<And>c n s s1 d. wr c s = ((n, None), s1) \<Longrightarrow> J d s \<Longrightarrow> J (d @ c) s1"
  shows "J (d @ concat cs) s' \<and> e = None"
  using assms(1,2)
proof (induction cs arbitrary: s d)
  case (Cons c cs)
  then obtain s1 where w: "wr c s = ((length c, None), s1)"
    and r: "io_Copy wr cs e s1 = (None, s')"
    by (auto split: prod.splits option.splits if_splits)
  have "J (d @ c) s1" using assms(3) [OF w] Cons.prems(2) by blast
  from Cons.IH [OF r this] show ?case by simp
qed simp

lemma io_CopyTee_keeps:
  assumes "io_CopyTee wr tee cs e s = (r, s')" and "I s"
    and "\<And>c s res s1. wr c s = (res, s1) \<Longrightarrow> I s \<Longrightarrow> I s1"
    and "\<And>c s res s1. tee c s = (res, s1) \<Longrightarrow> I s \<Longrightarrow> I s1"
  shows "I s'"
  using assms(1,2)
proof (induction cs arbitrary: s)
  case (Cons c cs)
  obtain n er s1 where t: "tee c s = ((n, er), s1)" by (metis surj_pair)
  then have I1: "I s1" using assms(4) Cons.prems(2) by blast
  define x where "x = (case er of None \<Rightarrow> c | Some _ \<Rightarrow> take n c)"
  obtain m er2 s2 where w: "wr x s1 = ((m, er2), s2)" by (metis surj_pair)
  then have "I s2" using assms(3) I1 by blast
  with I1 t w Cons show ?case
    by (cases er; cases er2) (auto simp: x_def split: if_splits)
qed simp

lemma io_CopyTee_success:
  assumes "io_CopyTee wr tee cs e s = (None, s')" and "J d s"
    and "\<And>c n s s1 m s2 d. tee c s = ((n, None), s1) \<Longrightarrow> wr c s1 = ((m, None), s2) \<Longrightarrow> J d s \<Longrightarrow> J (d @ c) s2"
  shows "J (d @ concat cs) s' \<and> e = None"
  using assms(1,2)
proof (induction cs arbitrary: s d)
  case (Cons c cs)
  then obtain n s1 s2 where t: "tee c s = ((n, None), s1)" and w: "wr c s1 = ((length c, None), s2)"
    and r: "io_CopyTee wr tee cs e s2 = (None, s')"
    by (auto split: prod.splits option.splits if_splits)
  have "J (d @ c) s2" using assms(3) [OF t w] Cons.prems(2) by blast
  from Cons.IH [OF r this] show ?case by simp
qed simp

section \<open>The contract of a store\<close>

text \<open>
  \<open>holds w k\<close> is the content stored under key \<open>k\<close>; \<open>inv\<close> is the well-formedness of the world that
  the store needs and keeps; \<open>bwf b\<close> says that \<open>b\<close> was handed out by \<open>Put\<close>; \<open>pending b w\<close> is the
  content that \<open>b\<close> has accepted so far, \<open>None\<close> once a write failed or the blob is finished.
\<close>

locale blob_store =
  fixes st :: "('w, 'b) Store"
    and holds :: "'w \<Rightarrow> bytes \<Rightarrow> bytes option"
    and inv :: "'w \<Rightarrow> bool"
    and bwf :: "'b \<Rightarrow> bool"
    and pending :: "'b \<Rightarrow> 'w \<Rightarrow> bytes option"
  assumes get_keeps: "inv w \<Longrightarrow> Store_Get st k w = (r, w') \<Longrightarrow> inv w' \<and> holds w' = holds w"
    and get_content: "inv w \<Longrightarrow> Store_Get st k w = (Ok rd, w') \<Longrightarrow> rd_err rd = None \<Longrightarrow>
      holds w k = Some (rd_content rd)"
    and get_no_panic: "Store_Get st k w \<noteq> (Panic m, w')"
    and exists_keeps: "inv w \<Longrightarrow> Store_Exists st k w = (rx, w') \<Longrightarrow> inv w' \<and> holds w' = holds w"
    and exists_iff: "inv w \<Longrightarrow> Store_Exists st k w = (Ok x, w') \<Longrightarrow> x \<longleftrightarrow> holds w k \<noteq> None"
    and exists_no_panic: "Store_Exists st k w \<noteq> (Panic m, w')"
    and put_keeps: "inv w \<Longrightarrow> Store_Put st w = (rp, w') \<Longrightarrow> inv w' \<and> holds w' = holds w"
    and put_fresh: "inv w \<Longrightarrow> Store_Put st w = (Ok b, w') \<Longrightarrow> bwf b \<and> pending b w' = Some []"
    and put_no_panic: "Store_Put st w \<noteq> (Panic m, w')"
    and write_keeps: "inv w \<Longrightarrow> bwf b \<Longrightarrow> Blob_Write st b p w = (rw, b', w') \<Longrightarrow>
      inv w' \<and> bwf b' \<and> holds w' = holds w"
    and write_accepts: "inv w \<Longrightarrow> bwf b \<Longrightarrow> pending b w = Some d \<Longrightarrow>
      Blob_Write st b p w = ((n, None), b', w') \<Longrightarrow> pending b' w' = Some (d @ p)"
    and commit_Ok: "inv w \<Longrightarrow> bwf b \<Longrightarrow> pending b w = Some d \<Longrightarrow> Blob_Commit st b w = (Ok k, b', w') \<Longrightarrow>
      k = sha256 d \<and> holds w' = (holds w)(k \<mapsto> d) \<and> inv w' \<and> bwf b'"
    and commit_Err: "inv w \<Longrightarrow> bwf b \<Longrightarrow> pending b w = Some d \<Longrightarrow> Blob_Commit st b w = (Err e, b', w') \<Longrightarrow>
      (holds w' = holds w \<or> holds w' = (holds w)(sha256 d \<mapsto> d)) \<and> inv w' \<and> bwf b'"
    and commit_no_panic: "bwf b \<Longrightarrow> pending b w = Some d \<Longrightarrow> Blob_Commit st b w \<noteq> (Panic m, b', w')"
    and cleanup_keeps: "inv w \<Longrightarrow> bwf b \<Longrightarrow> Blob_Cleanup st b w = (re, b', w') \<Longrightarrow>
      inv w' \<and> holds w' = holds w"

text \<open>Content addressing: a key is the digest of what is stored under it.\<close>

definition content_addressed :: "(bytes \<Rightarrow> bytes option) \<Rightarrow> bool" where
  "content_addressed h \<longleftrightarrow> (\<forall>k c. h k = Some c \<longrightarrow> k = sha256 c)"

lemma content_addressed_upd [simp]:
  "content_addressed h \<Longrightarrow> content_addressed (h(sha256 d \<mapsto> d))"
  by (auto simp: content_addressed_def)

lemma content_addressedD: "content_addressed h \<Longrightarrow> h k = Some c \<Longrightarrow> k = sha256 c"
  by (auto simp: content_addressed_def)

text \<open>A blob's \<open>Write\<close> as the destination of a copy.\<close>

definition blob_write :: "('w, 'b) Store \<Rightarrow> bytes \<Rightarrow> 'b \<times> 'w \<Rightarrow> (nat \<times> err option) \<times> 'b \<times> 'w" where
  "blob_write st p = (\<lambda>(b, w). Blob_Write st b p w)"

context blob_store begin

text \<open>Copying a reader into a fresh blob: on success the blob holds the reader's content.\<close>

lemma copy_into_blob:
  assumes "inv w" and "bwf b" and "pending b w = Some d"
    and "io_Copy (blob_write st) cs e (b, w) = (r, (b', w'))"
  shows "inv w' \<and> bwf b' \<and> holds w' = holds w \<and> (r = None \<longrightarrow> pending b' w' = Some (d @ concat cs) \<and> e = None)"
proof -
  have keep: "inv (snd s1) \<and> bwf (fst s1) \<and> holds (snd s1) = holds w"
    if "blob_write st c s = (res, s1)" and "inv (snd s) \<and> bwf (fst s) \<and> holds (snd s) = holds w" for c s res s1
    using that write_keeps [of "snd s" "fst s" c res "fst s1" "snd s1"]
    by (auto simp: blob_write_def split_beta)
  have 1: "inv w' \<and> bwf b' \<and> holds w' = holds w"
    using io_Copy_keeps [OF assms(4), of "\<lambda>s. inv (snd s) \<and> bwf (fst s) \<and> holds (snd s) = holds w"]
      keep assms(1,2) by simp
  let ?J = "\<lambda>d s. inv (snd s) \<and> bwf (fst s) \<and> pending (fst s) (snd s) = Some d"
  have step: "?J (d @ c) s1" if "blob_write st c s = ((n, None), s1)" and "?J d s" for c n s s1 d
    using that write_keeps [of "snd s" "fst s" c "(n, None)" "fst s1" "snd s1"]
      write_accepts [of "snd s" "fst s" d c n "fst s1" "snd s1"]
    by (auto simp: blob_write_def split_beta)
  have 2: "pending b' w' = Some (d @ concat cs) \<and> e = None" if "r = None"
  proof -
    have "?J (d @ concat cs) (b', w') \<and> e = None"
      by (rule io_Copy_success [where wr = "blob_write st" and s = "(b, w)" and cs = cs])
        (use assms that step in auto)
    then show ?thesis by simp
  qed
  from 1 2 show ?thesis by blast
qed

lemma commit_addressed:
  assumes "inv w" and "bwf b" and "pending b w = Some d" and "Blob_Commit st b w = (r, b', w')"
    and "content_addressed (holds w)"
  shows "content_addressed (holds w')"
proof (cases r)
  case (Ok k)
  then show ?thesis using commit_Ok [OF assms(1-3)] assms(4,5) by auto
next
  case (Err e)
  then show ?thesis using commit_Err [OF assms(1-3)] assms(4,5) by fastforce
next
  case (Panic p)
  then show ?thesis using commit_no_panic [OF assms(2,3)] assms(4) by blast
qed

text \<open>What was committed is what a later read returns.\<close>

lemma commit_then_get:
  assumes "inv w" and "bwf b" and "pending b w = Some d" and "Blob_Commit st b w = (Ok k, b', w')"
    and "Store_Get st k w' = (Ok rd, w'')" and "rd_err rd = None"
  shows "rd_content rd = d"
  using get_content [of w' k rd w''] commit_Ok [OF assms(1-4)] assms(5,6) by simp

end

text \<open>
  Stores that tell a missing blob from any other failure by \<open>ErrBlobNotExist\<close>, which the
  verify command relies on to find what has to be fetched.
\<close>

locale blob_store_notfound = blob_store +
  assumes get_not_exist: "inv w \<Longrightarrow> Store_Get st k w = (Err e, w') \<Longrightarrow> err_is e ErrBlobNotExist \<Longrightarrow>
      holds w k = None"

end
