(* ===== verification/Caf.thy ===== *)
theory Caf
  imports BlobStore
begin

text \<open>
  \<open>blobstore/directory/caf/caf.go\<close>: a file that is written under a temporary name, hashed on the way,
  and renamed to the name of its digest by \<open>Commit\<close>. The fields are those of
  \<open>ContentAddressableFile\<close>; the multi-writer \<open>mw\<close> over the temporary file and the digest is
  represented by whether it was created, since it always refers to the current \<open>tf\<close> and \<open>dg\<close>.
\<close>

record caf =
  caf_fn :: "bytes \<Rightarrow> path"
  caf_mw :: bool
  caf_tf :: "file_h option"
  caf_dg :: "bytes option"
  caf_size :: nat

definition NewContentAddressableFile :: "(bytes \<Rightarrow> path) \<Rightarrow> caf" where
  "NewContentAddressableFile fn =
     \<lparr>caf_fn = fn, caf_mw = False, caf_tf = None, caf_dg = None, caf_size = 0\<rparr>"

text \<open>The lazy initialisation at the start of \<open>writeAlways\<close>.\<close>

definition caf_init :: "caf \<Rightarrow> os \<Rightarrow> err option \<times> caf \<times> os" where
  "caf_init c w =
     (if caf_mw c then (None, c, w)
      else
        (let c1 = c\<lparr>caf_dg := Some []\<rparr>;
             filename = caf_fn c (sha256 [])
         in case os_MkdirAll (butlast filename) w of
              (Some e, w1) \<Rightarrow> (Some (wrap ''error creating parent dir'' e), c1, w1)
            | (None, w1) \<Rightarrow>
                (case os_CreateTemp (butlast filename) w1 of
                   (Ok h, w2) \<Rightarrow> (None, c1\<lparr>caf_tf := Some h, caf_mw := True\<rparr>, w2)
                 | (Err e, w2) \<Rightarrow> (Some (wrap ''error creating temp file'' e), c1\<lparr>caf_tf := None\<rparr>, w2)
                 | (Panic m, w2) \<Rightarrow> (Some (Errorf m []), c1, w2))))"

text \<open>\<open>io.MultiWriter(tf, dg).Write\<close>: the file first; the digest only sees what the file took whole.\<close>

definition caf_multi_write :: "caf \<Rightarrow> bytes \<Rightarrow> os \<Rightarrow> (nat \<times> err option) \<times> caf \<times> os" where
  "caf_multi_write c p w =
     (case caf_tf c of
        None \<Rightarrow> ((0, Some ErrInvalid), c, w)
      | Some h \<Rightarrow>
          (case os_Write h p w of
             ((n, Some e), w1) \<Rightarrow> ((n, Some e), c, w1)
           | ((n, None), w1) \<Rightarrow>
               (if n \<noteq> length p then ((n, Some ErrShortWrite), c, w1)
                else ((length p, None), c\<lparr>caf_dg := map_option (\<lambda>d. d @ p) (caf_dg c)\<rparr>, w1))))"

definition caf_writeAlways :: "caf \<Rightarrow> bytes \<Rightarrow> os \<Rightarrow> (nat \<times> err option) \<times> caf \<times> os" where
  "caf_writeAlways c p w =
     (case caf_init c w of
        (Some e, c1, w1) \<Rightarrow> ((0, Some e), c1, w1)
      | (None, c1, w1) \<Rightarrow>
          (case caf_multi_write c1 p w1 of
             ((bw, e), c2, w2) \<Rightarrow> ((bw, e), c2\<lparr>caf_size := caf_size c2 + bw\<rparr>, w2)))"

definition caf_Write :: "caf \<Rightarrow> bytes \<Rightarrow> os \<Rightarrow> (nat \<times> err option) \<times> caf \<times> os" where
  "caf_Write c p w = (if p = [] then ((0, None), c, w) else caf_writeAlways c p w)"

text \<open>
  \<open>Commit\<close> after the special case for an empty file. Closing a \<open>nil\<close> file is \<open>os.ErrInvalid\<close>.
\<close>

definition caf_finish :: "caf \<Rightarrow> os \<Rightarrow> bytes res \<times> caf \<times> os" where
  "caf_finish c w =
     (case caf_tf c of
        None \<Rightarrow> (Err (wrap ''err closing temp file'' ErrInvalid), c, w)
      | Some h \<Rightarrow>
          (case os_Close h w of
             (Some e, h1, w1) \<Rightarrow> (Err (wrap ''err closing temp file'' e), c\<lparr>caf_tf := Some h1\<rparr>, w1)
           | (None, h1, w1) \<Rightarrow>
               (let c1 = c\<lparr>caf_tf := Some h1\<rparr> in
                case caf_dg c of
                  None \<Rightarrow> (Panic ''nil pointer dereference'', c1, w1)
                | Some d \<Rightarrow>
                    (let rv = sha256 d; p = caf_fn c rv in
                     case os_MkdirAll (butlast p) w1 of
                       (Some e, w2) \<Rightarrow> (Err (wrap ''error creating parent dir'' e), c1, w2)
                     | (None, w2) \<Rightarrow>
                         (case os_Rename (h_name h1) p w2 of
                            (Some e, w3) \<Rightarrow> (Err (wrap ''err renaming temp file'' e), c1, w3)
                          | (None, w3) \<Rightarrow>
                              (Ok rv, c1\<lparr>caf_mw := False, caf_tf := None, caf_dg := None\<rparr>, w3))))))"

definition caf_Commit :: "caf \<Rightarrow> os \<Rightarrow> bytes res \<times> caf \<times> os" where
  "caf_Commit c w =
     (if caf_size c = 0 then
        (case caf_writeAlways c [] w of
           ((n, Some e), c1, w1) \<Rightarrow> (Err (wrap ''error writing empty file'' e), c1, w1)
         | ((n, None), c1, w1) \<Rightarrow> caf_finish c1 w1)
      else caf_finish c w)"

text \<open>
  \<open>Cleanup\<close> collects the errors of closing and removing the temporary file in \<open>retErr\<close> and then
  returns \<open>nil\<close>.
\<close>

definition caf_Cleanup :: "caf \<Rightarrow> os \<Rightarrow> err option \<times> caf \<times> os" where
  "caf_Cleanup c w =
     (case caf_tf c of
        None \<Rightarrow> (None, c\<lparr>caf_mw := False, caf_dg := None\<rparr>, w)
      | Some h \<Rightarrow>
          (case os_Close h w of
             (_, h1, w1) \<Rightarrow>
               (case os_Remove (h_name h1) w1 of
                  (_, w2) \<Rightarrow> (None, c\<lparr>caf_tf := None, caf_mw := False, caf_dg := None\<rparr>, w2))))"

section \<open>The state of a file being written\<close>

text \<open>
  The well-formedness that every operation keeps: the temporary file exists exactly while the
  multi-writer does, it has a temporary name in the directory of the resolver, and then there is a
  digest.
\<close>

definition caf_wf :: "path \<Rightarrow> caf \<Rightarrow> bool" where
  "caf_wf d c \<longleftrightarrow>
     caf_fn c = (\<lambda>k. d @ [hex_encode k]) \<and>
     (caf_mw c \<longleftrightarrow> caf_tf c \<noteq> None) \<and>
     (\<forall>h. caf_tf c = Some h \<longrightarrow> caf_dg c \<noteq> None \<and> (\<exists>n. h_name h = d @ [tmp_name n]))"

text \<open>
  The content that \<open>Commit\<close> would store: the bytes hashed so far, as long as the temporary file
  holds the same bytes. A failed write leaves the two apart and the file unusable.
\<close>

definition caf_pending :: "caf \<Rightarrow> os \<Rightarrow> bytes option" where
  "caf_pending c w =
     (case caf_tf c of
        None \<Rightarrow> if caf_size c = 0 then Some [] else None
      | Some h \<Rightarrow>
          (if \<not> h_closed h \<and> fs_get w (h_name h) = caf_dg c \<and> map_option length (caf_dg c) = Some (caf_size c)
           then caf_dg c else None))"

text \<open>What a store over directory \<open>d\<close> holds under a key.\<close>

definition dir_holds :: "path \<Rightarrow> os \<Rightarrow> bytes \<Rightarrow> bytes option" where
  "dir_holds d w k = fs_get w (d @ [hex_encode k])"

text \<open>No digest name in \<open>d\<close> is a directory, and the environment's faults are not sentinel errors.\<close>

definition fault_ok :: "fault \<Rightarrow> bool" where
  "fault_ok f = (case f of Pass \<Rightarrow> True | FailAt n (OsError m) \<Rightarrow> True | FailAt n _ \<Rightarrow> False)"

definition dir_inv :: "path \<Rightarrow> os \<Rightarrow> bool" where
  "dir_inv d w \<longleftrightarrow> (\<forall>k. d @ [hex_encode k] \<notin> set (dirs w)) \<and> list_all fault_ok (faults w)"

lemma tmp_not_hex [simp]: "hex_encode k \<noteq> tmp_name n"
  by (simp add: tmp_name_def del: append_Cons append_Nil)

lemma tmp_not_hex' [simp]: "tmp_name n \<noteq> hex_encode k"
  using tmp_not_hex by metis

lemma caf_wf_new: "caf_wf d (NewContentAddressableFile (\<lambda>k. d @ [hex_encode k]))"
  by (simp add: caf_wf_def NewContentAddressableFile_def)

lemma caf_pending_new [simp]: "caf_pending (NewContentAddressableFile fn) w = Some []"
  by (simp add: caf_pending_def NewContentAddressableFile_def)

section \<open>Every operation keeps the well-formedness and the stored blobs\<close>

text \<open>
  \<open>caf_keeps d w w'\<close> is the frame that all operations of the file share: the store's blobs and the
  invariant of its directory.
\<close>

definition caf_keeps :: "path \<Rightarrow> os \<Rightarrow> os \<Rightarrow> bool" where
  "caf_keeps d w w' \<longleftrightarrow> (dir_inv d w \<longrightarrow> dir_inv d w') \<and> dir_holds d w' = dir_holds d w"

lemma caf_keeps_refl [simp]: "caf_keeps d w w"
  by (simp add: caf_keeps_def)

lemma caf_keeps_trans: "caf_keeps d w1 w2 \<Longrightarrow> caf_keeps d w2 w3 \<Longrightarrow> caf_keeps d w1 w3"
  by (auto simp: caf_keeps_def)

lemma dir_inv_env: "env_le w w' \<Longrightarrow> dir_inv d w \<Longrightarrow> dir_inv d w'"
  by (auto simp: dir_inv_def env_le_def list_all_iff)

lemma dir_inv_MkdirAll: "os_MkdirAll d w = (r, w') \<Longrightarrow> dir_inv d w \<Longrightarrow> dir_inv d w'"
  by (drule os_MkdirAll_faults)
    (fastforce simp: dir_inv_def list_all_iff dest: prefixes_of_length)

lemma dir_inv_Remove: "os_Remove p w = (r, w') \<Longrightarrow> dir_inv d w \<Longrightarrow> dir_inv d w'"
  by (drule os_Remove_faults) (fastforce simp: dir_inv_def list_all_iff)

lemma keeps_MkdirAll: "os_MkdirAll d w = (r, w') \<Longrightarrow> caf_keeps d w w'"
  by (simp add: caf_keeps_def dir_holds_def fun_eq_iff os_MkdirAll_fs) (blast intro: dir_inv_MkdirAll)

lemma keeps_frame:
  assumes "env_le w w'" and "\<And>p. (\<forall>n. p \<noteq> d @ [tmp_name n]) \<Longrightarrow> fs_get w' p = fs_get w p"
  shows "caf_keeps d w w'"
  using assms by (auto simp: caf_keeps_def dir_holds_def fun_eq_iff intro: dir_inv_env)

lemma keeps_CreateTemp: "os_CreateTemp d w = (r, w') \<Longrightarrow> caf_keeps d w w'"
proof (rule keeps_frame)
  assume c: "os_CreateTemp d w = (r, w')"
  show "env_le w w'" using c by (rule os_CreateTemp_env)
  show "fs_get w' p = fs_get w p" if "\<forall>n. p \<noteq> d @ [tmp_name n]" for p
    using c that os_CreateTemp_Ok [of d w _ w'] os_CreateTemp_Err [of d w _ w'] os_CreateTemp_not_Panic
    by (cases r) fastforce+
qed

lemma CreateTemp_named:
  "os_CreateTemp d w = (Ok h, w') \<Longrightarrow> caf_keeps d w w' \<and> (\<exists>n. h_name h = d @ [tmp_name n])"
  using keeps_CreateTemp os_CreateTemp_Ok by blast

lemma keeps_Write: "os_Write h b w = (r, w') \<Longrightarrow> h_name h = d @ [tmp_name n] \<Longrightarrow> caf_keeps d w w'"
  by (rule keeps_frame) (simp add: os_Write_env, metis os_Write_frame)

lemma keeps_Close: "os_Close h w = (r, h', w') \<Longrightarrow> caf_keeps d w w'"
  by (rule keeps_frame) (auto intro: os_Close_env simp: os_Close_fs)

lemma keeps_Remove: "os_Remove (d @ [tmp_name n]) w = (r, w') \<Longrightarrow> caf_keeps d w w'"
  unfolding caf_keeps_def dir_holds_def fun_eq_iff
  by (metis dir_inv_Remove os_Remove_frame tmp_not_hex last_snoc)

lemma caf_wf_fn: "caf_wf d c \<Longrightarrow> butlast (caf_fn c k) = d \<and> caf_fn c k = d @ [hex_encode k]"
  by (simp add: caf_wf_def)

lemma caf_init_keeps:
  "caf_init c w = (e, c', w') \<Longrightarrow> caf_wf d c \<Longrightarrow>
     caf_wf d c' \<and> caf_keeps d w w' \<and> (e = None \<longrightarrow> caf_mw c') \<and> caf_size c' = caf_size c"
  by (auto simp: caf_init_def Let_def caf_wf_fn split: if_splits prod.splits option.splits res.splits
      dest!: keeps_MkdirAll CreateTemp_named dest: keeps_CreateTemp intro: caf_keeps_trans)
    (auto simp: caf_wf_def)

lemma caf_init_pending:
  "caf_init c w = (None, c', w') \<Longrightarrow> caf_wf d c \<Longrightarrow> caf_pending c w = Some x \<Longrightarrow>
     caf_pending c' w' = Some x"
  by (auto simp: caf_init_def Let_def caf_wf_fn caf_pending_def caf_wf_def
      split: if_splits prod.splits option.splits res.splits dest!: os_CreateTemp_Ok)
    (metis length_greater_0_conv)

lemma caf_multi_write_keeps:
  "caf_multi_write c p w = (r, c', w') \<Longrightarrow> caf_wf d c \<Longrightarrow> caf_wf d c' \<and> caf_keeps d w w'"
  by (auto simp: caf_multi_write_def caf_wf_def split: option.splits prod.splits if_splits
      intro: keeps_Write)

lemma caf_wf_size [simp]: "caf_wf d (c\<lparr>caf_size := n\<rparr>) = caf_wf d c"
  by (simp add: caf_wf_def)

lemma caf_writeAlways_keeps:
  assumes "caf_writeAlways c p w = (r, c', w')" and "caf_wf d c"
  shows "caf_wf d c' \<and> caf_keeps d w w'"
proof -
  obtain e c1 w1 where i: "caf_init c w = (e, c1, w1)" by (metis surj_pair)
  note k1 = caf_init_keeps [OF i assms(2)]
  obtain r2 c2 w2 where m: "caf_multi_write c1 p w1 = (r2, c2, w2)" by (metis surj_pair)
  have k2: "caf_wf d c2 \<and> caf_keeps d w1 w2" using caf_multi_write_keeps [OF m] k1 by blast
  show ?thesis
    using assms(1) i m k1 k2
    by (cases e; cases r2) (auto simp: caf_writeAlways_def intro: caf_keeps_trans)
qed

lemma caf_Write_keeps:
  "caf_Write c p w = (r, c', w') \<Longrightarrow> caf_wf d c \<Longrightarrow> caf_wf d c' \<and> caf_keeps d w w'"
  by (auto simp: caf_Write_def split: if_splits dest: caf_writeAlways_keeps)

text \<open>A successful write appends to the pending content.\<close>

lemma caf_writeAlways_pending:
  assumes "caf_writeAlways c p w = ((n, None), c', w')" and "caf_wf d c" and "caf_pending c w = Some x"
  shows "caf_pending c' w' = Some (x @ p) \<and> caf_tf c' \<noteq> None"
proof -
  obtain c1 w1 where i: "caf_init c w = (None, c1, w1)"
    using assms(1) by (auto simp: caf_writeAlways_def split: prod.splits option.splits)
  have wf: "caf_wf d c1" and mw: "caf_mw c1" and pend: "caf_pending c1 w1 = Some x"
    using caf_init_keeps [OF i assms(2)] caf_init_pending [OF i assms(2,3)] by auto
  then obtain h where h: "caf_tf c1 = Some h" by (auto simp: caf_wf_def split: option.splits)
  have op: "fs_get w1 (h_name h) = Some x" "caf_dg c1 = Some x" "caf_size c1 = length x"
    using pend h by (auto simp: caf_pending_def split: if_splits)
  obtain w2 where wr: "os_Write h p w1 = ((length p, None), w2)"
    and c': "c' = c1\<lparr>caf_dg := Some (x @ p), caf_size := length x + length p\<rparr>" and w': "w' = w2"
    using assms(1) i h op
    by (auto simp: caf_writeAlways_def caf_multi_write_def split: prod.splits option.splits if_splits)
  have "\<not> h_closed h" and "fs_get w2 = (fs_get w1)(h_name h \<mapsto> x @ p)"
    using os_Write_Ok [OF wr] op by (auto simp: fs_simps)
  then show ?thesis using h by (simp add: caf_pending_def c' w')
qed

lemma caf_Write_pending:
  "caf_Write c p w = ((n, None), c', w') \<Longrightarrow> caf_wf d c \<Longrightarrow> caf_pending c w = Some x \<Longrightarrow>
     caf_pending c' w' = Some (x @ p)"
  by (auto simp: caf_Write_def split: if_splits dest: caf_writeAlways_pending)

lemma caf_writeAlways_count: "caf_writeAlways c p w = ((n, None), c', w') \<Longrightarrow> n = length p"
  by (auto simp: caf_writeAlways_def caf_multi_write_def split: prod.splits option.splits if_splits)

text \<open>\<open>Commit\<close>: success stores exactly the pending content under its digest, failure stores nothing.\<close>

lemma caf_finish_Ok:
  assumes "caf_finish c w = (Ok k, c', w')" and "caf_wf d c" and "caf_pending c w = Some x" and "caf_tf c \<noteq> None"
  shows "k = sha256 x \<and> dir_holds d w' = (dir_holds d w)(k \<mapsto> x) \<and> caf_wf d c' \<and> (dir_inv d w \<longrightarrow> dir_inv d w')"
proof -
  obtain h where h: "caf_tf c = Some h" using assms(4) by auto
  obtain n where hn: "h_name h = d @ [tmp_name n]" using assms(2) h by (auto simp: caf_wf_def)
  have op: "fs_get w (h_name h) = Some x" "caf_dg c = Some x"
    using assms(3) h by (simp_all add: caf_pending_def split: if_splits)
  obtain h1 w1 w2 w3 where cl: "os_Close h w = (None, h1, w1)" and mk: "os_MkdirAll d w1 = (None, w2)"
    and rn: "os_Rename (h_name h1) (d @ [hex_encode (sha256 x)]) w2 = (None, w3)"
    and k: "k = sha256 x" and w': "w' = w3" and c': "caf_tf c' = None" "\<not> caf_mw c'" "caf_fn c' = caf_fn c"
    using assms(1) h op caf_wf_fn [OF assms(2)]
    by (auto simp: caf_finish_def Let_def split: prod.splits option.splits)
  have n1: "h_name h1 = h_name h" using os_Close_h [OF cl] by simp
  have same: "fs_get w2 = fs_get w" using os_Close_fs [OF cl] os_MkdirAll_fs [OF mk] by simp
  have "fs_get w3 = ((fs_get w)(h_name h := None))(d @ [hex_encode (sha256 x)] \<mapsto> x)"
    using os_Rename_Ok [OF rn] same op n1 by auto
  then have "dir_holds d w' = (dir_holds d w)(k \<mapsto> x)"
    by (auto simp: dir_holds_def fun_eq_iff w' k hn)
  moreover have "dir_inv d w \<longrightarrow> dir_inv d w'"
    using dir_inv_env [OF os_Close_env [OF cl]] dir_inv_MkdirAll [OF mk] dir_inv_env [OF os_Rename_env [OF rn]]
    by (simp add: w')
  ultimately show ?thesis using k c' assms(2) by (simp add: caf_wf_def)
qed

lemma keeps_Rename_Err: "os_Rename p q w = (Some e, w') \<Longrightarrow> caf_keeps d w w'"
  by (rule keeps_frame) (auto intro: os_Rename_env simp: os_Rename_Err)

lemma caf_finish_Err:
  "caf_finish c w = (Err e, c', w') \<Longrightarrow> caf_wf d c \<Longrightarrow> caf_wf d c' \<and> caf_keeps d w w'"
  by (auto simp: caf_finish_def Let_def caf_wf_fn split: prod.splits option.splits
      dest!: keeps_MkdirAll keeps_Rename_Err [of _ _ _ _ _ d] intro: caf_keeps_trans keeps_Close)
    (auto simp: caf_wf_def dest: os_Close_h intro: caf_keeps_trans keeps_Close)

lemma caf_finish_no_Panic: "caf_wf d c \<Longrightarrow> caf_finish c w \<noteq> (Panic m, c', w')"
  by (auto simp: caf_finish_def Let_def caf_wf_def split: prod.splits option.splits)

lemma caf_Commit_Ok:
  assumes "caf_Commit c w = (Ok k, c', w')" and "caf_wf d c" and "caf_pending c w = Some x"
  shows "k = sha256 x \<and> dir_holds d w' = (dir_holds d w)(k \<mapsto> x) \<and> caf_wf d c' \<and> (dir_inv d w \<longrightarrow> dir_inv d w')"
proof (cases "caf_size c = 0")
  case True
  then obtain n c1 w1 where a: "caf_writeAlways c [] w = ((n, None), c1, w1)" and f: "caf_finish c1 w1 = (Ok k, c', w')"
    using assms(1) by (auto simp: caf_Commit_def split: prod.splits option.splits)
  have wf: "caf_wf d c1" and kp: "caf_keeps d w w1" using caf_writeAlways_keeps [OF a assms(2)] by auto
  have pend: "caf_pending c1 w1 = Some x" "caf_tf c1 \<noteq> None"
    using caf_writeAlways_pending [OF a assms(2,3)] by auto
  show ?thesis using caf_finish_Ok [OF f wf pend] kp by (auto simp: caf_keeps_def)
next
  case False
  then have "caf_tf c \<noteq> None" using assms(3) by (auto simp: caf_pending_def split: option.splits)
  with False show ?thesis
    using assms caf_finish_Ok by (simp add: caf_Commit_def)
qed

lemma caf_Commit_Err:
  "caf_Commit c w = (Err e, c', w') \<Longrightarrow> caf_wf d c \<Longrightarrow> caf_wf d c' \<and> caf_keeps d w w'"
  by (auto simp: caf_Commit_def split: prod.splits option.splits if_splits
      dest!: caf_writeAlways_keeps [of _ _ _ _ _ _ d] caf_finish_Err [of _ _ _ _ _ d] intro: caf_keeps_trans)

lemma caf_Commit_no_Panic: "caf_wf d c \<Longrightarrow> caf_Commit c w \<noteq> (Panic m, c', w')"
  by (auto simp: caf_Commit_def caf_finish_no_Panic split: prod.splits option.splits if_splits
      dest!: caf_writeAlways_keeps [of _ _ _ _ _ _ d])

lemma caf_Cleanup_keeps:
  assumes "caf_Cleanup c w = (r, c', w')" and "caf_wf d c"
  shows "caf_wf d c' \<and> caf_keeps d w w' \<and> r = None"
proof (cases "caf_tf c")
  case None
  then show ?thesis using assms by (auto simp: caf_Cleanup_def caf_wf_def)
next
  case (Some h)
  obtain n where n: "h_name h = d @ [tmp_name n]" using assms(2) Some by (auto simp: caf_wf_def)
  obtain e1 h1 w1 where c: "os_Close h w = (e1, h1, w1)" by (metis surj_pair)
  obtain e2 w2 where m: "os_Remove (h_name h1) w1 = (e2, w2)" by (metis surj_pair)
  have "caf_keeps d w1 w2" using m os_Close_h [OF c] n keeps_Remove by simp
  then have "caf_keeps d w w2" using keeps_Close [OF c] caf_keeps_trans by blast
  then show ?thesis using assms Some c m by (auto simp: caf_Cleanup_def caf_wf_def)
qed

end
