(* ===== verification/DirectoryStore.thy ===== *)
theory DirectoryStore
  imports Caf
begin

text \<open>
  \<open>blobstore/directory/directory_store.go\<close>: the store that keeps each blob in a file of one directory,
  named by the hexadecimal form of its digest, and its proof of the \<open>blob_store\<close> contract.
\<close>

record DirectoryStore =
  ds_dir :: path
  ds_writable :: bool

definition NewDirectoryStore :: "path \<Rightarrow> bool \<Rightarrow> DirectoryStore" where
  "NewDirectoryStore d wr = \<lparr>ds_dir = d, ds_writable = wr\<rparr>"

definition ds_resolve :: "DirectoryStore \<Rightarrow> bytes \<Rightarrow> path" where
  "ds_resolve s k = ds_dir s @ [hex_encode k]"

definition ds_Get :: "DirectoryStore \<Rightarrow> bytes \<Rightarrow> os \<Rightarrow> reader res \<times> os" where
  "ds_Get s k w =
     (case os_Open (ds_resolve s k) w of
        (Err e, w1) \<Rightarrow>
          (if err_is e ErrNotExist then (Err (Errorf ''%w %w'' [ErrBlobNotExist, e]), w1) else (Err e, w1))
      | (r, w1) \<Rightarrow> (r, w1))"

definition ds_Exists :: "DirectoryStore \<Rightarrow> bytes \<Rightarrow> os \<Rightarrow> bool res \<times> os" where
  "ds_Exists s k w =
     (case os_Stat (ds_resolve s k) w of
        (Some e, w1) \<Rightarrow>
          (if err_is e ErrNotExist then (Ok False, w1)
           else (Err (wrap ''unexpected error checking for existence'' e), w1))
      | (None, w1) \<Rightarrow> (Ok True, w1))"

definition ds_Put :: "DirectoryStore \<Rightarrow> os \<Rightarrow> caf res \<times> os" where
  "ds_Put s w =
     (if \<not> ds_writable s then (Err (Errorf ''blob store is not writable'' []), w)
      else (Ok (NewContentAddressableFile (ds_resolve s)), w))"

definition ds_Destroy :: "DirectoryStore \<Rightarrow> os \<Rightarrow> err option \<times> os" where
  "ds_Destroy s w =
     (if \<not> ds_writable s
      then (Some (Errorf ''blob store is not writable and therefore cannot be destroyed'' []), w)
      else os_RemoveAll (ds_dir s) w)"

fun remove_entries :: "path \<Rightarrow> (string, bool) gomap \<Rightarrow> string list \<Rightarrow> os \<Rightarrow> err option \<times> os" where
  "remove_entries d keep [] w = (None, w)"
| "remove_entries d keep (e # es) w =
     (if \<not> gm_flag keep e then
        (case os_Remove (d @ [e]) w of
           (Some er, w1) \<Rightarrow> (Some er, w1)
         | (None, w1) \<Rightarrow> remove_entries d keep es w1)
      else remove_entries d keep es w)"

definition ds_RemoveExcept :: "DirectoryStore \<Rightarrow> (string, bool) gomap \<Rightarrow> os \<Rightarrow> err option \<times> os" where
  "ds_RemoveExcept s keep w =
     (if \<not> ds_writable s
      then (Some (Errorf ''blob store is not writable and therefore cannot be modified'' []), w)
      else
        (case os_ReadDir (ds_dir s) w of
           (Err e, w1) \<Rightarrow>
             (if err_is e ErrNotExist then (None, w1)
              else (Some (wrap ''error listing blobs dir'' e), w1))
         | (Ok es, w1) \<Rightarrow> remove_entries (ds_dir s) keep es w1
         | (Panic m, w1) \<Rightarrow> (Some (Errorf m []), w1)))"

definition dir_store :: "DirectoryStore \<Rightarrow> (os, caf) Store" where
  "dir_store s =
     \<lparr>Store_Get = ds_Get s, Store_Exists = ds_Exists s, Store_Put = ds_Put s,
      Store_Destroy = ds_Destroy s, Store_RemoveExcept = ds_RemoveExcept s,
      Blob_Write = caf_Write, Blob_Commit = caf_Commit, Blob_Cleanup = caf_Cleanup\<rparr>"

lemma dir_store_simps [simp]:
  "Store_Get (dir_store s) = ds_Get s" "Store_Exists (dir_store s) = ds_Exists s"
  "Store_Put (dir_store s) = ds_Put s" "Store_RemoveExcept (dir_store s) = ds_RemoveExcept s"
  "Store_Destroy (dir_store s) = ds_Destroy s"
  "Blob_Write (dir_store s) = caf_Write" "Blob_Commit (dir_store s) = caf_Commit"
  "Blob_Cleanup (dir_store s) = caf_Cleanup"
  by (simp_all add: dir_store_def)

section \<open>Reading\<close>

lemma fault_ok_not: "dir_inv d w \<Longrightarrow> FailAt n e \<in> set (faults w) \<Longrightarrow>
    \<not> err_is e ErrNotExist \<and> \<not> err_is e ErrBlobNotExist"
proof -
  assume "dir_inv d w" and "FailAt n e \<in> set (faults w)"
  then have "fault_ok (FailAt n e)" by (auto simp: dir_inv_def list_all_iff)
  then show ?thesis by (cases e) (auto simp: fault_ok_def)
qed

lemma ds_resolve_eq: "ds_resolve s = (\<lambda>k. ds_dir s @ [hex_encode k])"
  by (simp add: ds_resolve_def fun_eq_iff)

lemma ds_Get_keeps: "ds_Get s k w = (r, w') \<Longrightarrow> dir_inv d w \<Longrightarrow> dir_inv d w' \<and> dir_holds d w' = dir_holds d w"
  by (auto simp: ds_Get_def dir_holds_def fun_eq_iff split: prod.splits res.splits if_splits
      dest: os_Open_same os_Open_env [THEN dir_inv_env])

lemma ds_Get_content:
  "ds_Get s k w = (Ok rd, w') \<Longrightarrow> rd_err rd = None \<Longrightarrow> dir_holds (ds_dir s) w k = Some (rd_content rd)"
  by (auto simp: ds_Get_def dir_holds_def ds_resolve_def split: prod.splits res.splits if_splits
      dest: os_Open_Ok)

lemma ds_Get_not_exist:
  "dir_inv d w \<Longrightarrow> ds_Get s k w = (Err e, w') \<Longrightarrow> err_is e ErrBlobNotExist \<Longrightarrow> dir_holds (ds_dir s) w k = None"
  by (auto simp: ds_Get_def dir_holds_def ds_resolve_def split: prod.splits res.splits if_splits
      dest!: os_Open_Err dest: fault_ok_not)

lemma ds_Exists_keeps: "ds_Exists s k w = (r, w') \<Longrightarrow> dir_inv d w \<Longrightarrow> dir_inv d w' \<and> dir_holds d w' = dir_holds d w"
  by (auto simp: ds_Exists_def dir_holds_def fun_eq_iff split: prod.splits option.splits if_splits
      dest: os_Stat_same os_Stat_env [THEN dir_inv_env])

lemma ds_Exists_iff:
  assumes "dir_inv (ds_dir s) w" and "ds_Exists s k w = (Ok x, w')"
  shows "x \<longleftrightarrow> dir_holds (ds_dir s) w k \<noteq> None"
proof -
  have nd: "\<not> dir_exists w (ds_resolve s k)"
    using assms(1) by (auto simp: dir_inv_def dir_exists_def ds_resolve_def)
  show ?thesis
    using assms(2) nd
    by (auto simp: ds_Exists_def dir_holds_def ds_resolve_def [symmetric] split: prod.splits option.splits if_splits
        dest!: os_Stat_Some os_Stat_None dest: fault_ok_not [OF assms(1)])
qed

section \<open>The directory store keeps the contract\<close>

interpretation ds: blob_store_notfound "dir_store s" "dir_holds (ds_dir s)" "dir_inv (ds_dir s)"
    "caf_wf (ds_dir s)" caf_pending for s
proof (unfold_locales, goal_cases)
  case (1 w k r w')
  then show ?case using ds_Get_keeps by simp
next
  case (2 w k rd w')
  then show ?case using ds_Get_content by simp
next
  case (3 k w m w')
  then show ?case
    by (auto simp: ds_Get_def os_Open_not_Panic split: prod.splits res.splits if_splits)
next
  case (4 w k r w')
  then show ?case using ds_Exists_keeps by simp
next
  case (5 w k x w')
  then show ?case using ds_Exists_iff by simp
next
  case (6 k w m w')
  then show ?case by (auto simp: ds_Exists_def split: prod.splits option.splits if_splits)
next
  case (7 w r w')
  then show ?case by (auto simp: ds_Put_def split: if_splits)
next
  case (8 w b w')
  then show ?case
    using caf_wf_new [of "ds_dir s"] by (auto simp: ds_Put_def ds_resolve_eq split: if_splits)
next
  case (9 w m w')
  then show ?case by (auto simp: ds_Put_def)
next
  case (10 w b p r b' w')
  then show ?case using caf_Write_keeps [of b p w r b' w'] by (auto simp: caf_keeps_def)
next
  case (11 w b d p n b' w')
  then show ?case using caf_Write_pending by simp
next
  case (12 w b d k b' w')
  then show ?case using caf_Commit_Ok [of b w k b' w' "ds_dir s" d] by auto
next
  case (13 w b d e b' w')
  then show ?case using caf_Commit_Err [of b w e b' w' "ds_dir s"] by (auto simp: caf_keeps_def)
next
  case (14 b w d m b' w')
  then show ?case using caf_Commit_no_Panic by simp
next
  case (15 w b r b' w')
  then show ?case using caf_Cleanup_keeps [of b w r b' w' "ds_dir s"] by (auto simp: caf_keeps_def)
next
  case (16 w k e w')
  then show ?case using ds_Get_not_exist by simp
qed

section \<open>Removing blobs\<close>

lemma remove_entries_frame:
  "remove_entries d keep es w = (r, w') \<Longrightarrow> (\<And>e. e \<in> set es \<Longrightarrow> \<not> gm_flag keep e \<Longrightarrow> p \<noteq> d @ [e]) \<Longrightarrow>
     fs_get w' p = fs_get w p"
proof (induction es arbitrary: w)
  case (Cons e es)
  show ?case
  proof (cases "gm_flag keep e")
    case True
    then show ?thesis using Cons by simp
  next
    case False
    obtain r1 w1 where rm: "os_Remove (d @ [e]) w = (r1, w1)" by (metis surj_pair)
    have "fs_get w1 p = fs_get w p" using os_Remove_frame [OF rm] Cons.prems(2) [of e] False by simp
    then show ?thesis using Cons False rm by (cases r1) auto
  qed
qed simp

lemma remove_entries_gone:
  "remove_entries d keep es w = (None, w') \<Longrightarrow> e \<in> set es \<Longrightarrow> \<not> gm_flag keep e \<Longrightarrow> fs_get w' (d @ [e]) = None"
proof (induction es arbitrary: w)
  case (Cons x es)
  show ?case
  proof (cases "gm_flag keep x")
    case True
    then show ?thesis using Cons by auto
  next
    case False
    obtain w1 where rm: "os_Remove (d @ [x]) w = (None, w1)" and r: "remove_entries d keep es w1 = (None, w')"
      using Cons.prems(1) False by (auto split: prod.splits option.splits)
    show ?thesis
    proof (cases "e \<in> set es")
      case True
      then show ?thesis using Cons.IH [OF r] Cons.prems(3) by simp
    next
      case False
      then have "x = e" using Cons.prems(2) by simp
      then have "fs_get w1 (d @ [e]) = None" using os_Remove_Ok rm by blast
      moreover have "fs_get w' (d @ [e]) = fs_get w1 (d @ [e])"
        by (rule remove_entries_frame [OF r]) (use False in auto)
      ultimately show ?thesis by simp
    qed
  qed
qed simp

lemma dir_entries_mem: "fs_get w (d @ [e]) \<noteq> None \<Longrightarrow> e \<in> set (dir_entries w d)"
  by (force simp: dir_entries_def fs_get_def image_iff dest: map_of_SomeD)

section \<open>Without faults every step succeeds\<close>

text \<open>
  The contract speaks of operations that returned successfully. Here is when they do: the
  environment injects no fault and no file stands where the directory has to be.
\<close>

definition dir_ready :: "path \<Rightarrow> os \<Rightarrow> bool" where
  "dir_ready d w \<longleftrightarrow> faults w = [] \<and> dir_inv d w \<and> (\<forall>q \<in> set (prefixes_of d). fs_get w q = None)"

lemma prefixes_of_snoc: "q \<in> set (prefixes_of d) \<Longrightarrow> q \<noteq> d @ [x]"
  using prefixes_of_length by fastforce

lemma dir_ready_faults: "env_le w w' \<Longrightarrow> faults w = [] \<Longrightarrow> faults w' = []"
  by (simp add: env_le_def)

lemma ready_MkdirAll:
  assumes "dir_ready d w"
  shows "\<exists>w'. os_MkdirAll d w = (None, w') \<and> dir_ready d w' \<and> dir_exists w' d \<and> fs_get w' = fs_get w"
proof -
  obtain e w' where m: "os_MkdirAll d w = (e, w')" by (metis surj_pair)
  have "e = None" and f: "faults w' = []"
    using assms m by (auto simp: os_MkdirAll_def dir_ready_def list_ex_iff split: if_splits)
  then show ?thesis
    using m assms dir_inv_MkdirAll [OF m] os_MkdirAll_fs [OF m] os_MkdirAll_dir
    by (auto simp: dir_ready_def)
qed

lemma ready_put: "dir_ready d w \<Longrightarrow> dir_ready d (fs_put (d @ [x]) c w)"
  "dir_ready d w \<Longrightarrow> dir_ready d (fs_append (d @ [x]) c w)" "dir_ready d w \<Longrightarrow> dir_ready d (fs_del p w)"
  by (auto simp: dir_ready_def fs_simps dir_inv_def prefixes_of_snoc split: option.splits)

lemma ready_init:
  assumes "caf_wf d c" and "dir_ready d w"
  shows "\<exists>c' w'. caf_init c w = (None, c', w') \<and> dir_ready d w'"
proof (cases "caf_mw c")
  case True
  then show ?thesis using assms by (simp add: caf_init_def)
next
  case False
  obtain w1 where m: "os_MkdirAll d w = (None, w1)" "dir_ready d w1" "dir_exists w1 d"
    using ready_MkdirAll [OF assms(2)] by blast
  obtain n where n: "fresh_tmp w1 d = d @ [tmp_name n]" using fresh_tmp_shape by blast
  have "os_CreateTemp d w1 = (Ok \<lparr>h_name = d @ [tmp_name n], h_closed = False\<rparr>, fs_put (d @ [tmp_name n]) [] w1)"
    using m n by (simp add: os_CreateTemp_def dir_ready_def)
  then show ?thesis
    using False m caf_wf_fn [OF assms(1)] ready_put by (simp add: caf_init_def Let_def)
qed

lemma ready_writeAlways:
  assumes "caf_wf d c" and "caf_pending c w = Some x" and "dir_ready d w"
  shows "\<exists>c' w'. caf_writeAlways c p w = ((length p, None), c', w') \<and> dir_ready d w'"
proof -
  obtain c1 w1 where i: "caf_init c w = (None, c1, w1)" and r1: "dir_ready d w1"
    using ready_init [OF assms(1,3)] by blast
  have wf: "caf_wf d c1" and mw: "caf_mw c1" using caf_init_keeps [OF i assms(1)] by auto
  then obtain h n where h: "caf_tf c1 = Some h" and n: "h_name h = d @ [tmp_name n]"
    by (auto simp: caf_wf_def)
  have op: "\<not> h_closed h"
    using caf_init_pending [OF i assms(1,2)] h by (simp add: caf_pending_def split: if_splits)
  then have "os_Write h p w1 = ((length p, None), fs_append (d @ [tmp_name n]) p w1)"
    using r1 n by (simp add: os_Write_def dir_ready_def)
  then show ?thesis
    using i h ready_put(2) [OF r1] by (simp add: caf_writeAlways_def caf_multi_write_def)
qed

lemma ready_Write:
  assumes "caf_wf d c" and "caf_pending c w = Some x" and "dir_ready d w"
  shows "\<exists>c' w'. caf_Write c p w = ((length p, None), c', w') \<and> dir_ready d w'"
  using ready_writeAlways [OF assms] assms(3) by (simp add: caf_Write_def)

lemma ready_finish:
  assumes "caf_wf d c" and "caf_pending c w = Some x" and "caf_tf c \<noteq> None" and "dir_ready d w"
  shows "\<exists>c' w'. caf_finish c w = (Ok (sha256 x), c', w') \<and> dir_ready d w'"
proof -
  obtain h where h: "caf_tf c = Some h" using assms(3) by auto
  have op: "\<not> h_closed h" "fs_get w (h_name h) = Some x" "caf_dg c = Some x"
    using assms(2) h by (simp_all add: caf_pending_def split: if_splits)
  have cl: "os_Close h w = (None, h\<lparr>h_closed := True\<rparr>, w)"
    using op assms(4) by (simp add: os_Close_def dir_ready_def)
  obtain w2 where mk: "os_MkdirAll d w = (None, w2)" "dir_ready d w2" "dir_exists w2 d" "fs_get w2 = fs_get w"
    using ready_MkdirAll [OF assms(4)] by blast
  have "\<not> dir_exists w2 (d @ [hex_encode (sha256 x)])"
    using mk(2) by (simp add: dir_ready_def dir_inv_def dir_exists_def)
  then have "os_Rename (h_name h) (d @ [hex_encode (sha256 x)]) w2 =
      (None, fs_put (d @ [hex_encode (sha256 x)]) x (fs_del (h_name h) w2))"
    using mk op by (simp add: os_Rename_def dir_ready_def)
  then show ?thesis
    using h cl op mk ready_put caf_wf_fn [OF assms(1)] by (simp add: caf_finish_def Let_def)
qed

lemma ready_Commit:
  assumes "caf_wf d c" and "caf_pending c w = Some x" and "dir_ready d w"
  shows "\<exists>c' w'. caf_Commit c w = (Ok (sha256 x), c', w') \<and> dir_ready d w'"
proof (cases "caf_size c = 0")
  case True
  obtain c1 w1 where a: "caf_writeAlways c [] w = ((0, None), c1, w1)" and r1: "dir_ready d w1"
    using ready_writeAlways [OF assms, of "[]"] by auto
  have "caf_wf d c1" "caf_pending c1 w1 = Some x" "caf_tf c1 \<noteq> None"
    using caf_writeAlways_keeps [OF a assms(1)] caf_writeAlways_pending [OF a assms(1,2)] by auto
  then show ?thesis using ready_finish [OF _ _ _ r1] a True by (simp add: caf_Commit_def)
next
  case False
  then have "caf_tf c \<noteq> None" using assms(2) by (auto simp: caf_pending_def split: option.splits)
  then show ?thesis using ready_finish [OF assms(1,2) _ assms(3)] False by (simp add: caf_Commit_def)
qed

lemma ready_copy:
  assumes "caf_wf d c" and "caf_pending c w = Some x" and "dir_ready d w" and "d = ds_dir s"
  shows "\<exists>c' w'. io_Copy (blob_write (dir_store s)) cs None (c, w) = (None, (c', w')) \<and> dir_ready d w'
    \<and> caf_wf d c' \<and> caf_pending c' w' = Some (x @ concat cs)"
  using assms(1-3)
proof (induction cs arbitrary: c w x)
  case (Cons p cs)
  obtain c1 w1 where wr: "caf_Write c p w = ((length p, None), c1, w1)" and r1: "dir_ready d w1"
    using ready_Write [OF Cons.prems] by blast
  have "caf_wf d c1" "caf_pending c1 w1 = Some (x @ p)"
    using caf_Write_keeps [OF wr Cons.prems(1)] caf_Write_pending [OF wr Cons.prems(1,2)] by auto
  from Cons.IH [OF this r1] show ?case using wr by (simp add: blob_write_def)
qed simp

lemma ready_Get:
  assumes "dir_ready (ds_dir s) w" and "dir_holds (ds_dir s) w k = Some x"
  shows "ds_Get s k w = (Ok (open_reader x Pass Pass), w)"
  using assms os_Open_nofault by (simp add: ds_Get_def dir_ready_def dir_holds_def ds_resolve_def)

text \<open>
  C12. Storing and reading back. In a directory without obstacles and without faults, creating a blob
  in a writable store, copying any sequence of chunks into it and committing succeeds; the key is the
  SHA-256 digest of the whole content, and \<open>Get\<close> on that key returns exactly this content.
\<close>

theorem dir_store_roundtrip:
  assumes "dir_ready (ds_dir s) w" and "ds_writable s"
  shows "\<exists>c0 c1 w1 c2 w2 rd.
    ds_Put s w = (Ok c0, w) \<and>
    io_Copy (blob_write (dir_store s)) cs None (c0, w) = (None, (c1, w1)) \<and>
    caf_Commit c1 w1 = (Ok (sha256 (concat cs)), c2, w2) \<and>
    ds_Get s (sha256 (concat cs)) w2 = (Ok rd, w2) \<and>
    rd_err rd = None \<and> rd_content rd = concat cs"
proof -
  let ?d = "ds_dir s" and ?c0 = "NewContentAddressableFile (ds_resolve s)" and ?k = "sha256 (concat cs)"
  have wf: "caf_wf ?d ?c0" by (simp add: ds_resolve_eq caf_wf_new)
  obtain c1 w1 where cp: "io_Copy (blob_write (dir_store s)) cs None (?c0, w) = (None, (c1, w1))"
    and r1: "dir_ready ?d w1" and wf1: "caf_wf ?d c1" and p1: "caf_pending c1 w1 = Some (concat cs)"
    using ready_copy [OF wf caf_pending_new assms(1) refl, of cs] by auto
  obtain c2 w2 where cm: "caf_Commit c1 w1 = (Ok ?k, c2, w2)" and r2: "dir_ready ?d w2"
    using ready_Commit [OF wf1 p1 r1] by blast
  have "dir_holds ?d w2 ?k = Some (concat cs)" using caf_Commit_Ok [OF cm wf1 p1] by simp
  then have "ds_Get s ?k w2 = (Ok (open_reader (concat cs) Pass Pass), w2)" by (rule ready_Get [OF r2])
  then show ?thesis using cp cm assms(2) by (simp add: ds_Put_def open_reader_def rd_content_def)
qed

definition empty_os :: os where
  "empty_os = \<lparr>files = [], dirs = [], faults = []\<rparr>"

lemma dir_store_roundtrip_witness:
  "\<exists>c0 c1 w1 c2 w2 rd.
    ds_Put (NewDirectoryStore [''blobs''] True) empty_os = (Ok c0, empty_os) \<and>
    io_Copy (blob_write (dir_store (NewDirectoryStore [''blobs''] True))) [''ab'', ''c''] None (c0, empty_os) =
      (None, (c1, w1)) \<and>
    caf_Commit c1 w1 = (Ok (sha256 ''abc''), c2, w2) \<and>
    ds_Get (NewDirectoryStore [''blobs''] True) (sha256 ''abc'') w2 = (Ok rd, w2) \<and>
    rd_err rd = None \<and> rd_content rd = ''abc''"
proof -
  have "dir_ready (ds_dir (NewDirectoryStore [''blobs''] True)) empty_os"
    by (simp add: dir_ready_def dir_inv_def empty_os_def fs_get_def NewDirectoryStore_def)
  from dir_store_roundtrip [OF this, of "[''ab'', ''c'']"]
  show ?thesis by (simp add: NewDirectoryStore_def)
qed

text \<open>
  C28. Garbage collection. \<open>RemoveExcept\<close> on a directory that is there removes, when it succeeds, exactly
  the blobs whose hexadecimal key is not marked in the map; and whatever happens, a marked blob keeps
  its content and no blob gets another content.
\<close>

theorem remove_except_collects:
  assumes "dir_inv (ds_dir s) w" and "dir_exists w (ds_dir s)" and "ds_RemoveExcept s keep w = (r, w')"
  shows "(r = None \<longrightarrow> dir_holds (ds_dir s) w' k =
      (if gm_flag keep (hex_encode k) then dir_holds (ds_dir s) w k else None)) \<and>
    (gm_flag keep (hex_encode k) \<longrightarrow> dir_holds (ds_dir s) w' k = dir_holds (ds_dir s) w k)"
proof (cases "ds_writable s")
  case False
  then show ?thesis using assms(3) by (auto simp: ds_RemoveExcept_def)
next
  case True
  let ?d = "ds_dir s" and ?n = "hex_encode k"
  obtain e w1 where rd: "os_ReadDir ?d w = (e, w1)" by (metis surj_pair)
  have same: "fs_get w1 = fs_get w" using os_ReadDir_same [OF rd] by simp
  show ?thesis
  proof (cases e)
    case (Ok es)
    then have re: "remove_entries ?d keep es w1 = (r, w')"
      using assms(3) True rd by (simp add: ds_RemoveExcept_def)
    have es: "es = dir_entries w1 ?d"
      using rd Ok by (auto simp: os_ReadDir_def split: fault.splits prod.splits if_splits)
    have kept: "fs_get w' (?d @ [?n]) = fs_get w (?d @ [?n])" if "gm_flag keep ?n"
      using remove_entries_frame [OF re, of "?d @ [?n]"] that same by auto
    have gone: "fs_get w' (?d @ [?n]) = None" if r: "r = None" and nk: "\<not> gm_flag keep ?n"
    proof (cases "?n \<in> set es")
      case True
      then show ?thesis using remove_entries_gone [OF re [unfolded r]] nk by blast
    next
      case False
      then have "fs_get w1 (?d @ [?n]) = None" using dir_entries_mem es by blast
      then show ?thesis using remove_entries_frame [OF re, of "?d @ [?n]"] False by auto
    qed
    show ?thesis using kept gone by (auto simp: dir_holds_def)
  next
    case (Err er)
    obtain f w2 where pf: "pop_fault w = (f, w2)" by (metis surj_pair)
    have "dir_exists w2 ?d" using pop_fault_env [OF pf] assms(2) by (simp add: env_le_def dir_exists_def)
    then obtain n where "f = FailAt n er"
      using rd Err pf by (auto simp: os_ReadDir_def split: fault.splits)
    then have "FailAt n er \<in> set (faults w)" using pop_fault_mem [OF pf] by simp
    then have "\<not> err_is er ErrNotExist" using fault_ok_not [OF assms(1)] by blast
    then show ?thesis
      using assms(3) True rd Err same by (auto simp: ds_RemoveExcept_def dir_holds_def)
  next
    case (Panic p)
    then show ?thesis
      using assms(3) True rd same by (auto simp: ds_RemoveExcept_def dir_holds_def)
  qed
qed

lemma remove_except_collects_witness:
  "dir_holds [''blobs''] (snd (ds_RemoveExcept (NewDirectoryStore [''blobs''] True) (Some [(''02'', True)])
      \<lparr>files = [([''blobs'', ''01''], ''x''), ([''blobs'', ''02''], ''y'')], dirs = [[''blobs'']], faults = []\<rparr>)) [CHR 0x01] = None"
proof -
  let ?s = "NewDirectoryStore [''blobs''] True" and ?keep = "Some [(''02'', True)]"
  let ?w = "\<lparr>files = [([''blobs'', ''01''], ''x''), ([''blobs'', ''02''], ''y'')], dirs = [[''blobs'']], faults = []\<rparr>"
  have "dir_inv (ds_dir ?s) ?w" "dir_exists ?w (ds_dir ?s)"
    by (auto simp: dir_inv_def dir_exists_def NewDirectoryStore_def)
  moreover have "fst (ds_RemoveExcept ?s ?keep ?w) = None" by code_simp
  moreover have "ds_RemoveExcept ?s ?keep ?w = (fst (ds_RemoveExcept ?s ?keep ?w), snd (ds_RemoveExcept ?s ?keep ?w))"
    by simp
  ultimately have "dir_holds (ds_dir ?s) (snd (ds_RemoveExcept ?s ?keep ?w)) [CHR 0x01] =
      (if gm_flag ?keep (hex_encode [CHR 0x01]) then dir_holds (ds_dir ?s) ?w [CHR 0x01] else None)"
    using remove_except_collects [of ?s ?w ?keep] by metis
  moreover have "\<not> gm_flag ?keep (hex_encode [CHR 0x01])" by code_simp
  ultimately show ?thesis by (simp add: NewDirectoryStore_def)
qed

end
