(* ===== verification/GoJson.thy ===== *)
theory GoJson
  imports Hex "HOL-Library.Char_ord" "HOL-Library.List_Lexorder"
begin

text \<open>
  The part of \<open>encoding/json\<close> that stores the manifest: \<open>MarshalIndent\<close> with its string escaping, and
  the scanner of \<open>Unmarshal\<close> with its treatment of escapes, of invalid UTF-8 and of nesting depth, over a
  datatype of JSON values. How Go maps and structs correspond to values is in the theory of the
  manifest file.
\<close>

datatype json =
    JNull
  | JBool bool
  | JNum string
  | JStr string
  | JArr "json list"
  | JObj "(string \<times> json) list"

section \<open>UTF-8\<close>

abbreviation chr_nat :: "char \<Rightarrow> nat" where
  "chr_nat c \<equiv> of_char c"

definition is_cont :: "char \<Rightarrow> bool" where
  "is_cont c = (128 \<le> chr_nat c \<and> chr_nat c < 192)"

text \<open>
  \<open>utf8.DecodeRune\<close>: the code point and the number of bytes of the first character of a non-empty
  string; \<open>None\<close> where the bytes are no valid encoding.
\<close>

definition utf8_decode :: "string \<Rightarrow> (nat \<times> nat) option" where
  "utf8_decode s =
     (case s of
        [] \<Rightarrow> None
      | a # r \<Rightarrow>
          (let x = chr_nat a in
           if x < 128 then Some (x, 1)
           else if 194 \<le> x \<and> x < 224 then
             (case r of
                b # _ \<Rightarrow> if is_cont b then Some ((x - 192) * 64 + (chr_nat b - 128), 2) else None
              | [] \<Rightarrow> None)
           else if 224 \<le> x \<and> x < 240 then
             (case r of
                b # c # _ \<Rightarrow>
                  (if is_cont b \<and> is_cont c \<and> (x = 224 \<longrightarrow> 160 \<le> chr_nat b) \<and> (x = 237 \<longrightarrow> chr_nat b < 160)
                   then Some ((x - 224) * 4096 + (chr_nat b - 128) * 64 + (chr_nat c - 128), 3) else None)
              | _ \<Rightarrow> None)
           else if 240 \<le> x \<and> x < 245 then
             (case r of
                b # c # d # _ \<Rightarrow>
                  (if is_cont b \<and> is_cont c \<and> is_cont d \<and> (x = 240 \<longrightarrow> 144 \<le> chr_nat b)
                     \<and> (x = 244 \<longrightarrow> chr_nat b < 144)
                   then Some ((x - 240) * 262144 + (chr_nat b - 128) * 4096 + (chr_nat c - 128) * 64
                     + (chr_nat d - 128), 4) else None)
              | _ \<Rightarrow> None)
           else None))"

text \<open>\<open>utf8.AppendRune\<close>, with U+FFFD for surrogates and out-of-range values.\<close>

definition utf8_encode :: "nat \<Rightarrow> string" where
  "utf8_encode n =
     (if n < 128 then [char_of n]
      else if n < 2048 then [char_of (192 + n div 64), char_of (128 + n mod 64)]
      else if 55296 \<le> n \<and> n < 57344 \<or> 1114111 < n then map char_of [239, 191, 189 :: nat]
      else if n < 65536 then
        [char_of (224 + n div 4096), char_of (128 + n div 64 mod 64), char_of (128 + n mod 64)]
      else
        [char_of (240 + n div 262144), char_of (128 + n div 4096 mod 64), char_of (128 + n div 64 mod 64),
         char_of (128 + n mod 64)])"

definition replacement :: string where
  "replacement = map char_of [239, 191, 189 :: nat]"

lemma utf8_decode_len: "utf8_decode s = Some (n, k) \<Longrightarrow> 0 < k \<and> k \<le> length s"
  by (auto simp: utf8_decode_def Let_def split: list.splits if_splits)

lemma utf8_decode_ascii [simp]: "chr_nat c < 128 \<Longrightarrow> utf8_decode (c # s) = Some (chr_nat c, 1)"
  by (simp add: utf8_decode_def)

section \<open>Writing\<close>

text \<open>The escape of one ASCII character, with the HTML characters escaped as \<open>Marshal\<close> does.\<close>

definition json_escape_char :: "char \<Rightarrow> string" where
  "json_escape_char c =
     (if c = CHR 0x5C \<or> c = CHR 0x22 then [CHR 0x5C, c]
      else if c = CHR 0x08 then [CHR 0x5C, CHR ''b'']
      else if c = CHR 0x0C then [CHR 0x5C, CHR ''f'']
      else if c = CHR 0x0A then [CHR 0x5C, CHR ''n'']
      else if c = CHR 0x0D then [CHR 0x5C, CHR ''r'']
      else if c = CHR 0x09 then [CHR 0x5C, CHR ''t'']
      else if chr_nat c < 32 \<or> c \<in> {CHR ''<'', CHR ''>'', CHR ''&''}
      then [CHR 0x5C, CHR ''u'', CHR ''0'', CHR ''0'', hex_digit (chr_nat c div 16), hex_digit (chr_nat c mod 16)]
      else [c])"

function json_escape :: "string \<Rightarrow> string" where
  "json_escape [] = []"
| "json_escape (c # cs) =
     (if chr_nat c < 128 then json_escape_char c @ json_escape cs
      else
        (case utf8_decode (c # cs) of
           None \<Rightarrow> CHR 0x5C # ''ufffd'' @ json_escape cs
         | Some (n, k) \<Rightarrow>
             (if n = 8232 then CHR 0x5C # ''u2028'' else if n = 8233 then CHR 0x5C # ''u2029''
              else take k (c # cs)) @ json_escape (drop (k - 1) cs)))"
  by pat_completeness auto
termination
  by (relation "measure length") auto

definition json_quote :: "string \<Rightarrow> string" where
  "json_quote s = CHR 0x22 # json_escape s @ [CHR 0x22]"

definition newline :: "nat \<Rightarrow> string" where
  "newline n = CHR 0x0A # replicate (2 * n) (CHR '' '')"

fun sep_concat :: "string \<Rightarrow> string list \<Rightarrow> string" where
  "sep_concat d [] = []"
| "sep_concat d [x] = x"
| "sep_concat d (x # y # xs) = x @ d @ sep_concat d (y # xs)"

text \<open>\<open>MarshalIndent(v, "", "  ")\<close>, at nesting depth \<open>n\<close>.\<close>

fun json_print :: "nat \<Rightarrow> json \<Rightarrow> string" where
  "json_print n JNull = ''null''"
| "json_print n (JBool b) = (if b then ''true'' else ''false'')"
| "json_print n (JNum x) = x"
| "json_print n (JStr s) = json_quote s"
| "json_print n (JArr vs) =
     (if vs = [] then ''[]''
      else ''['' @ newline (Suc n) @ sep_concat (CHR '','' # newline (Suc n)) (map (json_print (Suc n)) vs)
        @ newline n @ '']'')"
| "json_print n (JObj ms) =
     (if ms = [] then ''{}''
      else ''{'' @ newline (Suc n)
        @ sep_concat (CHR '','' # newline (Suc n)) (map (\<lambda>kv. json_quote (fst kv) @ '': '' @ json_print (Suc n) (snd kv)) ms)
        @ newline n @ ''}'')"

section \<open>Reading\<close>

definition is_ws :: "char \<Rightarrow> bool" where
  "is_ws c = (c = CHR '' '' \<or> c = CHR 0x09 \<or> c = CHR 0x0A \<or> c = CHR 0x0D)"

definition skip_ws :: "string \<Rightarrow> string" where
  "skip_ws s = dropWhile is_ws s"

fun hex4 :: "string \<Rightarrow> (nat \<times> string) option" where
  "hex4 (a # b # c # d # r) =
     (case (unhex a, unhex b, unhex c, unhex d) of
        (Some w, Some x, Some y, Some z) \<Rightarrow> Some (((w * 16 + x) * 16 + y) * 16 + z, r)
      | _ \<Rightarrow> None)"
| "hex4 _ = None"

text \<open>
  A \<open>\u\<close> escape, after its four digits: a high surrogate takes a following low surrogate with it,
  any other surrogate becomes U+FFFD.
\<close>

definition u_escape :: "nat \<Rightarrow> string \<Rightarrow> string \<times> string" where
  "u_escape n r =
     (if 55296 \<le> n \<and> n < 56320 then
        (case r of
           b # u # r2 \<Rightarrow>
             (if b = CHR 0x5C \<and> u = CHR ''u'' then
                (case hex4 r2 of
                   Some (m, r3) \<Rightarrow>
                     (if 56320 \<le> m \<and> m < 57344
                      then (utf8_encode (65536 + (n - 55296) * 1024 + (m - 56320)), r3)
                      else (replacement, r))
                 | None \<Rightarrow> (replacement, r))
              else (replacement, r))
         | _ \<Rightarrow> (replacement, r))
      else (utf8_encode n, r))"

text \<open>The characters of a string literal after its opening quote, and the text after the closing one.\<close>

function json_string :: "string \<Rightarrow> (string \<times> string) option" where
  "json_string [] = None"
| "json_string (c # cs) =
     (if c = CHR 0x22 then Some ([], cs)
      else if c = CHR 0x5C then
        (case cs of
           [] \<Rightarrow> None
         | e # r \<Rightarrow>
             (if e = CHR ''u'' then
                (case hex4 r of
                   None \<Rightarrow> None
                 | Some (n, r2) \<Rightarrow>
                     (case u_escape n r2 of
                        (x, r3) \<Rightarrow>
                          (if length r3 < length cs
                           then (case json_string r3 of None \<Rightarrow> None | Some (s, t) \<Rightarrow> Some (x @ s, t))
                           else None)))
              else
                (case (if e = CHR 0x22 \<or> e = CHR 0x5C \<or> e = CHR ''/'' then Some e
                       else if e = CHR ''b'' then Some (CHR 0x08)
                       else if e = CHR ''f'' then Some (CHR 0x0C)
                       else if e = CHR ''n'' then Some (CHR 0x0A)
                       else if e = CHR ''r'' then Some (CHR 0x0D)
                       else if e = CHR ''t'' then Some (CHR 0x09)
                       else None) of
                   None \<Rightarrow> None
                 | Some x \<Rightarrow> (case json_string r of None \<Rightarrow> None | Some (s, t) \<Rightarrow> Some (x # s, t)))))
      else if chr_nat c < 32 then None
      else
        (case utf8_decode (c # cs) of
           None \<Rightarrow> (case json_string cs of None \<Rightarrow> None | Some (s, t) \<Rightarrow> Some (replacement @ s, t))
         | Some (n, k) \<Rightarrow>
             (case json_string (drop (k - 1) cs) of
                None \<Rightarrow> None
              | Some (s, t) \<Rightarrow> Some (take k (c # cs) @ s, t))))"
  by pat_completeness auto
termination
  by (relation "measure length") auto

fun digits_of :: "string \<Rightarrow> string \<times> string" where
  "digits_of s = (takeWhile (\<lambda>c. 48 \<le> chr_nat c \<and> chr_nat c \<le> 57) s, dropWhile (\<lambda>c. 48 \<le> chr_nat c \<and> chr_nat c \<le> 57) s)"

definition json_int :: "string \<Rightarrow> (string \<times> string) option" where
  "json_int s =
     (case s of
        [] \<Rightarrow> None
      | c # cs \<Rightarrow>
          (if c = CHR ''0'' then Some ([c], cs)
           else (case digits_of s of ([], _) \<Rightarrow> None | (d, r) \<Rightarrow> Some (d, r))))"

definition json_frac :: "string \<Rightarrow> (string \<times> string) option" where
  "json_frac s =
     (case s of
        c # cs \<Rightarrow>
          (if c = CHR ''.'' then (case digits_of cs of ([], _) \<Rightarrow> None | (d, r) \<Rightarrow> Some (c # d, r))
           else Some ([], s))
      | [] \<Rightarrow> Some ([], s))"

definition json_exp :: "string \<Rightarrow> (string \<times> string) option" where
  "json_exp s =
     (case s of
        c # cs \<Rightarrow>
          (if c = CHR ''e'' \<or> c = CHR ''E'' then
             (let (sg, r) = (case cs of g # gs \<Rightarrow> if g = CHR ''+'' \<or> g = CHR ''-'' then ([g], gs) else ([], cs) | [] \<Rightarrow> ([], cs))
              in case digits_of r of ([], _) \<Rightarrow> None | (d, r2) \<Rightarrow> Some (c # sg @ d, r2))
           else Some ([], s))
      | [] \<Rightarrow> Some ([], s))"

definition json_number :: "string \<Rightarrow> (json \<times> string) option" where
  "json_number s =
     (let (sg, s1) = (case s of c # cs \<Rightarrow> if c = CHR ''-'' then ([c], cs) else ([], s) | [] \<Rightarrow> ([], s)) in
      case json_int s1 of
        None \<Rightarrow> None
      | Some (a, s2) \<Rightarrow>
          (case json_frac s2 of
             None \<Rightarrow> None
           | Some (b, s3) \<Rightarrow>
               (case json_exp s3 of
                  None \<Rightarrow> None
                | Some (c, s4) \<Rightarrow> Some (JNum (sg @ a @ b @ c), s4))))"

text \<open>
  Values, the rest of an array after \<open>[\<close> or a comma, and the rest of an object. The first argument is
  the nesting depth, of which \<open>Unmarshal\<close> allows 10000. The comparisons of lengths always hold (what
  is left of the text is shorter than the text); they make the recursion terminate by itself.
\<close>

function json_value :: "nat \<Rightarrow> string \<Rightarrow> (json \<times> string) option"
  and json_elems :: "nat \<Rightarrow> string \<Rightarrow> (json list \<times> string) option"
  and json_members :: "nat \<Rightarrow> string \<Rightarrow> ((string \<times> json) list \<times> string) option" where
  "json_value d s =
     (case s of
        [] \<Rightarrow> None
      | c # cs \<Rightarrow>
          (if is_ws c then json_value d cs
           else if c = CHR ''{'' then
             (if 10000 \<le> d then None
              else
                (case skip_ws cs of
                   [] \<Rightarrow> None
                 | e # r \<Rightarrow>
                     (if e = CHR ''}'' then Some (JObj [], r)
                      else (case json_members (Suc d) cs of None \<Rightarrow> None | Some (ms, t) \<Rightarrow> Some (JObj ms, t)))))
           else if c = CHR ''['' then
             (if 10000 \<le> d then None
              else
                (case skip_ws cs of
                   [] \<Rightarrow> None
                 | e # r \<Rightarrow>
                     (if e = CHR '']'' then Some (JArr [], r)
                      else (case json_elems (Suc d) cs of None \<Rightarrow> None | Some (vs, t) \<Rightarrow> Some (JArr vs, t)))))
           else if c = CHR 0x22 then
             (case json_string cs of None \<Rightarrow> None | Some (x, t) \<Rightarrow> Some (JStr x, t))
           else if has_prefix s ''null'' then Some (JNull, drop 4 s)
           else if has_prefix s ''true'' then Some (JBool True, drop 4 s)
           else if has_prefix s ''false'' then Some (JBool False, drop 5 s)
           else json_number s))"
| "json_elems d s =
     (case json_value d s of
        None \<Rightarrow> None
      | Some (v, t) \<Rightarrow>
          (case skip_ws t of
             [] \<Rightarrow> None
           | c # cs \<Rightarrow>
               (if c = CHR '']'' then Some ([v], cs)
                else if c = CHR '','' \<and> length cs < length s
                then (case json_elems d cs of None \<Rightarrow> None | Some (vs, r) \<Rightarrow> Some (v # vs, r))
                else None)))"
| "json_members d s =
     (case skip_ws s of
        [] \<Rightarrow> None
      | q # qs \<Rightarrow>
          (if q \<noteq> CHR 0x22 then None
           else
             (case json_string qs of
                None \<Rightarrow> None
              | Some (k, t) \<Rightarrow>
                  (case skip_ws t of
                     [] \<Rightarrow> None
                   | c # cs \<Rightarrow>
                       (if c \<noteq> CHR '':'' \<or> \<not> length cs < length s then None
                        else
                          (case json_value d cs of
                             None \<Rightarrow> None
                           | Some (v, r) \<Rightarrow>
                               (case skip_ws r of
                                  [] \<Rightarrow> None
                                | e # es \<Rightarrow>
                                    (if e = CHR ''}'' then Some ([(k, v)], es)
                                     else if e = CHR '','' \<and> length es < length s
                                     then (case json_members d es of
                                             None \<Rightarrow> None | Some (ms, x) \<Rightarrow> Some ((k, v) # ms, x))
                                     else None))))))))"
  by pat_completeness auto
termination
  by (relation "measure (\<lambda>x. case x of Inl (d, s) \<Rightarrow> 2 * length s
      | Inr (Inl (d, s)) \<Rightarrow> 2 * length s + 1 | Inr (Inr (d, s)) \<Rightarrow> 2 * length s + 1)") auto

text \<open>\<open>Unmarshal\<close> wants one value and nothing but white space after it.\<close>

definition json_parse :: "string \<Rightarrow> json option" where
  "json_parse s =
     (case json_value 0 s of
        None \<Rightarrow> None
      | Some (v, r) \<Rightarrow> if skip_ws r = [] then Some v else None)"

declare json_value.simps [simp del] json_elems.simps [simp del] json_members.simps [simp del]

section \<open>Names and scalars\<close>

text \<open>
  \<open>Unmarshal\<close> matches the keys of an object with the fields of a struct up to letter case, where the long s
  (U+017F) folds to S and the Kelvin sign (U+212A) to K. A string or a struct is left as it is by \<open>null\<close>.
\<close>

fun fold_name :: "string \<Rightarrow> string" where
  "fold_name [] = []"
| "fold_name (c # cs) =
     (if 97 \<le> chr_nat c \<and> chr_nat c \<le> 122 then char_of (chr_nat c - 32) # fold_name cs
      else if c = CHR 0xC5 \<and> has_prefix cs [CHR 0xBF] then CHR ''S'' # fold_name (tl cs)
      else if c = CHR 0xE2 \<and> has_prefix cs [CHR 0x84, CHR 0xAA] then CHR ''K'' # fold_name (tl (tl cs))
      else c # fold_name cs)"

definition UnmarshalTypeError :: err where
  "UnmarshalTypeError = Errorf ''json: cannot unmarshal'' []"

fun dec_string :: "json \<Rightarrow> string \<Rightarrow> string res" where
  "dec_string (JStr s) old = Ok s"
| "dec_string JNull old = Ok old"
| "dec_string _ old = Err UnmarshalTypeError"

text \<open>\<open>strconv.ParseInt(s, 10, 64)\<close> on the text of a JSON number, as for a field of type \<open>int\<close>.\<close>

definition digits_nat :: "string \<Rightarrow> nat" where
  "digits_nat s = foldl (\<lambda>n c. 10 * n + (chr_nat c - 48)) 0 s"

definition ParseInt64 :: "string \<Rightarrow> int option" where
  "ParseInt64 s =
     (let (sg, d) = (case s of c # cs \<Rightarrow> if c = CHR ''-'' then (- 1, cs) else (1, s) | [] \<Rightarrow> (1, []));
          n = sg * int (digits_nat d)
      in if d \<noteq> [] \<and> list_all (\<lambda>c. 48 \<le> chr_nat c \<and> chr_nat c \<le> 57) d \<and> - (2 ^ 63) \<le> n \<and> n < 2 ^ 63 then Some n else None)"

fun dec_int :: "json \<Rightarrow> int \<Rightarrow> int res" where
  "dec_int (JNum s) old = (case ParseInt64 s of Some n \<Rightarrow> Ok n | None \<Rightarrow> Err UnmarshalTypeError)"
| "dec_int JNull old = Ok old"
| "dec_int _ old = Err UnmarshalTypeError"

section \<open>What is written is read back\<close>

text \<open>
  A string comes back with each invalid byte replaced by U+FFFD; a valid one, such as any of ASCII bytes, comes back
  as it was.
\<close>

function utf8_coerce :: "string \<Rightarrow> string" where
  "utf8_coerce [] = []"
| "utf8_coerce (c # cs) =
     (case utf8_decode (c # cs) of
        None \<Rightarrow> replacement @ utf8_coerce cs
      | Some (n, k) \<Rightarrow> take k (c # cs) @ utf8_coerce (drop (k - 1) cs))"
  by pat_completeness auto
termination
  by (relation "measure length") auto

definition utf8_valid :: "string \<Rightarrow> bool" where
  "utf8_valid s \<longleftrightarrow> utf8_coerce s = s"

definition ascii :: "string \<Rightarrow> bool" where
  "ascii s \<longleftrightarrow> list_all (\<lambda>c. chr_nat c < 128) s"

lemma ascii_simps [simp]: "ascii []" "ascii (c # s) \<longleftrightarrow> chr_nat c < 128 \<and> ascii s"
  by (simp_all add: ascii_def)

lemma ascii_coerce: "ascii s \<Longrightarrow> utf8_coerce s = s"
  by (induction s) auto

lemma ascii_valid: "ascii s \<Longrightarrow> utf8_valid s"
  by (simp add: utf8_valid_def ascii_coerce)

text \<open>
  The values that the manifest consists of: \<open>null\<close>, strings and objects nested less deep than the scanner's limit.
\<close>

fun plain_json :: "nat \<Rightarrow> json \<Rightarrow> bool" where
  "plain_json d JNull = True"
| "plain_json d (JStr s) = True"
| "plain_json d (JObj ms) = (d < 10000 \<and> list_all (\<lambda>kv. plain_json (Suc d) (snd kv)) ms)"
| "plain_json d _ = False"

fun json_coerce :: "json \<Rightarrow> json" where
  "json_coerce (JStr s) = JStr (utf8_coerce s)"
| "json_coerce (JObj ms) = JObj (map (\<lambda>kv. (utf8_coerce (fst kv), json_coerce (snd kv))) ms)"
| "json_coerce v = v"

lemma chr_of_nat_eq: "c = d \<longleftrightarrow> chr_nat c = chr_nat d"
  by (simp add: of_char_eq_iff)

lemma json_string_char:
  assumes "chr_nat c < 128"
  shows "json_string (json_escape_char c @ r) =
    (case json_string r of None \<Rightarrow> None | Some (s, t) \<Rightarrow> Some (c # s, t))"
proof (cases "chr_nat c < 32 \<or> c \<in> {CHR ''<'', CHR ''>'', CHR ''&''}")
  case True
  have "chr_nat c div 16 < 16" and "chr_nat c mod 16 < 16" by auto
  then have "hex4 (CHR ''0'' # CHR ''0'' # hex_digit (chr_nat c div 16) # hex_digit (chr_nat c mod 16) # r)
      = Some (chr_nat c, r)"
    by (simp add: unhex_digit) (simp add: unhex_def Let_def)
  moreover have "u_escape (chr_nat c) r = ([c], r)"
    using assms by (simp add: u_escape_def utf8_encode_def)
  ultimately show ?thesis
    using True by (auto simp: json_escape_char_def split: option.splits)
next
  case False
  then show ?thesis
    using assms by (auto simp: json_escape_char_def split: option.splits)
qed

text \<open>What decodes to a character decodes alone, and the two characters that are escaped have one encoding.\<close>

lemma utf8_decode_1: "chr_nat a < 128 \<Longrightarrow> utf8_decode (a # r) = Some (chr_nat a, 1)"
  by simp

lemma utf8_decode_2:
  assumes "194 \<le> chr_nat a" and "chr_nat a < 224"
  shows "utf8_decode (a # r) = (case r of [] \<Rightarrow> None
    | b # _ \<Rightarrow> if is_cont b then Some ((chr_nat a - 192) * 64 + (chr_nat b - 128), 2) else None)"
  using assms unfolding utf8_decode_def Let_def by (simp del: of_char_eq_iff split: list.split)

lemma utf8_decode_3:
  assumes "224 \<le> chr_nat a" and "chr_nat a < 240"
  shows "utf8_decode (a # r) = (case r of b # c # _ \<Rightarrow>
      (if is_cont b \<and> is_cont c \<and> (chr_nat a = 224 \<longrightarrow> 160 \<le> chr_nat b) \<and> (chr_nat a = 237 \<longrightarrow> chr_nat b < 160)
       then Some ((chr_nat a - 224) * 4096 + (chr_nat b - 128) * 64 + (chr_nat c - 128), 3) else None) | _ \<Rightarrow> None)"
  using assms unfolding utf8_decode_def Let_def by (simp del: of_char_eq_iff split: list.split)

lemma utf8_decode_4:
  assumes "240 \<le> chr_nat a" and "chr_nat a < 245"
  shows "utf8_decode (a # r) = (case r of b # c # d # _ \<Rightarrow>
      (if is_cont b \<and> is_cont c \<and> is_cont d \<and> (chr_nat a = 240 \<longrightarrow> 144 \<le> chr_nat b) \<and> (chr_nat a = 244 \<longrightarrow> chr_nat b < 144)
       then Some ((chr_nat a - 240) * 262144 + (chr_nat b - 128) * 4096 + (chr_nat c - 128) * 64 + (chr_nat d - 128), 4) else None)
      | _ \<Rightarrow> None)"
  using assms unfolding utf8_decode_def Let_def by (simp del: of_char_eq_iff split: list.split)

lemma utf8_decode_none: "128 \<le> chr_nat a \<and> chr_nat a < 194 \<or> 245 \<le> chr_nat a \<Longrightarrow> utf8_decode (a # r) = None"
  by (auto simp: utf8_decode_def Let_def)

lemma utf8_decode_lead:
  assumes "utf8_decode (a # r) = Some x"
  obtains "chr_nat a < 128" | "194 \<le> chr_nat a" "chr_nat a < 224" | "224 \<le> chr_nat a" "chr_nat a < 240"
    | "240 \<le> chr_nat a" "chr_nat a < 245"
proof -
  have "\<not> (128 \<le> chr_nat a \<and> chr_nat a < 194 \<or> 245 \<le> chr_nat a)" using assms utf8_decode_none [of a r] by auto
  then show thesis using that by linarith
qed

lemma utf8_decode_take:
  assumes "utf8_decode s = Some (n, k)"
  shows "utf8_decode (take k s @ r) = Some (n, k)"
proof -
  obtain a s' where s: "s = a # s'" using assms by (cases s) (auto simp: utf8_decode_def)
  from assms [unfolded s] show ?thesis
  proof (cases rule: utf8_decode_lead)
    case 2
    then show ?thesis using assms unfolding s by (auto simp: utf8_decode_2 split: list.splits if_splits)
  next
    case 3
    then show ?thesis using assms unfolding s by (auto simp: utf8_decode_3 split: list.splits if_splits)
  next
    case 4
    then show ?thesis using assms unfolding s by (auto simp: utf8_decode_4 split: list.splits if_splits)
  qed (use assms s in auto)
qed

lemma utf8_decode_separator:
  assumes "utf8_decode s = Some (n, k)" and "n = 8232 \<or> n = 8233"
  shows "utf8_encode n = take k s"
proof -
  obtain a s' where s: "s = a # s'" using assms by (cases s) (auto simp: utf8_decode_def)
  from assms(1) [unfolded s] show ?thesis
  proof (cases rule: utf8_decode_lead)
    case 2
    then have "n < 2048" using assms(1) unfolding s by (auto simp: utf8_decode_2 is_cont_def split: list.splits if_splits)
    then show ?thesis using assms(2) by linarith
  next
    case 3
    have "length s' \<ge> 2" using 3 assms(1) unfolding s by (auto simp: utf8_decode_3 split: list.splits)
    then obtain b c s2 where s': "s' = b # c # s2" by (auto simp: neq_Nil_conv Suc_le_length_iff numeral_2_eq_2)
    have n: "n = (chr_nat a - 224) * 4096 + (chr_nat b - 128) * 64 + (chr_nat c - 128)" "k = 3" and bc: "is_cont b" "is_cont c"
      using 3 assms(1) unfolding s s' by (simp_all add: utf8_decode_3 split: if_splits)
    obtain x y z where x: "chr_nat a = 224 + x" and y: "chr_nat b = 128 + y" and z: "chr_nat c = 128 + z"
      using 3(1) bc unfolding is_cont_def by (metis le_Suc_ex)
    have n': "n = x * 4096 + y * 64 + z" and l: "y < 64" "z < 64" using n(1) bc x y z by (simp_all add: is_cont_def)
    have "x \<le> 1 \<or> x = 2 \<or> 3 \<le> x" by linarith
    then have x2: "x = 2" using n' l assms(2) by auto
    have "y = 0 \<or> 1 \<le> y" by linarith
    then have "y = 0" using n' x2 assms(2) by auto
    then have "chr_nat a = 226 \<and> chr_nat b = 128 \<and> chr_nat c = 168 + (n - 8232)"
      using n' x2 assms(2) x y z by auto
    then have "a = char_of (226 :: nat) \<and> b = char_of (128 :: nat) \<and> c = char_of (168 + (n - 8232))"
      by (metis char_of_char)
    then show ?thesis using assms(2) by (auto simp: s s' n(2) utf8_encode_def)
  next
    case 4
    have "length s' \<ge> 3" using 4 assms(1) unfolding s by (auto simp: utf8_decode_4 split: list.splits)
    then obtain b c d s2 where s': "s' = b # c # d # s2" by (auto simp: neq_Nil_conv Suc_le_length_iff numeral_3_eq_3)
    have n: "n = (chr_nat a - 240) * 262144 + (chr_nat b - 128) * 4096 + (chr_nat c - 128) * 64 + (chr_nat d - 128)"
      and b: "is_cont b" "chr_nat a = 240 \<longrightarrow> 144 \<le> chr_nat b"
      using 4 assms(1) unfolding s s' by (simp_all add: utf8_decode_4 split: if_splits)
    have "chr_nat a = 240 \<or> 1 \<le> chr_nat a - 240" using 4 by linarith
    then have "65536 \<le> n" using n b(2) by auto
    then show ?thesis using assms(2) by linarith
  qed (use assms s in auto)
qed

lemma json_string_raw:
  assumes "utf8_decode (c # cs) = Some (n, k)" and "\<not> chr_nat c < 128"
  shows "json_string (take k (c # cs) @ r) = (case json_string r of None \<Rightarrow> None | Some (s, t) \<Rightarrow> Some (take k (c # cs) @ s, t))"
proof -
  have k: "0 < k" "k \<le> Suc (length cs)" using utf8_decode_len [OF assms(1)] by auto
  then obtain j where j: "k = Suc j" "j \<le> length cs" by (cases k) auto
  then have e: "take k (c # cs) @ r = c # take j cs @ r" by simp
  have d: "utf8_decode (c # take j cs @ r) = Some (n, k)" using utf8_decode_take [OF assms(1), of r] unfolding e .
  have "c \<noteq> CHR 0x22" "c \<noteq> CHR 0x5C" "\<not> chr_nat c < 32" using assms(2) by auto
  then show ?thesis
    unfolding e using j by (simp add: d split: option.split)
qed

lemma json_string_u:
  assumes "hex4 x = Some (n, r)" and "n < 55296 \<or> 57343 < n" and "length r < length x"
  shows "json_string (CHR 0x5C # CHR ''u'' # x) = (case json_string r of None \<Rightarrow> None | Some (s, t) \<Rightarrow> Some (utf8_encode n @ s, t))"
  using assms by (auto simp: u_escape_def split: option.split)

lemma json_string_escape: "json_string (json_escape s @ CHR 0x22 # t) = Some (utf8_coerce s, t)"
proof (induction s rule: json_escape.induct)
  case (2 c cs)
  show ?case
  proof (cases "chr_nat c < 128")
    case True
    then show ?thesis using "2.IH"(1) by (simp add: json_string_char)
  next
    case c: False
    show ?thesis
    proof (cases "utf8_decode (c # cs)")
      case None
      have "hex4 (''fffd'' @ x) = Some (65533, x)" for x by (simp add: unhex_def)
      from json_string_u [OF this] show ?thesis
        using "2.IH"(2) [OF c None] c None by (simp add: utf8_encode_def replacement_def)
    next
      case (Some nk)
      obtain n k where nk: "nk = (n, k)" by fastforce
      have IH: "json_string (json_escape (drop (k - 1) cs) @ CHR 0x22 # t) = Some (utf8_coerce (drop (k - 1) cs), t)"
        by (rule "2.IH"(3) [OF c Some]) (simp add: nk)
      note d = Some [unfolded nk]
      have u: "hex4 (''2028'' @ x) = Some (8232, x)" "hex4 (''2029'' @ x) = Some (8233, x)" for x by (simp_all add: unhex_def)
      consider "n = 8232" | "n = 8233" | "n \<noteq> 8232" "n \<noteq> 8233" by blast
      then show ?thesis
      proof cases
        case 1
        then show ?thesis using json_string_u [OF u(1)] utf8_decode_separator [OF d] IH c d by simp
      next
        case 2
        then show ?thesis using json_string_u [OF u(2)] utf8_decode_separator [OF d] IH c d by simp
      next
        case 3
        then show ?thesis using json_string_raw [OF d c] IH c d by simp
      qed
    qed
  qed
qed simp

lemma skip_ws_newline [simp]: "skip_ws (newline n @ s) = skip_ws s"
proof -
  have "dropWhile is_ws (replicate m (CHR '' '') @ s) = dropWhile is_ws s" for m
    by (induction m) (auto simp: is_ws_def)
  then show ?thesis by (simp add: skip_ws_def newline_def is_ws_def)
qed

lemma skip_ws_Cons: "skip_ws (c # s) = (if is_ws c then skip_ws s else c # s)"
  by (simp add: skip_ws_def)

lemma json_value_ws: "is_ws c \<Longrightarrow> json_value d (c # s) = json_value d s"
  by (subst json_value.simps) simp

lemma json_value_obj:
  assumes "json_members (Suc d) s = Some (ms, t)" and "skip_ws s = e # r" and "e \<noteq> CHR ''}''" and "d < 10000"
  shows "json_value d (CHR ''{'' # s) = Some (JObj ms, t)"
  using assms by (subst json_value.simps) (simp add: is_ws_def)

definition json_member :: "nat \<Rightarrow> string \<times> json \<Rightarrow> string" where
  "json_member n kv = json_quote (fst kv) @ '': '' @ json_print n (snd kv)"

lemma skip_ws_quote: "skip_ws (json_quote k @ s) = CHR 0x22 # json_escape k @ CHR 0x22 # s"
  by (simp add: json_quote_def skip_ws_def is_ws_def)

lemma skip_ws_member:
  "skip_ws (newline m @ json_member n (k, v) @ r)
    = CHR 0x22 # json_escape k @ CHR 0x22 # CHR '':'' # CHR '' '' # json_print n v @ r"
  by (simp add: json_member_def skip_ws_quote)

lemma length_member [simp]:
  "length (json_member n (k, v)) = length (json_escape k) + length (json_print n v) + 4"
  by (simp add: json_member_def json_quote_def)

text \<open>One member, followed by the end of the object or by a comma and the remaining members.\<close>

lemma json_members_step:
  assumes v: "\<And>t. json_value d (json_print n v @ t) = Some (v', t)"
    and s: "skip_ws s = CHR 0x22 # json_escape k @ CHR 0x22 # CHR '':'' # CHR '' '' # json_print n v @ r"
    and e: "skip_ws r = e # es" and l: "length (json_print n v @ r) + 1 < length s" and le: "length es < length s"
  shows "json_members d s =
    (if e = CHR ''}'' then Some ([(utf8_coerce k, v')], es)
     else if e = CHR '','' then (case json_members d es of None \<Rightarrow> None | Some (ms, x) \<Rightarrow> Some ((utf8_coerce k, v') # ms, x))
     else None)"
proof -
  have 1: "json_value d (CHR '' '' # json_print n v @ r) = Some (v', r)"
    using v by (simp add: json_value_ws is_ws_def)
  have 2: "json_string (json_escape k @ CHR 0x22 # CHR '':'' # CHR '' '' # json_print n v @ r)
      = Some (utf8_coerce k, CHR '':'' # CHR '' '' # json_print n v @ r)"
    by (rule json_string_escape)
  have 3: "skip_ws (CHR '':'' # CHR '' '' # json_print n v @ r) = CHR '':'' # CHR '' '' # json_print n v @ r"
    by (simp add: skip_ws_Cons is_ws_def)
  show ?thesis
    using l le by (subst json_members.simps) (simp add: s 1 2 3 e)
qed

lemma json_members_last:
  assumes "\<And>t. json_value d (json_print n v @ t) = Some (v', t)"
  shows "json_members d (newline m @ json_member n (k, v) @ newline m' @ CHR ''}'' # t) = Some ([(utf8_coerce k, v')], t)"
  by (subst json_members_step [OF assms skip_ws_member, where e = "CHR ''}''" and es = t]) (simp_all add: skip_ws_Cons is_ws_def)

lemma json_members_more:
  assumes "\<And>t. json_value d (json_print n v @ t) = Some (v', t)" and "json_members d s = Some (ms, t)"
  shows "json_members d (newline m @ json_member n (k, v) @ CHR '','' # s) = Some ((utf8_coerce k, v') # ms, t)"
  by (subst json_members_step [OF assms(1) skip_ws_member, where e = "CHR '',''" and es = s])
    (simp_all add: skip_ws_Cons is_ws_def assms(2))

lemma json_members_print:
  assumes "ms \<noteq> []" and "\<And>k v t. (k, v) \<in> set ms \<Longrightarrow> json_value d (json_print n v @ t) = Some (json_coerce v, t)"
  shows "json_members d (newline m @ sep_concat (CHR '','' # newline m) (map (json_member n) ms) @ newline m' @ CHR ''}'' # t)
    = Some (map (\<lambda>kv. (utf8_coerce (fst kv), json_coerce (snd kv))) ms, t)"
  using assms
proof (induction ms)
  case Nil
  then show ?case by simp
next
  case step: (Cons kv ms)
  obtain k v where kv: "kv = (k, v)" by (metis surj_pair)
  have v: "\<And>t. json_value d (json_print n v @ t) = Some (json_coerce v, t)"
    using step.prems(2) [of k v] kv by auto
  show ?case
  proof (cases "ms = []")
    case True
    then show ?thesis using json_members_last [OF v] kv by simp
  next
    case False
    have "json_members d (newline m @ sep_concat (CHR '','' # newline m) (map (json_member n) ms) @ newline m' @ CHR ''}'' # t)
        = Some (map (\<lambda>kv. (utf8_coerce (fst kv), json_coerce (snd kv))) ms, t)"
      by (rule step.IH [OF False]) (erule step.prems(2) [OF list.set_intros(2)])
    from json_members_more [OF v this] show ?thesis using kv False by (cases ms) simp_all
  qed
qed

lemma json_value_print: "plain_json d v \<Longrightarrow> json_value d (json_print n v @ t) = Some (json_coerce v, t)"
proof (induction v arbitrary: d n t)
  case JNull
  then show ?case by (subst json_value.simps) (simp add: is_ws_def)
next
  case (JStr s)
  then show ?case
    by (subst json_value.simps) (simp add: is_ws_def json_quote_def json_string_escape)
next
  case (JObj ms)
  then have d: "d < 10000" by simp
  show ?case
  proof (cases "ms = []")
    case True
    then show ?thesis using d by (subst json_value.simps) (simp add: is_ws_def skip_ws_def)
  next
    case False
    let ?body = "newline (Suc n) @ sep_concat (CHR '','' # newline (Suc n)) (map (json_member (Suc n)) ms)
      @ newline n @ CHR ''}'' # t"
    have "json_value (Suc d) (json_print (Suc n) v @ t) = Some (json_coerce v, t)" if "(k, v) \<in> set ms" for k v t
      using JObj that by (fastforce simp: list_all_iff)
    from json_members_print [OF False this]
    have m: "json_members (Suc d) ?body = Some (map (\<lambda>kv. (utf8_coerce (fst kv), json_coerce (snd kv))) ms, t)" .
    obtain k v ms2 where "ms = (k, v) # ms2" using False by (metis list.exhaust surj_pair)
    then obtain r where "skip_ws ?body = CHR 0x22 # r"
      by (cases ms2) (auto simp: json_member_def skip_ws_quote)
    then have "json_value d (CHR ''{'' # ?body) = Some (json_coerce (JObj ms), t)"
      using json_value_obj [OF m] d by auto
    moreover have "json_print n (JObj ms) @ t = CHR ''{'' # ?body"
      using False by (simp add: json_member_def [abs_def])
    ultimately show ?thesis by simp
  qed
qed simp_all

lemma json_parse_print: "plain_json 0 v \<Longrightarrow> json_parse (json_print 0 v) = Some (json_coerce v)"
  using json_value_print [of 0 v 0 "[]"] by (simp add: json_parse_def skip_ws_def)

end
