(* ===== verification/Url.thy ===== *)
theory Url
  imports Hex
begin

text \<open>
  Go's \<open>net/url\<close>: the \<open>URL\<close> struct, its \<open>String\<close> and \<open>Redacted\<close> methods with the escaping rules of
  each component, and \<open>Parse\<close>. The manifest is keyed by redacted URL strings, and every command that
  walks the manifest parses its keys back.
\<close>

datatype enc = EncPath | EncHost | EncZone | EncUserPassword | EncQueryComponent | EncFragment

record url =
  Scheme :: string
  Opaque :: string
  User :: "(string \<times> string option) option"
  Host :: string
  Path :: string
  RawPath :: string
  OmitHost :: bool
  ForceQuery :: bool
  RawQuery :: string
  Fragment :: string
  RawFragment :: string

definition url_zero :: url where
  "url_zero = \<lparr>Scheme = [], Opaque = [], User = None, Host = [], Path = [], RawPath = [],
     OmitHost = False, ForceQuery = False, RawQuery = [], Fragment = [], RawFragment = []\<rparr>"

section \<open>Escaping\<close>

definition is_alnum :: "char \<Rightarrow> bool" where
  "is_alnum c = (let n = of_char c :: nat in 48 \<le> n \<and> n \<le> 57 \<or> 65 \<le> n \<and> n \<le> 90 \<or> 97 \<le> n \<and> n \<le> 122)"

definition should_escape :: "char \<Rightarrow> enc \<Rightarrow> bool" where
  "should_escape c mode =
     (if is_alnum c then False
      else if (mode = EncHost \<or> mode = EncZone) \<and> c \<in> set ''!$&'' \<union> {CHR 0x27} \<union> set ''()*+,;=:[]<>'' \<union> {CHR 0x22} then False
      else if c \<in> set ''-_.~'' then False
      else if c \<in> set ''$&+,/:;=?@'' \<and> mode = EncPath then c = CHR ''?''
      else if c \<in> set ''$&+,/:;=?@'' \<and> mode = EncUserPassword then c \<in> set ''@/?:''
      else if c \<in> set ''$&+,/:;=?@'' \<and> mode = EncQueryComponent then True
      else if c \<in> set ''$&+,/:;=?@'' \<and> mode = EncFragment then False
      else if mode = EncFragment \<and> c \<in> set ''!()*'' then False
      else True)"

definition hex_upper :: "nat \<Rightarrow> char" where
  "hex_upper n = char_of (if n < 10 then 48 + n else 55 + n)"

fun url_escape :: "enc \<Rightarrow> string \<Rightarrow> string" where
  "url_escape mode [] = []"
| "url_escape mode (c # cs) =
     (if c = CHR '' '' \<and> mode = EncQueryComponent then [CHR ''+'']
      else if should_escape c mode
      then [CHR ''%'', hex_upper (of_char c div 16), hex_upper (of_char c mod 16)]
      else [c]) @ url_escape mode cs"

definition EscapeError :: err where
  "EscapeError = Errorf ''invalid URL escape'' []"

definition InvalidHostError :: err where
  "InvalidHostError = Errorf ''invalid character in host name'' []"

fun url_unescape :: "enc \<Rightarrow> string \<Rightarrow> string res" where
  "url_unescape mode [] = Ok []"
| "url_unescape mode (c # cs) =
     (if c = CHR ''%'' then
        (case cs of
           a # b # r \<Rightarrow>
             (case (unhex a, unhex b) of
                (Some x, Some y) \<Rightarrow>
                  (if mode = EncHost \<and> x < 8 \<and> \<not> (a = CHR ''2'' \<and> b = CHR ''5'') then Err EscapeError
                   else if mode = EncZone \<and> \<not> (a = CHR ''2'' \<and> b = CHR ''5'')
                     \<and> char_of (16 * x + y) \<noteq> CHR '' '' \<and> should_escape (char_of (16 * x + y)) EncHost
                   then Err EscapeError
                   else (case url_unescape mode r of
                           Ok s \<Rightarrow> Ok (char_of (16 * x + y) # s) | e \<Rightarrow> e))
              | _ \<Rightarrow> Err EscapeError)
         | _ \<Rightarrow> Err EscapeError)
      else if c = CHR ''+'' \<and> mode = EncQueryComponent then
        (case url_unescape mode cs of Ok s \<Rightarrow> Ok (CHR '' '' # s) | e \<Rightarrow> e)
      else if (mode = EncHost \<or> mode = EncZone) \<and> (of_char c :: nat) < 128 \<and> should_escape c mode
      then Err InvalidHostError
      else (case url_unescape mode cs of Ok s \<Rightarrow> Ok (c # s) | e \<Rightarrow> e))"

definition valid_encoded :: "string \<Rightarrow> enc \<Rightarrow> bool" where
  "valid_encoded s mode =
     list_all (\<lambda>c. c \<in> set ''!$&'' \<union> {CHR 0x27} \<union> set ''()*+,;=:@[]%'' \<or> \<not> should_escape c mode) s"

definition EscapedPath :: "url \<Rightarrow> string" where
  "EscapedPath u =
     (if RawPath u \<noteq> [] \<and> valid_encoded (RawPath u) EncPath \<and> url_unescape EncPath (RawPath u) = Ok (Path u)
      then RawPath u
      else if Path u = ''*'' then ''*''
      else url_escape EncPath (Path u))"

definition EscapedFragment :: "url \<Rightarrow> string" where
  "EscapedFragment u =
     (if RawFragment u \<noteq> [] \<and> valid_encoded (RawFragment u) EncFragment
        \<and> url_unescape EncFragment (RawFragment u) = Ok (Fragment u)
      then RawFragment u
      else url_escape EncFragment (Fragment u))"

section \<open>String and Redacted\<close>

fun userinfo_String :: "string \<times> string option \<Rightarrow> string" where
  "userinfo_String (name, None) = url_escape EncUserPassword name"
| "userinfo_String (name, Some pw) = url_escape EncUserPassword name @ '':'' @ url_escape EncUserPassword pw"

fun str_before :: "char \<Rightarrow> string \<Rightarrow> string" where
  "str_before d s = takeWhile (\<lambda>c. c \<noteq> d) s"

definition url_String :: "url \<Rightarrow> string" where
  "url_String u =
     (let sch = (if Scheme u \<noteq> [] then Scheme u @ '':'' else []);
          auth =
            (if (Scheme u \<noteq> [] \<or> Host u \<noteq> [] \<or> User u \<noteq> None)
                \<and> \<not> (OmitHost u \<and> Host u = [] \<and> User u = None)
             then
               (if Host u \<noteq> [] \<or> Path u \<noteq> [] \<or> User u \<noteq> None then ''//'' else [])
               @ (case User u of None \<Rightarrow> [] | Some ui \<Rightarrow> userinfo_String ui @ ''@'')
               @ url_escape EncHost (Host u)
             else []);
          p = EscapedPath u;
          slash = (if p \<noteq> [] \<and> hd p \<noteq> CHR ''/'' \<and> Host u \<noteq> [] then ''/'' else []);
          dot = (if sch @ auth @ slash = [] \<and> CHR '':'' \<in> set (str_before (CHR ''/'') p) then ''./'' else [])
      in (if Opaque u \<noteq> [] then sch @ Opaque u else sch @ auth @ slash @ dot @ p)
         @ (if ForceQuery u \<or> RawQuery u \<noteq> [] then ''?'' @ RawQuery u else [])
         @ (if Fragment u \<noteq> [] then ''#'' @ EscapedFragment u else []))"

definition url_Redacted :: "url \<Rightarrow> string" where
  "url_Redacted u =
     url_String (case User u of Some (name, Some pw) \<Rightarrow> u\<lparr>User := Some (name, Some ''xxxxx'')\<rparr> | _ \<Rightarrow> u)"

section \<open>Parse\<close>

text \<open>\<open>strings.Cut\<close> and the last occurrence of a character.\<close>

fun str_cut :: "char \<Rightarrow> string \<Rightarrow> string \<times> string option" where
  "str_cut d [] = ([], None)"
| "str_cut d (c # cs) =
     (if c = d then ([], Some cs) else (case str_cut d cs of (a, b) \<Rightarrow> (c # a, b)))"

definition str_cut_last :: "char \<Rightarrow> string \<Rightarrow> (string \<times> string) option" where
  "str_cut_last d s =
     (case str_cut d (rev s) of (a, None) \<Rightarrow> None | (a, Some b) \<Rightarrow> Some (rev b, rev a))"

definition is_letter :: "char \<Rightarrow> bool" where
  "is_letter c = (let n = of_char c :: nat in 65 \<le> n \<and> n \<le> 90 \<or> 97 \<le> n \<and> n \<le> 122)"

definition is_digit :: "char \<Rightarrow> bool" where
  "is_digit c = (let n = of_char c :: nat in 48 \<le> n \<and> n \<le> 57)"

text \<open>\<open>getScheme\<close>: \<open>None\<close> is the error for a leading colon.\<close>

fun scheme_loop :: "bool \<Rightarrow> string \<Rightarrow> string \<Rightarrow> string \<Rightarrow> (string \<times> string) option" where
  "scheme_loop first raw acc [] = Some ([], raw)"
| "scheme_loop first raw acc (c # cs) =
     (if is_letter c then scheme_loop False raw (acc @ [c]) cs
      else if is_digit c \<or> c \<in> set ''+-.'' then
        (if first then Some ([], raw) else scheme_loop False raw (acc @ [c]) cs)
      else if c = CHR '':'' then (if first then None else Some (acc, cs))
      else Some ([], raw))"

definition getScheme :: "string \<Rightarrow> (string \<times> string) option" where
  "getScheme raw = scheme_loop True raw [] raw"

definition to_lower :: "char \<Rightarrow> char" where
  "to_lower c = (if 65 \<le> (of_char c :: nat) \<and> (of_char c :: nat) \<le> 90 then char_of (of_char c + 32 :: nat) else c)"

definition validOptionalPort :: "string \<Rightarrow> bool" where
  "validOptionalPort p = (case p of [] \<Rightarrow> True | c # cs \<Rightarrow> c = CHR '':'' \<and> list_all is_digit cs)"

definition validUserinfo :: "string \<Rightarrow> bool" where
  "validUserinfo s = list_all (\<lambda>c. is_alnum c \<or> c \<in> set ''-._:~!$&'' \<union> {CHR 0x27} \<union> set ''()*+,;=%@'') s"

text \<open>The text from the first occurrence of \<open>%25\<close> on, with what precedes it.\<close>

fun cut_zone :: "string \<Rightarrow> (string \<times> string) option" where
  "cut_zone [] = None"
| "cut_zone (c # cs) =
     (if has_prefix (c # cs) ''%25'' then Some ([], c # cs)
      else (case cut_zone cs of None \<Rightarrow> None | Some (a, b) \<Rightarrow> Some (c # a, b)))"

definition ErrUrl :: err where
  "ErrUrl = Errorf ''invalid URL'' []"

fun res_append :: "string res \<Rightarrow> string res \<Rightarrow> string res" where
  "res_append (Ok a) (Ok b) = Ok (a @ b)"
| "res_append (Ok a) r = r"
| "res_append r _ = r"

definition parseHost :: "string \<Rightarrow> string res" where
  "parseHost h =
     (if has_prefix h ''['' then
        (case str_cut_last (CHR '']'') h of
           None \<Rightarrow> Err ErrUrl
         | Some (lit, port) \<Rightarrow>
             (if \<not> validOptionalPort port then Err ErrUrl
              else
                (case cut_zone lit of
                   None \<Rightarrow> url_unescape EncHost h
                 | Some (a, z) \<Rightarrow>
                     res_append (url_unescape EncHost a)
                       (res_append (url_unescape EncZone z) (url_unescape EncHost ('']'' @ port))))))
      else
        (case str_cut_last (CHR '':'') h of
           None \<Rightarrow> url_unescape EncHost h
         | Some (_, port) \<Rightarrow>
             (if \<not> validOptionalPort ('':'' @ port) then Err ErrUrl else url_unescape EncHost h)))"

definition parseAuthority :: "string \<Rightarrow> ((string \<times> string option) option \<times> string) res" where
  "parseAuthority a =
     (case str_cut_last (CHR ''@'') a of
        None \<Rightarrow> (case parseHost a of Ok h \<Rightarrow> Ok (None, h) | Err e \<Rightarrow> Err e | Panic p \<Rightarrow> Panic p)
      | Some (ui, host) \<Rightarrow>
          (case parseHost host of
             Ok h \<Rightarrow>
               (if \<not> validUserinfo ui then Err ErrUrl
                else
                  (case str_cut (CHR '':'') ui of
                     (name, None) \<Rightarrow>
                       (case url_unescape EncUserPassword name of
                          Ok n \<Rightarrow> Ok (Some (n, None), h) | Err e \<Rightarrow> Err e | Panic p \<Rightarrow> Panic p)
                   | (name, Some pw) \<Rightarrow>
                       (case url_unescape EncUserPassword name of
                          Ok n \<Rightarrow>
                            (case url_unescape EncUserPassword pw of
                               Ok q \<Rightarrow> Ok (Some (n, Some q), h) | Err e \<Rightarrow> Err e | Panic p \<Rightarrow> Panic p)
                        | Err e \<Rightarrow> Err e | Panic p \<Rightarrow> Panic p)))
           | Err e \<Rightarrow> Err e | Panic p \<Rightarrow> Panic p))"

definition setPath :: "string \<Rightarrow> url \<Rightarrow> url res" where
  "setPath p u =
     (case url_unescape EncPath p of
        Ok q \<Rightarrow> Ok (u\<lparr>Path := q, RawPath := (if p = url_escape EncPath q then [] else p)\<rparr>)
      | Err e \<Rightarrow> Err e | Panic m \<Rightarrow> Panic m)"

definition setFragment :: "string \<Rightarrow> url \<Rightarrow> url res" where
  "setFragment f u =
     (case url_unescape EncFragment f of
        Ok q \<Rightarrow> Ok (u\<lparr>Fragment := q, RawFragment := (if f = url_escape EncFragment q then [] else f)\<rparr>)
      | Err e \<Rightarrow> Err e | Panic m \<Rightarrow> Panic m)"

definition is_ctl :: "char \<Rightarrow> bool" where
  "is_ctl c = ((of_char c :: nat) < 32 \<or> (of_char c :: nat) = 127)"

text \<open>The query: a lone final question mark sets \<open>ForceQuery\<close>.\<close>

definition cut_query :: "string \<Rightarrow> string \<times> bool \<times> string" where
  "cut_query s =
     (case str_cut (CHR ''?'') s of
        (a, None) \<Rightarrow> (a, False, [])
      | (a, Some []) \<Rightarrow> (a, True, [])
      | (a, Some q) \<Rightarrow> (a, False, q))"

definition parse_rest :: "string \<Rightarrow> url \<Rightarrow> url res" where
  "parse_rest rest u =
     (if \<not> has_prefix rest ''/'' \<and> Scheme u \<noteq> [] then Ok (u\<lparr>Opaque := rest\<rparr>)
      else if \<not> has_prefix rest ''/'' \<and> CHR '':'' \<in> set (str_before (CHR ''/'') rest) then Err ErrUrl
      else if (Scheme u \<noteq> [] \<or> \<not> has_prefix rest ''///'') \<and> has_prefix rest ''//'' then
        (let auth = str_before (CHR ''/'') (drop 2 rest); path = drop (length auth) (drop 2 rest) in
         case parseAuthority auth of
           Ok (ui, h) \<Rightarrow> setPath path (u\<lparr>User := ui, Host := h\<rparr>)
         | Err e \<Rightarrow> Err e | Panic p \<Rightarrow> Panic p)
      else setPath rest (u\<lparr>OmitHost := (Scheme u \<noteq> [] \<and> has_prefix rest ''/'')\<rparr>))"

definition url_parse_nofrag :: "string \<Rightarrow> url res" where
  "url_parse_nofrag raw =
     (if list_ex is_ctl raw then Err ErrUrl
      else if raw = ''*'' then Ok (url_zero\<lparr>Path := ''*''\<rparr>)
      else
        (case getScheme raw of
           None \<Rightarrow> Err ErrUrl
         | Some (sch, rest0) \<Rightarrow>
             (case cut_query rest0 of
                (rest, fq, q) \<Rightarrow>
                  parse_rest rest (url_zero\<lparr>Scheme := map to_lower sch, ForceQuery := fq, RawQuery := q\<rparr>))))"

definition url_Parse :: "string \<Rightarrow> url res" where
  "url_Parse raw =
     (case str_cut (CHR ''#'') raw of
        (a, frag) \<Rightarrow>
          (case url_parse_nofrag a of
             Ok u \<Rightarrow>
               (case frag of None \<Rightarrow> Ok u | Some [] \<Rightarrow> Ok u | Some f \<Rightarrow> setFragment f u)
           | e \<Rightarrow> e))"

section \<open>A URL is read back from its string\<close>

text \<open>
  The URLs that the program builds from requests: a scheme that is \<open>http\<close> or \<open>https\<close>, a host of
  letters, digits and \<open>-._~\<close> with an optional port, an absolute path of any bytes, and a query without
  control characters and without \<open>#\<close>.
\<close>

definition host_char :: "char \<Rightarrow> bool" where
  "host_char c = (is_alnum c \<or> c \<in> set ''-._~'')"

definition host_ok :: "string \<Rightarrow> bool" where
  "host_ok h \<longleftrightarrow> (\<exists>n p. h = n @ p \<and> n \<noteq> [] \<and> list_all host_char n \<and> (p = [] \<or> (\<exists>ds. p = CHR '':'' # ds \<and> list_all is_digit ds)))"

definition query_ok :: "string \<Rightarrow> bool" where
  "query_ok q \<longleftrightarrow> list_all (\<lambda>c. \<not> is_ctl c \<and> c \<noteq> CHR ''#'') q"

definition url_plain :: "url \<Rightarrow> bool" where
  "url_plain u \<longleftrightarrow> (Scheme u = ''http'' \<or> Scheme u = ''https'') \<and> host_ok (Host u) \<and> has_prefix (Path u) ''/'' \<and> query_ok (RawQuery u) \<and>
     Opaque u = [] \<and> User u = None \<and> RawPath u = [] \<and> \<not> OmitHost u \<and> \<not> ForceQuery u \<and> Fragment u = [] \<and> RawFragment u = []"

lemma str_cut_append: "d \<notin> set a \<Longrightarrow> str_cut d (a @ d # b) = (a, Some b)"
  by (induction a) auto

lemma str_cut_none: "d \<notin> set a \<Longrightarrow> str_cut d a = (a, None)"
  by (induction a) auto

lemma str_cut_last_append: "d \<notin> set b \<Longrightarrow> str_cut_last d (a @ d # b) = Some (a, b)"
  by (simp add: str_cut_last_def str_cut_append)

lemma str_cut_last_none: "d \<notin> set a \<Longrightarrow> str_cut_last d a = None"
  by (simp add: str_cut_last_def str_cut_none)

lemma alnum_facts: "is_alnum c \<Longrightarrow> c \<notin> set ''%/?#@:[]'' \<and> \<not> is_ctl c"
proof -
  assume c: "is_alnum c"
  have "list_all (\<lambda>x. \<not> is_alnum x) ''%/?#@:[]''" by code_simp
  then have "c \<notin> set ''%/?#@:[]''" using c unfolding list_all_iff by blast
  moreover have "\<not> is_ctl c" using c by (auto simp: is_alnum_def is_ctl_def Let_def)
  ultimately show ?thesis by blast
qed

lemma ctl_special: "is_ctl c \<Longrightarrow> c \<notin> set ''-._~$&+,/:;=?@%''"
proof -
  have "list_all (\<lambda>x. \<not> is_ctl x) ''-._~$&+,/:;=?@%''" by code_simp
  then show "is_ctl c \<Longrightarrow> c \<notin> set ''-._~$&+,/:;=?@%''" unfolding list_all_iff by blast
qed

lemma host_char_facts:
  "host_char c \<Longrightarrow> c \<notin> set ''%/?#@:[]'' \<and> \<not> is_ctl c \<and> \<not> should_escape c EncHost"
proof (cases "is_alnum c")
  case True
  then show ?thesis using alnum_facts by (simp add: should_escape_def del: set_simps)
next
  case False
  assume "host_char c"
  then have c: "c \<in> set ''-._~''" using False by (simp add: host_char_def)
  have "list_all (\<lambda>c. c \<notin> set ''%/?#@:[]'' \<and> \<not> is_ctl c \<and> \<not> should_escape c EncHost) ''-._~''" by code_simp
  then show ?thesis using c unfolding list_all_iff by blast
qed

lemma digit_host_char: "is_digit c \<Longrightarrow> host_char c"
  by (auto simp: is_digit_def host_char_def is_alnum_def Let_def)

lemmas digit_facts = host_char_facts [OF digit_host_char]

lemma colon_host: "\<not> is_ctl (CHR '':'')" "\<not> should_escape (CHR '':'') EncHost"
  by (simp_all add: is_ctl_def should_escape_def is_alnum_def)

lemma host_ok_facts:
  assumes "host_ok h"
  shows "list_all (\<lambda>c. c \<notin> set ''%/?#@[]'' \<and> \<not> is_ctl c \<and> \<not> should_escape c EncHost) h"
proof -
  have "host_char c \<or> c = CHR '':''" if "c \<in> set h" for c
    using assms that digit_host_char by (auto simp: host_ok_def list_all_iff)
  then show ?thesis
    using host_char_facts colon_host by (auto simp: list_all_iff)
qed

lemma unescape_host: "list_all (\<lambda>c. c \<noteq> CHR ''%'' \<and> \<not> should_escape c EncHost) h \<Longrightarrow> url_unescape EncHost h = Ok h"
  by (induction h) auto

lemma escape_host: "list_all (\<lambda>c. \<not> should_escape c EncHost) h \<Longrightarrow> url_escape EncHost h = h"
  by (induction h) auto

lemma parseHost_ok: "host_ok h \<Longrightarrow> parseHost h = Ok h"
proof -
  assume h: "host_ok h"
  then obtain n p where np: "h = n @ p" "n \<noteq> []" "list_all host_char n" "p = [] \<or> (\<exists>ds. p = CHR '':'' # ds \<and> list_all is_digit ds)"
    by (auto simp: host_ok_def)
  have u: "url_unescape EncHost h = Ok h"
    using host_ok_facts [OF h] by (intro unescape_host) (auto simp: list_all_iff)
  have br: "\<not> has_prefix h ''[''"
    using np(1-3) host_char_facts by (cases n) auto
  have nc: "CHR '':'' \<notin> set n" using np(3) host_char_facts by (auto simp: list_all_iff)
  show ?thesis
  proof (cases "p = []")
    case True
    then show ?thesis using np u br nc by (simp add: parseHost_def str_cut_last_none)
  next
    case False
    then obtain ds where ds: "p = CHR '':'' # ds" "list_all is_digit ds" using np(4) by blast
    then have "CHR '':'' \<notin> set ds" using digit_facts by (auto simp: list_all_iff)
    then have "str_cut_last (CHR '':'') h = Some (n, ds)" using np(1) ds(1) by (simp add: str_cut_last_append)
    then show ?thesis using u br ds(2) by (simp add: parseHost_def validOptionalPort_def)
  qed
qed

lemma parseAuthority_ok: "host_ok h \<Longrightarrow> parseAuthority h = Ok (None, h)"
proof -
  assume h: "host_ok h"
  then have "CHR ''@'' \<notin> set h" using host_ok_facts [OF h] by (auto simp: list_all_iff)
  then show ?thesis using parseHost_ok [OF h] by (simp add: parseAuthority_def str_cut_last_none)
qed

text \<open>Escaping and unescaping of a path.\<close>

lemma unhex_upper: "n < 16 \<Longrightarrow> unhex (hex_upper n) = Some n"
  by (auto simp: unhex_def hex_upper_def Let_def)

lemma unescape_escape_path: "url_unescape EncPath (url_escape EncPath p) = Ok p"
proof (induction p)
  case (Cons c p)
  have lt: "(of_char c :: nat) < 256" by simp
  have "(of_char c :: nat) div 16 < 16" "(of_char c :: nat) mod 16 < 16" using lt by auto
  then have hx: "unhex (hex_upper (of_char c div 16)) = Some (of_char c div 16)"
      "unhex (hex_upper (of_char c mod 16)) = Some (of_char c mod 16)" by (simp_all add: unhex_upper)
  have "(16 :: nat) * (of_char c div 16) + of_char c mod 16 = of_char c" by simp
  then have bk: "char_of ((16 :: nat) * (of_char c div 16) + of_char c mod 16) = c" by (simp only: char_of_char)
  have "should_escape (CHR ''%'') EncPath" by code_simp
  then have pc: "\<not> should_escape c EncPath \<Longrightarrow> c \<noteq> CHR ''%''" by blast
  show ?case
    using Cons hx bk pc by (cases "should_escape c EncPath") simp_all
qed simp

lemma hex_upper_plain: "n < 16 \<Longrightarrow> is_alnum (hex_upper n)"
  by (auto simp: hex_upper_def is_alnum_def Let_def)

lemma unescaped_path_facts: "\<not> should_escape c EncPath \<Longrightarrow> c \<noteq> CHR ''?'' \<and> c \<noteq> CHR ''#'' \<and> \<not> is_ctl c"
proof (cases "is_alnum c")
  case True
  then show ?thesis using alnum_facts [OF True] by simp
next
  case False
  assume e: "\<not> should_escape c EncPath"
  have "list_all (\<lambda>c. should_escape c EncPath) ''?#''" by code_simp
  moreover have "\<not> is_ctl c"
  proof
    assume "is_ctl c"
    from ctl_special [OF this] False have "should_escape c EncPath" by (simp add: should_escape_def)
    then show False using e by blast
  qed
  ultimately show ?thesis using e by auto
qed

lemma escape_path_facts: "list_all (\<lambda>c. c \<noteq> CHR ''?'' \<and> c \<noteq> CHR ''#'' \<and> \<not> is_ctl c) (url_escape EncPath p)"
proof (induction p)
  case (Cons c p)
  have "(of_char c :: nat) div 16 < 16" "(of_char c :: nat) mod 16 < 16" by auto
  then have h: "is_alnum (hex_upper (of_char c div 16))" "is_alnum (hex_upper (of_char c mod 16))"
    by (simp_all add: hex_upper_plain)
  have "\<not> is_ctl (CHR ''%'')" by (simp add: is_ctl_def)
  then show ?case
    using Cons alnum_facts [OF h(1)] alnum_facts [OF h(2)] unescaped_path_facts [of c] by simp
qed simp

lemma escape_path_head: "has_prefix p ''/'' \<Longrightarrow> \<exists>q. url_escape EncPath p = CHR ''/'' # q"
  by (cases p) (auto simp: should_escape_def is_alnum_def)

lemma plain_String:
  assumes "url_plain u"
  shows "url_String u = Scheme u @ ''://'' @ Host u @ url_escape EncPath (Path u) @ (if RawQuery u \<noteq> [] then CHR ''?'' # RawQuery u else [])"
    and "url_Redacted u = url_String u"
proof -
  have h: "host_ok (Host u)" and p: "has_prefix (Path u) ''/''" and sc: "Scheme u = ''http'' \<or> Scheme u = ''https''"
    and fields: "Opaque u = []" "User u = None" "RawPath u = []" "\<not> OmitHost u" "\<not> ForceQuery u" "Fragment u = []"
    using assms by (auto simp: url_plain_def)
  have eh: "url_escape EncHost (Host u) = Host u"
    using host_ok_facts [OF h] by (intro escape_host) (auto simp: list_all_iff)
  obtain q where q: "url_escape EncPath (Path u) = CHR ''/'' # q" using escape_path_head [OF p] by blast
  have "Path u \<noteq> ''*''" using p by auto
  then have ep: "EscapedPath u = url_escape EncPath (Path u)" using fields by (simp add: EscapedPath_def)
  have "Host u \<noteq> []" using h by (auto simp: host_ok_def)
  then show "url_String u = Scheme u @ ''://'' @ Host u @ url_escape EncPath (Path u) @ (if RawQuery u \<noteq> [] then CHR ''?'' # RawQuery u else [])"
    using fields eh q ep sc by (auto simp: url_String_def Let_def)
  show "url_Redacted u = url_String u" using fields by (simp add: url_Redacted_def)
qed

lemma plain_roundtrip: "url_plain u \<Longrightarrow> url_Parse (url_Redacted u) = Ok u"
proof -
  assume a: "url_plain u"
  have h: "host_ok (Host u)" and p: "has_prefix (Path u) ''/''" and qo: "query_ok (RawQuery u)"
    and sc: "Scheme u = ''http'' \<or> Scheme u = ''https''"
    using a by (auto simp: url_plain_def)
  let ?ep = "url_escape EncPath (Path u)"
  obtain q where q: "?ep = CHR ''/'' # q" using escape_path_head [OF p] by blast
  let ?rest = "''//'' @ Host u @ ?ep"
  let ?qs = "if RawQuery u \<noteq> [] then CHR ''?'' # RawQuery u else []"
  let ?raw = "Scheme u @ CHR '':'' # ?rest @ ?qs"
  have s: "url_Redacted u = ?raw" using plain_String [OF a] by simp
  have hf: "CHR ''#'' \<notin> set (Host u)" "CHR ''?'' \<notin> set (Host u)" "CHR ''/'' \<notin> set (Host u)" "\<not> list_ex is_ctl (Host u)"
    using host_ok_facts [OF h] by (auto simp: list_all_iff list_ex_iff)
  have pf: "CHR ''#'' \<notin> set ?ep" "CHR ''?'' \<notin> set ?ep" "\<not> list_ex is_ctl ?ep"
    using escape_path_facts [of "Path u"] by (auto simp: list_all_iff list_ex_iff)
  have "\<not> is_ctl (CHR ''?'')" by (simp add: is_ctl_def)
  then have qf: "CHR ''#'' \<notin> set ?qs" "\<not> list_ex is_ctl ?qs"
    using qo by (auto simp: query_ok_def list_all_iff list_ex_iff)
  have scf: "CHR ''#'' \<notin> set (Scheme u)" "\<not> list_ex is_ctl (Scheme u)" "\<not> list_ex is_ctl ''://''"
    "getScheme ?raw = Some (Scheme u, ?rest @ ?qs)" "map to_lower (Scheme u) = Scheme u" "?raw \<noteq> ''*''" "Scheme u \<noteq> []"
    using sc by (auto simp: is_ctl_def getScheme_def is_letter_def is_digit_def to_lower_def)
  have "CHR ''#'' \<notin> set ?raw" using hf(1) pf(1) qf(1) scf(1) by simp
  then have c: "str_cut (CHR ''#'') ?raw = (?raw, None)" by (rule str_cut_none)
  have ctl: "\<not> list_ex is_ctl ?raw" using hf(4) pf(3) qf(2) scf(2,3) by (simp add: list_ex_append)
  have nq: "CHR ''?'' \<notin> set ?rest" using hf(2) pf(2) by simp
  have cq: "cut_query (?rest @ ?qs) = (?rest, False, RawQuery u)"
  proof (cases "RawQuery u")
    case Nil
    then show ?thesis using str_cut_none [OF nq] by (simp add: cut_query_def)
  next
    case (Cons x xs)
    then have "str_cut (CHR ''?'') (?rest @ ?qs) = (?rest, Some (RawQuery u))" using str_cut_append [OF nq] by simp
    then show ?thesis using Cons unfolding cut_query_def by simp
  qed
  have sb: "str_before (CHR ''/'') (Host u @ ?ep) = Host u"
  proof -
    have "takeWhile (\<lambda>c. c \<noteq> CHR ''/'') (h @ CHR ''/'' # q) = h" if "CHR ''/'' \<notin> set h" for h
      using that by (induction h) auto
    then show ?thesis using hf(3) q by simp
  qed
  let ?u0 = "url_zero\<lparr>Scheme := Scheme u, ForceQuery := False, RawQuery := RawQuery u\<rparr>"
  have "parse_rest ?rest ?u0 = setPath ?ep (?u0\<lparr>User := None, Host := Host u\<rparr>)"
    using sb parseAuthority_ok [OF h] scf(7) by (simp add: parse_rest_def Let_def)
  also have "\<dots> = Ok (?u0\<lparr>User := None, Host := Host u, Path := Path u, RawPath := []\<rparr>)"
    by (simp add: setPath_def unescape_escape_path)
  also have "?u0\<lparr>User := None, Host := Host u, Path := Path u, RawPath := []\<rparr> = u"
    by (rule url.equality) (use a in \<open>simp_all add: url_zero_def url_plain_def\<close>)
  finally have "parse_rest ?rest ?u0 = Ok u" .
  then show ?thesis
    using s c ctl scf cq by (simp add: url_Parse_def url_parse_nofrag_def)
qed

end
