(* ===== verification/Regexp.thy ===== *)
theory Regexp
  imports Prelude
begin

text \<open>
  Go's \<open>regexp\<close>: the syntax trees of the expressions that the program uses, a backtracking matcher
  whose results come in the priority order of Go's leftmost-first semantics (the earlier alternative
  and the longer repetition first) with the captured groups, and the denotation of a tree as a set of
  position pairs, to which the matcher is equivalent. \<open>regexp.Compile\<close>, which reads an expression that
  the user gives on the command line, is a parameter \<open>compile :: string \<Rightarrow> rx res\<close> of the definitions that
  call it.
\<close>

datatype rx =
    Eps
  | Chr char
  | AnyChar
  | NotIn "char list"
  | Seq rx rx
  | Alt rx rx
  | Star rx
  | Group nat rx
  | BeginText
  | EndText

definition rx_plus :: "rx \<Rightarrow> rx" where
  "rx_plus r = Seq r (Star r)"

definition rx_opt :: "rx \<Rightarrow> rx" where
  "rx_opt r = Alt r Eps"

fun rx_str :: "string \<Rightarrow> rx" where
  "rx_str [] = Eps"
| "rx_str (c # cs) = Seq (Chr c) (rx_str cs)"

type_synonym captures = "(nat \<times> string) list"

text \<open>
  \<open>rx_match t r i cs\<close>: the end positions of the matches of \<open>r\<close> in the text \<open>t\<close> from position \<open>i\<close>,
  in priority order. A repetition only continues after an iteration that consumed something.
\<close>

function rx_match :: "string \<Rightarrow> rx \<Rightarrow> nat \<Rightarrow> captures \<Rightarrow> (nat \<times> captures) list" where
  "rx_match t Eps i cs = [(i, cs)]"
| "rx_match t (Chr c) i cs = (if i < length t \<and> t ! i = c then [(Suc i, cs)] else [])"
| "rx_match t AnyChar i cs = (if i < length t \<and> t ! i \<noteq> CHR 0x0A then [(Suc i, cs)] else [])"
| "rx_match t (NotIn ds) i cs = (if i < length t \<and> t ! i \<notin> set ds then [(Suc i, cs)] else [])"
| "rx_match t (Seq a b) i cs = concat (map (\<lambda>jc. rx_match t b (fst jc) (snd jc)) (rx_match t a i cs))"
| "rx_match t (Alt a b) i cs = rx_match t a i cs @ rx_match t b i cs"
| "rx_match t (Star a) i cs =
     concat (map (\<lambda>jc. if i < fst jc \<and> fst jc \<le> length t then rx_match t (Star a) (fst jc) (snd jc) else [])
       (rx_match t a i cs)) @ [(i, cs)]"
| "rx_match t (Group n a) i cs =
     map (\<lambda>jc. (fst jc, (n, take (fst jc - i) (drop i t)) # snd jc)) (rx_match t a i cs)"
| "rx_match t BeginText i cs = (if i = 0 then [(i, cs)] else [])"
| "rx_match t EndText i cs = (if i = length t then [(i, cs)] else [])"
  by pat_completeness auto
termination
  by (relation "measures [\<lambda>(t, r, i, cs). size r, \<lambda>(t, r, i, cs). length t - i]") auto

lemmas rx_match_Star = rx_match.simps(7)

declare rx_match_Star [simp del]

text \<open>\<open>(*Regexp).MatchString\<close>: a match starting anywhere in the text.\<close>

definition MatchString :: "rx \<Rightarrow> string \<Rightarrow> bool" where
  "MatchString r t = list_ex (\<lambda>i. rx_match t r i [] \<noteq> []) [0..<Suc (length t)]"

text \<open>
  \<open>(*Regexp).FindStringSubmatch\<close> of an expression with \<open>n\<close> groups: the whole match and the groups
  of the leftmost, highest-priority match; a group that took no part is the empty string.
\<close>

definition FindStringSubmatch :: "nat \<Rightarrow> rx \<Rightarrow> string \<Rightarrow> string list option" where
  "FindStringSubmatch n r t =
     (case List.find (\<lambda>i. rx_match t r i [] \<noteq> []) [0..<Suc (length t)] of
        None \<Rightarrow> None
      | Some i \<Rightarrow>
          (let (j, cs) = hd (rx_match t r i []) in
           Some (take (j - i) (drop i t)
             # map (\<lambda>g. case map_of cs g of None \<Rightarrow> [] | Some s \<Rightarrow> s) [1..<Suc n])))"

section \<open>The denotation of an expression\<close>

primrec rx_rel :: "string \<Rightarrow> rx \<Rightarrow> (nat \<times> nat) set" where
  "rx_rel t Eps = {(i, i) | i. i \<le> length t}"
| "rx_rel t (Chr c) = {(i, Suc i) | i. i < length t \<and> t ! i = c}"
| "rx_rel t AnyChar = {(i, Suc i) | i. i < length t \<and> t ! i \<noteq> CHR 0x0A}"
| "rx_rel t (NotIn ds) = {(i, Suc i) | i. i < length t \<and> t ! i \<notin> set ds}"
| "rx_rel t (Seq a b) = rx_rel t a O rx_rel t b"
| "rx_rel t (Alt a b) = rx_rel t a \<union> rx_rel t b"
| "rx_rel t (Star a) = {(i, j). i \<le> length t \<and> (i, j) \<in> (rx_rel t a)\<^sup>*}"
| "rx_rel t (Group n a) = rx_rel t a"
| "rx_rel t BeginText = {(0, 0)}"
| "rx_rel t EndText = {(length t, length t)}"

lemma rx_rel_bounds: "(i, j) \<in> rx_rel t r \<Longrightarrow> i \<le> j \<and> j \<le> length t"
proof (induction r arbitrary: i j)
  case (Star r)
  then have "i \<le> length t" and "(i, j) \<in> (rx_rel t r)\<^sup>*" by auto
  from this(2,1) show ?case
    by (induction rule: rtrancl_induct) (use Star.IH in fastforce)+
qed fastforce+

lemma rtrancl_progress:
  assumes "(i, j) \<in> R\<^sup>*" and "i \<noteq> j"
  shows "\<exists>m. (i, m) \<in> R \<and> m \<noteq> i \<and> (m, j) \<in> R\<^sup>*"
  using assms
proof (induction rule: converse_rtrancl_induct)
  case (step y z)
  then show ?case by (cases "y = z") auto
qed simp

lemma concat_guard_mem:
  "x \<in> set (concat (map (\<lambda>jc. if P (fst jc) then F (fst jc) (snd jc) else []) xs)) \<longleftrightarrow>
     (\<exists>m c. (m, c) \<in> set xs \<and> P m \<and> x \<in> set (F m c))"
proof (induction xs)
  case (Cons y xs)
  then show ?case by (cases y) (simp, blast)
qed simp

lemma rx_match_Star_mem:
  "x \<in> set (rx_match t (Star a) i cs) \<longleftrightarrow>
     (\<exists>m c. (m, c) \<in> set (rx_match t a i cs) \<and> (i < m \<and> m \<le> length t) \<and> x \<in> set (rx_match t (Star a) m c))
     \<or> x = (i, cs)"
  by (subst rx_match_Star)
    (simp only: set_append Un_iff concat_guard_mem [where P = "\<lambda>m. i < m \<and> m \<le> length t"]
      list.set empty_iff insert_iff simp_thms)

lemma rx_match_rel:
  "i \<le> length t \<Longrightarrow> (\<exists>cs'. (j, cs') \<in> set (rx_match t r i cs)) \<longleftrightarrow> (i, j) \<in> rx_rel t r"
proof (induction t r i cs arbitrary: j rule: rx_match.induct)
  case (5 t a b i cs)
  have "(\<exists>cs'. (j, cs') \<in> set (rx_match t (Seq a b) i cs)) \<longleftrightarrow>
      (\<exists>m cm. (m, cm) \<in> set (rx_match t a i cs) \<and> (\<exists>cs'. (j, cs') \<in> set (rx_match t b m cm)))"
    by force
  also have "\<dots> \<longleftrightarrow> (\<exists>m cm. (m, cm) \<in> set (rx_match t a i cs) \<and> (m, j) \<in> rx_rel t b)"
  proof -
    have "(\<exists>cs'. (j, cs') \<in> set (rx_match t b m cm)) \<longleftrightarrow> (m, j) \<in> rx_rel t b"
      if "(m, cm) \<in> set (rx_match t a i cs)" for m cm
    proof -
      have "m \<le> length t" using that "5.IH"(1) [OF "5.prems"] rx_rel_bounds by blast
      then show ?thesis using "5.IH"(2) [OF that] by simp
    qed
    then show ?thesis by blast
  qed
  also have "\<dots> \<longleftrightarrow> (i, j) \<in> rx_rel t (Seq a b)"
    using "5.IH"(1) [OF "5.prems"] by (auto simp: relcomp_unfold)
  finally show ?case .
next
  case (6 t a b i cs)
  then show ?case by (simp add: ex_disj_distrib)
next
  case (7 t a i cs)
  have step: "(\<exists>cm. (m, cm) \<in> set (rx_match t a i cs)) \<longleftrightarrow> (i, m) \<in> rx_rel t a" for m
    using "7.IH"(1) [OF "7.prems"] by blast
  have IH: "(\<exists>cs'. (j, cs') \<in> set (rx_match t (Star a) m cm)) \<longleftrightarrow> (m, j) \<in> (rx_rel t a)\<^sup>*"
    if "(m, cm) \<in> set (rx_match t a i cs)" "i < m" for m cm
  proof -
    have "m \<le> length t" using step rx_rel_bounds that(1) by blast
    then show ?thesis using "7.IH"(2) [OF that(1)] that(2) by simp
  qed
  have "(\<exists>cs'. (j, cs') \<in> set (rx_match t (Star a) i cs)) \<longleftrightarrow>
      i = j \<or> (\<exists>m cm. (m, cm) \<in> set (rx_match t a i cs) \<and> i < m \<and> m \<le> length t
        \<and> (\<exists>cs'. (j, cs') \<in> set (rx_match t (Star a) m cm)))"
    by (subst rx_match_Star_mem) blast
  also have "\<dots> \<longleftrightarrow> i = j \<or> (\<exists>m. (i, m) \<in> rx_rel t a \<and> i < m \<and> (m, j) \<in> (rx_rel t a)\<^sup>*)"
  proof -
    have "(\<exists>cm. (m, cm) \<in> set (rx_match t a i cs) \<and> i < m \<and> m \<le> length t
        \<and> (\<exists>cs'. (j, cs') \<in> set (rx_match t (Star a) m cm))) \<longleftrightarrow>
        (i, m) \<in> rx_rel t a \<and> i < m \<and> (m, j) \<in> (rx_rel t a)\<^sup>*" for m
      using IH [of m] step [of m] rx_rel_bounds [of i m t a] by blast
    then show ?thesis by blast
  qed
  also have "\<dots> \<longleftrightarrow> (i, j) \<in> (rx_rel t a)\<^sup>*"
  proof
    assume "i = j \<or> (\<exists>m. (i, m) \<in> rx_rel t a \<and> i < m \<and> (m, j) \<in> (rx_rel t a)\<^sup>*)"
    then show "(i, j) \<in> (rx_rel t a)\<^sup>*" by (auto intro: converse_rtrancl_into_rtrancl)
  next
    assume "(i, j) \<in> (rx_rel t a)\<^sup>*"
    then show "i = j \<or> (\<exists>m. (i, m) \<in> rx_rel t a \<and> i < m \<and> (m, j) \<in> (rx_rel t a)\<^sup>*)"
      using rtrancl_progress rx_rel_bounds by (metis le_neq_implies_less)
  qed
  finally show ?case using "7.prems" by simp
next
  case (8 t n a i cs)
  have "(\<exists>cs'. (j, cs') \<in> set (rx_match t (Group n a) i cs)) \<longleftrightarrow> (\<exists>cm. (j, cm) \<in> set (rx_match t a i cs))"
    by (simp add: image_iff) (metis fst_conv prod.collapse)
  then show ?case using 8 by simp
qed auto

text \<open>\<open>MatchString\<close> decides whether some part of the text is in the language of the expression.\<close>

lemma MatchString_iff: "MatchString r t \<longleftrightarrow> (\<exists>i j. (i, j) \<in> rx_rel t r)"
proof -
  have "rx_match t r i [] \<noteq> [] \<longleftrightarrow> (\<exists>j. (i, j) \<in> rx_rel t r)" if "i \<le> length t" for i
    using rx_match_rel [OF that, of _ r "[]"] by (metis (no_types) list.set_intros(1) neq_Nil_conv
        surj_pair empty_iff list.set(1))
  then show ?thesis
    by (auto simp: MatchString_def list_ex_iff simp del: upt_Suc)
      (use rx_rel_bounds in \<open>fastforce simp: less_Suc_eq_le\<close>)+
qed

lemma rx_str_rel:
  "(i, j) \<in> rx_rel t (rx_str s) \<longleftrightarrow> i \<le> length t \<and> j = i + length s \<and> take (length s) (drop i t) = s"
proof (induction s arbitrary: i)
  case (Cons c s)
  have "take (Suc (length s)) (drop i t) = c # s \<longleftrightarrow>
      i < length t \<and> t ! i = c \<and> take (length s) (drop (Suc i) t) = s"
    by (cases "i < length t") (auto simp: Cons_nth_drop_Suc [symmetric])
  then show ?case by (auto simp: relcomp_unfold Cons)
qed auto

text \<open>An expression without operators matches exactly the texts that contain it.\<close>

lemma MatchString_str: "MatchString (rx_str s) t \<longleftrightarrow> str_contains t s"
proof -
  have "(\<exists>i. i \<le> length t \<and> take (length s) (drop i t) = s) \<longleftrightarrow> (\<exists>l r. t = l @ s @ r)"
  proof
    assume "\<exists>i. i \<le> length t \<and> take (length s) (drop i t) = s"
    then obtain i where "take (length s) (drop i t) = s" by blast
    then show "\<exists>l r. t = l @ s @ r" by (metis append_take_drop_id)
  next
    assume "\<exists>l r. t = l @ s @ r"
    then obtain l r where "t = l @ s @ r" by blast
    then show "\<exists>i. i \<le> length t \<and> take (length s) (drop i t) = s"
      by (intro exI [of _ "length l"]) auto
  qed
  then show ?thesis by (auto simp: MatchString_iff rx_str_rel str_contains_iff)
qed

section \<open>What the groups captured\<close>

text \<open>
  The text from one position to another. An expression without groups captures nothing, and the text of a group
  is the one that its expression matched.
\<close>

definition text_slice :: "string \<Rightarrow> nat \<Rightarrow> nat \<Rightarrow> string" where
  "text_slice t i j = take (j - i) (drop i t)"

lemma text_slice_append: "i \<le> m \<Longrightarrow> m \<le> j \<Longrightarrow> text_slice t i m @ text_slice t m j = text_slice t i j"
proof -
  assume ij: "i \<le> m" "m \<le> j"
  then have "drop m t = drop (m - i) (drop i t)" and "j - i = (m - i) + (j - m)" by simp_all
  then show ?thesis by (simp add: text_slice_def take_add)
qed

lemma text_slice_whole: "text_slice t 0 (length t) = t"
  by (simp add: text_slice_def)

primrec rx_plain :: "rx \<Rightarrow> bool" where
  "rx_plain Eps \<longleftrightarrow> True"
| "rx_plain (Chr c) \<longleftrightarrow> True"
| "rx_plain AnyChar \<longleftrightarrow> True"
| "rx_plain (NotIn ds) \<longleftrightarrow> True"
| "rx_plain (Seq a b) \<longleftrightarrow> rx_plain a \<and> rx_plain b"
| "rx_plain (Alt a b) \<longleftrightarrow> rx_plain a \<and> rx_plain b"
| "rx_plain (Star a) \<longleftrightarrow> rx_plain a"
| "rx_plain (Group n a) \<longleftrightarrow> False"
| "rx_plain BeginText \<longleftrightarrow> True"
| "rx_plain EndText \<longleftrightarrow> True"

lemma rx_plain_str [simp]: "rx_plain (rx_str s)"
  by (induction s) simp_all

lemma rx_match_plain: "rx_plain r \<Longrightarrow> (j, cs') \<in> set (rx_match t r i cs) \<Longrightarrow> cs' = cs"
proof (induction t r i cs arbitrary: j cs' rule: rx_match.induct)
  case (5 t a b i cs)
  then show ?case by fastforce
next
  case (7 t a i cs)
  have a: "rx_plain a" using 7(3) by simp
  from iffD1 [OF rx_match_Star_mem 7(4)] show ?case
  proof (elim disjE exE conjE)
    fix m c assume m: "(m, c) \<in> set (rx_match t a i cs)" "i < m" "m \<le> length t" "(j, cs') \<in> set (rx_match t (Star a) m c)"
    have "c = cs" by (rule 7(1) [OF a m(1)])
    moreover have "cs' = c" using 7(2) [OF m(1), of j cs'] m(2-4) 7(3) by simp
    ultimately show ?case by simp
  qed simp
qed (auto split: if_splits)

lemma rx_match_plain_mem:
  "rx_plain r \<Longrightarrow> i \<le> length t \<Longrightarrow> (j, cs') \<in> set (rx_match t r i cs) \<Longrightarrow> cs' = cs \<and> (i, j) \<in> rx_rel t r"
  using rx_match_plain rx_match_rel by blast

lemma rx_match_Seq_mem:
  "(j, cs') \<in> set (rx_match t (Seq a b) i cs) \<longleftrightarrow>
     (\<exists>m cm. (m, cm) \<in> set (rx_match t a i cs) \<and> (j, cs') \<in> set (rx_match t b m cm))"
  by force

lemma rx_match_Group_mem:
  assumes "rx_plain r" and "i \<le> length t" and "(j, cs') \<in> set (rx_match t (Group n r) i cs)"
  shows "cs' = (n, text_slice t i j) # cs \<and> (i, j) \<in> rx_rel t r"
  using assms(3) rx_match_plain_mem [OF assms(1,2)] by (auto simp: text_slice_def)

lemma rx_rel_str_slice: "(i, j) \<in> rx_rel t (rx_str s) \<Longrightarrow> text_slice t i j = s"
  by (simp add: rx_str_rel text_slice_def)

lemma rx_rel_chr_slice: "(i, j) \<in> rx_rel t (Chr c) \<Longrightarrow> text_slice t i j = [c]"
  by (auto simp: text_slice_def take_Suc hd_drop_conv_nth)

lemma rx_rel_Seq_slice:
  assumes "(i, j) \<in> rx_rel t (Seq a b)"
  obtains m where "(i, m) \<in> rx_rel t a" and "(m, j) \<in> rx_rel t b" and "text_slice t i j = text_slice t i m @ text_slice t m j"
proof -
  from assms obtain m where m: "(i, m) \<in> rx_rel t a" "(m, j) \<in> rx_rel t b" unfolding rx_rel.simps by (rule relcompE) simp
  with text_slice_append [of i m j t] rx_rel_bounds [OF m(1)] rx_rel_bounds [OF m(2)]
  have "text_slice t i j = text_slice t i m @ text_slice t m j" by simp
  with m show ?thesis by (rule that)
qed

lemma rx_rel_NotIn_star:
  assumes "(i, j) \<in> rx_rel t (Star (NotIn ds))"
  shows "set (text_slice t i j) \<inter> set ds = {}"
proof -
  have "(i, j) \<in> (rx_rel t (NotIn ds))\<^sup>*" using assms by simp
  then show ?thesis
  proof (induction rule: rtrancl_induct)
    case base
    then show ?case by (simp add: text_slice_def)
  next
    case (step m k)
    have "i \<le> m" using step(1) by (induction rule: rtrancl_induct) auto
    then have "text_slice t i k = text_slice t i m @ text_slice t m k" using step(2) text_slice_append [of i m k t] by auto
    moreover have "text_slice t m k = [t ! m] \<and> t ! m \<notin> set ds" using step(2) by (auto simp: text_slice_def take_Suc hd_drop_conv_nth)
    ultimately show ?case using step(3) by auto
  qed
qed

text \<open>At least one character, none of \<open>ds\<close>.\<close>

lemma rx_rel_NotIn_plus:
  assumes "(i, j) \<in> rx_rel t (rx_plus (NotIn ds))"
  shows "text_slice t i j \<noteq> [] \<and> set (text_slice t i j) \<inter> set ds = {}"
proof -
  obtain m where m: "(i, m) \<in> rx_rel t (NotIn ds)" "(m, j) \<in> rx_rel t (Star (NotIn ds))" "text_slice t i j = text_slice t i m @ text_slice t m j"
    using assms unfolding rx_plus_def by (rule rx_rel_Seq_slice)
  moreover have "text_slice t i m = [t ! i] \<and> t ! i \<notin> set ds" using m(1) by (auto simp: text_slice_def take_Suc hd_drop_conv_nth)
  ultimately show ?thesis using rx_rel_NotIn_star [OF m(2)] by auto
qed

lemma FindStringSubmatch_Some:
  assumes "FindStringSubmatch n r t = Some ms"
  obtains i j cs where "i \<le> length t" and "(j, cs) \<in> set (rx_match t r i [])"
    and "ms = text_slice t i j # map (\<lambda>g. case map_of cs g of None \<Rightarrow> [] | Some s \<Rightarrow> s) [1..<Suc n]"
proof -
  obtain i where f: "List.find (\<lambda>i. rx_match t r i [] \<noteq> []) [0..<Suc (length t)] = Some i"
    using assms by (auto simp: FindStringSubmatch_def split: option.splits)
  obtain j cs where h: "hd (rx_match t r i []) = (j, cs)" by (rule prod.exhaust)
  from f have "i \<le> length t" and "rx_match t r i [] \<noteq> []" by (auto simp: find_Some_iff simp del: upt_Suc)
  moreover from this have "(j, cs) \<in> set (rx_match t r i [])" using h by (metis list.set_sel(1))
  ultimately show ?thesis using that assms f h by (simp add: FindStringSubmatch_def text_slice_def del: upt_Suc)
qed

section \<open>Lists of expressions (re/multi_regexp.go)\<close>

record MultiRegexMatcher =
  mm_regexes :: "rx list"

fun compile_all :: "(string \<Rightarrow> rx res) \<Rightarrow> string list \<Rightarrow> rx list \<Rightarrow> rx list res" where
  "compile_all compile [] acc = Ok acc"
| "compile_all compile (r # rs) acc =
     (case compile r of
        Err e \<Rightarrow> Err (Errorf (''error compiling regex '' @ r) [e])
      | Panic p \<Rightarrow> Panic p
      | Ok re \<Rightarrow> compile_all compile rs (acc @ [re]))"

definition NewMultiRegexMatcher :: "(string \<Rightarrow> rx res) \<Rightarrow> string list \<Rightarrow> MultiRegexMatcher res" where
  "NewMultiRegexMatcher compile regexes =
     (case compile_all compile regexes [] of
        Ok rs \<Rightarrow> Ok \<lparr>mm_regexes = rs\<rparr> | Err e \<Rightarrow> Err e | Panic p \<Rightarrow> Panic p)"

text \<open>\<open>Match\<close>, on a matcher that may be \<open>nil\<close>.\<close>

fun match_any :: "rx list \<Rightarrow> string \<Rightarrow> bool" where
  "match_any [] s = False"
| "match_any (r # rs) s = (if MatchString r s then True else match_any rs s)"

definition mm_Match :: "MultiRegexMatcher option \<Rightarrow> string \<Rightarrow> bool" where
  "mm_Match m s = (case m of None \<Rightarrow> False | Some mm \<Rightarrow> match_any (mm_regexes mm) s)"

lemma match_any_iff: "match_any rs s \<longleftrightarrow> (\<exists>r \<in> set rs. MatchString r s)"
  by (induction rs) auto

lemma compile_all_Ok:
  "compile_all compile rs acc = Ok out \<longleftrightarrow>
     (\<exists>res. out = acc @ res \<and> list_all2 (\<lambda>s r. compile s = Ok r) rs res)"
proof (induction rs arbitrary: acc)
  case (Cons s rs)
  show ?case
    by (cases "compile s") (auto simp: Cons list_all2_Cons1 split: res.splits)
qed auto

text \<open>
  A matcher built from a list of expressions compiles every one of them, in order, and matches a
  string exactly when some part of the string is in the language of one of the expressions.
\<close>

theorem multi_matcher_sound_complete:
  assumes "NewMultiRegexMatcher compile rs = Ok m"
  shows "list_all2 (\<lambda>s r. compile s = Ok r) rs (mm_regexes m) \<and>
    (mm_Match (Some m) t \<longleftrightarrow> (\<exists>r \<in> set (mm_regexes m). \<exists>i j. (i, j) \<in> rx_rel t r))"
proof -
  obtain res where "compile_all compile rs [] = Ok res" and m: "m = \<lparr>mm_regexes = res\<rparr>"
    using assms by (auto simp: NewMultiRegexMatcher_def split: res.splits)
  then have "list_all2 (\<lambda>s r. compile s = Ok r) rs res" by (simp add: compile_all_Ok)
  then show ?thesis by (simp add: m mm_Match_def match_any_iff MatchString_iff)
qed

lemma multi_matcher_sound_complete_witness:
  "list_all2 (\<lambda>s r. Ok (rx_str s) = Ok r) [''/token?'', ''v2''] [rx_str ''/token?'', rx_str ''v2''] \<and>
   (mm_Match (Some \<lparr>mm_regexes = [rx_str ''/token?'', rx_str ''v2'']\<rparr>) ''/v2/'' \<longleftrightarrow>
      (\<exists>r \<in> set [rx_str ''/token?'', rx_str ''v2'']. \<exists>i j. (i, j) \<in> rx_rel ''/v2/'' r))"
  using multi_matcher_sound_complete
    [of "\<lambda>s. Ok (rx_str s)" "[''/token?'', ''v2'']" "\<lparr>mm_regexes = [rx_str ''/token?'', rx_str ''v2'']\<rparr>" "''/v2/''"]
  by (simp add: NewMultiRegexMatcher_def del: rx_str.simps)

end
