(* ===== verification/Lockfile.thy ===== *)
theory Lockfile
  imports GoJson Url Regexp OS
begin

text \<open>
  The manifest file (lockfile/lock_file.go): a map from redacted URLs to the digest and the headers of
  a blob, kept in memory during a run, saved as JSON when the file is closed and guarded by a lock
  file when it is writable.

  \<open>fslock\<close> is a third-party package: its two calls are the record \<open>fslock\<close>, an argument of the
  operations that lock. The mutex makes every method atomic, so a run is a sequence of method calls.
  Log lines are left out.
\<close>

section \<open>Data\<close>

record BlobInfo =
  Sha256 :: string
  Headers :: "(string, string) gomap"

definition blob_zero :: BlobInfo where
  "blob_zero = \<lparr>Sha256 = [], Headers = None\<rparr>"

definition blobEquals :: "BlobInfo \<Rightarrow> BlobInfo \<Rightarrow> bool" where
  "blobEquals a b = (Sha256 a = Sha256 b \<and> maps_Equal (Headers a) (Headers b))"

type_synonym blobMap = "(string, BlobInfo) gomap"

record MapFileOptions =
  opt_Path :: path
  Writable :: bool
  AllowOverwrite :: bool
  NoCache :: "MultiRegexMatcher option"

record 'h File =
  options :: MapFileOptions
  blobs :: blobMap
  previousBlobs :: blobMap
  dirty :: bool
  lock :: "'h option"
  lockPath :: path

record 'h fslock =
  fslock_Lock :: "path \<Rightarrow> os \<Rightarrow> 'h res \<times> os"
  fslock_Unlock :: "'h \<Rightarrow> os \<Rightarrow> err option \<times> os"

text \<open>\<open>options.Path + ".lock"\<close>\<close>

definition path_plus :: "path \<Rightarrow> string \<Rightarrow> path" where
  "path_plus p x = (if p = [] then [x] else butlast p @ [last p @ x])"

section \<open>The JSON of the manifest\<close>

text \<open>
  \<open>MarshalIndent\<close> of a \<open>blobMap\<close>: maps become objects with sorted keys, a \<open>nil\<close> map becomes \<open>null\<close>,
  the fields of \<open>BlobInfo\<close> appear in the order of their declaration. It cannot fail on these types.
\<close>

definition enc_headers :: "(string, string) gomap \<Rightarrow> json" where
  "enc_headers h =
     (case h of None \<Rightarrow> JNull | Some al \<Rightarrow> JObj (map (\<lambda>(k, v). (k, JStr v)) (sort_key fst al)))"

definition enc_blob :: "BlobInfo \<Rightarrow> json" where
  "enc_blob b = JObj [(''Sha256'', JStr (Sha256 b)), (''Headers'', enc_headers (Headers b))]"

definition enc_blobs :: "blobMap \<Rightarrow> json" where
  "enc_blobs m =
     (case m of None \<Rightarrow> JNull | Some al \<Rightarrow> JObj (map (\<lambda>(k, v). (k, enc_blob v)) (sort_key fst al)))"

text \<open>
  \<open>Unmarshal\<close> into the same types: \<open>null\<close> leaves a string or a struct as it is and makes a map \<open>nil\<close>, an
  object adds to the map that is there, and a value of another type is an error.
\<close>

definition dec_header :: "string \<times> json \<Rightarrow> (string, string) gomap \<Rightarrow> (string, string) gomap res" where
  "dec_header kv h =
     (case dec_string (snd kv) [] of
        Ok v \<Rightarrow> gm_put (fst kv) v h | Err e \<Rightarrow> Err e | Panic p \<Rightarrow> Panic p)"

fun dec_headers :: "json \<Rightarrow> (string, string) gomap \<Rightarrow> (string, string) gomap res" where
  "dec_headers JNull old = Ok None"
| "dec_headers (JObj ms) old = res_fold dec_header ms (if old = None then gm_make else old)"
| "dec_headers _ old = Err UnmarshalTypeError"

definition dec_field :: "string \<times> json \<Rightarrow> BlobInfo \<Rightarrow> BlobInfo res" where
  "dec_field kv b =
     (if fold_name (fst kv) = ''SHA256'' then
        (case dec_string (snd kv) (Sha256 b) of
           Ok s \<Rightarrow> Ok (b\<lparr>Sha256 := s\<rparr>) | Err e \<Rightarrow> Err e | Panic p \<Rightarrow> Panic p)
      else if fold_name (fst kv) = ''HEADERS'' then
        (case dec_headers (snd kv) (Headers b) of
           Ok h \<Rightarrow> Ok (b\<lparr>Headers := h\<rparr>) | Err e \<Rightarrow> Err e | Panic p \<Rightarrow> Panic p)
      else Ok b)"

fun dec_blob :: "json \<Rightarrow> BlobInfo res" where
  "dec_blob JNull = Ok blob_zero"
| "dec_blob (JObj ms) = res_fold dec_field ms blob_zero"
| "dec_blob _ = Err UnmarshalTypeError"

definition dec_entry :: "string \<times> json \<Rightarrow> blobMap \<Rightarrow> blobMap res" where
  "dec_entry kv m =
     (case dec_blob (snd kv) of
        Ok b \<Rightarrow> gm_put (fst kv) b m | Err e \<Rightarrow> Err e | Panic p \<Rightarrow> Panic p)"

fun dec_blobs :: "json \<Rightarrow> blobMap \<Rightarrow> blobMap res" where
  "dec_blobs JNull old = Ok None"
| "dec_blobs (JObj ms) old = res_fold dec_entry ms (if old = None then gm_make else old)"
| "dec_blobs _ old = Err UnmarshalTypeError"

definition json_Unmarshal :: "bytes \<Rightarrow> blobMap \<Rightarrow> blobMap res" where
  "json_Unmarshal bb old =
     (case json_parse bb of
        None \<Rightarrow> Err (Errorf ''invalid character in JSON'' [])
      | Some v \<Rightarrow> dec_blobs v old)"

definition json_MarshalIndent :: "blobMap \<Rightarrow> bytes" where
  "json_MarshalIndent m = json_print 0 (enc_blobs m)"

section \<open>Loading and saving\<close>

text \<open>
  \<open>save\<close> has three early returns (\<open>save_check\<close>); only the call with \<open>final\<close> from \<open>Close\<close> gets past
  them and writes the file. \<open>save_mem\<close> is the call \<open>save(false)\<close>.
\<close>

definition save_check :: "bool \<Rightarrow> 'h File \<Rightarrow> unit res option" where
  "save_check final f =
     (if \<not> dirty f then Some (Ok ())
      else if \<not> Writable (options f) then Some (Err (Errorf ''is not writable! should not get here'' []))
      else if \<not> final then Some (Ok ())
      else None)"

definition save :: "bool \<Rightarrow> 'h File \<Rightarrow> os \<Rightarrow> unit res \<times> 'h File \<times> os" where
  "save final f w =
     (case save_check final f of
        Some r \<Rightarrow> (r, f, w)
      | None \<Rightarrow>
          (case os_WriteFile (opt_Path (options f)) (json_MarshalIndent (blobs f)) w of
             (Some e, w1) \<Rightarrow> (Err (wrap ''error writing file'' e), f, w1)
           | (None, w1) \<Rightarrow> (Ok (), f\<lparr>dirty := False\<rparr>, w1)))"

definition save_mem :: "'h File \<Rightarrow> unit res" where
  "save_mem f = (case save_check False f of Some r \<Rightarrow> r | None \<Rightarrow> Ok ())"

lemma save_False: "save False f w = (save_mem f, f, w)"
  by (simp add: save_def save_mem_def save_check_def)

text \<open>On an error of \<open>Unmarshal\<close> the file is discarded by the only caller; its map is left empty here.\<close>

definition load :: "'h File \<Rightarrow> os \<Rightarrow> unit res \<times> 'h File \<times> os" where
  "load f w =
     (case os_ReadFile (opt_Path (options f)) w of
        (Ok bb, w1) \<Rightarrow>
          (case json_Unmarshal bb gm_make of
             Ok m \<Rightarrow> (Ok (), f\<lparr>blobs := m\<rparr>, w1)
           | Err e \<Rightarrow> (Err e, f\<lparr>blobs := gm_make\<rparr>, w1)
           | Panic p \<Rightarrow> (Panic p, f\<lparr>blobs := gm_make\<rparr>, w1))
      | (Err e, w1) \<Rightarrow>
          (if err_is e ErrNotExist \<and> Writable (options f)
           then (Ok (), f\<lparr>blobs := gm_make, dirty := True\<rparr>, w1)
           else (Err (wrap ''error opening map'' e), f\<lparr>blobs := gm_make\<rparr>, w1))
      | (Panic p, w1) \<Rightarrow> (Panic p, f\<lparr>blobs := gm_make\<rparr>, w1))"

text \<open>
  \<open>NewMapFile\<close>. The deferred function of a writable file runs after \<open>return nil, err\<close> has set the
  result to \<open>nil\<close>, so its \<open>retFile.Close()\<close> dereferences a \<open>nil\<close> pointer: an error of \<open>load\<close> panics
  there and the lock stays.
\<close>

definition new_file :: "MapFileOptions \<Rightarrow> 'h File" where
  "new_file opts =
     \<lparr>options = opts, blobs = None, previousBlobs = None, dirty = False, lock = None, lockPath = []\<rparr>"

definition NewMapFile :: "'h fslock \<Rightarrow> MapFileOptions \<Rightarrow> os \<Rightarrow> 'h File res \<times> os" where
  "NewMapFile fl opts w =
     (if Writable opts then
        (case fslock_Lock fl (path_plus (opt_Path opts) ''.lock'') w of
           (Err e, w1) \<Rightarrow> (Err (wrap ''error getting lock on map path'' e), w1)
         | (Panic p, w1) \<Rightarrow> (Panic p, w1)
         | (Ok h, w1) \<Rightarrow>
             (case load (new_file opts\<lparr>lock := Some h, lockPath := path_plus (opt_Path opts) ''.lock''\<rparr>) w1 of
                (Ok _, f, w2) \<Rightarrow> (Ok f, w2)
              | (Err e, f, w2) \<Rightarrow> (Panic ''invalid memory address or nil pointer dereference'', w2)
              | (Panic p, f, w2) \<Rightarrow> (Panic p, w2)))
      else
        (case load (new_file opts) w of
           (Ok _, f, w1) \<Rightarrow> (Ok f, w1)
         | (Err e, f, w1) \<Rightarrow> (Err (wrap ''error loading initial file'' e), w1)
         | (Panic p, f, w1) \<Rightarrow> (Panic p, w1)))"

text \<open>\<open>Close\<close>: save, then (deferred) unlock and remove the lock file.\<close>

definition Close :: "'h fslock \<Rightarrow> 'h File \<Rightarrow> os \<Rightarrow> unit res \<times> 'h File \<times> os" where
  "Close fl f w =
     (if \<not> Writable (options f) then (Ok (), f, w)
      else
        (case save True f w of
           (r, f1, w1) \<Rightarrow>
             (case lock f1 of
                None \<Rightarrow> (Panic ''invalid memory address or nil pointer dereference'', f1, w1)
              | Some h \<Rightarrow>
                  (case fslock_Unlock fl h w1 of
                     (e1, w2) \<Rightarrow>
                       (case os_Remove (lockPath f1) w2 of
                          (e2, w3) \<Rightarrow> (defer_err (defer_err r e1) e2, f1, w3))))))"

definition CloseAndDestroy :: "'h fslock \<Rightarrow> 'h File \<Rightarrow> os \<Rightarrow> unit res \<times> 'h File \<times> os" where
  "CloseAndDestroy fl f w =
     (if \<not> Writable (options f) then (Err (Errorf ''hmm, file should not be destroyable'' []), f, w)
      else
        (case Close fl f w of
           (Err e, f1, w1) \<Rightarrow> (Err (wrap ''error closing manifest file prior to destruction'' e), f1, w1)
         | (Panic p, f1, w1) \<Rightarrow> (Panic p, f1, w1)
         | (Ok _, f1, w1) \<Rightarrow>
             (case os_Remove (opt_Path (options f1)) w1 of (e, w2) \<Rightarrow> (of_err e, f1, w2))))"

section \<open>Entries\<close>

definition SkipSave :: "url \<Rightarrow> 'h File \<Rightarrow> bool" where
  "SkipSave u f = mm_Match (NoCache (options f)) (url_Redacted u)"

definition internalAddBlob :: "string \<Rightarrow> BlobInfo \<Rightarrow> 'h File \<Rightarrow> unit res \<times> 'h File" where
  "internalAddBlob k info f =
     (case gm_get (blobs f) k of
        Some v0 \<Rightarrow>
          (if blobEquals v0 info then (Ok (), f)
           else if \<not> AllowOverwrite (options f)
           then (Err (Errorf (''wrong SHA256 for '' @ k) []), f)
           else
             (case gm_put k info (blobs f) of
                Ok m \<Rightarrow> (save_mem (f\<lparr>blobs := m, dirty := True\<rparr>), f\<lparr>blobs := m, dirty := True\<rparr>)
              | Err e \<Rightarrow> (Err e, f) | Panic p \<Rightarrow> (Panic p, f)))
      | None \<Rightarrow>
          (case gm_put k info (blobs f) of
             Ok m \<Rightarrow> (save_mem (f\<lparr>blobs := m, dirty := True\<rparr>), f\<lparr>blobs := m, dirty := True\<rparr>)
           | Err e \<Rightarrow> (Err e, f) | Panic p \<Rightarrow> (Panic p, f)))"

text \<open>\<open>GetBlob\<close>: the pair \<open>(BlobInfo{}, false)\<close> is \<open>None\<close>.\<close>

definition GetBlob :: "url \<Rightarrow> 'h File \<Rightarrow> BlobInfo option res \<times> 'h File" where
  "GetBlob u f =
     (if mm_Match (NoCache (options f)) (url_Redacted u) then (Ok None, f)
      else
        (case gm_get (blobs f) (url_Redacted u) of
           Some rv \<Rightarrow> (Ok (Some rv), f)
         | None \<Rightarrow>
             (case gm_get (previousBlobs f) (url_Redacted u) of
                Some rv \<Rightarrow>
                  (case internalAddBlob (url_Redacted u) rv f of
                     (Ok _, f1) \<Rightarrow> (Ok (Some rv), f1)
                   | (Err e, f1) \<Rightarrow> (Err (wrap ''error storing previously cached blob info'' e), f1)
                   | (Panic p, f1) \<Rightarrow> (Panic p, f1))
              | None \<Rightarrow> (Ok None, f))))"

definition AddBlob :: "url \<Rightarrow> BlobInfo \<Rightarrow> 'h File \<Rightarrow> unit res \<times> 'h File" where
  "AddBlob u info f =
     (if mm_Match (NoCache (options f)) (url_Redacted u) then (Ok (), f)
      else internalAddBlob (url_Redacted u) info f)"

definition RemoveEntry :: "url \<Rightarrow> 'h File \<Rightarrow> unit res \<times> 'h File" where
  "RemoveEntry u f =
     (if mm_Match (NoCache (options f)) (url_Redacted u) then (Ok (), f)
      else
        (case gm_get (blobs f) (url_Redacted u) of
           None \<Rightarrow> (Ok (), f)
         | Some _ \<Rightarrow>
             (let f1 = f\<lparr>blobs := gm_delete (url_Redacted u) (blobs f), dirty := True\<rparr>
              in (save_mem f1, f1))))"

text \<open>
  \<open>Reset\<close>. Where the map is empty, the code leaves the two maps aliased. A lookup consults the previous
  entries only after it has missed in the current ones, so an alias of the current map adds nothing to
  it, and keeping the empty map as the previous one gives the same answers.
\<close>

definition Reset :: "bool \<Rightarrow> 'h File \<Rightarrow> unit res \<times> 'h File" where
  "Reset forgetBlobs f =
     (let f1 = f\<lparr>previousBlobs := (if forgetBlobs then None else blobs f)\<rparr> in
      if gm_len (blobs f) = 0 then (Ok (), f1)
      else (let f2 = f1\<lparr>blobs := gm_make, dirty := True\<rparr> in (save_mem f2, f2)))"

text \<open>\<open>ForEach\<close>, with a callback that has a state of its own.\<close>

fun for_each :: "(url \<Rightarrow> BlobInfo \<Rightarrow> 's \<Rightarrow> unit res \<times> 's) \<Rightarrow> (string \<times> BlobInfo) list \<Rightarrow> 's \<Rightarrow> unit res \<times> 's" where
  "for_each cb [] s = (Ok (), s)"
| "for_each cb ((k, v) # es) s =
     (case url_Parse k of
        Err e \<Rightarrow> (Err e, s)
      | Panic p \<Rightarrow> (Panic p, s)
      | Ok u \<Rightarrow>
          (case cb u v s of
             (Ok _, s1) \<Rightarrow> for_each cb es s1
           | (Err e, s1) \<Rightarrow> (Err e, s1)
           | (Panic p, s1) \<Rightarrow> (Panic p, s1)))"

definition ForEach :: "(url \<Rightarrow> BlobInfo \<Rightarrow> 's \<Rightarrow> unit res \<times> 's) \<Rightarrow> 'h File \<Rightarrow> 's \<Rightarrow> unit res \<times> 's" where
  "ForEach cb f s = for_each cb (gm_entries (blobs f)) s"

section \<open>What the JSON keeps\<close>

text \<open>
  A manifest is well-formed when no key occurs twice, in the map and in the headers of each entry, and
  plain when all its strings are valid UTF-8. Two manifests are the same when the code's own \<open>blobEquals\<close>
  says so of each entry.
\<close>

definition manifest_wf :: "blobMap \<Rightarrow> bool" where
  "manifest_wf m \<longleftrightarrow> gm_wf m \<and> list_all (\<lambda>(k, b). gm_wf (Headers b)) (gm_entries m)"

definition blob_plain :: "BlobInfo \<Rightarrow> bool" where
  "blob_plain b \<longleftrightarrow> utf8_valid (Sha256 b) \<and> list_all (\<lambda>(k, v). utf8_valid k \<and> utf8_valid v) (gm_entries (Headers b))"

definition manifest_plain :: "blobMap \<Rightarrow> bool" where
  "manifest_plain m \<longleftrightarrow> list_all (\<lambda>(k, b). utf8_valid k \<and> blob_plain b) (gm_entries m)"

definition manifest_same :: "blobMap \<Rightarrow> blobMap \<Rightarrow> bool" where
  "manifest_same m1 m2 \<longleftrightarrow> (\<forall>k. rel_option blobEquals (gm_get m1 k) (gm_get m2 k))"

text \<open>Every digest of the second is one of the first, perhaps with its invalid bytes replaced.\<close>

definition manifest_digests :: "blobMap \<Rightarrow> blobMap \<Rightarrow> bool" where
  "manifest_digests m1 m2 \<longleftrightarrow> (\<forall>k b. gm_get m2 k = Some b \<longrightarrow>
     (\<exists>k1 b1. gm_get m1 k1 = Some b1 \<and> (Sha256 b = Sha256 b1 \<or> Sha256 b = utf8_coerce (Sha256 b1))))"

definition canon_headers :: "(string, string) gomap \<Rightarrow> (string, string) gomap" where
  "canon_headers h = map_option (sort_key fst) h"

definition canon_blob :: "BlobInfo \<Rightarrow> BlobInfo" where
  "canon_blob b = b\<lparr>Headers := canon_headers (Headers b)\<rparr>"

definition canon_blobs :: "blobMap \<Rightarrow> blobMap" where
  "canon_blobs m = map_option (\<lambda>al. map (\<lambda>(k, b). (k, canon_blob b)) (sort_key fst al)) m"

lemma update_new: "k \<notin> fst ` set al \<Longrightarrow> AList.update k v al = al @ [(k, v)]"
  by (induction al) auto

lemma distinct_fst_sort: "distinct (map fst al) \<Longrightarrow> distinct (map fst (sort_key fst al))"
  by (auto simp: distinct_map)

lemma dec_headers_fold:
  "distinct (map fst (acc @ al)) \<Longrightarrow>
   res_fold dec_header (map (\<lambda>(k, v). (k, JStr v)) al) (Some acc) = Ok (Some (acc @ al))"
proof (induction al arbitrary: acc)
  case (Cons kv al)
  obtain k v where kv: "kv = (k, v)" by (metis surj_pair)
  have "k \<notin> fst ` set acc" using Cons.prems kv by auto
  then have "res_fold dec_header (map (\<lambda>(k, v). (k, JStr v)) (kv # al)) (Some acc)
      = res_fold dec_header (map (\<lambda>(k, v). (k, JStr v)) al) (Some (acc @ [kv]))"
    by (simp add: kv dec_header_def update_new)
  also have "\<dots> = Ok (Some ((acc @ [kv]) @ al))"
    by (rule Cons.IH) (use Cons.prems in simp)
  finally show ?case by simp
qed simp

lemma dec_headers_enc: "gm_wf h \<Longrightarrow> dec_headers (enc_headers h) None = Ok (canon_headers h)"
  using dec_headers_fold [of "[]"] distinct_fst_sort
  by (cases h) (auto simp: enc_headers_def canon_headers_def gm_wf_def gm_make_def)

lemma fold_field_names: "fold_name ''Sha256'' = ''SHA256''" "fold_name ''Headers'' = ''HEADERS''"
  by code_simp+

lemma dec_blob_enc: "gm_wf (Headers b) \<Longrightarrow> dec_blob (enc_blob b) = Ok (canon_blob b)"
  by (simp add: enc_blob_def dec_field_def blob_zero_def dec_headers_enc canon_blob_def fold_field_names
      del: fold_name.simps)

lemma dec_blobs_fold:
  "distinct (map fst (acc @ al)) \<Longrightarrow> \<forall>(k, b) \<in> set al. gm_wf (Headers b) \<Longrightarrow>
   res_fold dec_entry (map (\<lambda>(k, v). (k, enc_blob v)) al) (Some (map (\<lambda>(k, b). (k, canon_blob b)) acc))
    = Ok (Some (map (\<lambda>(k, b). (k, canon_blob b)) (acc @ al)))"
proof (induction al arbitrary: acc)
  case (Cons kv al)
  obtain k v where kv: "kv = (k, v)" by (metis surj_pair)
  let ?c = "map (\<lambda>(k, b). (k, canon_blob b))"
  have "k \<notin> fst ` set (?c acc)" using Cons.prems kv by (auto simp: image_iff)
  then have "res_fold dec_entry (map (\<lambda>(k, v). (k, enc_blob v)) (kv # al)) (Some (?c acc))
      = res_fold dec_entry (map (\<lambda>(k, v). (k, enc_blob v)) al) (Some (?c (acc @ [kv])))"
    using Cons.prems by (simp add: kv dec_entry_def update_new dec_blob_enc)
  also have "\<dots> = Ok (Some (?c ((acc @ [kv]) @ al)))"
    by (rule Cons.IH) (use Cons.prems in auto)
  finally show ?case by simp
qed simp

lemma dec_blobs_enc: "manifest_wf m \<Longrightarrow> dec_blobs (enc_blobs m) gm_make = Ok (canon_blobs m)"
proof (cases m)
  case (Some al)
  assume "manifest_wf m"
  then have "distinct (map fst ([] @ sort_key fst al))" "\<forall>(k, b) \<in> set (sort_key fst al). gm_wf (Headers b)"
    using Some by (auto simp: manifest_wf_def gm_wf_def list_all_iff intro: distinct_fst_sort)
  from dec_blobs_fold [OF this] show ?thesis
    using Some by (simp add: enc_blobs_def canon_blobs_def gm_make_def)
qed (simp add: enc_blobs_def canon_blobs_def)

lemma plain_enc_blobs: "plain_json 0 (enc_blobs m)"
proof -
  have "plain_json 2 (enc_headers h)" for h by (cases h) (auto simp: enc_headers_def list_all_iff)
  then have "plain_json (Suc 0) (enc_blob b)" for b by (simp add: enc_blob_def numeral_2_eq_2)
  then show ?thesis by (cases m) (auto simp: enc_blobs_def list_all_iff)
qed

text \<open>A plain manifest is written as it is.\<close>

lemma field_names_ascii: "utf8_coerce ''Sha256'' = ''Sha256''" "utf8_coerce ''Headers'' = ''Headers''"
  by (simp_all add: ascii_coerce)

lemma coerce_headers:
  assumes "list_all (\<lambda>(k, v). utf8_valid k \<and> utf8_valid v) (gm_entries h)"
  shows "json_coerce (enc_headers h) = enc_headers h"
  using assms by (cases h) (auto simp: enc_headers_def list_all_iff utf8_valid_def)

lemma coerce_blobs:
  assumes "manifest_plain m"
  shows "json_coerce (enc_blobs m) = enc_blobs m"
proof -
  have "json_coerce (enc_blob b) = enc_blob b" if "blob_plain b" for b
    using that coerce_headers by (simp add: blob_plain_def enc_blob_def utf8_valid_def field_names_ascii del: utf8_coerce.simps)
  then show ?thesis
    using assms by (cases m) (auto simp: manifest_plain_def enc_blobs_def list_all_iff utf8_valid_def)
qed

lemma unmarshal_coerced: "json_Unmarshal (json_MarshalIndent m) gm_make = dec_blobs (json_coerce (enc_blobs m)) gm_make"
  by (simp add: json_Unmarshal_def json_MarshalIndent_def json_parse_print plain_enc_blobs)

lemma unmarshal_marshal:
  assumes "manifest_wf m" and "manifest_plain m"
  shows "json_Unmarshal (json_MarshalIndent m) gm_make = Ok (canon_blobs m)"
  using assms by (simp add: unmarshal_coerced coerce_blobs dec_blobs_enc)

text \<open>Any manifest can be read again, with the digests that were written, each as valid UTF-8.\<close>

lemma dec_headers_any: "\<exists>h. dec_headers (json_coerce (enc_headers al)) None = Ok h"
proof (cases al)
  case (Some l)
  have "\<exists>h. res_fold dec_header (map (\<lambda>kv. (utf8_coerce (fst kv), JStr (utf8_coerce (snd kv)))) xs) (Some acc) = Ok h" for xs acc
    by (induction xs arbitrary: acc) (auto simp: dec_header_def)
  from this [of "sort_key fst l" "[]"] show ?thesis
    by (simp add: Some enc_headers_def gm_make_def comp_def split_def)
qed (simp add: enc_headers_def)

lemma dec_blob_any: "\<exists>c. dec_blob (json_coerce (enc_blob b)) = Ok c \<and> Sha256 c = utf8_coerce (Sha256 b)"
proof -
  obtain h where "dec_headers (json_coerce (enc_headers (Headers b))) None = Ok h" using dec_headers_any by blast
  then show ?thesis
    by (simp add: enc_blob_def dec_field_def blob_zero_def fold_field_names field_names_ascii del: fold_name.simps utf8_coerce.simps)
qed

lemma unmarshal_any:
  "\<exists>mm. json_Unmarshal (json_MarshalIndent m) gm_make = Ok mm \<and>
     (\<forall>k b. gm_get mm k = Some b \<longrightarrow> (\<exists>kv \<in> set (gm_entries m). Sha256 b = utf8_coerce (Sha256 (snd kv))))"
proof (cases m)
  case (Some al)
  let ?src = "\<lambda>b. \<exists>kv \<in> set al. Sha256 b = utf8_coerce (Sha256 (snd kv))"
  have step: "\<exists>mm. res_fold dec_entry (map (\<lambda>kv. (utf8_coerce (fst kv), json_coerce (enc_blob (snd kv)))) xs) (Some acc) = Ok mm \<and>
      (\<forall>k b. gm_get mm k = Some b \<longrightarrow> ?src b)"
    if "set xs \<subseteq> set al" and "\<forall>k b. map_of acc k = Some b \<longrightarrow> ?src b" for xs acc
    using that
  proof (induction xs arbitrary: acc)
    case (Cons kv xs)
    obtain c where c: "dec_blob (json_coerce (enc_blob (snd kv))) = Ok c" "Sha256 c = utf8_coerce (Sha256 (snd kv))"
      using dec_blob_any by blast
    let ?acc = "AList.update (utf8_coerce (fst kv)) c acc"
    have "\<forall>k b. map_of ?acc k = Some b \<longrightarrow> ?src b"
      using Cons.prems c(2) by (auto simp: update_conv)
    from Cons.IH [OF _ this] Cons.prems(1) show ?case by (simp add: dec_entry_def c(1))
  qed (auto simp: gm_get_def)
  from step [of "sort_key fst al" "[]"] show ?thesis
    unfolding unmarshal_coerced Some by (simp add: enc_blobs_def gm_make_def comp_def split_def)
qed (simp add: unmarshal_coerced enc_blobs_def gm_get_def)

lemma canon_headers_equal: "gm_wf h \<Longrightarrow> maps_Equal h (canon_headers h)"
proof -
  assume wf: "gm_wf h"
  then have wf2: "gm_wf (canon_headers h)"
    by (cases h) (auto simp: canon_headers_def gm_wf_def intro: distinct_fst_sort)
  have "set (gm_entries h) = set (gm_entries (canon_headers h))"
    by (cases h) (auto simp: canon_headers_def)
  from gm_get_perm [OF wf wf2 this] show ?thesis using wf wf2 by (simp add: maps_Equal_iff)
qed

lemma canon_same: "manifest_wf m \<Longrightarrow> manifest_same m (canon_blobs m)"
proof (cases m)
  case (Some al)
  assume wf: "manifest_wf m"
  have "map_of (map (\<lambda>(k, b). (k, canon_blob b)) l) k = map_option canon_blob (map_of l k)" for l and k :: string
    by (induction l) auto
  moreover have "map_of (sort_key fst al) = map_of al"
    using wf Some by (intro map_of_inject_set [THEN iffD2]) (auto simp: manifest_wf_def gm_wf_def intro: distinct_fst_sort)
  ultimately have "gm_get (canon_blobs m) k = map_option canon_blob (gm_get m k)" for k
    using Some by (simp add: canon_blobs_def gm_get_def)
  moreover have "blobEquals b (canon_blob b)" if "gm_get m k = Some b" for k b
    using wf that Some
    by (auto simp: gm_get_def manifest_wf_def list_all_iff blobEquals_def canon_blob_def
        intro!: canon_headers_equal dest!: map_of_SomeD)
  ultimately show ?thesis
    by (auto simp: manifest_same_def option.rel_map split: option.split intro!: option.rel_refl_strong)
qed (simp add: canon_blobs_def manifest_same_def)

section \<open>A session\<close>

text \<open>
  Between \<open>NewMapFile\<close> and \<open>Close\<close> a file receives any sequence of calls. Their results go to the
  callers, which log them or turn them into HTTP errors and go on.
\<close>

datatype call = CGet url | CAdd url BlobInfo | CRemove url | CReset bool

fun run_call :: "call \<Rightarrow> 'h File \<Rightarrow> 'h File" where
  "run_call (CGet u) f = snd (GetBlob u f)"
| "run_call (CAdd u b) f = snd (AddBlob u b f)"
| "run_call (CRemove u) f = snd (RemoveEntry u f)"
| "run_call (CReset fg) f = snd (Reset fg f)"

definition run_calls :: "call list \<Rightarrow> 'h File \<Rightarrow> 'h File" where
  "run_calls cs f = fold run_call cs f"

fun call_key :: "call \<Rightarrow> string option" where
  "call_key (CGet u) = Some (url_Redacted u)"
| "call_key (CAdd u b) = Some (url_Redacted u)"
| "call_key _ = None"

fun call_info_wf :: "call \<Rightarrow> bool" where
  "call_info_wf (CAdd u b) = gm_wf (Headers b)"
| "call_info_wf _ = True"

lemma run_calls_inv:
  assumes "P f" and "\<And>c f. c \<in> set cs \<Longrightarrow> P f \<Longrightarrow> P (run_call c f)"
  shows "P (run_calls cs f)"
  using assms by (induction cs arbitrary: f) (auto simp: run_calls_def)

subsection \<open>One call\<close>

text \<open>What a call of \<open>internalAddBlob\<close> can do to the file.\<close>

lemma internalAddBlob_cases:
  assumes "internalAddBlob k info f = (r, f')"
  shows "f' = f \<and> (r = Ok () \<longrightarrow> (\<exists>v. gm_get (blobs f) k = Some v \<and> blobEquals v info)) \<or>
    (\<exists>m. gm_put k info (blobs f) = Ok m \<and> f' = f\<lparr>blobs := m, dirty := True\<rparr>
      \<and> (\<forall>v. gm_get (blobs f) k = Some v \<longrightarrow> AllowOverwrite (options f) \<and> \<not> blobEquals v info))"
  using assms by (auto simp: internalAddBlob_def split: option.splits if_splits res.splits)

lemma call_options:
  "options (run_call c f) = options f" "lock (run_call c f) = lock f" "lockPath (run_call c f) = lockPath f"
  by (cases c; auto simp: GetBlob_def AddBlob_def RemoveEntry_def Reset_def internalAddBlob_def Let_def
      split: option.splits res.splits prod.splits)+

lemma run_calls_options [simp]:
  "options (run_calls cs f) = options f" "lock (run_calls cs f) = lock f" "lockPath (run_calls cs f) = lockPath f"
  by (induction cs arbitrary: f) (auto simp: run_calls_def call_options)

text \<open>
  How the entries change under a call: not at all; by an entry for the key of a lookup that the previous
  run knew; by the entry that is added; by losing one key; or to the empty map.
\<close>

inductive blobs_step :: "'h File \<Rightarrow> call \<Rightarrow> 'h File \<Rightarrow> bool" where
  same: "blobs f' = blobs f \<Longrightarrow> dirty f' = dirty f \<Longrightarrow> previousBlobs f' = previousBlobs f
    \<Longrightarrow> (\<forall>fg. c \<noteq> CReset fg) \<Longrightarrow> blobs_step f c f'"
| reuse: "gm_get (blobs f) (url_Redacted u) = None \<Longrightarrow> gm_get (previousBlobs f) (url_Redacted u) = Some b
    \<Longrightarrow> \<not> mm_Match (NoCache (options f)) (url_Redacted u)
    \<Longrightarrow> gm_put (url_Redacted u) b (blobs f) = Ok m
    \<Longrightarrow> blobs_step f (CGet u) (f\<lparr>blobs := m, dirty := True\<rparr>)"
| add: "\<not> mm_Match (NoCache (options f)) (url_Redacted u)
    \<Longrightarrow> gm_put (url_Redacted u) b (blobs f) = Ok m
    \<Longrightarrow> (\<forall>v. gm_get (blobs f) (url_Redacted u) = Some v \<longrightarrow> AllowOverwrite (options f))
    \<Longrightarrow> blobs_step f (CAdd u b) (f\<lparr>blobs := m, dirty := True\<rparr>)"
| remove: "blobs_step f (CRemove u) (f\<lparr>blobs := gm_delete (url_Redacted u) (blobs f), dirty := True\<rparr>)"
| reset_empty: "gm_len (blobs f) = 0
    \<Longrightarrow> blobs_step f (CReset fg) (f\<lparr>previousBlobs := (if fg then None else blobs f)\<rparr>)"
| reset: "blobs_step f (CReset fg)
    (f\<lparr>previousBlobs := (if fg then None else blobs f), blobs := gm_make, dirty := True\<rparr>)"

inductive_cases blobs_step_CGet [elim!]: "blobs_step f (CGet u) f'"
inductive_cases blobs_step_CAdd [elim!]: "blobs_step f (CAdd u b) f'"
inductive_cases blobs_step_CRemove [elim!]: "blobs_step f (CRemove u) f'"
inductive_cases blobs_step_CReset [elim!]: "blobs_step f (CReset fg) f'"

lemma add_step:
  assumes "internalAddBlob (url_Redacted u) b f = (r, f')" and "\<not> mm_Match (NoCache (options f)) (url_Redacted u)"
  shows "blobs_step f (CAdd u b) f'"
  using internalAddBlob_cases [OF assms(1)]
proof (elim disjE conjE exE)
  assume "f' = f"
  then show ?thesis by (auto intro: same)
next
  fix m
  assume "gm_put (url_Redacted u) b (blobs f) = Ok m" "f' = f\<lparr>blobs := m, dirty := True\<rparr>"
    "\<forall>v. gm_get (blobs f) (url_Redacted u) = Some v \<longrightarrow> AllowOverwrite (options f) \<and> \<not> blobEquals v b"
  then show ?thesis using assms(2) by (auto intro: add)
qed

lemma reuse_step:
  assumes "internalAddBlob (url_Redacted u) b f = (r, f')" and "\<not> mm_Match (NoCache (options f)) (url_Redacted u)"
    and "gm_get (blobs f) (url_Redacted u) = None" and "gm_get (previousBlobs f) (url_Redacted u) = Some b"
  shows "blobs_step f (CGet u) f'"
  using internalAddBlob_cases [OF assms(1)]
proof (elim disjE conjE exE)
  assume "f' = f"
  then show ?thesis by (auto intro: same)
next
  fix m
  assume "gm_put (url_Redacted u) b (blobs f) = Ok m" "f' = f\<lparr>blobs := m, dirty := True\<rparr>"
  then show ?thesis using assms(2,3,4) by (auto intro: reuse)
qed

lemma run_call_step: "blobs_step f c (run_call c f)"
proof (cases c)
  case (CGet u)
  then show ?thesis
    by (auto simp: GetBlob_def split: option.splits prod.splits res.splits intro: same reuse_step)
next
  case (CAdd u b)
  then show ?thesis
    by (cases "internalAddBlob (url_Redacted u) b f")
      (auto simp: AddBlob_def intro: same add_step)
next
  case (CRemove u)
  then show ?thesis
    by (auto simp: RemoveEntry_def Let_def split: option.splits intro: same remove)
next
  case (CReset fg)
  then show ?thesis
    using reset [of f fg] reset_empty [of f fg] by (cases fg) (auto simp: Reset_def Let_def)
qed

text \<open>Lookups and additions keep every entry, unless the manifest allows to overwrite.\<close>

lemma entries_kept:
  "blobs_step f c f' \<Longrightarrow> call_key c \<noteq> None \<Longrightarrow> \<not> AllowOverwrite (options f) \<Longrightarrow>
    gm_get (blobs f) \<subseteq>\<^sub>m gm_get (blobs f')"
  by (induction rule: blobs_step.induct) (auto simp: map_le_def gomap_simps)

subsection \<open>Well-formed maps\<close>

definition info_wf :: "BlobInfo \<Rightarrow> bool" where
  "info_wf b \<longleftrightarrow> gm_wf (Headers b)"

lemma manifest_wf_iff: "manifest_wf m \<longleftrightarrow> gm_wf m \<and> (\<forall>k b. gm_get m k = Some b \<longrightarrow> info_wf b)"
  by (auto simp: manifest_wf_def list_all_iff info_wf_def gm_get_mem)

lemma manifest_wf_simps [simp]: "manifest_wf None" "manifest_wf gm_make"
  by (auto simp: manifest_wf_iff)

lemma manifest_wf_put: "gm_put k b m = Ok m' \<Longrightarrow> manifest_wf m \<Longrightarrow> info_wf b \<Longrightarrow> manifest_wf m'"
  by (auto simp: manifest_wf_iff gomap_simps intro: gm_wf_put split: if_splits)

lemma manifest_wf_delete: "manifest_wf m \<Longrightarrow> manifest_wf (gm_delete k m)"
  by (auto simp: manifest_wf_iff gomap_simps intro: gm_wf_delete split: if_splits)

lemma dec_headers_wf: "dec_headers j old = Ok h \<Longrightarrow> gm_wf old \<Longrightarrow> gm_wf h"
proof (cases j)
  case (JObj ms)
  assume a: "dec_headers j old = Ok h" "gm_wf old"
  have "gm_wf (if old = None then gm_make else old)" using a by simp
  with a(1) [unfolded JObj dec_headers.simps] show ?thesis
    by (rule res_fold_inv) (auto simp: dec_header_def split: res.splits intro: gm_wf_put)
qed simp_all

lemma dec_blob_wf: "dec_blob j = Ok b \<Longrightarrow> info_wf b"
proof (cases j)
  case (JObj ms)
  assume a: "dec_blob j = Ok b"
  show ?thesis
    by (rule res_fold_inv [OF a [unfolded JObj dec_blob.simps]])
      (auto simp: dec_field_def info_wf_def blob_zero_def split: res.splits if_splits intro: dec_headers_wf)
qed (auto simp: info_wf_def blob_zero_def)

lemma unmarshal_wf: "json_Unmarshal bb gm_make = Ok m \<Longrightarrow> manifest_wf m"
proof -
  assume "json_Unmarshal bb gm_make = Ok m"
  then obtain j where j: "dec_blobs j gm_make = Ok m" by (auto simp: json_Unmarshal_def split: option.splits)
  show ?thesis
  proof (cases j)
    case (JObj ms)
    have "res_fold dec_entry ms gm_make = Ok m" using j JObj by (simp add: gm_make_def)
    then show ?thesis
      by (rule res_fold_inv) (auto simp: dec_entry_def split: res.splits intro: manifest_wf_put dec_blob_wf)
  qed (use j in auto)
qed

definition file_wf :: "'h File \<Rightarrow> bool" where
  "file_wf f \<longleftrightarrow> manifest_wf (blobs f) \<and> manifest_wf (previousBlobs f)"

lemma file_wf_step: "blobs_step f c f' \<Longrightarrow> file_wf f \<Longrightarrow> call_info_wf c \<Longrightarrow> file_wf f'"
  by (induction rule: blobs_step.induct)
    (auto simp: file_wf_def info_wf_def manifest_wf_iff [of "previousBlobs _"] intro: manifest_wf_put manifest_wf_delete)

subsection \<open>Persistence\<close>

text \<open>
  What the code relies on of \<open>fslock\<close>: taking a lock touches no file but the lock file, releasing it
  touches none, and neither creates or removes directories.
\<close>

definition fslock_frames :: "'h fslock \<Rightarrow> bool" where
  "fslock_frames fl \<longleftrightarrow>
     (\<forall>p w r w'. fslock_Lock fl p w = (r, w') \<longrightarrow> env_le w w' \<and> (\<forall>q. q \<noteq> p \<longrightarrow> fs_get w' q = fs_get w q)) \<and>
     (\<forall>h w e w'. fslock_Unlock fl h w = (e, w') \<longrightarrow> env_le w w' \<and> fs_get w' = fs_get w)"

text \<open>No call is scripted to claim that a file is missing that is there.\<close>

definition honest :: "os \<Rightarrow> bool" where
  "honest w \<longleftrightarrow> (\<forall>n e. FailAt n e \<in> set (faults w) \<longrightarrow> \<not> err_is e ErrNotExist)"

lemma honest_env: "env_le w w' \<Longrightarrow> honest w \<Longrightarrow> honest w'"
  by (auto simp: env_le_def honest_def)

lemma path_plus_neq [simp]: "x \<noteq> [] \<Longrightarrow> path_plus p x \<noteq> p" "x \<noteq> [] \<Longrightarrow> p \<noteq> path_plus p x"
proof -
  have "path_plus p x \<noteq> p" if "x \<noteq> []"
  proof (cases p rule: rev_cases)
    case (snoc q l)
    then show ?thesis using that by (simp add: path_plus_def)
  qed (simp add: path_plus_def)
  then show "x \<noteq> [] \<Longrightarrow> path_plus p x \<noteq> p" "x \<noteq> [] \<Longrightarrow> p \<noteq> path_plus p x" by metis+
qed

text \<open>A file that is not dirty is what the disk holds.\<close>

definition on_disk :: "blobMap \<Rightarrow> path \<Rightarrow> os \<Rightarrow> bool" where
  "on_disk m p w \<longleftrightarrow> (\<exists>bb. fs_get w p = Some bb \<and> json_Unmarshal bb gm_make = Ok m)"

definition clean_synced :: "os \<Rightarrow> 'h File \<Rightarrow> bool" where
  "clean_synced w f \<longleftrightarrow> (\<not> dirty f \<longrightarrow> on_disk (blobs f) (opt_Path (options f)) w)"

lemma clean_synced_step: "blobs_step f c f' \<Longrightarrow> options f' = options f \<Longrightarrow> clean_synced w f \<Longrightarrow> clean_synced w f'"
  by (induction rule: blobs_step.induct) (auto simp: clean_synced_def)

lemma load_Ok:
  assumes "load f w = (Ok u, f', w')"
  shows "options f' = options f \<and> lockPath f' = lockPath f \<and> lock f' = lock f \<and> previousBlobs f' = previousBlobs f \<and>
    fs_get w' = fs_get w \<and> manifest_wf (blobs f') \<and> (dirty f \<or> clean_synced w f') \<and>
    (honest w \<longrightarrow> fs_get w (opt_Path (options f)) = None \<or> on_disk (blobs f') (opt_Path (options f)) w)"
proof -
  obtain r w1 where r: "os_ReadFile (opt_Path (options f)) w = (r, w1)" by (metis surj_pair)
  have w1: "fs_get w1 = fs_get w" using os_ReadFile_same [OF r] by simp
  show ?thesis
  proof (cases r)
    case (Ok bb)
    then have bb: "fs_get w (opt_Path (options f)) = Some bb" using os_ReadFile_Ok r by blast
    then show ?thesis
      using assms r Ok w1
      by (auto simp: load_def clean_synced_def on_disk_def split: res.splits intro: unmarshal_wf)
  next
    case (Err e)
    then have e: "err_is e ErrNotExist" and f': "f' = f\<lparr>blobs := gm_make, dirty := True\<rparr>" and w': "w' = w1"
      using assms r by (auto simp: load_def split: if_splits)
    have "fs_get w (opt_Path (options f)) = None" if "honest w"
    proof (rule ccontr)
      assume "fs_get w (opt_Path (options f)) \<noteq> None"
      then have "\<exists>n. FailAt n e \<in> set (faults w)"
        using r Err
        by (auto simp: os_ReadFile_def split: fault.splits prod.splits option.splits if_splits dest!: pop_fault_mem)
      then show False using that e by (auto simp: honest_def)
    qed
    then show ?thesis using f' w' w1 by (auto simp: clean_synced_def)
  next
    case (Panic p)
    then show ?thesis using os_ReadFile_not_Panic r by blast
  qed
qed

lemma NewMapFile_Ok:
  assumes "NewMapFile fl opts w = (Ok f, w')" and "fslock_frames fl"
  shows "options f = opts \<and> file_wf f \<and> clean_synced w' f \<and> (\<forall>q. q \<noteq> lockPath f \<longrightarrow> fs_get w' q = fs_get w q) \<and>
    (Writable opts \<longrightarrow> lock f \<noteq> None \<and> lockPath f = path_plus (opt_Path opts) ''.lock'') \<and>
    (honest w \<longrightarrow> fs_get w (opt_Path opts) = None \<or> on_disk (blobs f) (opt_Path opts) w)"
proof (cases "Writable opts")
  case False
  then obtain u w1 where "load (new_file opts :: 'a File) w = (Ok u, f, w')"
    using assms(1) by (auto simp: NewMapFile_def split: res.splits prod.splits)
  from load_Ok [OF this] show ?thesis
    using False by (auto simp: new_file_def file_wf_def clean_synced_def on_disk_def)
next
  case True
  let ?lp = "path_plus (opt_Path opts) ''.lock''"
  obtain h w1 u where l: "fslock_Lock fl ?lp w = (Ok h, w1)"
      "load (new_file opts\<lparr>lock := Some h, lockPath := ?lp\<rparr>) w1 = (Ok u, f, w')"
    using assms(1) True by (auto simp: NewMapFile_def split: res.splits prod.splits)
  have fr: "env_le w w1" "\<And>q. q \<noteq> ?lp \<Longrightarrow> fs_get w1 q = fs_get w q"
    using assms(2) l(1) by (auto simp: fslock_frames_def)
  have "honest w \<Longrightarrow> honest w1" using fr(1) honest_env by blast
  moreover have "fs_get w1 (opt_Path opts) = fs_get w (opt_Path opts)" by (rule fr(2)) simp
  ultimately show ?thesis
    using load_Ok [OF l(2)] True fr(2)
    by (auto simp: new_file_def file_wf_def clean_synced_def on_disk_def)
qed

lemma unmarshal_digests:
  assumes "manifest_wf m"
  shows "\<exists>mm. json_Unmarshal (json_MarshalIndent m) gm_make = Ok mm \<and> manifest_digests m mm"
proof -
  have "\<exists>k1. gm_get m k1 = Some (snd kv)" if "kv \<in> set (gm_entries m)" for kv
    using that assms gm_get_mem [of m "fst kv" "snd kv"] by (auto simp: manifest_wf_def)
  then show ?thesis using unmarshal_any [of m] unfolding manifest_digests_def by metis
qed

lemma save_True_Ok:
  assumes "save True f w = (Ok u, f', w')" and "manifest_wf (blobs f)" and "clean_synced w f"
  shows "\<exists>m. on_disk m (opt_Path (options f)) w' \<and> manifest_digests (blobs f) m \<and>
    (manifest_plain (blobs f) \<longrightarrow> manifest_same (blobs f) m)"
proof (cases "dirty f")
  case False
  then have "on_disk (blobs f) (opt_Path (options f)) w'"
    using assms by (auto simp: clean_synced_def save_def save_check_def)
  moreover have "manifest_same (blobs f) (blobs f)"
    using assms(2) by (auto simp: manifest_same_def manifest_wf_iff info_wf_def blobEquals_def intro!: option.rel_refl_strong
        dest!: elem_set [THEN iffD1])
  moreover have "manifest_digests (blobs f) (blobs f)" by (auto simp: manifest_digests_def)
  ultimately show ?thesis by blast
next
  case True
  then have "os_WriteFile (opt_Path (options f)) (json_MarshalIndent (blobs f)) w = (None, w')"
    using assms(1) by (auto simp: save_def save_check_def split: if_splits prod.splits option.splits)
  from os_WriteFile_Ok [OF this] show ?thesis
    using unmarshal_digests [OF assms(2)] unmarshal_marshal [OF assms(2)] canon_same [OF assms(2)] by (auto simp: on_disk_def)
qed

lemma Close_Ok:
  assumes "Close fl f w = (Ok u, f', w')" and "Writable (options f)" and "fslock_frames fl"
    and "lockPath f \<noteq> opt_Path (options f)" and "file_wf f" and "clean_synced w f"
  shows "(\<exists>m. on_disk m (opt_Path (options f)) w' \<and> manifest_digests (blobs f) m \<and>
      (manifest_plain (blobs f) \<longrightarrow> manifest_same (blobs f) m)) \<and> fs_get w' (lockPath f) = None"
proof -
  obtain r f1 w1 h e1 w2 e2 where s: "save True f w = (r, f1, w1)" "lock f1 = Some h" "fslock_Unlock fl h w1 = (e1, w2)"
      "os_Remove (lockPath f1) w2 = (e2, w')" "defer_err (defer_err r e1) e2 = Ok u"
    using assms(1,2) by (auto simp: Close_def split: if_splits option.splits prod.splits)
  then have r: "r = Ok u" "e1 = None" "e2 = None" by (auto simp: res_simps)
  have lp: "lockPath f1 = lockPath f"
    using s(1) by (auto simp: save_def split: option.splits prod.splits)
  obtain m where m: "on_disk m (opt_Path (options f)) w1"
      "manifest_digests (blobs f) m \<and> (manifest_plain (blobs f) \<longrightarrow> manifest_same (blobs f) m)"
    using save_True_Ok [OF s(1) [unfolded r]] assms by (auto simp: file_wf_def)
  have "fs_get w2 = fs_get w1" using assms(3) s(3) by (auto simp: fslock_frames_def)
  then have "fs_get w' (opt_Path (options f)) = fs_get w1 (opt_Path (options f))"
    using os_Remove_frame [OF s(4), of "opt_Path (options f)"] assms(4) lp by simp
  then have "on_disk m (opt_Path (options f)) w'" using m(1) by (simp add: on_disk_def)
  moreover have "fs_get w' (lockPath f) = None" using os_Remove_Ok s(4) r lp by metis
  ultimately show ?thesis using m(2) by blast
qed

lemma run_calls_wf: "file_wf f \<Longrightarrow> \<forall>c \<in> set cs. call_info_wf c \<Longrightarrow> file_wf (run_calls cs f)"
  by (rule run_calls_inv) (auto intro: file_wf_step run_call_step)

lemma run_calls_clean: "clean_synced w f \<Longrightarrow> clean_synced w (run_calls cs f)"
  by (rule run_calls_inv) (auto intro: clean_synced_step run_call_step simp: call_options)

lemma on_disk_unique: "on_disk m p w \<Longrightarrow> on_disk m' p w \<Longrightarrow> m = m'"
  by (auto simp: on_disk_def)

section \<open>Properties\<close>

text \<open>
  C13. Whatever a session does to a writable manifest, once it is closed without error the lock file is
  gone and every later \<open>NewMapFile\<close> on the same path reads the entries that were in memory, when their strings
  are valid UTF-8; a read-only one succeeds when no call fails.
\<close>

theorem manifest_persists:
  assumes "fslock_frames fl" and "Writable opts"
    and "NewMapFile fl opts w0 = (Ok f, w1)"
    and "\<forall>c \<in> set cs. call_info_wf c" and "manifest_plain (blobs (run_calls cs f))"
    and "Close fl (run_calls cs f) w1 = (Ok (), g, w2)"
  shows "fs_get w2 (path_plus (opt_Path opts) ''.lock'') = None \<and>
    (\<forall>fl2 opts2 h w3. opt_Path opts2 = opt_Path opts \<and> fslock_frames fl2 \<and> honest w2
        \<and> NewMapFile fl2 opts2 w2 = (Ok h, w3) \<longrightarrow> manifest_same (blobs (run_calls cs f)) (blobs (h :: 'h File))) \<and>
    (faults w2 = [] \<longrightarrow> is_Ok (fst (NewMapFile fl (opts\<lparr>Writable := False\<rparr>) w2)))"
proof -
  let ?f = "run_calls cs f" and ?p = "opt_Path opts"
  have f: "options f = opts" "file_wf f" "clean_synced w1 f" "lockPath f = path_plus ?p ''.lock''"
    using NewMapFile_Ok [OF assms(3,1)] assms(2) by auto
  obtain m where m: "on_disk m ?p w2" "manifest_same (blobs ?f) m" and l: "fs_get w2 (lockPath f) = None"
    using Close_Ok [OF assms(6)] run_calls_wf [OF f(2) assms(4)] run_calls_clean [OF f(3)] assms(1,2,5) f by auto
  have "blobs h = m" if "opt_Path opts2 = ?p" "fslock_frames fl2" "honest w2" "NewMapFile fl2 opts2 w2 = (Ok h, w3)"
    for fl2 opts2 w3 and h :: "'h File"
    using NewMapFile_Ok [OF that(4,2)] that(1,3) m(1) by (auto simp: on_disk_def)
  moreover have "is_Ok (fst (NewMapFile fl (opts\<lparr>Writable := False\<rparr>) w2))" if "faults w2 = []"
    using m(1) that by (auto simp: NewMapFile_def load_def on_disk_def os_ReadFile_def new_file_def)
  ultimately show ?thesis using m(2) l f(4) by metis
qed

text \<open>A lock that is a file, a session that adds one entry, and the disk after it.\<close>

definition plain_fslock :: "path fslock" where
  "plain_fslock = \<lparr>fslock_Lock = (\<lambda>p w. if fs_get w p = None then (Ok p, fs_put p [] w) else (Err (OsError ''locked''), w)),
     fslock_Unlock = (\<lambda>p w. (None, w))\<rparr>"

definition sample_url :: url where
  "sample_url = url_zero\<lparr>Scheme := ''https'', Host := ''example.com'', Path := ''/a''\<rparr>"

definition sample_info :: BlobInfo where
  "sample_info = \<lparr>Sha256 = ''ab12'', Headers = Some [(''Etag'', ''1''), (''Age'', ''2'')]\<rparr>"

definition sample_opts :: MapFileOptions where
  "sample_opts = \<lparr>opt_Path = [''assets.json''], Writable = True, AllowOverwrite = False, NoCache = None\<rparr>"

definition sample_os :: os where
  "sample_os = \<lparr>files = [], dirs = [], faults = []\<rparr>"

definition sample_file :: "path File" where
  "sample_file = \<lparr>options = sample_opts, blobs = gm_make, previousBlobs = None, dirty = True,
     lock = Some [''assets.json.lock''], lockPath = [''assets.json.lock'']\<rparr>"

lemma plain_fslock_frames: "fslock_frames plain_fslock"
  by (auto simp: fslock_frames_def plain_fslock_def fs_simps split: if_splits)

lemma sample_new: "NewMapFile plain_fslock sample_opts sample_os = (Ok sample_file, fs_put [''assets.json.lock''] [] sample_os)"
  by code_simp

lemma manifest_persists_witness:
  "\<exists>g w2. Close plain_fslock (run_calls [CAdd sample_url sample_info] sample_file) (fs_put [''assets.json.lock''] [] sample_os)
      = (Ok (), g, w2) \<and> fs_get w2 [''assets.json.lock''] = None
    \<and> is_Ok (fst (NewMapFile plain_fslock (sample_opts\<lparr>Writable := False\<rparr>) w2))"
proof -
  let ?c = "Close plain_fslock (run_calls [CAdd sample_url sample_info] sample_file) (fs_put [''assets.json.lock''] [] sample_os)"
  have "fst ?c = Ok ()" and faults: "faults (snd (snd ?c)) = []" by code_simp+
  then obtain g w2 where c: "?c = (Ok (), g, w2)" by (metis prod.collapse)
  have "Writable sample_opts" and "\<forall>c \<in> set [CAdd sample_url sample_info]. call_info_wf c"
    and "manifest_plain (blobs (run_calls [CAdd sample_url sample_info] sample_file))" by code_simp+
  note m = manifest_persists [OF plain_fslock_frames this(1) sample_new this(2,3) c]
  have "path_plus (opt_Path sample_opts) ''.lock'' = [''assets.json.lock'']" by code_simp
  moreover have "faults w2 = []" using faults by (simp only: c snd_conv)
  ultimately have "fs_get w2 [''assets.json.lock''] = None"
      "is_Ok (fst (NewMapFile plain_fslock (sample_opts\<lparr>Writable := False\<rparr>) w2))"
    using m by metis+
  then show ?thesis using c by blast
qed

text \<open>
  C23. Without \<open>AllowOverwrite\<close> an entry stays what it is under any sequence of lookups and additions, and
  an addition with another digest or other headers is refused without a change.
\<close>

theorem no_overwrite:
  assumes "\<not> AllowOverwrite (options f)" and "gm_get (blobs f) (url_Redacted u) = Some b"
    and "\<forall>c \<in> set cs. call_key c \<noteq> None"
  shows "gm_get (blobs (run_calls cs f)) (url_Redacted u) = Some b \<and>
    (\<not> blobEquals b info \<and> \<not> SkipSave u f \<longrightarrow>
      AddBlob u info (run_calls cs f) = (Err (Errorf (''wrong SHA256 for '' @ url_Redacted u) []), run_calls cs f))"
proof -
  let ?P = "\<lambda>g. options g = options f \<and> gm_get (blobs g) (url_Redacted u) = Some b"
  have "?P (run_call c g)" if "c \<in> set cs" "?P g" for c g
    using entries_kept [OF run_call_step [of g c]] call_options(1) [of c g] that assms(1,3)
    by (force simp: map_le_def)
  then have "?P (run_calls cs f)"
    by (intro run_calls_inv [where P = ?P]) (use assms(2) in auto)
  then show ?thesis
    using assms(1) by (simp add: AddBlob_def internalAddBlob_def SkipSave_def)
qed

lemma no_overwrite_witness:
  "gm_get (blobs (run_calls [CAdd sample_url blob_zero, CGet sample_url]
      (sample_file\<lparr>blobs := Some [(url_Redacted sample_url, sample_info)]\<rparr>))) (url_Redacted sample_url) = Some sample_info"
  using no_overwrite [of "sample_file\<lparr>blobs := Some [(url_Redacted sample_url, sample_info)]\<rparr>" sample_url sample_info
      "[CAdd sample_url blob_zero, CGet sample_url]" blob_zero]
  by (simp add: sample_file_def sample_opts_def gm_get_def)

text \<open>
  C22. After \<open>Reset\<close> a manifest holds only what the run asked for: every entry at the end has a key that
  some call named, and is either an entry from before the reset (none, where they were to be forgotten)
  or one that the run added.
\<close>

theorem reset_prunes:
  assumes "\<forall>c \<in> set cs. \<forall>fg. c \<noteq> CReset fg"
    and "gm_get (blobs (run_calls cs (snd (Reset forget f)))) k = Some b"
  shows "Some k \<in> call_key ` set cs \<and>
    ((\<not> forget \<and> gm_get (blobs f) k = Some b) \<or> (\<exists>u. CAdd u b \<in> set cs \<and> url_Redacted u = k))"
proof -
  define Q where "Q k b \<longleftrightarrow> Some k \<in> call_key ` set cs \<and>
    ((\<not> forget \<and> gm_get (blobs f) k = Some b) \<or> (\<exists>u. CAdd u b \<in> set cs \<and> url_Redacted u = k))" for k b
  let ?P = "\<lambda>g. previousBlobs g = (if forget then None else blobs f) \<and> (\<forall>k b. gm_get (blobs g) k = Some b \<longrightarrow> Q k b)"
  have empty: "?P (snd (Reset forget f))"
    by (auto simp: Reset_def Let_def gm_len_def gm_get_def gm_make_def)
  have "?P (run_call c g)" if c: "c \<in> set cs" and g: "?P g" for c g
  proof (cases c)
    case (CGet u)
    have "gm_get (previousBlobs g) (url_Redacted u) = Some b \<Longrightarrow> Q (url_Redacted u) b" for b
      using c CGet g by (force simp: Q_def split: if_splits)
    then show ?thesis
      using run_call_step [of g c] CGet g by (auto simp: gomap_simps split: if_splits)
  next
    case (CAdd u b)
    have "Q (url_Redacted u) b" using c CAdd by (force simp: Q_def)
    then show ?thesis
      using run_call_step [of g c] CAdd g by (auto simp: gomap_simps split: if_splits)
  next
    case (CRemove u)
    then show ?thesis using run_call_step [of g c] g by (auto simp: gomap_simps split: if_splits)
  next
    case (CReset fg)
    then show ?thesis using assms(1) c by blast
  qed
  with empty have "?P (run_calls cs (snd (Reset forget f)))"
    by (rule run_calls_inv [where P = ?P])
  then show ?thesis using assms(2) by (auto simp: Q_def)
qed

text \<open>A build that asked for one of the two URLs of its manifest keeps the entry of this one only.\<close>

definition sample_two :: "path File" where
  "sample_two = sample_file\<lparr>blobs := Some [(url_Redacted sample_url, sample_info), (''http://b/'', blob_zero)]\<rparr>"

lemma reset_prunes_witness:
  "gm_get (blobs sample_two) ''http://b/'' = Some blob_zero \<and>
   gm_get (blobs (run_calls [CGet sample_url] (snd (Reset False sample_two)))) (url_Redacted sample_url) = Some sample_info \<and>
   gm_get (blobs (run_calls [CGet sample_url] (snd (Reset False sample_two)))) ''http://b/'' = None"
proof -
  let ?f = "run_calls [CGet sample_url] (snd (Reset False sample_two))"
  have ne: "url_Redacted sample_url \<noteq> ''http://b/''" by code_simp
  have "gm_get (blobs ?f) (url_Redacted sample_url) = Some sample_info"
    by (simp add: sample_two_def run_calls_def Reset_def GetBlob_def internalAddBlob_def sample_file_def sample_opts_def
        mm_Match_def gm_get_def gm_len_def gm_make_def gm_put_def save_mem_def save_check_def)
  moreover have "gm_get (blobs ?f) ''http://b/'' = None"
    using reset_prunes [of "[CGet sample_url]" False sample_two "''http://b/''"] ne by fastforce
  ultimately show ?thesis using ne by (simp add: sample_two_def gm_get_def)
qed

text \<open>
  A URL that the \<open>NoCache\<close> list matches is never looked up and never recorded: a lookup finds
  nothing whatever the manifest holds, and no session gives the key an entry.
\<close>

theorem nocache_never_recorded:
  assumes "SkipSave u f"
  shows "GetBlob u (run_calls cs f) = (Ok None, run_calls cs f) \<and>
    (gm_get (blobs (run_calls cs f)) (url_Redacted u) \<noteq> None \<longrightarrow>
      gm_get (blobs (run_calls cs f)) (url_Redacted u) = gm_get (blobs f) (url_Redacted u))"
proof -
  let ?k = "url_Redacted u"
  let ?P = "\<lambda>g. options g = options f \<and> (gm_get (blobs g) ?k \<noteq> None \<longrightarrow> gm_get (blobs g) ?k = gm_get (blobs f) ?k)"
  have "?P (run_call c g)" if "?P g" for c g
    using run_call_step [of g c] call_options(1) [of c g] that assms
    by (cases c) (auto simp: gomap_simps SkipSave_def split: if_splits)
  then have "?P (run_calls cs f)"
    by (intro run_calls_inv [where P = ?P]) auto
  then show ?thesis using assms by (simp add: GetBlob_def SkipSave_def)
qed

definition sample_nocache :: "path File" where
  "sample_nocache = sample_file\<lparr>options := sample_opts\<lparr>NoCache := Some \<lparr>mm_regexes = [Eps]\<rparr>\<rparr>\<rparr>"

lemma nocache_never_recorded_witness:
  "GetBlob sample_url (run_calls [CAdd sample_url sample_info] sample_nocache)
    = (Ok None, run_calls [CAdd sample_url sample_info] sample_nocache)"
proof -
  have "SkipSave sample_url sample_nocache"
    by (auto simp: SkipSave_def sample_nocache_def sample_opts_def mm_Match_def MatchString_iff)
  from nocache_never_recorded [OF this, of "[CAdd sample_url sample_info]"] show ?thesis by blast
qed

text \<open>
  A read-only manifest never writes: closing it after any session leaves the disk as it is, it cannot
  be destroyed, and recording an entry that it does not hold is an error.
\<close>

theorem readonly_manifest:
  assumes "\<not> Writable (options f)"
  shows "Close fl (run_calls cs f) w = (Ok (), run_calls cs f, w) \<and>
    snd (snd (CloseAndDestroy fl (run_calls cs f) w)) = w \<and> \<not> is_Ok (fst (CloseAndDestroy fl (run_calls cs f) w)) \<and>
    (gm_get (blobs f) (url_Redacted u) = None \<and> \<not> SkipSave u f \<longrightarrow> \<not> is_Ok (fst (AddBlob u info f)))"
proof -
  have "\<not> is_Ok (fst (AddBlob u info f))" if "gm_get (blobs f) (url_Redacted u) = None" "\<not> SkipSave u f"
    using that assms
    by (cases "gm_put (url_Redacted u) info (blobs f)")
      (auto simp: AddBlob_def SkipSave_def internalAddBlob_def save_mem_def save_check_def)
  then show ?thesis using assms by (simp add: Close_def CloseAndDestroy_def)
qed

lemma readonly_manifest_witness:
  "Close plain_fslock (run_calls [CAdd sample_url sample_info] (sample_file\<lparr>options := sample_opts\<lparr>Writable := False\<rparr>\<rparr>)) sample_os
    = (Ok (), run_calls [CAdd sample_url sample_info] (sample_file\<lparr>options := sample_opts\<lparr>Writable := False\<rparr>\<rparr>), sample_os)"
  using readonly_manifest [of "sample_file\<lparr>options := sample_opts\<lparr>Writable := False\<rparr>\<rparr>" plain_fslock
      "[CAdd sample_url sample_info]" sample_os]
  by simp

text \<open>
  C39. A writable manifest whose file is there but is not a map of blobs makes \<open>NewMapFile\<close> panic, after
  it has taken the lock and without removing the lock file; the JSON value \<open>null\<close> is accepted, and then
  the first entry that is added panics.
\<close>

theorem bad_manifest_panics:
  assumes "fslock_Lock fl (path_plus (opt_Path opts) ''.lock'') w = (Ok h, w1)" and "Writable opts"
    and "faults w1 = []" and "fs_get w1 (opt_Path opts) = Some bb"
  shows "(\<forall>e. json_Unmarshal bb gm_make = Err e \<longrightarrow>
      is_Panic (fst (NewMapFile fl opts w)) \<and> snd (NewMapFile fl opts w) = w1) \<and>
    (bb = ''null'' \<and> \<not> mm_Match (NoCache opts) (url_Redacted u) \<longrightarrow>
      (\<exists>f. NewMapFile fl opts w = (Ok f, w1) \<and> is_Panic (fst (AddBlob u info f))))"
proof -
  have "json_Unmarshal ''null'' gm_make = Ok None" by code_simp
  then show ?thesis
    using assms
    by (auto simp: NewMapFile_def load_def os_ReadFile_def new_file_def AddBlob_def internalAddBlob_def gm_put_def)
qed

lemma bad_manifest_panics_witness:
  "is_Panic (fst (NewMapFile plain_fslock sample_opts (fs_put [''assets.json''] ''{'' sample_os)))"
proof -
  have "fslock_Lock plain_fslock (path_plus (opt_Path sample_opts) ''.lock'') (fs_put [''assets.json''] ''{'' sample_os)
      = (Ok [''assets.json.lock''], fs_put [''assets.json.lock''] [] (fs_put [''assets.json''] ''{'' sample_os))"
    and "Writable sample_opts"
    and "faults (fs_put [''assets.json.lock''] [] (fs_put [''assets.json''] ''{'' sample_os)) = []"
    and "fs_get (fs_put [''assets.json.lock''] [] (fs_put [''assets.json''] ''{'' sample_os)) (opt_Path sample_opts) = Some ''{''"
    by code_simp+
  note p = bad_manifest_panics [OF this]
  have "json_parse ''{'' = None" by code_simp
  then have "\<exists>e. json_Unmarshal ''{'' gm_make = Err e" by (simp add: json_Unmarshal_def)
  then show ?thesis using p by blast
qed

end
