(* ===== verification/Http.thy ===== *)
theory Http
  imports Url OS
begin

text \<open>
  The part of \<open>net/http\<close> on both sides of the proxy: headers, requests and responses, the
  \<open>ResponseWriter\<close> that a handler writes to, and the construction of an outgoing request. The
  network itself is a parameter of the operations that use it (\<open>client.Do\<close>).
\<close>

section \<open>Headers\<close>

type_synonym header = "(string \<times> string list) list"

definition is_token_char :: "char \<Rightarrow> bool" where
  "is_token_char c = (is_alnum c \<or> c \<in> set ''!#$%&*+-.^_|~'' \<union> {CHR 0x27, CHR 0x60})"

text \<open>\<open>textproto.CanonicalMIMEHeaderKey\<close>: a key with an invalid character is left as it is.\<close>

definition to_upper :: "char \<Rightarrow> char" where
  "to_upper c = (if 97 \<le> (of_char c :: nat) \<and> (of_char c :: nat) \<le> 122 then char_of (of_char c - 32 :: nat) else c)"

fun canon_chars :: "bool \<Rightarrow> string \<Rightarrow> string" where
  "canon_chars up [] = []"
| "canon_chars up (c # cs) = (if up then to_upper c else to_lower c) # canon_chars (c = CHR ''-'') cs"

definition CanonicalMIMEHeaderKey :: "string \<Rightarrow> string" where
  "CanonicalMIMEHeaderKey k = (if list_all is_token_char k then canon_chars True k else k)"

definition hdr_values :: "header \<Rightarrow> string \<Rightarrow> string list" where
  "hdr_values h k = (case map_of h k of None \<Rightarrow> [] | Some vs \<Rightarrow> vs)"

definition hdr_Add :: "string \<Rightarrow> string \<Rightarrow> header \<Rightarrow> header" where
  "hdr_Add k v h =
     AList.update (CanonicalMIMEHeaderKey k) (hdr_values h (CanonicalMIMEHeaderKey k) @ [v]) h"

definition hdr_Set :: "string \<Rightarrow> string \<Rightarrow> header \<Rightarrow> header" where
  "hdr_Set k v h = AList.update (CanonicalMIMEHeaderKey k) [v] h"

definition hdr_Del :: "string \<Rightarrow> header \<Rightarrow> header" where
  "hdr_Del k h = AList.delete (CanonicalMIMEHeaderKey k) h"

definition hdr_Get :: "header \<Rightarrow> string \<Rightarrow> string" where
  "hdr_Get h k = (case hdr_values h (CanonicalMIMEHeaderKey k) of [] \<Rightarrow> [] | v # _ \<Rightarrow> v)"

text \<open>The nested loop \<open>for k, v := range src { for _, v1 := range v { dst.Add(k, v1) } }\<close>.\<close>

definition hdr_add_all :: "header \<Rightarrow> header \<Rightarrow> header" where
  "hdr_add_all src dst = fold (\<lambda>(k, vs) d. fold (hdr_Add k) vs d) src dst"

lemma of_char_case:
  "of_char (to_upper c) = (if 97 \<le> (of_char c :: nat) \<and> (of_char c :: nat) \<le> 122 then of_char c - 32 else of_char c :: nat)"
  "of_char (to_lower c) = (if 65 \<le> (of_char c :: nat) \<and> (of_char c :: nat) \<le> 90 then of_char c + 32 else of_char c :: nat)"
  by (auto simp: to_upper_def to_lower_def)

lemma canon_char_facts:
  "(is_token_char c \<longrightarrow> is_token_char (to_upper c) \<and> is_token_char (to_lower c)) \<and>
   to_upper (to_upper c) = to_upper c \<and> to_lower (to_lower c) = to_lower c \<and>
   (to_upper c = CHR ''-'' \<longleftrightarrow> c = CHR ''-'') \<and> (to_lower c = CHR ''-'' \<longleftrightarrow> c = CHR ''-'')"
proof -
  have eq: "x = y \<longleftrightarrow> (of_char x :: nat) = of_char y" for x y :: char
    by (simp add: of_char_eq_iff)
  have u: "to_upper c = c \<or> is_alnum (to_upper c)"
    using of_char_case(1) [of c] by (auto simp: is_alnum_def Let_def to_upper_def [of c])
  have l: "to_lower c = c \<or> is_alnum (to_lower c)"
    using of_char_case(2) [of c] by (auto simp: is_alnum_def Let_def to_lower_def [of c])
  have "is_token_char (to_upper c) \<and> is_token_char (to_lower c)" if "is_token_char c"
    using that u l unfolding is_token_char_def by metis
  then show ?thesis
    using of_char_case [of c] by (simp add: eq of_char_case) linarith
qed

lemma canon_chars_idem:
  "list_all is_token_char k \<Longrightarrow>
    list_all is_token_char (canon_chars b k) \<and> canon_chars b (canon_chars b k) = canon_chars b k"
  by (induction k arbitrary: b) (use canon_char_facts in auto)

lemma canonical_idem [simp]: "CanonicalMIMEHeaderKey (CanonicalMIMEHeaderKey k) = CanonicalMIMEHeaderKey k"
  using canon_chars_idem by (auto simp: CanonicalMIMEHeaderKey_def)

section \<open>Responses of a handler\<close>

text \<open>
  A \<open>http.ResponseWriter\<close>: its header map, the status and the headers as they were when they were
  sent (\<open>None\<close> before that), and the body written. A write may fail (the client went away, the body
  does not fit the declared length): the script \<open>rw_faults\<close> decides each write.
\<close>

record rw =
  rw_header :: header
  rw_sent :: "(nat \<times> header) option"
  rw_body :: bytes
  rw_faults :: "fault list"

definition rw_new :: "fault list \<Rightarrow> rw" where
  "rw_new fs = \<lparr>rw_header = [], rw_sent = None, rw_body = [], rw_faults = fs\<rparr>"

definition rw_WriteHeader :: "nat \<Rightarrow> rw \<Rightarrow> rw" where
  "rw_WriteHeader code r = (if rw_sent r = None then r\<lparr>rw_sent := Some (code, rw_header r)\<rparr> else r)"

definition rw_Write :: "bytes \<Rightarrow> rw \<Rightarrow> (nat \<times> err option) \<times> rw" where
  "rw_Write p r =
     (let r1 = rw_WriteHeader 200 r in
      case rw_faults r1 of
        [] \<Rightarrow> ((length p, None), r1\<lparr>rw_body := rw_body r1 @ p\<rparr>)
      | Pass # fs \<Rightarrow> ((length p, None), r1\<lparr>rw_body := rw_body r1 @ p, rw_faults := fs\<rparr>)
      | FailAt n e # fs \<Rightarrow>
          ((min n (length p), Some e), r1\<lparr>rw_body := rw_body r1 @ take n p, rw_faults := fs\<rparr>))"

text \<open>\<open>http.Error\<close>\<close>

definition http_Error :: "string \<Rightarrow> nat \<Rightarrow> rw \<Rightarrow> rw" where
  "http_Error msg code r =
     (let h = hdr_Set ''X-Content-Type-Options'' ''nosniff''
                (hdr_Set ''Content-Type'' ''text/plain; charset=utf-8'' (hdr_Del ''Content-Length'' (rw_header r)))
      in snd (rw_Write (msg @ [CHR 0x0A]) (rw_WriteHeader code (r\<lparr>rw_header := h\<rparr>))))"

text \<open>What the client receives once the handler has returned.\<close>

definition rw_result :: "rw \<Rightarrow> nat \<times> header \<times> bytes" where
  "rw_result r =
     (case rw_sent r of
        None \<Rightarrow> (200, rw_header r, rw_body r)
      | Some (code, h) \<Rightarrow> (code, h, rw_body r))"

lemma rw_Write_ok [simp]:
  "rw_faults r = [] \<Longrightarrow> rw_Write p r = ((length p, None),
     (rw_WriteHeader 200 r)\<lparr>rw_body := rw_body r @ p\<rparr>)"
  by (auto simp: rw_Write_def rw_WriteHeader_def Let_def)

lemma rw_Write_None: "rw_Write p r = ((n, None), r') \<Longrightarrow>
    n = length p \<and> rw_body r' = rw_body r @ p \<and> rw_header r' = rw_header r \<and>
    rw_sent r' = (case rw_sent r of None \<Rightarrow> Some (200, rw_header r) | Some x \<Rightarrow> Some x)"
  by (auto simp: rw_Write_def rw_WriteHeader_def Let_def split: list.splits fault.splits)

section \<open>Requests\<close>

text \<open>An incoming request (\<open>rq_TLS\<close>: whether \<open>r.TLS\<close> is set) and an outgoing one.\<close>

record request =
  rq_Method :: string
  rq_URL :: url
  rq_Host :: string
  rq_TLS :: bool
  rq_Header :: header
  rq_Body :: bytes

record response =
  StatusCode :: nat
  rs_Header :: header
  rs_Body :: reader

text \<open>
  \<open>http.NewRequest(method, url, body)\<close>: the empty method is GET, the URL is parsed and loses an
  empty port.
\<close>

definition removeEmptyPort :: "string \<Rightarrow> string" where
  "removeEmptyPort h =
     (case str_cut_last (CHR '':'') h of Some (a, []) \<Rightarrow> a | _ \<Rightarrow> h)"

definition http_NewRequest :: "string \<Rightarrow> string \<Rightarrow> bytes \<Rightarrow> request res" where
  "http_NewRequest meth ustr body =
     (let m = (if meth = [] then ''GET'' else meth) in
      if \<not> list_all is_token_char m then Err (Errorf ''net/http: invalid method'' [])
      else
        (case url_Parse ustr of
           Err e \<Rightarrow> Err e
         | Panic p \<Rightarrow> Panic p
         | Ok u \<Rightarrow>
             (let u2 = u\<lparr>Host := removeEmptyPort (Host u)\<rparr> in
              Ok \<lparr>rq_Method = m, rq_URL = u2, rq_Host = Host u2, rq_TLS = False, rq_Header = [], rq_Body = body\<rparr>)))"

section \<open>Clients\<close>

text \<open>
  \<open>client.Head\<close>, \<open>client.Get\<close> and \<open>client.Post\<close> make a request and pass it to \<open>client.Do\<close>, the parameter
  \<open>do_req\<close> over the state of the network.
\<close>

definition client_request :: "(request \<Rightarrow> 'n \<Rightarrow> response res \<times> 'n) \<Rightarrow> string \<Rightarrow> string \<Rightarrow> (string \<times> string) list \<Rightarrow> bytes
    \<Rightarrow> 'n \<Rightarrow> response res \<times> 'n" where
  "client_request do_req meth u hs body n =
     (case http_NewRequest meth u body of
        Err e \<Rightarrow> (Err e, n)
      | Panic p \<Rightarrow> (Panic p, n)
      | Ok q \<Rightarrow> do_req (q\<lparr>rq_Header := fold (\<lambda>(k, v). hdr_Set k v) hs (rq_Header q)\<rparr>) n)"

definition client_Head :: "(request \<Rightarrow> 'n \<Rightarrow> response res \<times> 'n) \<Rightarrow> string \<Rightarrow> 'n \<Rightarrow> response res \<times> 'n" where
  "client_Head do_req u n = client_request do_req ''HEAD'' u [] [] n"

definition client_Get :: "(request \<Rightarrow> 'n \<Rightarrow> response res \<times> 'n) \<Rightarrow> string \<Rightarrow> 'n \<Rightarrow> response res \<times> 'n" where
  "client_Get do_req u n = client_request do_req ''GET'' u [] [] n"

definition client_Post :: "(request \<Rightarrow> 'n \<Rightarrow> response res \<times> 'n) \<Rightarrow> string \<Rightarrow> string \<Rightarrow> bytes \<Rightarrow> 'n \<Rightarrow> response res \<times> 'n" where
  "client_Post do_req u ctype body n = client_request do_req ''POST'' u [(''Content-Type'', ctype)] body n"

end
