(* ===== verification/Listener.thy ===== *)
theory Listener
  imports DirectoryStore Lockfile Http
begin

text \<open>
  The request handler of the proxy (htvend/flags_listener.go): serving a URL from the manifest and the
  blob store, or fetching it, storing the body and recording it in the manifest. It is written against
  the \<open>Store\<close> record and proved in the context of the locale \<open>blob_store\<close>; the theorems at the end are
  about the directory store.

  The network is the parameter \<open>do\<close> (\<open>client.Do\<close>) over a state of its own. Here one call of the handler is one
  function; \<open>ServerThreads\<close> takes it apart into the steps that interleave with those of other requests.
\<close>

section \<open>State\<close>

text \<open>
  \<open>listenerCtx\<close> without the manifest, which is part of the changing state: the manifest, the world of
  the blob store, the network and the counter of missing assets.
\<close>

record listenerCtx =
  FetchIfMissing :: bool
  FailIfMissing :: bool
  DummyOK :: "MultiRegexMatcher option"
  HeadersToCache :: "(string, bool) gomap"

record ('h, 'w, 'n) srv =
  sv_assets :: "'h File"
  sv_blobs :: 'w
  sv_net :: 'n
  sv_missing :: nat

section \<open>Handling a request\<close>

definition extractReqFromURL :: "request \<Rightarrow> url" where
  "extractReqFromURL r =
     url_zero\<lparr>Scheme := (if \<not> rq_TLS r then ''http'' else ''https''), Host := rq_Host r,
       Path := Path (rq_URL r), RawQuery := RawQuery (rq_URL r), Fragment := Fragment (rq_URL r)\<rparr>"

text \<open>The values of a header come from the network and are never an empty list there.\<close>

fun filter_headers :: "(string, bool) gomap \<Rightarrow> header \<Rightarrow> (string, string) gomap \<Rightarrow> (string, string) gomap res" where
  "filter_headers desired [] rv = Ok rv"
| "filter_headers desired ((k, vs) # hs) rv =
     (if gm_flag desired k then
        (case vs of
           [] \<Rightarrow> Panic ''index out of range''
         | v # _ \<Rightarrow>
             (case gm_put k v rv of
                Ok rv2 \<Rightarrow> filter_headers desired hs rv2 | Err e \<Rightarrow> Err e | Panic p \<Rightarrow> Panic p))
      else filter_headers desired hs rv)"

definition filterHeaders :: "(string, bool) gomap \<Rightarrow> header \<Rightarrow> (string, string) gomap res" where
  "filterHeaders desired actual = filter_headers desired actual gm_make"

definition serveFoundBlob :: "('w, 'b) Store \<Rightarrow> BlobInfo \<Rightarrow> rw \<Rightarrow> 'w \<Rightarrow> unit res \<times> rw \<times> 'w" where
  "serveFoundBlob st bi r w =
     (case hex_decode (Sha256 bi) of
        Err e \<Rightarrow> (Err (wrap ''bad hex key'' e), r, w)
      | Panic p \<Rightarrow> (Panic p, r, w)
      | Ok k \<Rightarrow>
          (case Store_Get st k w of
             (Err e, w1) \<Rightarrow> (Err (wrap ''error opening blob'' e), r, w1)
           | (Panic p, w1) \<Rightarrow> (Panic p, r, w1)
           | (Ok br, w1) \<Rightarrow>
               (let r1 = r\<lparr>rw_header := fold (\<lambda>(k, v) h. hdr_Set k v h) (gm_entries (Headers bi)) (rw_header r)\<rparr>
                in case io_Copy rw_Write (rd_chunks br) (rd_err br) r1 of
                     (e, r2) \<Rightarrow> (defer_err (of_err e) (rd_close br), r2, w1))))"

text \<open>Copying the response: to the client and the blob at once, or to the blob alone.\<close>

definition tee_client :: "bytes \<Rightarrow> rw \<times> 's \<Rightarrow> (nat \<times> err option) \<times> rw \<times> 's" where
  "tee_client p = (\<lambda>(r, s). case rw_Write p r of (x, r1) \<Rightarrow> (x, r1, s))"

definition tee_blob :: "('w, 'b) Store \<Rightarrow> bytes \<Rightarrow> rw \<times> 'b \<times> 'w \<Rightarrow> (nat \<times> err option) \<times> rw \<times> 'b \<times> 'w" where
  "tee_blob st p = (\<lambda>(r, s). case blob_write st p s of (x, s1) \<Rightarrow> (x, r, s1))"

definition copy_response :: "('w, 'b) Store \<Rightarrow> reader \<Rightarrow> rw option \<Rightarrow> 'b \<Rightarrow> 'w \<Rightarrow> unit res \<times> rw option \<times> 'b \<times> 'w" where
  "copy_response st body wr b w =
     (case wr of
        Some r \<Rightarrow>
          (case io_CopyTee tee_client (tee_blob st) (rd_chunks body) (rd_err body) (r, b, w) of
             (e, r1, b1, w1) \<Rightarrow> (of_err (wrap_opt ''error copying response via tee'' e), Some r1, b1, w1))
      | None \<Rightarrow>
          (case io_Copy (blob_write st) (rd_chunks body) (rd_err body) (b, w) of
             (e, b1, w1) \<Rightarrow> (of_err (wrap_opt ''error copying response direct to CAF'' e), None, b1, w1)))"

text \<open>From the copy to \<open>AddBlob\<close>, between \<open>Put\<close> and the deferred \<open>Cleanup\<close>.\<close>

definition store_response :: "('w, 'b) Store \<Rightarrow> url \<Rightarrow> (string, bool) gomap \<Rightarrow> response \<Rightarrow> rw option \<Rightarrow> 'b
    \<Rightarrow> 'h File \<Rightarrow> 'w \<Rightarrow> unit res \<times> rw option \<times> 'b \<times> 'h File \<times> 'w" where
  "store_response st u hdrsToCache resp wr b f w =
     (case copy_response st (rs_Body resp) wr b w of
        (Err e, wr1, b1, w1) \<Rightarrow> (Err e, wr1, b1, f, w1)
      | (Panic p, wr1, b1, w1) \<Rightarrow> (Panic p, wr1, b1, f, w1)
      | (Ok _, wr1, b1, w1) \<Rightarrow>
          (case Blob_Commit st b1 w1 of
             (Err e, b2, w2) \<Rightarrow> (Err (wrap ''error committing blob'' e), wr1, b2, f, w2)
           | (Panic p, b2, w2) \<Rightarrow> (Panic p, wr1, b2, f, w2)
           | (Ok digest, b2, w2) \<Rightarrow>
               (case filterHeaders hdrsToCache (rs_Header resp) of
                  Err e \<Rightarrow> (Err e, wr1, b2, f, w2)
                | Panic p \<Rightarrow> (Panic p, wr1, b2, f, w2)
                | Ok hs \<Rightarrow>
                    (case AddBlob u \<lparr>Sha256 = hex_encode digest, Headers = hs\<rparr> f of
                       (r, f1) \<Rightarrow> (wrap_res ''error updating asset file'' r, wr1, b2, f1, w2)))))"

text \<open>\<open>fetchAndSaveBlob\<close> once there is a response: everything before the deferred \<open>resp.Body.Close\<close>.\<close>

definition handle_response :: "('w, 'b) Store \<Rightarrow> url \<Rightarrow> (string, bool) gomap \<Rightarrow> response \<Rightarrow> rw option
    \<Rightarrow> ('h, 'w, 'n) srv \<Rightarrow> unit res \<times> rw option \<times> ('h, 'w, 'n) srv" where
  "handle_response st u hdrsToCache resp wr s =
     (let wr1 = map_option (\<lambda>r. rw_WriteHeader (StatusCode resp) (r\<lparr>rw_header := hdr_add_all (rs_Header resp) (rw_header r)\<rparr>)) wr
      in if SkipSave u (sv_assets s) \<or> StatusCode resp \<noteq> 200 then
           (case wr1 of
              None \<Rightarrow> (Ok (), None, s)
            | Some r \<Rightarrow>
                (case io_Copy rw_Write (rd_chunks (rs_Body resp)) (rd_err (rs_Body resp)) r of
                   (e, r1) \<Rightarrow> (of_err e, Some r1, s)))
         else
           (case Store_Put st (sv_blobs s) of
              (Err e, w1) \<Rightarrow> (Err (wrap ''error creating caf to put'' e), wr1, s\<lparr>sv_blobs := w1\<rparr>)
            | (Panic p, w1) \<Rightarrow> (Panic p, wr1, s\<lparr>sv_blobs := w1\<rparr>)
            | (Ok b, w1) \<Rightarrow>
                (case store_response st u hdrsToCache resp wr1 b (sv_assets s) w1 of
                   (r, wr2, b2, f2, w2) \<Rightarrow>
                     (case Blob_Cleanup st b2 w2 of
                        (e, b3, w3) \<Rightarrow> (defer_err r e, wr2, s\<lparr>sv_assets := f2, sv_blobs := w3\<rparr>)))))"

definition fetchAndSaveBlob :: "('w, 'b) Store \<Rightarrow> (request \<Rightarrow> 'n \<Rightarrow> response res \<times> 'n) \<Rightarrow> string \<Rightarrow> bytes \<Rightarrow> url
    \<Rightarrow> (string, bool) gomap \<Rightarrow> (request \<Rightarrow> request res) option \<Rightarrow> rw option
    \<Rightarrow> ('h, 'w, 'n) srv \<Rightarrow> unit res \<times> rw option \<times> ('h, 'w, 'n) srv" where
  "fetchAndSaveBlob st do_req meth body u hdrsToCache preprocess wr s =
     (case http_NewRequest meth (url_String u) body of
        Err e \<Rightarrow> (Err (wrap ''error making request object'' e), wr, s)
      | Panic p \<Rightarrow> (Panic p, wr, s)
      | Ok rq \<Rightarrow>
          (case (case preprocess of None \<Rightarrow> Ok rq | Some f \<Rightarrow> f rq) of
             Err e \<Rightarrow> (Err (wrap ''error preprocessing request'' e), wr, s)
           | Panic p \<Rightarrow> (Panic p, wr, s)
           | Ok rq2 \<Rightarrow>
               (case do_req rq2 (sv_net s) of
                  (Err e, n) \<Rightarrow> (Err (wrap ''error performing request'' e), wr, s\<lparr>sv_net := n\<rparr>)
                | (Panic p, n) \<Rightarrow> (Panic p, wr, s\<lparr>sv_net := n\<rparr>)
                | (Ok resp, n) \<Rightarrow>
                    (case handle_response st u hdrsToCache resp wr (s\<lparr>sv_net := n\<rparr>) of
                       (r, wr1, s1) \<Rightarrow>
                         (defer_err r (wrap_opt ''error closing response'' (rd_close (rs_Body resp))), wr1, s1)))))"

definition forward_headers :: "header \<Rightarrow> request \<Rightarrow> request res" where
  "forward_headers h newReq = Ok (newReq\<lparr>rq_Header := hdr_add_all h (rq_Header newReq)\<rparr>)"

definition handleMainServerRequest :: "('w, 'b) Store \<Rightarrow> (request \<Rightarrow> 'n \<Rightarrow> response res \<times> 'n) \<Rightarrow> listenerCtx
    \<Rightarrow> request \<Rightarrow> rw \<Rightarrow> ('h, 'w, 'n) srv \<Rightarrow> unit res \<times> rw \<times> ('h, 'w, 'n) srv" where
  "handleMainServerRequest st do_req lctx r w s =
     (let u = extractReqFromURL r in
      if mm_Match (DummyOK lctx) (url_Redacted u) then (Ok (), rw_WriteHeader 200 w, s)
      else
        (case GetBlob u (sv_assets s) of
           (Err e, f) \<Rightarrow> (Err (wrap ''error looking up asset'' e), w, s\<lparr>sv_assets := f\<rparr>)
         | (Panic p, f) \<Rightarrow> (Panic p, w, s\<lparr>sv_assets := f\<rparr>)
         | (Ok (Some bi), f) \<Rightarrow>
             (case serveFoundBlob st bi w (sv_blobs s) of
                (res, w1, b1) \<Rightarrow> (res, w1, s\<lparr>sv_assets := f, sv_blobs := b1\<rparr>))
         | (Ok None, f) \<Rightarrow>
             (let s1 = s\<lparr>sv_assets := f, sv_missing := sv_missing s + 1\<rparr> in
              if FetchIfMissing lctx then
                (case fetchAndSaveBlob st do_req (rq_Method r) (rq_Body r) u (HeadersToCache lctx)
                        (Some (forward_headers (rq_Header r))) (Some w) s1 of
                   (res, Some w1, s2) \<Rightarrow> (res, w1, s2)
                 | (res, None, s2) \<Rightarrow> (res, w, s2))
              else if FailIfMissing lctx then (Ok (), http_Error ''missing asset'' 404 w, s1)
              else (Err (Errorf ''missing logic path - should not have gotten here'' []), w, s1))))"

text \<open>The handler that the servers run: an error becomes a 500, a panic aborts the connection (\<open>None\<close>).\<close>

definition proxy_handler :: "('w, 'b) Store \<Rightarrow> (request \<Rightarrow> 'n \<Rightarrow> response res \<times> 'n) \<Rightarrow> listenerCtx
    \<Rightarrow> request \<Rightarrow> rw \<Rightarrow> ('h, 'w, 'n) srv \<Rightarrow> rw option \<times> ('h, 'w, 'n) srv" where
  "proxy_handler st do_req lctx r w s =
     (case handleMainServerRequest st do_req lctx r w s of
        (Ok _, w1, s1) \<Rightarrow> (Some w1, s1)
      | (Err e, w1, s1) \<Rightarrow> (Some (http_Error ''see proxy server log for details'' 500 w1), s1)
      | (Panic p, w1, s1) \<Rightarrow> (None, s1))"

text \<open>A sequence of requests, each with its own connection (\<open>fs\<close> scripts the failures of its writes).\<close>

fun serve_all :: "('w, 'b) Store \<Rightarrow> (request \<Rightarrow> 'n \<Rightarrow> response res \<times> 'n) \<Rightarrow> listenerCtx
    \<Rightarrow> (request \<times> fault list) list \<Rightarrow> ('h, 'w, 'n) srv \<Rightarrow> ('h, 'w, 'n) srv" where
  "serve_all st do_req lctx [] s = s"
| "serve_all st do_req lctx ((r, fs) # rs) s =
     serve_all st do_req lctx rs (snd (proxy_handler st do_req lctx r (rw_new fs) s))"

section \<open>Every entry of the manifest is backed by a blob\<close>

text \<open>
  An entry is backed when the store holds something under its digest. Together with content
  addressing, what the store holds there has this digest.
\<close>

definition info_backed :: "(bytes \<Rightarrow> bytes option) \<Rightarrow> BlobInfo \<Rightarrow> bool" where
  "info_backed h b \<longleftrightarrow> (\<exists>d. hex_decode (Sha256 b) = Ok d \<and> h d \<noteq> None)"

definition backed :: "(bytes \<Rightarrow> bytes option) \<Rightarrow> blobMap \<Rightarrow> bool" where
  "backed h m \<longleftrightarrow> (\<forall>k b. gm_get m k = Some b \<longrightarrow> info_backed h b)"

lemma backed_mono: "dom h \<subseteq> dom h' \<Longrightarrow> backed h m \<Longrightarrow> backed h' m"
  by (fastforce simp: backed_def info_backed_def)

lemma backed_nil [simp]: "backed h None" "backed h gm_make"
  by (auto simp: backed_def)

lemma backed_step:
  "blobs_step f c f' \<Longrightarrow> backed h (blobs f) \<Longrightarrow> backed h (previousBlobs f) \<Longrightarrow>
    (\<forall>u b. c = CAdd u b \<longrightarrow> info_backed h b) \<Longrightarrow> backed h (blobs f') \<and> backed h (previousBlobs f')"
  by (induction rule: blobs_step.induct) (auto simp: backed_def gomap_simps)

lemma filter_headers_wf: "filter_headers desired hs rv = Ok out \<Longrightarrow> gm_wf rv \<Longrightarrow> gm_wf out"
  by (induction desired hs rv rule: filter_headers.induct)
    (auto split: if_splits list.splits res.splits intro: gm_wf_put)

lemma filterHeaders_wf: "filterHeaders desired hs = Ok out \<Longrightarrow> gm_wf out"
  by (auto simp: filterHeaders_def intro: filter_headers_wf)

lemma GetBlob_step: "GetBlob u f = (r, f') \<Longrightarrow> blobs_step f (CGet u) f'"
  using run_call_step [of f "CGet u"] by simp

lemma AddBlob_step: "AddBlob u b f = (r, f') \<Longrightarrow> blobs_step f (CAdd u b) f'"
  using run_call_step [of f "CAdd u b"] by simp

lemma GetBlob_options: "GetBlob u f = (r, f') \<Longrightarrow> options f' = options f"
  using call_options(1) [of "CGet u" f] by simp

lemma AddBlob_options: "AddBlob u b f = (r, f') \<Longrightarrow> options f' = options f"
  using call_options(1) [of "CAdd u b" f] by simp

text \<open>
  The invariant of a manifest over a store: a well-formed and content-addressed store and a well-formed
  manifest. It is backed when all its entries, those of the previous run included, are.
\<close>

definition fw_inv :: "('w \<Rightarrow> bool) \<Rightarrow> ('w \<Rightarrow> bytes \<Rightarrow> bytes option) \<Rightarrow> 'h File \<Rightarrow> 'w \<Rightarrow> bool" where
  "fw_inv ok holds f w \<longleftrightarrow>
     ok w \<and> content_addressed (holds w) \<and> file_wf f"

definition file_backed :: "(bytes \<Rightarrow> bytes option) \<Rightarrow> 'h File \<Rightarrow> bool" where
  "file_backed h f \<longleftrightarrow> backed h (blobs f) \<and> backed h (previousBlobs f)"

text \<open>
  What a step may do to the rest: the store only grows, the options of the manifest stay, and so do its
  entries, unless it allows to overwrite, and a backed manifest stays backed.
\<close>

definition fw_le :: "('w \<Rightarrow> bytes \<Rightarrow> bytes option) \<Rightarrow> 'h File \<Rightarrow> 'w \<Rightarrow> 'h File \<Rightarrow> 'w \<Rightarrow> bool" where
  "fw_le holds f w f' w' \<longleftrightarrow> dom (holds w) \<subseteq> dom (holds w') \<and> options f' = options f \<and>
     (\<not> AllowOverwrite (options f) \<longrightarrow> gm_get (blobs f) \<subseteq>\<^sub>m gm_get (blobs f')) \<and>
     (file_backed (holds w) f \<longrightarrow> file_backed (holds w') f')"

definition srv_inv :: "('w \<Rightarrow> bool) \<Rightarrow> ('w \<Rightarrow> bytes \<Rightarrow> bytes option) \<Rightarrow> ('h, 'w, 'n) srv \<Rightarrow> bool" where
  "srv_inv ok holds s \<longleftrightarrow> fw_inv ok holds (sv_assets s) (sv_blobs s)"

definition srv_le :: "('w \<Rightarrow> bytes \<Rightarrow> bytes option) \<Rightarrow> ('h, 'w, 'n) srv \<Rightarrow> ('h, 'w, 'n) srv \<Rightarrow> bool" where
  "srv_le holds s s' \<longleftrightarrow> fw_le holds (sv_assets s) (sv_blobs s) (sv_assets s') (sv_blobs s')"

lemma fw_le_refl [simp]: "fw_le holds f w f w"
  by (simp add: fw_le_def)

lemma fw_le_trans: "fw_le holds f1 w1 f2 w2 \<Longrightarrow> fw_le holds f2 w2 f3 w3 \<Longrightarrow> fw_le holds f1 w1 f3 w3"
  unfolding fw_le_def using map_le_trans by (metis subset_trans)

lemma srv_le_refl [simp]: "srv_le holds s s"
  by (simp add: srv_le_def)

lemma srv_le_trans: "srv_le holds s1 s2 \<Longrightarrow> srv_le holds s2 s3 \<Longrightarrow> srv_le holds s1 s3"
  by (auto simp: srv_le_def intro: fw_le_trans)

lemma fw_world: "fw_inv ok holds f w \<Longrightarrow> ok w' \<Longrightarrow> holds w' = holds w \<Longrightarrow> fw_inv ok holds f w' \<and> fw_le holds f w f w'"
  by (simp add: fw_inv_def fw_le_def)

lemma fw_file:
  assumes "fw_inv ok holds f w" and "blobs_step f c f'" and "options f' = options f" and "call_key c \<noteq> None"
    and "\<forall>u b. c = CAdd u b \<longrightarrow> info_backed (holds w) b \<and> gm_wf (Headers b)"
  shows "fw_inv ok holds f' w \<and> fw_le holds f w f' w"
proof -
  have "call_info_wf c" using assms(5) by (cases c) auto
  then show ?thesis
    using assms backed_step [OF assms(2), of "holds w"] file_wf_step [OF assms(2)] entries_kept [OF assms(2)]
    by (auto simp: fw_inv_def fw_le_def file_backed_def)
qed

context blob_store begin

lemma tee_keeps:
  assumes "tee_blob st c s = (res, s1)" and "inv (snd (snd s)) \<and> bwf (fst (snd s)) \<and> holds (snd (snd s)) = h"
  shows "inv (snd (snd s1)) \<and> bwf (fst (snd s1)) \<and> holds (snd (snd s1)) = h"
  using assms write_keeps [of "snd (snd s)" "fst (snd s)" c res "fst (snd s1)" "snd (snd s1)"]
  by (auto simp: tee_blob_def blob_write_def split_beta)

lemma copy_response_keeps:
  assumes "copy_response st body wr b w = (r, wr1, b1, w1)" and "inv w" and "bwf b"
  shows "inv w1 \<and> bwf b1 \<and> holds w1 = holds w \<and> \<not> is_Panic r"
proof (cases wr)
  case None
  then obtain e where "io_Copy (blob_write st) (rd_chunks body) (rd_err body) (b, w) = (e, b1, w1)"
      "r = of_err (wrap_opt ''error copying response direct to CAF'' e)"
    using assms(1) by (auto simp: copy_response_def split: prod.splits)
  moreover have "inv (snd s1) \<and> bwf (fst s1) \<and> holds (snd s1) = holds w"
    if "blob_write st c s = (res, s1)" and "inv (snd s) \<and> bwf (fst s) \<and> holds (snd s) = holds w" for c s res s1
    using that write_keeps [of "snd s" "fst s" c res "fst s1" "snd s1"]
    by (auto simp: blob_write_def split_beta)
  ultimately show ?thesis
    using io_Copy_keeps [of "blob_write st" "rd_chunks body" "rd_err body" "(b, w)" e "(b1, w1)"
        "\<lambda>s. inv (snd s) \<and> bwf (fst s) \<and> holds (snd s) = holds w"] assms(2,3)
    by (cases e) auto
next
  case (Some r0)
  then obtain e r1 where cp: "io_CopyTee tee_client (tee_blob st) (rd_chunks body) (rd_err body) (r0, b, w) = (e, r1, b1, w1)"
      "r = of_err (wrap_opt ''error copying response via tee'' e)"
    using assms(1) by (auto simp: copy_response_def split: prod.splits)
  have "inv (snd (snd s1)) \<and> bwf (fst (snd s1)) \<and> holds (snd (snd s1)) = holds w"
    if "tee_client c s = (res, s1)" and "inv (snd (snd s)) \<and> bwf (fst (snd s)) \<and> holds (snd (snd s)) = holds w"
    for c res and s s1 :: "rw \<times> 'b \<times> 'w"
    using that by (auto simp: tee_client_def split: prod.splits)
  with tee_keeps show ?thesis
    using io_CopyTee_keeps [OF cp(1), of "\<lambda>s. inv (snd (snd s)) \<and> bwf (fst (snd s)) \<and> holds (snd (snd s)) = holds w"]
      assms(2,3) cp(2)
    by (cases e) auto
qed

lemma copy_response_Ok:
  assumes "copy_response st body wr b w = (Ok u, wr1, b1, w1)" and "inv w" and "bwf b" and "pending b w = Some []"
  shows "pending b1 w1 = Some (rd_content body) \<and> rd_err body = None \<and>
    (\<forall>r. wr = Some r \<longrightarrow> (\<exists>r1. wr1 = Some r1 \<and> rw_body r1 = rw_body r @ rd_content body \<and>
       (rw_sent r \<noteq> None \<longrightarrow> rw_sent r1 = rw_sent r)))"
proof (cases wr)
  case None
  then have "io_Copy (blob_write st) (rd_chunks body) (rd_err body) (b, w) = (None, b1, w1)"
    using assms(1) by (auto simp: copy_response_def res_simps split: prod.splits)
  from copy_into_blob [OF assms(2,3,4) this] show ?thesis using None by (simp add: rd_content_def)
next
  case (Some r0)
  then obtain r1 where cp: "io_CopyTee tee_client (tee_blob st) (rd_chunks body) (rd_err body) (r0, b, w) = (None, r1, b1, w1)"
      and wr1: "wr1 = Some r1"
    using assms(1) by (auto simp: copy_response_def res_simps split: prod.splits)
  let ?J = "\<lambda>d s. inv (snd (snd s)) \<and> bwf (fst (snd s)) \<and> pending (fst (snd s)) (snd (snd s)) = Some d \<and>
      rw_body (fst s) = rw_body r0 @ d \<and> (rw_sent r0 \<noteq> None \<longrightarrow> rw_sent (fst s) = rw_sent r0)"
  have step: "?J (d @ c) s2" if t: "tee_blob st c s = ((n, None), s1)" and cl: "tee_client c s1 = ((m, None), s2)"
    and J: "?J d s" for c n s s1 m s2 d
  proof -
    have k: "inv (snd (snd s1)) \<and> bwf (fst (snd s1))" using tee_keeps [OF t] J by blast
    have "Blob_Write st (fst (snd s)) c (snd (snd s)) = ((n, None), fst (snd s1), snd (snd s1))" "fst s1 = fst s"
      using t by (auto simp: tee_blob_def blob_write_def split_beta prod_eq_iff)
    then have "pending (fst (snd s1)) (snd (snd s1)) = Some (d @ c)" using write_accepts J by blast
    then show ?thesis
      using cl k J \<open>fst s1 = fst s\<close> by (auto simp: tee_client_def split: prod.splits option.splits dest!: rw_Write_None)
  qed
  have "?J ([] @ concat (rd_chunks body)) (r1, b1, w1) \<and> rd_err body = None"
    by (rule io_CopyTee_success [where J = ?J, OF cp]) (use assms(2-4) step in auto)
  then show ?thesis using Some wr1 by (simp add: rd_content_def)
qed

lemma commit_fw:
  assumes "fw_inv inv holds f w" and "bwf b" and "pending b w = Some d" and "Blob_Commit st b w = (r, b', w')"
  shows "fw_inv inv holds f w' \<and> fw_le holds f w f w' \<and> bwf b' \<and> (\<forall>k. r = Ok k \<longrightarrow> holds w' k = Some d \<and> k = sha256 d)"
proof -
  have w: "inv w" and ca: "content_addressed (holds w)" using assms(1) by (auto simp: fw_inv_def)
  have *: "inv w' \<and> bwf b' \<and> (holds w' = holds w \<or> holds w' = (holds w)(sha256 d \<mapsto> d)) \<and>
    (\<forall>k. r = Ok k \<longrightarrow> holds w' k = Some d \<and> k = sha256 d)"
  proof (cases r)
    case (Ok k)
    show ?thesis using commit_Ok [OF w assms(2,3) assms(4) [unfolded Ok]] Ok by auto
  next
    case (Err e)
    show ?thesis using commit_Err [OF w assms(2,3) assms(4) [unfolded Err]] Err by auto
  next
    case (Panic p)
    show ?thesis using commit_no_panic [OF assms(2,3)] assms(4) Panic by blast
  qed
  then have "dom (holds w) \<subseteq> dom (holds w')" by auto
  moreover have "content_addressed (holds w')"
    using commit_addressed [OF w assms(2,3,4) ca] by blast
  ultimately show ?thesis
    using assms(1) * by (auto simp: fw_inv_def fw_le_def file_backed_def intro: backed_mono)
qed

lemma store_response_keeps:
  assumes "store_response st u hc resp wr b f w = (r, wr1, b1, f1, w1)" and "fw_inv inv holds f w"
    and "bwf b" and "pending b w = Some []"
  shows "fw_inv inv holds f1 w1 \<and> fw_le holds f w f1 w1 \<and> bwf b1"
proof -
  have w: "inv w" using assms(2) by (simp add: fw_inv_def)
  obtain rc wr2 b2 w2 where cp: "copy_response st (rs_Body resp) wr b w = (rc, wr2, b2, w2)" by (metis prod_cases4)
  have k2: "inv w2" "bwf b2" "holds w2 = holds w" "\<not> is_Panic rc" using copy_response_keeps [OF cp w assms(3)] by auto
  have fw2: "fw_inv inv holds f w2" "fw_le holds f w f w2" using fw_world [OF assms(2) k2(1,3)] by auto
  show ?thesis
  proof (cases rc)
    case (Ok x)
    then have p: "pending b2 w2 = Some (rd_content (rs_Body resp))"
      using copy_response_Ok [OF cp [unfolded Ok] w assms(3,4)] by blast
    obtain rk b3 w3 where cm: "Blob_Commit st b2 w2 = (rk, b3, w3)" by (metis prod_cases3)
    note c = commit_fw [OF fw2(1) k2(2) p cm]
    have le3: "fw_le holds f w f w3" using c fw_le_trans [OF fw2(2), of f w3] by auto
    show ?thesis
    proof (cases "\<exists>k hs. rk = Ok k \<and> filterHeaders hc (rs_Header resp) = Ok hs")
      case True
      then obtain k hs where kh: "rk = Ok k" "filterHeaders hc (rs_Header resp) = Ok hs" by blast
      obtain ra fa where ad: "AddBlob u \<lparr>Sha256 = hex_encode k, Headers = hs\<rparr> f = (ra, fa)" by (metis surj_pair)
      have "info_backed (holds w3) \<lparr>Sha256 = hex_encode k, Headers = hs\<rparr>"
        using c kh(1) by (auto simp: info_backed_def hex_decode_encode)
      then have "fw_inv inv holds fa w3 \<and> fw_le holds f w3 fa w3"
        by (intro fw_file [OF _ AddBlob_step [OF ad] AddBlob_options [OF ad]])
          (use c filterHeaders_wf [OF kh(2)] in auto)
      moreover have "b1 = b3" "f1 = fa" "w1 = w3"
        using assms(1) cp Ok cm kh ad by (auto simp: store_response_def)
      ultimately show ?thesis using c fw_le_trans [OF le3, of fa w3] by auto
    next
      case False
      then have "b1 = b3 \<and> f1 = f \<and> w1 = w3"
        using assms(1) cp Ok cm by (auto simp: store_response_def split: res.splits prod.splits)
      then show ?thesis using c le3 by simp
    qed
  next
    case (Err e)
    then show ?thesis using assms(1) cp fw2 k2 by (auto simp: store_response_def)
  next
    case (Panic p)
    then show ?thesis using k2 by simp
  qed
qed

lemma handle_response_keeps:
  assumes "handle_response st u hc resp wr s = (r, wr1, s1)" and "srv_inv inv holds s"
  shows "srv_inv inv holds s1 \<and> srv_le holds s s1"
proof (cases "SkipSave u (sv_assets s) \<or> StatusCode resp \<noteq> 200")
  case True
  then have "s1 = s"
    using assms(1) by (auto simp: handle_response_def Let_def split: option.splits prod.splits)
  then show ?thesis using assms(2) by simp
next
  case False
  obtain rp w1 where pt: "Store_Put st (sv_blobs s) = (rp, w1)" by (metis surj_pair)
  have fw: "fw_inv inv holds (sv_assets s) (sv_blobs s)" and iw: "inv (sv_blobs s)"
    using assms(2) by (auto simp: srv_inv_def fw_inv_def)
  have k1: "inv w1" "holds w1 = holds (sv_blobs s)" using put_keeps [OF iw pt] by auto
  have fw1: "fw_inv inv holds (sv_assets s) w1" "fw_le holds (sv_assets s) (sv_blobs s) (sv_assets s) w1"
    using fw_world [OF fw k1] by auto
  show ?thesis
  proof (cases rp)
    case (Ok b)
    define wr0 where "wr0 = map_option (\<lambda>r. rw_WriteHeader (StatusCode resp) (r\<lparr>rw_header := hdr_add_all (rs_Header resp) (rw_header r)\<rparr>)) wr"
    have b: "bwf b" "pending b w1 = Some []" using put_fresh [OF iw] pt Ok by auto
    obtain rs wr2 b2 f2 w2 where sr: "store_response st u hc resp wr0 b (sv_assets s) w1 = (rs, wr2, b2, f2, w2)"
      by (metis prod_cases5)
    obtain e b3 w3 where cl: "Blob_Cleanup st b2 w2 = (e, b3, w3)" by (metis prod_cases3)
    note k = store_response_keeps [OF sr fw1(1) b]
    have fw2: "fw_inv inv holds f2 w2" and "bwf b2" using k by auto
    then have "inv w3" "holds w3 = holds w2" using cleanup_keeps [OF _ _ cl] by (auto simp: fw_inv_def)
    then have "fw_inv inv holds f2 w3 \<and> fw_le holds f2 w2 f2 w3" by (rule fw_world [OF fw2])
    moreover have "s1 = s\<lparr>sv_assets := f2, sv_blobs := w3\<rparr>"
      using assms(1) False pt Ok sr cl by (auto simp: handle_response_def wr0_def)
    moreover have "fw_le holds (sv_assets s) (sv_blobs s) f2 w2" using k fw_le_trans [OF fw1(2)] by auto
    ultimately show ?thesis
      using fw_le_trans [of holds "sv_assets s" "sv_blobs s" f2 w2 f2 w3] by (simp add: srv_inv_def srv_le_def)
  next
    case (Err e)
    then show ?thesis using assms(1) False pt fw1 by (auto simp: handle_response_def srv_inv_def srv_le_def)
  next
    case (Panic p)
    then show ?thesis using put_no_panic pt by blast
  qed
qed

lemma srv_inv_net [simp]: "srv_inv ok h (s\<lparr>sv_net := n\<rparr>) = srv_inv ok h s" "srv_le h s' (s\<lparr>sv_net := n\<rparr>) = srv_le h s' s"
  "srv_le h (s\<lparr>sv_net := n\<rparr>) s' = srv_le h s s'"
  by (simp_all add: srv_inv_def srv_le_def)

lemma fetchAndSaveBlob_keeps:
  assumes "fetchAndSaveBlob st do_req meth body u hc pre wr s = (r, wr1, s1)" and "srv_inv inv holds s"
  shows "srv_inv inv holds s1 \<and> srv_le holds s s1"
  using assms handle_response_keeps [of u hc _ wr "s\<lparr>sv_net := _\<rparr>"]
  by (fastforce simp: fetchAndSaveBlob_def split: res.splits prod.splits option.splits)

lemma handle_keeps:
  assumes "handleMainServerRequest st do_req lctx rq w s = (r, w1, s1)" and "srv_inv inv holds s"
  shows "srv_inv inv holds s1 \<and> srv_le holds s s1"
proof (cases "mm_Match (DummyOK lctx) (url_Redacted (extractReqFromURL rq))")
  case True
  then show ?thesis using assms by (simp add: handleMainServerRequest_def Let_def)
next
  case False
  let ?u = "extractReqFromURL rq"
  obtain g f where g: "GetBlob ?u (sv_assets s) = (g, f)" by (metis surj_pair)
  have fw: "fw_inv inv holds f (sv_blobs s) \<and> fw_le holds (sv_assets s) (sv_blobs s) f (sv_blobs s)"
    by (rule fw_file [OF _ GetBlob_step [OF g] GetBlob_options [OF g]]) (use assms(2) in \<open>auto simp: srv_inv_def\<close>)
  then have iw: "inv (sv_blobs s)" by (simp add: fw_inv_def)
  show ?thesis
  proof (cases "\<exists>bi. g = Ok (Some bi)")
    case True
    then obtain bi where bi: "g = Ok (Some bi)" by blast
    obtain res w2 b1 where sf: "serveFoundBlob st bi w (sv_blobs s) = (res, w2, b1)" by (metis prod_cases3)
    then have b1: "inv b1" "holds b1 = holds (sv_blobs s)"
      using get_keeps [OF iw] iw
      by (auto simp: serveFoundBlob_def Let_def split: res.splits prod.splits)
    have "fw_inv inv holds f b1 \<and> fw_le holds f (sv_blobs s) f b1" using fw fw_world [of inv holds f "sv_blobs s" b1] b1 by auto
    moreover have "s1 = s\<lparr>sv_assets := f, sv_blobs := b1\<rparr>"
      using assms(1) False g bi sf by (simp add: handleMainServerRequest_def Let_def)
    ultimately show ?thesis
      using fw fw_le_trans [of holds "sv_assets s" "sv_blobs s" f "sv_blobs s" f b1] by (simp add: srv_inv_def srv_le_def)
  next
    case nf: False
    let ?s = "s\<lparr>sv_assets := f, sv_missing := sv_missing s + 1\<rparr>"
    have s: "srv_inv inv holds ?s" "srv_le holds s ?s" using fw by (auto simp: srv_inv_def srv_le_def)
    show ?thesis
    proof (cases "g = Ok None \<and> FetchIfMissing lctx")
      case True
      obtain rr wr s2 where ft: "fetchAndSaveBlob st do_req (rq_Method rq) (rq_Body rq) ?u (HeadersToCache lctx)
          (Some (forward_headers (rq_Header rq))) (Some w) ?s = (rr, wr, s2)" by (metis prod_cases3)
      then have "s1 = s2"
        using assms(1) False g True by (auto simp: handleMainServerRequest_def Let_def split: option.splits)
      then show ?thesis using fetchAndSaveBlob_keeps [OF ft s(1)] srv_le_trans [OF s(2), of s2] by auto
    next
      case no: False
      then have "s1 = ?s \<or> s1 = s\<lparr>sv_assets := f\<rparr>"
        using assms(1) False g nf
        by (cases g; cases "the (case g of Ok x \<Rightarrow> Some x | _ \<Rightarrow> None)")
          (auto simp: handleMainServerRequest_def Let_def split: if_splits option.splits)
      then show ?thesis using fw s by (auto simp: srv_inv_def srv_le_def)
    qed
  qed
qed

lemma proxy_keeps:
  assumes "srv_inv inv holds s"
  shows "srv_inv inv holds (snd (proxy_handler st do_req lctx rq w s)) \<and> srv_le holds s (snd (proxy_handler st do_req lctx rq w s))"
  using handle_keeps [OF _ assms, of do_req lctx rq w] by (auto simp: proxy_handler_def split: prod.splits res.splits)

lemma serve_all_keeps:
  "srv_inv inv holds s \<Longrightarrow> srv_inv inv holds (serve_all st do_req lctx rs s) \<and> srv_le holds s (serve_all st do_req lctx rs s)"
proof (induction rs arbitrary: s)
  case (Cons r rs)
  obtain rq fs where r: "r = (rq, fs)" by (metis surj_pair)
  let ?s = "snd (proxy_handler st do_req lctx rq (rw_new fs) s)"
  have "srv_inv inv holds ?s" and le: "srv_le holds s ?s" using proxy_keeps [OF Cons.prems] by auto
  from Cons.IH [OF this(1)] show ?case
    using srv_le_trans [OF le, of "serve_all st do_req lctx rs ?s"] by (simp add: r)
qed simp

end

section \<open>What a request does\<close>

text \<open>The response as it reaches the client: its status line and headers, once sent.\<close>

lemma rw_WriteHeader_sent: "rw_sent r = None \<Longrightarrow> rw_sent (rw_WriteHeader c r) = Some (c, rw_header r)"
  "rw_body (rw_WriteHeader c r) = rw_body r"
  by (auto simp: rw_WriteHeader_def)

lemma io_Copy_rw:
  assumes "io_Copy rw_Write cs e r = (None, r')"
  shows "e = None \<and> rw_body r' = rw_body r @ concat cs \<and> rw_header r' = rw_header r \<and>
    (rw_sent r' = rw_sent r \<or> rw_sent r = None \<and> rw_sent r' = Some (200, rw_header r))"
proof -
  let ?J = "\<lambda>d s. rw_body s = rw_body r @ d \<and> rw_header s = rw_header r \<and>
    (rw_sent s = rw_sent r \<or> rw_sent r = None \<and> rw_sent s = Some (200, rw_header r))"
  have "?J ([] @ concat cs) r' \<and> e = None"
    by (rule io_Copy_success [where J = ?J, OF assms]) (auto dest!: rw_Write_None split: option.splits)
  then show ?thesis by auto
qed

lemma serve_result:
  assumes "io_Copy rw_Write cs e r = (None, r')" and "rw_sent r = None" and "rw_body r = []"
  shows "rw_result r' = (200, rw_header r, concat cs)"
  using io_Copy_rw [OF assms(1)] assms(2,3) by (auto simp: rw_result_def split: option.splits)

lemma AddBlob_new:
  assumes "AddBlob u info f = (Ok x, f')" and "\<not> SkipSave u f" and "gm_get (blobs f) (url_Redacted u) = None"
  shows "gm_get (blobs f') (url_Redacted u) = Some info"
  using assms by (auto simp: AddBlob_def SkipSave_def internalAddBlob_def gomap_simps split: res.splits prod.splits)

context blob_store begin

lemma serveFoundBlob_Ok:
  assumes "serveFoundBlob st bi (rw_new fs) w = (Ok x, w1, wd1)" and "inv w"
  shows "\<exists>d c. hex_decode (Sha256 bi) = Ok d \<and> holds w d = Some c \<and>
    rw_result w1 = (200, fold (\<lambda>(k, v) h. hdr_Set k v h) (gm_entries (Headers bi)) [], c)"
proof -
  obtain d br e where d: "hex_decode (Sha256 bi) = Ok d" and g: "Store_Get st d w = (Ok br, wd1)"
    and cp: "io_Copy rw_Write (rd_chunks br) (rd_err br)
      (rw_new fs\<lparr>rw_header := fold (\<lambda>(k, v) h. hdr_Set k v h) (gm_entries (Headers bi)) []\<rparr>) = (e, w1)"
    and r: "defer_err (of_err e) (rd_close br) = Ok x"
    using assms(1) by (auto simp: serveFoundBlob_def Let_def rw_new_def split: res.splits prod.splits)
  have e: "e = None" using r by (simp add: res_simps)
  have "rd_err br = None" using io_Copy_rw [OF cp [unfolded e]] by simp
  then have "holds w d = Some (rd_content br)" by (rule get_content [OF assms(2) g])
  then show ?thesis
    using d serve_result [OF cp [unfolded e]] by (auto simp: rw_new_def rd_content_def)
qed

text \<open>A fetch with a response that is to be stored: the client and the store get the same bytes.\<close>

lemma store_response_Ok:
  assumes "store_response st u hc resp (Some r0) b f w = (Ok x, wr1, b1, f1, w1)" and "fw_inv inv holds f w"
    and "bwf b" and "pending b w = Some []" and "\<not> SkipSave u f" and "gm_get (blobs f) (url_Redacted u) = None"
    and "rw_sent r0 = Some y" and "rw_body r0 = []"
  shows "\<exists>r1 hs. wr1 = Some r1 \<and> rw_body r1 = rd_content (rs_Body resp) \<and> rw_sent r1 = Some y \<and>
    filterHeaders hc (rs_Header resp) = Ok hs \<and>
    gm_get (blobs f1) (url_Redacted u) = Some \<lparr>Sha256 = hex_encode (sha256 (rd_content (rs_Body resp))), Headers = hs\<rparr> \<and>
    holds w1 (sha256 (rd_content (rs_Body resp))) = Some (rd_content (rs_Body resp))"
proof -
  have w: "inv w" using assms(2) by (simp add: fw_inv_def)
  obtain x2 b2 w2 digest b3 hs where cp: "copy_response st (rs_Body resp) (Some r0) b w = (Ok x2, wr1, b2, w2)"
    and cm: "Blob_Commit st b2 w2 = (Ok digest, b3, w1)" and hs: "filterHeaders hc (rs_Header resp) = Ok hs"
    and ad: "AddBlob u \<lparr>Sha256 = hex_encode digest, Headers = hs\<rparr> f = (Ok x, f1)"
    using assms(1) by (auto simp: store_response_def res_simps split: res.splits prod.splits)
  note k = copy_response_keeps [OF cp w assms(3)] and p = copy_response_Ok [OF cp w assms(3,4)]
  obtain r1 where r1: "wr1 = Some r1" "rw_body r1 = rd_content (rs_Body resp)" "rw_sent r1 = Some y"
    using p assms(7,8) by fastforce
  have "digest = sha256 (rd_content (rs_Body resp))" "holds w1 digest = Some (rd_content (rs_Body resp))"
    using commit_Ok [of w2 b2 "rd_content (rs_Body resp)" digest b3 w1] cm k p by simp_all
  then show ?thesis using r1 hs AddBlob_new [OF ad assms(5,6)] by auto
qed

lemma handle_response_stored:
  assumes "handle_response st u hc resp (Some (rw_new fs)) s = (Ok x, wr1, s1)" and "srv_inv inv holds s"
    and "\<not> SkipSave u (sv_assets s)" and "StatusCode resp = 200"
    and "gm_get (blobs (sv_assets s)) (url_Redacted u) = None"
  shows "\<exists>r1 hs. wr1 = Some r1 \<and> rw_result r1 = (200, hdr_add_all (rs_Header resp) [], rd_content (rs_Body resp)) \<and>
    filterHeaders hc (rs_Header resp) = Ok hs \<and>
    gm_get (blobs (sv_assets s1)) (url_Redacted u)
      = Some \<lparr>Sha256 = hex_encode (sha256 (rd_content (rs_Body resp))), Headers = hs\<rparr> \<and>
    holds (sv_blobs s1) (sha256 (rd_content (rs_Body resp))) = Some (rd_content (rs_Body resp))"
proof -
  define r0 where "r0 = rw_WriteHeader 200 ((rw_new fs)\<lparr>rw_header := hdr_add_all (rs_Header resp) []\<rparr>)"
  have r0: "rw_sent r0 = Some (200, hdr_add_all (rs_Header resp) [])" "rw_body r0 = []"
    by (simp_all add: r0_def rw_WriteHeader_def rw_new_def)
  have fw: "fw_inv inv holds (sv_assets s) (sv_blobs s)" and iw: "inv (sv_blobs s)"
    using assms(2) by (auto simp: srv_inv_def fw_inv_def)
  have "rw_header (rw_new fs) = []" by (simp add: rw_new_def)
  then obtain b w1 b2 f2 w2 e b3 w3 where pt: "Store_Put st (sv_blobs s) = (Ok b, w1)"
    and sr: "store_response st u hc resp (Some r0) b (sv_assets s) w1 = (Ok x, wr1, b2, f2, w2)"
    and cl: "Blob_Cleanup st b2 w2 = (e, b3, w3)" and s1: "s1 = s\<lparr>sv_assets := f2, sv_blobs := w3\<rparr>"
    using assms(1,3,4)
    by (auto simp: handle_response_def Let_def r0_def [symmetric] res_simps split: res.splits prod.splits)
  have k1: "inv w1" "holds w1 = holds (sv_blobs s)" using put_keeps [OF iw pt] by auto
  have b: "bwf b" "pending b w1 = Some []" using put_fresh [OF iw pt] by auto
  have fw1: "fw_inv inv holds (sv_assets s) w1" using fw_world [OF fw k1] by auto
  obtain r1 hs where "wr1 = Some r1" "rw_body r1 = rd_content (rs_Body resp)" "rw_sent r1 = rw_sent r0"
      "filterHeaders hc (rs_Header resp) = Ok hs"
      "gm_get (blobs f2) (url_Redacted u) = Some \<lparr>Sha256 = hex_encode (sha256 (rd_content (rs_Body resp))), Headers = hs\<rparr>"
      "holds w2 (sha256 (rd_content (rs_Body resp))) = Some (rd_content (rs_Body resp))"
    using store_response_Ok [OF sr fw1 b assms(3,5) r0] r0 by auto
  moreover have "inv w2" "bwf b2" using store_response_keeps [OF sr fw1 b] by (auto simp: fw_inv_def)
  then have "holds w3 = holds w2" using cleanup_keeps [OF _ _ cl] by blast
  ultimately show ?thesis using r0 s1 by (auto simp: rw_result_def)
qed

end

section \<open>Headers\<close>

text \<open>
  The headers of a response as \<open>net/http\<close> delivers them: canonical keys, each once, with at least one
  value.
\<close>

definition hdr_ok :: "header \<Rightarrow> bool" where
  "hdr_ok h \<longleftrightarrow> distinct (map fst h) \<and> list_all (\<lambda>(k, vs). CanonicalMIMEHeaderKey k = k \<and> vs \<noteq> []) h"

definition net_headers_ok :: "(request \<Rightarrow> 'n \<Rightarrow> response res \<times> 'n) \<Rightarrow> bool" where
  "net_headers_ok do_req \<longleftrightarrow> (\<forall>q n resp n'. do_req q n = (Ok resp, n') \<longrightarrow> hdr_ok (rs_Header resp))"

lemma fold_add:
  "CanonicalMIMEHeaderKey k = k \<Longrightarrow> map_of (fold (hdr_Add k) vs d) =
    (if vs = [] then map_of d else (map_of d)(k \<mapsto> hdr_values d k @ vs))"
proof (induction vs arbitrary: d)
  case (Cons v vs)
  have "map_of (hdr_Add k v d) = (map_of d)(k \<mapsto> hdr_values d k @ [v])"
    using Cons.prems by (simp add: hdr_Add_def update_conv')
  moreover from this have "hdr_values (hdr_Add k v d) k = hdr_values d k @ [v]"
    by (simp add: hdr_values_def)
  ultimately show ?case using Cons by (auto simp: fun_eq_iff)
qed simp

lemma hdr_add_all_get_aux:
  "hdr_ok h \<Longrightarrow> \<forall>k \<in> fst ` set h. map_of d k = None \<Longrightarrow> map_of (hdr_add_all h d) = map_of d ++ map_of h"
proof (induction h arbitrary: d)
  case (Cons kv h)
  obtain k vs where kv: "kv = (k, vs)" by (metis surj_pair)
  have k: "CanonicalMIMEHeaderKey k = k" "vs \<noteq> []" "k \<notin> fst ` set h" "hdr_ok h"
    using Cons.prems(1) kv by (auto simp: hdr_ok_def)
  have "hdr_values d k = []" using Cons.prems(2) kv by (simp add: hdr_values_def)
  then have d: "map_of (fold (hdr_Add k) vs d) = (map_of d)(k \<mapsto> vs)" using k fold_add by simp
  have "map_of (hdr_add_all h (fold (hdr_Add k) vs d)) = map_of (fold (hdr_Add k) vs d) ++ map_of h"
    by (rule Cons.IH [OF k(4)]) (use Cons.prems(2) k d kv in auto)
  moreover have "map_of h k = None" using k(3) by (simp add: map_of_eq_None_iff)
  ultimately show ?case
    using d kv k(3) by (auto simp: hdr_add_all_def fun_eq_iff map_add_def split: option.split)
qed (simp add: hdr_add_all_def)

lemma hdr_add_all_get: "hdr_ok h \<Longrightarrow> hdr_values (hdr_add_all h []) k = hdr_values h k"
  using hdr_add_all_get_aux [of h "[]"] by (simp add: hdr_values_def)

lemma filter_headers_get:
  "hdr_ok h \<Longrightarrow> filter_headers desired h rv = Ok out \<Longrightarrow> \<forall>k \<in> fst ` set h. gm_get rv k = None \<Longrightarrow>
     gm_get out k = (case map_of h k of
        None \<Rightarrow> gm_get rv k
      | Some vs \<Rightarrow> if gm_flag desired k then Some (List.hd vs) else gm_get rv k)"
proof (induction desired h rv rule: filter_headers.induct)
  case (2 desired k' vs hs rv)
  have h: "hdr_ok hs" "vs \<noteq> []" "k' \<notin> fst ` set hs" using 2(3) by (auto simp: hdr_ok_def)
  then have n: "map_of hs k' = None" by (simp add: map_of_eq_None_iff)
  show ?case
  proof (cases "gm_flag desired k'")
    case True
    obtain v vs2 where v: "vs = v # vs2" using h(2) by (cases vs) auto
    then obtain rv2 where p: "gm_put k' v rv = Ok rv2" "filter_headers desired hs rv2 = Ok out"
      using 2(4) True by (auto split: res.splits)
    have "gm_get out k = (case map_of hs k of None \<Rightarrow> gm_get rv2 k
        | Some vs \<Rightarrow> if gm_flag desired k then Some (List.hd vs) else gm_get rv2 k)"
      by (rule 2(1) [OF True v p(1) h(1) p(2)]) (use 2(5) h(3) in \<open>auto simp: gm_get_put [OF p(1)]\<close>)
    then show ?thesis using n True v by (auto simp: gm_get_put [OF p(1)] split: option.splits)
  next
    case False
    have "gm_get out k = (case map_of hs k of None \<Rightarrow> gm_get rv k
        | Some vs \<Rightarrow> if gm_flag desired k then Some (List.hd vs) else gm_get rv k)"
      by (rule 2(2) [OF False h(1)]) (use 2(4,5) False in auto)
    then show ?thesis using n False by (auto split: option.splits)
  qed
qed simp

lemma filterHeaders_get:
  "hdr_ok h \<Longrightarrow> filterHeaders desired h = Ok out \<Longrightarrow>
    gm_get out k = (if gm_flag desired k then map_option List.hd (map_of h k) else None)"
  using filter_headers_get [of h desired gm_make out k] by (auto simp: filterHeaders_def split: option.splits)

lemma filter_headers_total: "hdr_ok h \<Longrightarrow> \<exists>out. filter_headers desired h (Some al) = Ok (Some out)"
proof (induction h arbitrary: al)
  case (Cons kv h)
  obtain k vs where kv: "kv = (k, vs)" by (metis surj_pair)
  have "hdr_ok h" "vs \<noteq> []" using Cons.prems kv by (auto simp: hdr_ok_def)
  then show ?case using Cons.IH kv by (auto split: list.splits)
qed simp

lemma fold_set_get:
  "distinct (map fst al) \<Longrightarrow> list_all (\<lambda>(k, v). CanonicalMIMEHeaderKey k = k) al \<Longrightarrow>
    map_of (fold (\<lambda>(k, v) h. hdr_Set k v h) al d) k =
      (case map_of al k of None \<Rightarrow> map_of d k | Some v \<Rightarrow> Some [v])"
proof (induction al arbitrary: d)
  case (Cons kv al)
  obtain k' v where kv: "kv = (k', v)" by (metis surj_pair)
  have "map_of (hdr_Set k' v d) = (map_of d)(k' \<mapsto> [v])"
    using Cons.prems kv by (simp add: hdr_Set_def update_conv')
  moreover have "map_of al k' = None" using Cons.prems kv by (simp add: map_of_eq_None_iff)
  ultimately show ?case using Cons kv by (auto split: option.splits)
qed simp

text \<open>What is served from a recorded entry has the recorded headers.\<close>

lemma served_headers:
  assumes "gm_wf hs" and "\<And>k. gm_get hs k \<noteq> None \<Longrightarrow> CanonicalMIMEHeaderKey k = k"
  shows "hdr_values (fold (\<lambda>(k, v) h. hdr_Set k v h) (gm_entries hs) []) k = (case gm_get hs k of None \<Rightarrow> [] | Some v \<Rightarrow> [v])"
proof -
  have "list_all (\<lambda>(k, v). CanonicalMIMEHeaderKey k = k) (gm_entries hs)"
    using assms(2) gm_get_mem [OF assms(1)] by (fastforce simp: list_all_iff)
  then show ?thesis
    using assms(1) fold_set_get [of "gm_entries hs" "[]" k]
    by (simp add: gm_wf_def hdr_values_def gm_get_def split: option.splits)
qed

section \<open>Building, then offline\<close>

lemma GetBlob_None: "GetBlob u f = (Ok None, f') \<Longrightarrow> f' = f \<and> (SkipSave u f \<or> gm_get (blobs f) (url_Redacted u) = None)"
  by (auto simp: GetBlob_def SkipSave_def split: if_splits option.splits res.splits prod.splits)

lemma handle_response_unstored:
  assumes "handle_response st u hc resp (Some (rw_new fs)) s = (Ok x, Some w1, s1)" and "StatusCode resp \<noteq> 200"
  shows "fst (rw_result w1) \<noteq> 200"
proof -
  define r0 where "r0 = rw_WriteHeader (StatusCode resp) ((rw_new fs)\<lparr>rw_header := hdr_add_all (rs_Header resp) []\<rparr>)"
  have r0: "rw_sent r0 = Some (StatusCode resp, hdr_add_all (rs_Header resp) [])"
    by (simp add: r0_def rw_WriteHeader_def rw_new_def)
  have "rw_header (rw_new fs) = []" by (simp add: rw_new_def)
  then obtain e where "io_Copy rw_Write (rd_chunks (rs_Body resp)) (rd_err (rs_Body resp)) r0 = (e, w1)" "of_err e = Ok x"
    using assms by (auto simp: handle_response_def Let_def r0_def [symmetric] split: prod.splits)
  then have "io_Copy rw_Write (rd_chunks (rs_Body resp)) (rd_err (rs_Body resp)) r0 = (None, w1)" by (simp add: res_simps)
  from io_Copy_rw [OF this] have "rw_sent w1 = rw_sent r0" using r0 by simp
  then show ?thesis using r0 assms(2) by (simp add: rw_result_def)
qed

context blob_store begin

lemma build_stores:
  assumes "handleMainServerRequest st do_req lctx rq (rw_new fs) s = (Ok x, w1, s1)" and "srv_inv inv holds s"
    and "\<not> mm_Match (DummyOK lctx) (url_Redacted (extractReqFromURL rq))" and "FetchIfMissing lctx"
    and "fst (GetBlob (extractReqFromURL rq) (sv_assets s)) = Ok None" and "\<not> SkipSave (extractReqFromURL rq) (sv_assets s)"
    and "rw_result w1 = (200, h1, c1)"
  shows "\<exists>rq2 resp n hs. do_req rq2 (sv_net s) = (Ok resp, n) \<and>
    h1 = hdr_add_all (rs_Header resp) [] \<and> c1 = rd_content (rs_Body resp) \<and>
    filterHeaders (HeadersToCache lctx) (rs_Header resp) = Ok hs \<and>
    gm_get (blobs (sv_assets s1)) (url_Redacted (extractReqFromURL rq)) = Some \<lparr>Sha256 = hex_encode (sha256 c1), Headers = hs\<rparr> \<and>
    holds (sv_blobs s1) (sha256 c1) = Some c1"
proof -
  let ?u = "extractReqFromURL rq"
  obtain f where g: "GetBlob ?u (sv_assets s) = (Ok None, f)" using assms(5) by (metis prod.collapse)
  note gn = GetBlob_None [OF g]
  let ?s = "s\<lparr>sv_assets := sv_assets s, sv_missing := sv_missing s + 1\<rparr>"
  have inv': "srv_inv inv holds ?s" using assms(2) by (simp add: srv_inv_def)
  have ff: "fetchAndSaveBlob st do_req (rq_Method rq) (rq_Body rq) ?u (HeadersToCache lctx)
      (Some (forward_headers (rq_Header rq))) (Some (rw_new fs)) ?s = (Ok x, Some w1, s1)
    \<or> fetchAndSaveBlob st do_req (rq_Method rq) (rq_Body rq) ?u (HeadersToCache lctx)
      (Some (forward_headers (rq_Header rq))) (Some (rw_new fs)) ?s = (Ok x, None, s1)"
    using assms(1,3,4) g gn
    by (auto simp: handleMainServerRequest_def Let_def split: prod.splits option.splits)
  then obtain wr rq2 resp n r where do_r: "do_req rq2 (sv_net s) = (Ok resp, n)"
    and hr: "handle_response st ?u (HeadersToCache lctx) resp (Some (rw_new fs)) (?s\<lparr>sv_net := n\<rparr>) = (Ok x, wr, s1)"
    and wr: "wr = Some w1 \<or> wr = None"
    by (auto simp: fetchAndSaveBlob_def res_simps split: res.splits prod.splits option.splits)
  have "wr \<noteq> None"
    using hr handle_response_stored [OF hr] inv' gn assms(6)
    by (cases "StatusCode resp = 200") (auto simp: handle_response_def Let_def split: prod.splits if_splits)
  then have wr: "wr = Some w1" using wr by blast
  have "StatusCode resp = 200"
    using handle_response_unstored [OF hr [unfolded wr]] assms(7) by auto
  then show ?thesis
    using handle_response_stored [OF hr] inv' gn assms(6,7) wr do_r by auto
qed

text \<open>Serving an entry of the manifest, in either mode.\<close>

lemma found_served:
  assumes "handleMainServerRequest st do_req lctx rq (rw_new fs) s = (Ok x, w1, s1)" and "inv (sv_blobs s)"
    and "\<not> mm_Match (DummyOK lctx) (url_Redacted (extractReqFromURL rq))" and "\<not> SkipSave (extractReqFromURL rq) (sv_assets s)"
    and "gm_get (blobs (sv_assets s)) (url_Redacted (extractReqFromURL rq)) = Some bi"
  shows "sv_net s1 = sv_net s \<and> sv_assets s1 = sv_assets s \<and>
    (\<exists>d c. hex_decode (Sha256 bi) = Ok d \<and> holds (sv_blobs s) d = Some c \<and>
      rw_result w1 = (200, fold (\<lambda>(k, v) h. hdr_Set k v h) (gm_entries (Headers bi)) [], c))"
proof -
  have "GetBlob (extractReqFromURL rq) (sv_assets s) = (Ok (Some bi), sv_assets s)"
    using assms(4,5) by (simp add: GetBlob_def SkipSave_def)
  then obtain b1 where "serveFoundBlob st bi (rw_new fs) (sv_blobs s) = (Ok x, w1, b1)"
      "s1 = s\<lparr>sv_blobs := b1\<rparr>"
    using assms(1,3) by (auto simp: handleMainServerRequest_def Let_def split: prod.splits)
  then show ?thesis using serveFoundBlob_Ok assms(2) by fastforce
qed

text \<open>
  After a build the entry of a request that was fetched with status 200 is in the manifest that is read
  back, the blob under its digest is in the store, and its headers are those the client got.
\<close>

lemma recorded:
  assumes "srv_inv inv holds s" and "\<not> AllowOverwrite (options (sv_assets s))"
    and "handleMainServerRequest st do1 bl rq (rw_new fs) s = (Ok x, w1, s1)" and "FetchIfMissing bl"
    and "\<not> mm_Match (DummyOK bl) (url_Redacted (extractReqFromURL rq))"
    and "fst (GetBlob (extractReqFromURL rq) (sv_assets s)) = Ok None" and "\<not> SkipSave (extractReqFromURL rq) (sv_assets s)"
    and "rw_result w1 = (200, h1, c1)" and "net_headers_ok do1"
    and "manifest_same (blobs (sv_assets (serve_all st do2 bl2 rqs s1))) m" and "manifest_wf m"
  shows "fw_inv inv holds (sv_assets (serve_all st do2 bl2 rqs s1)) (sv_blobs (serve_all st do2 bl2 rqs s1)) \<and>
    holds (sv_blobs (serve_all st do2 bl2 rqs s1)) (sha256 c1) \<noteq> None \<and>
    (\<exists>bi. gm_get m (url_Redacted (extractReqFromURL rq)) = Some bi \<and> hex_decode (Sha256 bi) = Ok (sha256 c1) \<and>
      (\<forall>k. CanonicalMIMEHeaderKey k = k \<and> gm_flag (HeadersToCache bl) k \<longrightarrow>
        hdr_Get (fold (\<lambda>(k, v) h. hdr_Set k v h) (gm_entries (Headers bi)) []) k = hdr_Get h1 k))"
proof -
  let ?k = "url_Redacted (extractReqFromURL rq)" and ?s2 = "serve_all st do2 bl2 rqs s1"
  obtain rq2 resp n hs where b: "do1 rq2 (sv_net s) = (Ok resp, n)" "h1 = hdr_add_all (rs_Header resp) []"
      "filterHeaders (HeadersToCache bl) (rs_Header resp) = Ok hs"
      "gm_get (blobs (sv_assets s1)) ?k = Some \<lparr>Sha256 = hex_encode (sha256 c1), Headers = hs\<rparr>"
      "holds (sv_blobs s1) (sha256 c1) = Some c1"
    using build_stores [OF assms(3,1,5,4,6,7,8)] by blast
  have s1: "srv_inv inv holds s1" "srv_le holds s s1" using handle_keeps [OF assms(3,1)] by auto
  have s2: "srv_inv inv holds ?s2" "srv_le holds s1 ?s2" using serve_all_keeps [OF s1(1)] by auto
  have "gm_get (blobs (sv_assets s1)) \<subseteq>\<^sub>m gm_get (blobs (sv_assets ?s2))"
    using s1(2) s2(2) assms(2) by (simp add: srv_le_def fw_le_def)
  then have "gm_get (blobs (sv_assets ?s2)) ?k = Some \<lparr>Sha256 = hex_encode (sha256 c1), Headers = hs\<rparr>"
    by (rule map_le_Some_D) (rule b(4))
  then obtain bi where bi: "gm_get m ?k = Some bi" "Sha256 bi = hex_encode (sha256 c1)" "maps_Equal hs (Headers bi)"
    using assms(10) by (auto simp: manifest_same_def blobEquals_def option_rel_Some1 dest!: spec [of _ ?k])
  have wfs: "gm_wf hs" "gm_wf (Headers bi)"
    using filterHeaders_wf [OF b(3)] assms(11) bi(1) by (auto simp: manifest_wf_iff info_wf_def)
  then have same: "gm_get (Headers bi) = gm_get hs" using bi(3) maps_Equal_iff by metis
  have ok: "hdr_ok (rs_Header resp)" using assms(9) b(1) by (auto simp: net_headers_ok_def)
  have get: "gm_get hs k = (if gm_flag (HeadersToCache bl) k then map_option List.hd (map_of (rs_Header resp) k) else None)" for k
    by (rule filterHeaders_get [OF ok b(3)])
  have canon: "CanonicalMIMEHeaderKey k = k" if "gm_get (Headers bi) k \<noteq> None" for k
    using that ok same get [of k] by (auto simp: hdr_ok_def list_all_iff split: if_splits dest!: map_of_SomeD)
  have ne: "vs \<noteq> []" if "map_of (rs_Header resp) k = Some vs" for k vs
    using that ok by (auto simp: hdr_ok_def list_all_iff dest!: map_of_SomeD)
  have "hdr_Get (fold (\<lambda>(k, v) h. hdr_Set k v h) (gm_entries (Headers bi)) []) k = hdr_Get h1 k"
    if "CanonicalMIMEHeaderKey k = k" "gm_flag (HeadersToCache bl) k" for k
    using that b(2) hdr_add_all_get [OF ok, of k] served_headers [OF wfs(2) canon, of k] get [of k] same ne [of k]
    by (auto simp: hdr_Get_def hdr_values_def [of "rs_Header resp"] split: option.splits list.splits)
  moreover have "holds (sv_blobs ?s2) (sha256 c1) \<noteq> None" using s2(2) b(5) by (auto simp: srv_le_def fw_le_def)
  ultimately show ?thesis using s2(1) bi by (auto simp: srv_inv_def)
qed

text \<open>Without \<open>FetchIfMissing\<close> a request only reads.\<close>

lemma offline_step:
  assumes "handleMainServerRequest st do_req lctx rq w s = (r, w1, s1)" and "\<not> FetchIfMissing lctx"
    and "previousBlobs (sv_assets s) = None" and "inv (sv_blobs s)"
  shows "sv_net s1 = sv_net s \<and> sv_assets s1 = sv_assets s \<and> holds (sv_blobs s1) = holds (sv_blobs s) \<and> inv (sv_blobs s1)"
proof -
  let ?u = "extractReqFromURL rq"
  obtain g f where g: "GetBlob ?u (sv_assets s) = (g, f)" by (metis surj_pair)
  then have f: "f = sv_assets s" "g = Ok None \<or> (\<exists>bi. g = Ok (Some bi))"
    using assms(3) by (auto simp: GetBlob_def split: if_splits option.splits)
  show ?thesis
  proof (cases "mm_Match (DummyOK lctx) (url_Redacted ?u) \<or> g = Ok None")
    case True
    then have "sv_blobs s1 = sv_blobs s \<and> sv_net s1 = sv_net s \<and> sv_assets s1 = sv_assets s"
      using assms(1,2) g f(1) by (auto simp: handleMainServerRequest_def Let_def split: if_splits)
    then show ?thesis using assms(4) by simp
  next
    case False
    then obtain bi where "g = Ok (Some bi)" using f(2) by blast
    moreover obtain res w2 b1 where sf: "serveFoundBlob st bi w (sv_blobs s) = (res, w2, b1)" by (metis prod_cases3)
    moreover have "inv b1 \<and> holds b1 = holds (sv_blobs s)"
      using sf get_keeps [OF assms(4)] assms(4)
      by (auto simp: serveFoundBlob_def Let_def split: res.splits prod.splits)
    ultimately show ?thesis using assms(1) False g f(1) by (auto simp: handleMainServerRequest_def Let_def)
  qed
qed

lemma offline_all:
  assumes "\<not> FetchIfMissing lctx" and "previousBlobs (sv_assets s) = None" and "inv (sv_blobs s)"
  shows "sv_net (serve_all st do_req lctx rs s) = sv_net s \<and> sv_assets (serve_all st do_req lctx rs s) = sv_assets s \<and>
    holds (sv_blobs (serve_all st do_req lctx rs s)) = holds (sv_blobs s)"
  using assms(2,3)
proof (induction rs arbitrary: s)
  case (Cons r rs)
  obtain rq fs where r: "r = (rq, fs)" by (metis surj_pair)
  let ?s = "snd (proxy_handler st do_req lctx rq (rw_new fs) s)"
  obtain x w1 s1 where h: "handleMainServerRequest st do_req lctx rq (rw_new fs) s = (x, w1, s1)" by (metis prod_cases3)
  then have "?s = s1" by (cases x) (simp_all add: proxy_handler_def)
  then show ?case using Cons.IH [of s1] offline_step [OF h assms(1) Cons.prems] Cons.prems by (simp add: r)
qed simp

end

section \<open>When nothing fails\<close>

text \<open>
  In a directory that is ready, with a client that takes all that is written, every step of a fetch
  succeeds.
\<close>

lemma ready_tee_copy:
  assumes "caf_wf (ds_dir d) c" and "caf_pending c w = Some x" and "dir_ready (ds_dir d) w" and "rw_faults r = []"
  shows "\<exists>r1 c1 w1. io_CopyTee tee_client (tee_blob (dir_store d)) cs None (r, c, w) = (None, r1, c1, w1) \<and>
    dir_ready (ds_dir d) w1"
  using assms
proof (induction cs arbitrary: r c w x)
  case (Cons p cs)
  obtain c1 w1 where wr: "caf_Write c p w = ((length p, None), c1, w1)" and r1: "dir_ready (ds_dir d) w1"
    using ready_Write [OF Cons.prems(1-3)] by blast
  have "caf_wf (ds_dir d) c1" "caf_pending c1 w1 = Some (x @ p)"
    using caf_Write_keeps [OF wr Cons.prems(1)] caf_Write_pending [OF wr Cons.prems(1,2)] by auto
  moreover have "rw_faults (rw_WriteHeader 200 r\<lparr>rw_body := rw_body r @ p\<rparr>) = []"
    using Cons.prems(4) by (simp add: rw_WriteHeader_def)
  ultimately show ?case
    using Cons.IH [OF _ _ r1] wr Cons.prems(4) by (simp add: tee_client_def tee_blob_def blob_write_def)
qed auto

lemma caf_Commit_done: "caf_Commit c w = (Ok k, c', w') \<Longrightarrow> caf_tf c' = None"
  by (auto simp: caf_Commit_def caf_finish_def Let_def split: if_splits prod.splits option.splits)

lemma filterHeaders_total: "hdr_ok h \<Longrightarrow> \<exists>al. filterHeaders desired h = Ok (Some al)"
  using filter_headers_total [of h desired "[]"] by (simp add: filterHeaders_def gm_make_def)

lemma AddBlob_succeeds:
  assumes "Writable (options f)" and "blobs f \<noteq> None" and "gm_get (blobs f) (url_Redacted u) = None"
  shows "\<exists>f1. AddBlob u info f = (Ok (), f1)"
  using assms by (auto simp: AddBlob_def internalAddBlob_def save_mem_def save_check_def)

lemma ready_handle_response:
  assumes "dir_ready (ds_dir d) (sv_blobs s)" and "ds_writable d" and "Writable (options (sv_assets s))"
    and "blobs (sv_assets s) \<noteq> None" and "gm_get (blobs (sv_assets s)) (url_Redacted u) = None"
    and "\<not> SkipSave u (sv_assets s)" and "StatusCode resp = 200" and "hdr_ok (rs_Header resp)" and "rd_err (rs_Body resp) = None"
  shows "\<exists>w1 s1. handle_response (dir_store d) u hc resp (Some (rw_new [])) s = (Ok (), Some w1, s1) \<and>
    dir_ready (ds_dir d) (sv_blobs s1) \<and>
    (\<exists>al. filterHeaders hc (rs_Header resp) = Ok (Some al) \<and> sv_assets s1 = snd (AddBlob u
       \<lparr>Sha256 = hex_encode (sha256 (rd_content (rs_Body resp))), Headers = Some al\<rparr> (sv_assets s)))"
proof -
  define r0 where "r0 = rw_WriteHeader 200 ((rw_new [])\<lparr>rw_header := hdr_add_all (rs_Header resp) []\<rparr>)"
  have r0: "rw_faults r0 = []" by (simp add: r0_def rw_WriteHeader_def rw_new_def)
  have h0: "rw_header (rw_new []) = []" by (simp add: rw_new_def)
  let ?c0 = "NewContentAddressableFile (ds_resolve d)"
  have wf: "caf_wf (ds_dir d) ?c0" by (simp add: ds_resolve_eq caf_wf_new)
  obtain r1 c1 w1 where cp: "io_CopyTee tee_client (tee_blob (dir_store d)) (rd_chunks (rs_Body resp)) None (r0, ?c0, sv_blobs s)
      = (None, r1, c1, w1)" and rd1: "dir_ready (ds_dir d) w1"
    using ready_tee_copy [OF wf caf_pending_new assms(1) r0] by blast
  then have cr: "copy_response (dir_store d) (rs_Body resp) (Some r0) ?c0 (sv_blobs s) = (Ok (), Some r1, c1, w1)"
    using assms(9) by (simp add: copy_response_def)
  have i: "dir_inv (ds_dir d) (sv_blobs s)" using assms(1) by (simp add: dir_ready_def)
  have wf1: "caf_wf (ds_dir d) c1" using ds.copy_response_keeps [OF cr i wf] by simp
  have p1: "caf_pending c1 w1 = Some (rd_content (rs_Body resp))" using ds.copy_response_Ok [OF cr i wf] by simp
  obtain c2 w2 where cm: "caf_Commit c1 w1 = (Ok (sha256 (rd_content (rs_Body resp))), c2, w2)" and rd2: "dir_ready (ds_dir d) w2"
    using ready_Commit [OF wf1 p1 rd1] by blast
  obtain al where al: "filterHeaders hc (rs_Header resp) = Ok (Some al)" using filterHeaders_total [OF assms(8)] by blast
  obtain f1 where ad: "AddBlob u \<lparr>Sha256 = hex_encode (sha256 (rd_content (rs_Body resp))), Headers = Some al\<rparr> (sv_assets s) = (Ok (), f1)"
    using AddBlob_succeeds [OF assms(3-5)] by blast
  have cl: "caf_Cleanup c2 w2 = (None, c2\<lparr>caf_mw := False, caf_dg := None\<rparr>, w2)"
    using caf_Commit_done [OF cm] by (simp add: caf_Cleanup_def)
  have "store_response (dir_store d) u hc resp (Some r0) ?c0 (sv_assets s) (sv_blobs s) = (Ok (), Some r1, c2, f1, w2)"
    using cr cm al ad by (simp add: store_response_def)
  then show ?thesis
    using cl rd2 al ad assms(2,6,7) h0 by (simp add: handle_response_def ds_Put_def r0_def [symmetric])
qed

lemma fetch_ready:
  assumes "srv_inv (dir_inv (ds_dir d)) (dir_holds (ds_dir d)) s"
    and "dir_ready (ds_dir d) (sv_blobs s)" and "ds_writable d"
    and "Writable (options (sv_assets s))" and "blobs (sv_assets s) \<noteq> None"
    and "\<not> mm_Match (DummyOK lctx) (url_Redacted (extractReqFromURL rq))" and "FetchIfMissing lctx"
    and "fst (GetBlob (extractReqFromURL rq) (sv_assets s)) = Ok None" and "\<not> SkipSave (extractReqFromURL rq) (sv_assets s)"
    and "http_NewRequest (rq_Method rq) (url_String (extractReqFromURL rq)) (rq_Body rq) = Ok nr"
    and "do_req (nr\<lparr>rq_Header := hdr_add_all (rq_Header rq) (rq_Header nr)\<rparr>) (sv_net s) = (Ok resp, n)"
    and "StatusCode resp = 200" and "hdr_ok (rs_Header resp)" and "rd_err (rs_Body resp) = None" and "rd_close (rs_Body resp) = None"
  shows "\<exists>w1 s1. handleMainServerRequest (dir_store d) do_req lctx rq (rw_new []) s = (Ok (), w1, s1) \<and>
    rw_result w1 = (200, hdr_add_all (rs_Header resp) [], rd_content (rs_Body resp)) \<and>
    dir_holds (ds_dir d) (sv_blobs s1) (sha256 (rd_content (rs_Body resp))) = Some (rd_content (rs_Body resp)) \<and>
    map_option Sha256 (gm_get (blobs (sv_assets s1)) (url_Redacted (extractReqFromURL rq)))
      = Some (hex_encode (sha256 (rd_content (rs_Body resp)))) \<and>
    dir_ready (ds_dir d) (sv_blobs s1) \<and>
    (\<exists>al. filterHeaders (HeadersToCache lctx) (rs_Header resp) = Ok (Some al) \<and> sv_assets s1 = snd (AddBlob (extractReqFromURL rq)
       \<lparr>Sha256 = hex_encode (sha256 (rd_content (rs_Body resp))), Headers = Some al\<rparr> (sv_assets s)))"
proof -
  let ?u = "extractReqFromURL rq"
  obtain f where g: "GetBlob ?u (sv_assets s) = (Ok None, f)" using assms(8) by (metis prod.collapse)
  have f: "f = sv_assets s" "gm_get (blobs (sv_assets s)) (url_Redacted ?u) = None"
    using GetBlob_None [OF g] assms(9) by auto
  let ?s = "s\<lparr>sv_assets := sv_assets s, sv_missing := sv_missing s + 1, sv_net := n\<rparr>"
  have "\<exists>w1 s1. handle_response (dir_store d) ?u (HeadersToCache lctx) resp (Some (rw_new [])) ?s = (Ok (), Some w1, s1) \<and>
      dir_ready (ds_dir d) (sv_blobs s1) \<and>
      (\<exists>al. filterHeaders (HeadersToCache lctx) (rs_Header resp) = Ok (Some al) \<and> sv_assets s1 = snd (AddBlob ?u
         \<lparr>Sha256 = hex_encode (sha256 (rd_content (rs_Body resp))), Headers = Some al\<rparr> (sv_assets ?s)))"
    by (rule ready_handle_response) (use assms f(2) in simp_all)
  then obtain w1 s1 where hr: "handle_response (dir_store d) ?u (HeadersToCache lctx) resp (Some (rw_new [])) ?s = (Ok (), Some w1, s1)"
    and rd: "dir_ready (ds_dir d) (sv_blobs s1)"
      "\<exists>al. filterHeaders (HeadersToCache lctx) (rs_Header resp) = Ok (Some al) \<and> sv_assets s1 = snd (AddBlob ?u
         \<lparr>Sha256 = hex_encode (sha256 (rd_content (rs_Body resp))), Headers = Some al\<rparr> (sv_assets ?s))" by blast
  have i: "srv_inv (dir_inv (ds_dir d)) (dir_holds (ds_dir d)) ?s" using assms(1) by (simp add: srv_inv_def)
  obtain hs where st: "rw_result w1 = (200, hdr_add_all (rs_Header resp) [], rd_content (rs_Body resp))"
      "gm_get (blobs (sv_assets s1)) (url_Redacted ?u) = Some \<lparr>Sha256 = hex_encode (sha256 (rd_content (rs_Body resp))), Headers = hs\<rparr>"
      "dir_holds (ds_dir d) (sv_blobs s1) (sha256 (rd_content (rs_Body resp))) = Some (rd_content (rs_Body resp))"
    using ds.handle_response_stored [OF hr i] assms(9,12) f(2) by auto
  have "handleMainServerRequest (dir_store d) do_req lctx rq (rw_new []) s = (Ok (), w1, s1)"
    using g f(1) hr assms(6,7,10,11,15)
    by (simp add: handleMainServerRequest_def fetchAndSaveBlob_def forward_headers_def Let_def)
  then show ?thesis using st rd by auto
qed

text \<open>Without faults a blob that is there is served to a client that takes all of it.\<close>

lemma serve_nofault:
  assumes "faults w = []" and "hex_decode (Sha256 bi) = Ok k" and "dir_holds (ds_dir d) w k = Some c"
  shows "\<exists>r2. serveFoundBlob (dir_store d) bi (rw_new []) w = (Ok (), r2, w) \<and>
    rw_result r2 = (200, fold (\<lambda>(k, v) h. hdr_Set k v h) (gm_entries (Headers bi)) [], c)"
proof -
  let ?r = "(rw_new [])\<lparr>rw_header := fold (\<lambda>(k, v) h. hdr_Set k v h) (gm_entries (Headers bi)) []\<rparr>"
  have "\<exists>r2. io_Copy rw_Write cs None r = (None, r2)" if "rw_faults r = []" for cs r
    using that by (induction cs arbitrary: r) (auto simp: rw_WriteHeader_def)
  then obtain r2 where r2: "io_Copy rw_Write (chunked c) None ?r = (None, r2)"
    by (metis rw.select_convs(4) rw.update_convs(1) rw_new_def)
  then have "rw_result r2 = (200, fold (\<lambda>(k, v) h. hdr_Set k v h) (gm_entries (Headers bi)) [], c)"
    using serve_result [OF r2] by (simp add: rw_new_def)
  moreover have "rw_header (rw_new []) = []" by (simp add: rw_new_def)
  moreover have "ds_Get d k w = (Ok (open_reader c Pass Pass), w)"
    using assms(1,3) os_Open_nofault by (simp add: ds_Get_def dir_holds_def ds_resolve_def)
  ultimately show ?thesis
    using assms(2) r2 by (simp add: serveFoundBlob_def Let_def open_reader_def)
qed

lemmas serve_ready = serve_nofault [OF dir_ready_def [THEN iffD1, THEN conjunct1]]

section \<open>A concrete server\<close>

definition sample_request :: request where
  "sample_request = \<lparr>rq_Method = ''GET'', rq_URL = url_zero\<lparr>Path := ''/a''\<rparr>, rq_Host = ''example.com'', rq_TLS = True,
     rq_Header = [(''Accept'', [''*/*''])], rq_Body = []\<rparr>"

definition sample_response :: response where
  "sample_response = \<lparr>StatusCode = 200, rs_Header = [(''Content-Type'', [''text/plain'']), (''Date'', [''now''])],
     rs_Body = \<lparr>rd_chunks = [''hel'', ''lo''], rd_err = None, rd_close = None\<rparr>\<rparr>"

definition sample_net :: "request \<Rightarrow> nat \<Rightarrow> response res \<times> nat" where
  "sample_net q n = (Ok sample_response, Suc n)"

definition sample_build :: listenerCtx where
  "sample_build = \<lparr>FetchIfMissing = True, FailIfMissing = False, DummyOK = None, HeadersToCache = Some [(''Content-Type'', True)]\<rparr>"

definition sample_offline :: listenerCtx where
  "sample_offline = \<lparr>FetchIfMissing = False, FailIfMissing = True, DummyOK = None, HeadersToCache = None\<rparr>"

definition sample_store :: DirectoryStore where
  "sample_store = NewDirectoryStore [''blobs''] True"

definition sample_srv :: "(path, os, nat) srv" where
  "sample_srv = \<lparr>sv_assets = sample_file, sv_blobs = empty_os, sv_net = 0, sv_missing = 0\<rparr>"

lemma sample_dir: "ds_dir sample_store = [''blobs'']" "ds_writable sample_store"
  by (simp_all add: sample_store_def NewDirectoryStore_def)

lemma sample_ready: "dir_ready (ds_dir sample_store) (sv_blobs sample_srv)"
  by (simp add: sample_dir sample_srv_def dir_ready_def dir_inv_def empty_os_def fs_get_def)

lemma sample_inv: "srv_inv (dir_inv (ds_dir sample_store)) (dir_holds (ds_dir sample_store)) sample_srv"
  using sample_ready
  by (simp add: dir_ready_def srv_inv_def fw_inv_def sample_srv_def sample_file_def file_wf_def content_addressed_def
      dir_holds_def empty_os_def fs_get_def)

lemma sample_extract: "extractReqFromURL sample_request = sample_url"
  by (simp add: extractReqFromURL_def sample_request_def sample_url_def url_zero_def)

lemma sample_get: "fst (GetBlob sample_url (sv_assets sample_srv)) = Ok None" "\<not> SkipSave sample_url (sv_assets sample_srv)"
    "\<not> AllowOverwrite (options (sv_assets sample_srv))" "Writable (options (sv_assets sample_srv))"
    "blobs (sv_assets sample_srv) \<noteq> None" "previousBlobs (sv_assets sample_srv) = None"
  by (simp_all add: GetBlob_def SkipSave_def mm_Match_def sample_srv_def sample_file_def sample_opts_def)
    (simp add: gm_make_def)

lemma sample_hdr_ok: "hdr_ok (rs_Header sample_response)"
  by code_simp

definition sample_outgoing :: request where
  "sample_outgoing = \<lparr>rq_Method = ''GET'', rq_URL = sample_url, rq_Host = ''example.com'', rq_TLS = False,
     rq_Header = [], rq_Body = []\<rparr>"

lemma sample_new_request:
  "http_NewRequest (rq_Method sample_request) (url_String (extractReqFromURL sample_request)) (rq_Body sample_request) = Ok sample_outgoing"
  by code_simp

lemmas sample_simps = sample_extract sample_dir sample_get sample_hdr_ok

lemma sample_build_simps [simp]: "FetchIfMissing sample_build" "DummyOK sample_build = None"
    "\<not> FetchIfMissing sample_offline" "FailIfMissing sample_offline" "DummyOK sample_offline = None"
  by (simp_all add: sample_build_def sample_offline_def)

lemma sample_response_simps: "StatusCode sample_response = 200" "rd_err (rs_Body sample_response) = None"
    "rd_close (rs_Body sample_response) = None" "rd_content (rs_Body sample_response) = ''hello''"
  by (simp_all add: sample_response_def rd_content_def)

lemma no_match [simp]: "\<not> mm_Match None x"
  by (simp add: mm_Match_def)

section \<open>Properties\<close>

text \<open>
  Whatever requests arrive, in whatever mode, and whatever the network, the file system and the
  clients do, a server over a directory store keeps the store content-addressed, the manifest
  well-formed and every entry of the manifest backed by a blob; no blob disappears, and no entry
  changes in a manifest that does not allow to overwrite.
\<close>

theorem server_keeps_backed:
  assumes "srv_inv (dir_inv (ds_dir d)) (dir_holds (ds_dir d)) s" and "file_backed (dir_holds (ds_dir d) (sv_blobs s)) (sv_assets s)"
    and "s2 = serve_all (dir_store d) do_req lctx rs s"
  shows "srv_inv (dir_inv (ds_dir d)) (dir_holds (ds_dir d)) s2 \<and>
    file_backed (dir_holds (ds_dir d) (sv_blobs s2)) (sv_assets s2) \<and>
    dom (dir_holds (ds_dir d) (sv_blobs s)) \<subseteq> dom (dir_holds (ds_dir d) (sv_blobs s2)) \<and>
    (\<not> AllowOverwrite (options (sv_assets s)) \<longrightarrow> gm_get (blobs (sv_assets s)) \<subseteq>\<^sub>m gm_get (blobs (sv_assets s2)))"
  using ds.serve_all_keeps [OF assms(1), of do_req lctx rs] assms(2,3) by (simp add: srv_le_def fw_le_def)

lemma server_keeps_backed_witness:
  "file_backed (dir_holds [''blobs''] (sv_blobs (serve_all (dir_store sample_store) sample_net sample_build
      [(sample_request, []), (sample_request, [FailAt 2 ECONNRESET])] sample_srv)))
    (sv_assets (serve_all (dir_store sample_store) sample_net sample_build
      [(sample_request, []), (sample_request, [FailAt 2 ECONNRESET])] sample_srv))"
proof -
  have "file_backed (dir_holds (ds_dir sample_store) (sv_blobs sample_srv)) (sv_assets sample_srv)"
    by (simp add: file_backed_def sample_srv_def sample_file_def)
  from server_keeps_backed [OF sample_inv this refl] show ?thesis unfolding sample_dir by blast
qed

text \<open>
  What a build recorded is what an offline run serves. A request that was fetched during a build
  and answered with status 200 is answered with status 200 by a later offline server on the same
  directory whose manifest holds the same entries, however many requests the build handled in between,
  whenever that server answers without error: with a body of the same digest, with the same values of
  all headers to cache, and without touching the network.
\<close>

theorem build_offline_replay:
  assumes "srv_inv (dir_inv (ds_dir d)) (dir_holds (ds_dir d)) s" and "\<not> AllowOverwrite (options (sv_assets s))"
    and "handleMainServerRequest (dir_store d) do1 bl rq (rw_new fs) s = (Ok x, w1, s1)" and "FetchIfMissing bl"
    and "\<not> mm_Match (DummyOK bl) (url_Redacted (extractReqFromURL rq))"
    and "fst (GetBlob (extractReqFromURL rq) (sv_assets s)) = Ok None" and "\<not> SkipSave (extractReqFromURL rq) (sv_assets s)"
    and "rw_result w1 = (200, h1, c1)" and "net_headers_ok do1"
    and "manifest_same (blobs (sv_assets (serve_all (dir_store d) do2 bl2 rqs s1))) (blobs (sv_assets s3))"
    and "file_wf (sv_assets s3)" and "sv_blobs s3 = sv_blobs (serve_all (dir_store d) do2 bl2 rqs s1)"
    and "handleMainServerRequest (dir_store (NewDirectoryStore (ds_dir d) False)) do3 ol rq3 (rw_new fs3) s3 = (Ok y, w3, s4)"
    and "extractReqFromURL rq3 = extractReqFromURL rq"
    and "\<not> mm_Match (DummyOK ol) (url_Redacted (extractReqFromURL rq))" and "\<not> SkipSave (extractReqFromURL rq) (sv_assets s3)"
  shows "sv_net s4 = sv_net s3 \<and> sv_assets s4 = sv_assets s3 \<and>
    (\<exists>h3 c3. rw_result w3 = (200, h3, c3) \<and> sha256 c3 = sha256 c1 \<and>
      (\<forall>k. CanonicalMIMEHeaderKey k = k \<and> gm_flag (HeadersToCache bl) k \<longrightarrow> hdr_Get h3 k = hdr_Get h1 k))"
proof -
  have wf: "manifest_wf (blobs (sv_assets s3))" using assms(11) by (simp add: file_wf_def)
  obtain bi where fw: "fw_inv (dir_inv (ds_dir d)) (dir_holds (ds_dir d)) (sv_assets (serve_all (dir_store d) do2 bl2 rqs s1))
        (sv_blobs (serve_all (dir_store d) do2 bl2 rqs s1))"
    and bi: "gm_get (blobs (sv_assets s3)) (url_Redacted (extractReqFromURL rq)) = Some bi"
      "hex_decode (Sha256 bi) = Ok (sha256 c1)"
      "\<forall>k. CanonicalMIMEHeaderKey k = k \<and> gm_flag (HeadersToCache bl) k \<longrightarrow>
        hdr_Get (fold (\<lambda>(k, v) h. hdr_Set k v h) (gm_entries (Headers bi)) []) k = hdr_Get h1 k"
    using ds.recorded [OF assms(1-10) wf] by blast
  let ?o = "NewDirectoryStore (ds_dir d) False"
  have o: "ds_dir ?o = ds_dir d" by (simp add: NewDirectoryStore_def)
  have i3: "dir_inv (ds_dir ?o) (sv_blobs s3)" and ca: "content_addressed (dir_holds (ds_dir d) (sv_blobs s3))"
    using fw assms(12) o by (auto simp: fw_inv_def)
  obtain c3 where c3: "dir_holds (ds_dir d) (sv_blobs s3) (sha256 c1) = Some c3"
      "rw_result w3 = (200, fold (\<lambda>(k, v) h. hdr_Set k v h) (gm_entries (Headers bi)) [], c3)"
    and n: "sv_net s4 = sv_net s3" "sv_assets s4 = sv_assets s3"
    using ds.found_served [OF assms(13) i3] assms(14,15,16) bi(1,2) o by auto
  then show ?thesis using content_addressedD [OF ca c3(1)] bi(3) by auto
qed

lemma build_offline_replay_witness:
  "\<exists>w1 s1 w3 s4 h3 c3.
    handleMainServerRequest (dir_store sample_store) sample_net sample_build sample_request (rw_new []) sample_srv = (Ok (), w1, s1) \<and>
    handleMainServerRequest (dir_store (NewDirectoryStore (ds_dir sample_store) False)) sample_net sample_offline sample_request (rw_new []) s1
      = (Ok (), w3, s4) \<and>
    rw_result w3 = (200, h3, c3) \<and> sha256 c3 = sha256 ''hello'' \<and> hdr_Get h3 ''Content-Type'' = ''text/plain''"
proof -
  let ?o = "NewDirectoryStore (ds_dir sample_store) False"
  have o: "ds_dir ?o = ds_dir sample_store" by (simp add: NewDirectoryStore_def)
  have net: "sample_net (sample_outgoing\<lparr>rq_Header := hdr_add_all (rq_Header sample_request) (rq_Header sample_outgoing)\<rparr>) (sv_net sample_srv)
      = (Ok sample_response, 1)" by (simp add: sample_net_def sample_srv_def)
  obtain w1 s1 where h: "handleMainServerRequest (dir_store sample_store) sample_net sample_build sample_request (rw_new []) sample_srv = (Ok (), w1, s1)"
    and r: "rw_result w1 = (200, hdr_add_all (rs_Header sample_response) [], ''hello'')"
    and st: "dir_holds (ds_dir sample_store) (sv_blobs s1) (sha256 ''hello'') = Some ''hello''"
      "map_option Sha256 (gm_get (blobs (sv_assets s1)) (url_Redacted sample_url)) = Some (hex_encode (sha256 ''hello''))"
    and rd: "dir_ready (ds_dir sample_store) (sv_blobs s1)"
    using fetch_ready [of sample_store sample_srv sample_build sample_request sample_outgoing sample_net sample_response 1,
        OF sample_inv sample_ready _ _ _ _ _ _ _ sample_new_request net]
    by (auto simp: sample_simps sample_response_simps)
  have i1: "srv_inv (dir_inv (ds_dir sample_store)) (dir_holds (ds_dir sample_store)) s1"
    and le: "srv_le (dir_holds (ds_dir sample_store)) sample_srv s1"
    using ds.handle_keeps [OF h sample_inv] by auto
  then have wf: "file_wf (sv_assets s1)" by (simp add: srv_inv_def fw_inv_def)
  have sk: "\<not> SkipSave sample_url (sv_assets s1)"
    using le sample_get(2) by (simp add: srv_le_def fw_le_def SkipSave_def)
  have same: "manifest_same (blobs (sv_assets s1)) (blobs (sv_assets s1))"
    using wf by (auto simp: manifest_same_def file_wf_def manifest_wf_iff info_wf_def blobEquals_def intro!: option.rel_refl_strong
        dest!: elem_set [THEN iffD1])
  obtain bi c where bi: "gm_get (blobs (sv_assets s1)) (url_Redacted sample_url) = Some bi" "hex_decode (Sha256 bi) = Ok (sha256 ''hello'')"
      "dir_holds (ds_dir ?o) (sv_blobs s1) (sha256 ''hello'') = Some c"
    using st o by auto
  have "dir_ready (ds_dir ?o) (sv_blobs s1)" using rd o by simp
  from serve_ready [OF this bi(2,3)] obtain w3 where
    "serveFoundBlob (dir_store ?o) bi (rw_new []) (sv_blobs s1) = (Ok (), w3, sv_blobs s1)" by blast
  then have h3: "handleMainServerRequest (dir_store ?o) sample_net sample_offline sample_request (rw_new []) s1 = (Ok (), w3, s1)"
    using bi(1) sk by (simp add: handleMainServerRequest_def GetBlob_def SkipSave_def sample_extract)
  have "net_headers_ok sample_net" using sample_hdr_ok by (auto simp: net_headers_ok_def sample_net_def)
  note rp = build_offline_replay [OF sample_inv sample_get(3) h _ _ _ _ r this _ wf _ h3, where rqs = "[]"]
  have "gm_flag (HeadersToCache sample_build) ''Content-Type''" and "CanonicalMIMEHeaderKey ''Content-Type'' = ''Content-Type''"
    and "hdr_Get (hdr_add_all (rs_Header sample_response) []) ''Content-Type'' = ''text/plain''" by code_simp+
  then show ?thesis using rp h h3 same sk by (auto simp: sample_simps)
qed

text \<open>
  C11. Offline. Without \<open>FetchIfMissing\<close> no sequence of requests uses the network, changes the manifest
  or changes what the store holds.
\<close>

theorem offline_isolated:
  assumes "\<not> FetchIfMissing lctx" and "previousBlobs (sv_assets s) = None" and "dir_inv (ds_dir d) (sv_blobs s)"
  shows "sv_net (serve_all (dir_store d) do_req lctx rs s) = sv_net s \<and>
    sv_assets (serve_all (dir_store d) do_req lctx rs s) = sv_assets s \<and>
    dir_holds (ds_dir d) (sv_blobs (serve_all (dir_store d) do_req lctx rs s)) = dir_holds (ds_dir d) (sv_blobs s)"
  by (rule ds.offline_all [OF assms])

lemma offline_isolated_witness:
  "sv_net (serve_all (dir_store sample_store) sample_net sample_offline [(sample_request, [])] sample_srv) = 0"
  using offline_isolated [of sample_offline sample_srv sample_store sample_net "[(sample_request, [])]"] sample_ready
  by (simp add: sample_get dir_ready_def) (simp add: sample_srv_def)

text \<open>
  C25. When nothing fails, a build fetches, answers and records. In a ready directory, with a writable
  manifest and a response of status 200 whose body is read without error, the handler succeeds: the
  client gets exactly the response, the store holds the body under its digest, the manifest has the
  entry, and the directory is ready for the next request.
\<close>

theorem fetch_succeeds:
  assumes "srv_inv (dir_inv (ds_dir d)) (dir_holds (ds_dir d)) s"
    and "dir_ready (ds_dir d) (sv_blobs s)" and "ds_writable d"
    and "Writable (options (sv_assets s))" and "blobs (sv_assets s) \<noteq> None"
    and "\<not> mm_Match (DummyOK lctx) (url_Redacted (extractReqFromURL rq))" and "FetchIfMissing lctx"
    and "fst (GetBlob (extractReqFromURL rq) (sv_assets s)) = Ok None" and "\<not> SkipSave (extractReqFromURL rq) (sv_assets s)"
    and "http_NewRequest (rq_Method rq) (url_String (extractReqFromURL rq)) (rq_Body rq) = Ok nr"
    and "do_req (nr\<lparr>rq_Header := hdr_add_all (rq_Header rq) (rq_Header nr)\<rparr>) (sv_net s) = (Ok resp, n)"
    and "StatusCode resp = 200" and "hdr_ok (rs_Header resp)" and "rd_err (rs_Body resp) = None" and "rd_close (rs_Body resp) = None"
  shows "\<exists>w1 s1. handleMainServerRequest (dir_store d) do_req lctx rq (rw_new []) s = (Ok (), w1, s1) \<and>
    rw_result w1 = (200, hdr_add_all (rs_Header resp) [], rd_content (rs_Body resp)) \<and>
    dir_holds (ds_dir d) (sv_blobs s1) (sha256 (rd_content (rs_Body resp))) = Some (rd_content (rs_Body resp)) \<and>
    map_option Sha256 (gm_get (blobs (sv_assets s1)) (url_Redacted (extractReqFromURL rq)))
      = Some (hex_encode (sha256 (rd_content (rs_Body resp)))) \<and>
    dir_ready (ds_dir d) (sv_blobs s1)"
  using fetch_ready [of d s lctx rq nr do_req resp n, OF assms] by (elim exE conjE) blast

lemma fetch_succeeds_witness:
  "\<exists>w1 s1. handleMainServerRequest (dir_store sample_store) sample_net sample_build sample_request (rw_new []) sample_srv
      = (Ok (), w1, s1) \<and> dir_holds [''blobs''] (sv_blobs s1) (sha256 ''hello'') = Some ''hello''"
proof -
  have "sample_net (sample_outgoing\<lparr>rq_Header := hdr_add_all (rq_Header sample_request) (rq_Header sample_outgoing)\<rparr>) (sv_net sample_srv)
      = (Ok sample_response, 1)" by (simp add: sample_net_def sample_srv_def)
  note f = fetch_succeeds [of sample_store sample_srv sample_build sample_request sample_outgoing sample_net sample_response 1,
      OF sample_inv sample_ready _ _ _ _ _ _ _ sample_new_request this]
  show ?thesis using f by (auto simp: sample_simps sample_response_simps)
qed

text \<open>
  What an offline server answers, when nothing fails: an empty 200 for the dummy URLs, 404 for what
  is not in the manifest, the blob with its recorded headers and status 200 for what is, and 500 when the
  digest of the entry is malformed or its blob is missing. The store is not changed.
\<close>

theorem offline_answers:
  assumes "dir_ready (ds_dir d) (sv_blobs s)" and "previousBlobs (sv_assets s) = None"
    and "\<not> FetchIfMissing lctx" and "FailIfMissing lctx" and "u = extractReqFromURL rq"
  shows "\<exists>w1 s1. proxy_handler (dir_store d) do_req lctx rq (rw_new []) s = (Some w1, s1) \<and>
    sv_blobs s1 = sv_blobs s \<and> sv_assets s1 = sv_assets s \<and>
    (if mm_Match (DummyOK lctx) (url_Redacted u) then rw_result w1 = (200, [], [])
     else if SkipSave u (sv_assets s) then fst (rw_result w1) = 404
     else case gm_get (blobs (sv_assets s)) (url_Redacted u) of
        None \<Rightarrow> fst (rw_result w1) = 404
      | Some bi \<Rightarrow>
          (case hex_decode (Sha256 bi) of
             Ok k \<Rightarrow>
               (case dir_holds (ds_dir d) (sv_blobs s) k of
                  Some c \<Rightarrow> rw_result w1 = (200, fold (\<lambda>(k, v) h. hdr_Set k v h) (gm_entries (Headers bi)) [], c)
                | None \<Rightarrow> fst (rw_result w1) = 500)
           | _ \<Rightarrow> fst (rw_result w1) = 500))"
proof -
  have err: "fst (rw_result (http_Error m c (rw_new []))) = c" for m c
    by (simp add: http_Error_def rw_result_def rw_new_def rw_WriteHeader_def Let_def)
  let ?dm = "mm_Match (DummyOK lctx) (url_Redacted u)"
  show ?thesis
  proof (cases "?dm \<or> SkipSave u (sv_assets s) \<or> gm_get (blobs (sv_assets s)) (url_Redacted u) = None")
    case True
    then show ?thesis
      using assms err
      by (auto simp: proxy_handler_def handleMainServerRequest_def GetBlob_def SkipSave_def Let_def rw_result_def
          rw_new_def rw_WriteHeader_def)
  next
    case False
    then obtain bi where bi: "gm_get (blobs (sv_assets s)) (url_Redacted u) = Some bi" by auto
    then have g: "GetBlob u (sv_assets s) = (Ok (Some bi), sv_assets s)"
      using False by (simp add: GetBlob_def SkipSave_def)
    show ?thesis
    proof (cases "\<exists>k c. hex_decode (Sha256 bi) = Ok k \<and> dir_holds (ds_dir d) (sv_blobs s) k = Some c")
      case True
      then obtain k c where kc: "hex_decode (Sha256 bi) = Ok k" "dir_holds (ds_dir d) (sv_blobs s) k = Some c" by blast
      obtain r2 where "serveFoundBlob (dir_store d) bi (rw_new []) (sv_blobs s) = (Ok (), r2, sv_blobs s)"
        and res: "rw_result r2 = (200, fold (\<lambda>(k, v) h. hdr_Set k v h) (gm_entries (Headers bi)) [], c)"
        using serve_ready [OF assms(1) kc] by blast
      then show ?thesis
        using g False assms(5) bi kc res by (simp add: proxy_handler_def handleMainServerRequest_def Let_def)
    next
      case no: False
      have "ds_Get d k (sv_blobs s) = (Err (Errorf ''%w %w'' [ErrBlobNotExist, ErrNotExist]), sv_blobs s)"
        if "dir_holds (ds_dir d) (sv_blobs s) k = None" for k
      proof -
        have "\<not> dir_exists (sv_blobs s) (ds_resolve d k)"
          using assms(1) by (simp add: dir_ready_def dir_inv_def dir_exists_def ds_resolve_def)
        then have "os_Open (ds_resolve d k) (sv_blobs s) = (Err ErrNotExist, sv_blobs s)"
          using that assms(1) by (simp add: os_Open_def dir_ready_def dir_holds_def ds_resolve_def)
        then show ?thesis by (simp add: ds_Get_def)
      qed
      then obtain e where "serveFoundBlob (dir_store d) bi (rw_new []) (sv_blobs s) = (Err e, rw_new [], sv_blobs s)"
        using no by (cases "hex_decode (Sha256 bi)") (auto simp: serveFoundBlob_def)
      then have "proxy_handler (dir_store d) do_req lctx rq (rw_new []) s
          = (Some (http_Error ''see proxy server log for details'' 500 (rw_new [])), s)"
        using g False assms(5) by (simp add: proxy_handler_def handleMainServerRequest_def Let_def)
      then show ?thesis using False bi no err by (auto split: res.splits option.splits)
    qed
  qed
qed

lemma offline_answers_witness:
  "\<exists>w1 s1. proxy_handler (dir_store sample_store) sample_net sample_offline sample_request (rw_new []) sample_srv = (Some w1, s1) \<and>
    fst (rw_result w1) = 404"
  using offline_answers [OF sample_ready, of sample_offline sample_url sample_request sample_net]
  by (auto simp: sample_simps) (auto simp: sample_srv_def sample_file_def)

text \<open>
  The key of a request determines it. For requests as the proxy receives them (a host name with an
  optional port, an absolute path of any bytes, a query without control characters), the key that the
  manifest uses parses back to the URL of the request, so two requests share a key only if they agree in
  scheme, host, path and query; the method is not part of it.
\<close>

theorem request_key_roundtrip:
  assumes "url_plain (extractReqFromURL rq)" and "url_plain (extractReqFromURL rq2)"
  shows "url_Parse (url_Redacted (extractReqFromURL rq)) = Ok (extractReqFromURL rq) \<and>
    (url_Redacted (extractReqFromURL rq) = url_Redacted (extractReqFromURL rq2) \<longleftrightarrow>
      rq_TLS rq = rq_TLS rq2 \<and> rq_Host rq = rq_Host rq2 \<and> Path (rq_URL rq) = Path (rq_URL rq2) \<and>
      RawQuery (rq_URL rq) = RawQuery (rq_URL rq2))"
proof -
  have fr: "Fragment (rq_URL rq) = []" "Fragment (rq_URL rq2) = []"
    using assms by (auto simp: url_plain_def extractReqFromURL_def)
  have "url_Redacted (extractReqFromURL rq) = url_Redacted (extractReqFromURL rq2) \<longleftrightarrow> extractReqFromURL rq = extractReqFromURL rq2"
    using plain_roundtrip [OF assms(1)] plain_roundtrip [OF assms(2)] by (metis res.inject(1))
  moreover have "extractReqFromURL rq = extractReqFromURL rq2 \<longleftrightarrow>
      rq_TLS rq = rq_TLS rq2 \<and> rq_Host rq = rq_Host rq2 \<and> Path (rq_URL rq) = Path (rq_URL rq2) \<and>
      RawQuery (rq_URL rq) = RawQuery (rq_URL rq2)"
    using fr by (auto simp: extractReqFromURL_def url_zero_def)
  ultimately show ?thesis using plain_roundtrip [OF assms(1)] by blast
qed

lemma request_key_roundtrip_witness:
  "url_Parse (url_Redacted (extractReqFromURL sample_request)) = Ok (extractReqFromURL sample_request)"
proof -
  have "host_ok ''example.com''"
    unfolding host_ok_def
    by (rule exI [of _ "''example.com''"], rule exI [of _ "[]"]) (simp add: host_char_def is_alnum_def)
  then have "url_plain (extractReqFromURL sample_request)"
    by (simp add: sample_extract url_plain_def sample_url_def url_zero_def query_ok_def)
  then show ?thesis using request_key_roundtrip by blast
qed

text \<open>
  \<open>filterHeaders\<close> keeps, for each header that is to be cached, its first value, and nothing else, and
  the result does not depend on the order in which the headers are visited.
\<close>

theorem filterHeaders_first_values:
  assumes "hdr_ok h" and "distinct (map fst h2)" and "set h2 = set h"
  shows "\<exists>al al2. filterHeaders desired h = Ok (Some al) \<and> filterHeaders desired h2 = Ok (Some al2) \<and>
    gm_wf (Some al) \<and> map_of al2 = map_of al \<and>
    (\<forall>k. map_of al k = (if gm_flag desired k then map_option List.hd (map_of h k) else None))"
proof -
  have ok2: "hdr_ok h2" using assms by (auto simp: hdr_ok_def list_all_iff)
  obtain al al2 where al: "filterHeaders desired h = Ok (Some al)" "filterHeaders desired h2 = Ok (Some al2)"
    using filterHeaders_total assms(1) ok2 by meson
  have m: "map_of h2 = map_of h"
    using assms by (intro map_of_inject_set [THEN iffD2]) (auto simp: hdr_ok_def)
  have g: "map_of al k = (if gm_flag desired k then map_option List.hd (map_of h k) else None)"
    "map_of al2 k = (if gm_flag desired k then map_option List.hd (map_of h k) else None)" for k
    using filterHeaders_get [OF assms(1) al(1), of k] filterHeaders_get [OF ok2 al(2), of k] m by (simp_all add: gm_get_def)
  then have "map_of al2 = map_of al" by (simp add: fun_eq_iff)
  then show ?thesis using al g(1) filterHeaders_wf [OF al(1)] by auto
qed

lemma filterHeaders_first_values_witness:
  "\<exists>al. filterHeaders (HeadersToCache sample_build) (rs_Header sample_response) = Ok (Some al) \<and> map_of al ''Content-Type'' = Some ''text/plain''"
proof -
  have "distinct (map fst (rev (rs_Header sample_response)))" "gm_flag (HeadersToCache sample_build) ''Content-Type''"
    "map_of (rs_Header sample_response) ''Content-Type'' = Some [''text/plain'']" by code_simp+
  with filterHeaders_first_values [OF sample_hdr_ok this(1), of "HeadersToCache sample_build"] show ?thesis
    by fastforce
qed

text \<open>
  The answer for a recorded URL ignores the method: once any request has recorded an entry (a HEAD
  request with its empty body, say), every later request for the URL gets the same answer from the store,
  without the network.
\<close>

theorem recorded_answer_ignores_method:
  assumes "gm_get (blobs (sv_assets s)) (url_Redacted (extractReqFromURL rq)) = Some bi" and "\<not> SkipSave (extractReqFromURL rq) (sv_assets s)"
  shows "handleMainServerRequest st do_req lctx (rq\<lparr>rq_Method := m\<rparr>) w s = handleMainServerRequest st do_req lctx rq w s \<and>
    sv_net (snd (snd (handleMainServerRequest st do_req lctx rq w s))) = sv_net s"
  using assms
  by (simp add: handleMainServerRequest_def extractReqFromURL_def GetBlob_def SkipSave_def Let_def split: prod.splits)

lemma recorded_answer_ignores_method_witness:
  "sv_net (snd (snd (handleMainServerRequest (dir_store sample_store) sample_net sample_build (sample_request\<lparr>rq_Method := ''HEAD''\<rparr>) (rw_new [])
      (sample_srv\<lparr>sv_assets := sample_file\<lparr>blobs := Some [(url_Redacted sample_url, sample_info)]\<rparr>\<rparr>)))) = 0"
  using recorded_answer_ignores_method
    [of "sample_srv\<lparr>sv_assets := sample_file\<lparr>blobs := Some [(url_Redacted sample_url, sample_info)]\<rparr>\<rparr>" sample_request sample_info
      "dir_store sample_store" sample_net sample_build "''HEAD''" "rw_new []"]
  by (simp add: sample_extract gm_get_def SkipSave_def sample_file_def sample_opts_def) (simp add: sample_srv_def)

end
