(* ===== verification/Verify.thy ===== *)
theory Verify
  imports Listener
begin

text \<open>
  The verify command (htvend/command_verify.go): every entry of the manifest is read from the blob store
  and hashed; missing blobs are reported or fetched again.

  \<open>go-multierror\<close> is a third-party package: its \<open>Append\<close> is the parameter \<open>mappend\<close>, of which only the
  type is used (appending always gives an error).
\<close>

section \<open>Copying to several writers\<close>

text \<open>
  \<open>io.TeeReader(io.TeeReader(r, a), b)\<close> as one tee: \<open>b\<close> gets what the inner reader returned, and an error
  of \<open>b\<close> replaces that of \<open>a\<close>.
\<close>

definition tee_seq :: "(bytes \<Rightarrow> 's \<Rightarrow> (nat \<times> err option) \<times> 's) \<Rightarrow> (bytes \<Rightarrow> 's \<Rightarrow> (nat \<times> err option) \<times> 's)
    \<Rightarrow> bytes \<Rightarrow> 's \<Rightarrow> (nat \<times> err option) \<times> 's" where
  "tee_seq a b c s =
     (case a c s of
        ((n, e), s1) \<Rightarrow>
          (let m = (if e = None then length c else n) in
           if m = 0 then ((m, e), s1)
           else
             (case b (take m c) s1 of
                ((n2, Some e2), s2) \<Rightarrow> ((n2, Some e2), s2)
              | ((n2, None), s2) \<Rightarrow> ((m, e), s2))))"

fun copyToWriters :: "(bytes \<Rightarrow> 's \<Rightarrow> (nat \<times> err option) \<times> 's) list \<Rightarrow> bytes list \<Rightarrow> err option \<Rightarrow> 's \<Rightarrow> err option \<times> 's" where
  "copyToWriters [] cs e s = (None, s)"
| "copyToWriters [w] cs e s = io_Copy w cs e s"
| "copyToWriters (w # t # ts) cs e s = io_CopyTee w (foldl tee_seq t ts) cs e s"

section \<open>Validation\<close>

record validateCtx =
  v_HeadersToCache :: "(string, bool) gomap"
  v_FailIfMissing :: bool
  v_FetchIfMissing :: bool
  v_RepairIfWrong :: bool
  v_ValidateSHA256 :: bool

text \<open>
  The variables that the callback of \<open>ForEach\<close> changes: the two lists (\<open>NewHash\<close> is the third component of
  a wrong entry) and the world of the blob store.
\<close>

record 'w vstate =
  vs_missing :: "(url \<times> BlobInfo) list"
  vs_wrong :: "(url \<times> BlobInfo \<times> bytes) list"
  vs_world :: 'w

text \<open>A digest as a writer: its state is what was written to it.\<close>

definition hash_write :: "bytes \<Rightarrow> bytes \<Rightarrow> (nat \<times> err option) \<times> bytes" where
  "hash_write p h = ((length p, None), h @ p)"

definition validate_entry :: "('w, 'b) Store \<Rightarrow> validateCtx \<Rightarrow> url \<Rightarrow> BlobInfo \<Rightarrow> 'w vstate \<Rightarrow> unit res \<times> 'w vstate" where
  "validate_entry st vctx k v s =
     (case hex_decode (Sha256 v) of
        Err e \<Rightarrow> (Err (wrap ''error decoding sha key'' e), s)
      | Panic p \<Rightarrow> (Panic p, s)
      | Ok expectedH \<Rightarrow>
          (case Store_Get st expectedH (vs_world s) of
             (Err e, w1) \<Rightarrow>
               (if err_is e ErrBlobNotExist
                then (Ok (), s\<lparr>vs_missing := vs_missing s @ [(k, v)], vs_world := w1\<rparr>)
                else (Err (wrap ''unknown error finding blob'' e), s\<lparr>vs_world := w1\<rparr>))
           | (Panic p, w1) \<Rightarrow> (Panic p, s\<lparr>vs_world := w1\<rparr>)
           | (Ok r, w1) \<Rightarrow>
               (case copyToWriters (if v_ValidateSHA256 vctx then [hash_write] else []) (rd_chunks r) (rd_err r) [] of
                  (e, h2) \<Rightarrow>
                    (let s1 = s\<lparr>vs_world := w1\<rparr>;
                         s2 = (if v_ValidateSHA256 vctx \<and> expectedH \<noteq> sha256 h2
                               then s1\<lparr>vs_wrong := vs_wrong s1 @ [(k, v, sha256 h2)]\<rparr> else s1)
                     in (defer_err (of_err e) (wrap_opt ''error in clean-up close in validate'' (rd_close r)), s2)))))"

text \<open>The loop over the missing entries: an error to collect, or a fetch whose failure ends the command.\<close>

fun handle_missing :: "('w, 'b) Store \<Rightarrow> (request \<Rightarrow> 'n \<Rightarrow> response res \<times> 'n) \<Rightarrow> (err option \<Rightarrow> err \<Rightarrow> err) \<Rightarrow> validateCtx
    \<Rightarrow> (url \<times> BlobInfo) list \<Rightarrow> err option \<Rightarrow> ('h, 'w, 'n) srv \<Rightarrow> err option res \<times> ('h, 'w, 'n) srv" where
  "handle_missing st do_req mappend vctx [] rv s = (Ok rv, s)"
| "handle_missing st do_req mappend vctx ((k, v) # ms) rv s =
     (if v_FailIfMissing vctx then
        handle_missing st do_req mappend vctx ms (Some (mappend rv (Errorf (''missing asset: '' @ url_Redacted k) []))) s
      else if v_FetchIfMissing vctx then
        (case fetchAndSaveBlob st do_req ''GET'' [] k (v_HeadersToCache vctx) None None s of
           (Err e, _, s1) \<Rightarrow> (Err (wrap (''error fetching '' @ url_Redacted k) e), s1)
         | (Panic p, _, s1) \<Rightarrow> (Panic p, s1)
         | (Ok _, _, s1) \<Rightarrow> handle_missing st do_req mappend vctx ms rv s1)
      else handle_missing st do_req mappend vctx ms rv s)"

fun report_wrong :: "(err option \<Rightarrow> err \<Rightarrow> err) \<Rightarrow> (url \<times> BlobInfo \<times> bytes) list \<Rightarrow> err option \<Rightarrow> err option" where
  "report_wrong mappend [] rv = rv"
| "report_wrong mappend ((k, v, h) # ws) rv =
     report_wrong mappend ws (Some (mappend rv (Errorf (''wrong hash for: '' @ url_Redacted k @ '' expected: '' @ Sha256 v @ '' have '' @ hex_encode h) [])))"

definition doValidate :: "('w, 'b) Store \<Rightarrow> (request \<Rightarrow> 'n \<Rightarrow> response res \<times> 'n) \<Rightarrow> (err option \<Rightarrow> err \<Rightarrow> err) \<Rightarrow> validateCtx
    \<Rightarrow> ('h, 'w, 'n) srv \<Rightarrow> unit res \<times> ('h, 'w, 'n) srv" where
  "doValidate st do_req mappend vctx s =
     (case ForEach (validate_entry st vctx) (sv_assets s) \<lparr>vs_missing = [], vs_wrong = [], vs_world = sv_blobs s\<rparr> of
        (Err e, vs) \<Rightarrow> (Err (wrap ''error in verification'' e), s\<lparr>sv_blobs := vs_world vs\<rparr>)
      | (Panic p, vs) \<Rightarrow> (Panic p, s\<lparr>sv_blobs := vs_world vs\<rparr>)
      | (Ok _, vs) \<Rightarrow>
          (case handle_missing st do_req mappend vctx (vs_missing vs) None (s\<lparr>sv_blobs := vs_world vs\<rparr>) of
             (Err e, s1) \<Rightarrow> (Err e, s1)
           | (Panic p, s1) \<Rightarrow> (Panic p, s1)
           | (Ok rv, s1) \<Rightarrow> (of_err (report_wrong mappend (vs_wrong vs) rv), s1)))"

section \<open>What a validated entry means\<close>

lemma hash_copy: "io_Copy hash_write cs e h = (e, h @ concat cs)"
  by (induction cs arbitrary: h) (auto simp: hash_write_def)

lemma report_wrong_None: "report_wrong mappend ws rv = None \<longleftrightarrow> ws = [] \<and> rv = None"
  by (induction mappend ws rv rule: report_wrong.induct) simp_all

lemma handle_missing_fail:
  "v_FailIfMissing vctx \<Longrightarrow> handle_missing st do_req mappend vctx ms rv s = (r, s') \<Longrightarrow>
    s' = s \<and> (r = Ok None \<longleftrightarrow> ms = [] \<and> rv = None) \<and> (\<exists>rv'. r = Ok rv')"
proof (induction ms arbitrary: rv)
  case (Cons kv ms)
  obtain k v where kv: "kv = (k, v)" by (metis surj_pair)
  show ?case using Cons.IH [OF Cons.prems(1)] Cons.prems kv by fastforce
qed auto

text \<open>The lists of the callback only grow.\<close>

lemma validate_entry_lists:
  "validate_entry st vctx k v s = (r, s1) \<Longrightarrow> (\<exists>m. vs_missing s1 = vs_missing s @ m) \<and> (\<exists>x. vs_wrong s1 = vs_wrong s @ x)"
  by (auto simp: validate_entry_def Let_def split: res.splits prod.splits if_splits)

lemma for_each_lists:
  "for_each (validate_entry st vctx) es s = (r, s1) \<Longrightarrow> (\<exists>m. vs_missing s1 = vs_missing s @ m) \<and> (\<exists>x. vs_wrong s1 = vs_wrong s @ x)"
proof (induction es arbitrary: s)
  case (Cons kv es)
  obtain k v where kv: "kv = (k, v)" by (metis surj_pair)
  show ?case
  proof (cases "url_Parse k")
    case (Ok u)
    obtain x s2 where v: "validate_entry st vctx u v s = (x, s2)" by (metis surj_pair)
    then show ?thesis
      using Cons kv Ok validate_entry_lists [OF v] by (cases x) force+
  qed (use Cons kv in auto)
qed simp

context blob_store begin

lemma validate_entry_keeps:
  assumes "validate_entry st vctx k v s = (r, s1)" and "inv (vs_world s)"
  shows "inv (vs_world s1) \<and> holds (vs_world s1) = holds (vs_world s)"
  using assms get_keeps [OF assms(2)]
  by (auto simp: validate_entry_def Let_def split: res.splits prod.splits if_splits)

lemma validate_entry_Ok:
  assumes "validate_entry st vctx k v s = (Ok x, s1)" and "inv (vs_world s)" and "v_ValidateSHA256 vctx"
  shows "(\<exists>m. vs_missing s1 = vs_missing s @ [(k, v)]) \<or> (\<exists>b. vs_wrong s1 = vs_wrong s @ [(k, v, b)]) \<or>
    (\<exists>d c. hex_decode (Sha256 v) = Ok d \<and> holds (vs_world s) d = Some c \<and> sha256 c = d)"
  using assms hash_copy get_content [OF assms(2)]
  by (auto simp: validate_entry_def Let_def hash_copy res_simps rd_content_def split: res.splits prod.splits if_splits)

lemma for_each_keeps:
  assumes "for_each (validate_entry st vctx) es s = (r, s1)" and "inv (vs_world s)"
  shows "inv (vs_world s1) \<and> holds (vs_world s1) = holds (vs_world s)"
  using assms
proof (induction es arbitrary: s)
  case (Cons kv es)
  obtain k v where kv: "kv = (k, v)" by (metis surj_pair)
  show ?case
  proof (cases "url_Parse k")
    case (Ok u)
    obtain x s2 where v: "validate_entry st vctx u v s = (x, s2)" by (metis surj_pair)
    note k = validate_entry_keeps [OF v Cons.prems(2)]
    show ?thesis
    proof (cases x)
      case (Ok y)
      then show ?thesis using Cons.IH [of s2] Cons.prems k kv v \<open>url_Parse k = Ok u\<close> by simp
    qed (use Cons.prems k kv v \<open>url_Parse k = Ok u\<close> in auto)
  qed (use Cons kv in auto)
qed simp

text \<open>Entries that are neither missing nor wrong have their content in the store.\<close>

lemma for_each_sound:
  assumes "for_each (validate_entry st vctx) es s = (Ok x, s1)" and "inv (vs_world s)" and "v_ValidateSHA256 vctx"
    and "vs_missing s1 = []" and "vs_wrong s1 = []"
  shows "\<forall>(k, v) \<in> set es. \<exists>u d c. url_Parse k = Ok u \<and> hex_decode (Sha256 v) = Ok d \<and> holds (vs_world s) d = Some c \<and> sha256 c = d"
  using assms(1,2)
proof (induction es arbitrary: s)
  case (Cons kv es)
  obtain k v where kv: "kv = (k, v)" by (metis surj_pair)
  obtain u y s2 where u: "url_Parse k = Ok u" and v: "validate_entry st vctx u v s = (Ok y, s2)"
      and r: "for_each (validate_entry st vctx) es s2 = (Ok x, s1)"
    using Cons.prems(1) kv by (auto split: res.splits prod.splits)
  have e: "vs_missing s2 = []" "vs_wrong s2 = []" using for_each_lists [OF r] assms(4,5) by auto
  have k2: "inv (vs_world s2)" "holds (vs_world s2) = holds (vs_world s)"
    using validate_entry_keeps [OF v Cons.prems(2)] by auto
  have "\<exists>d c. hex_decode (Sha256 v) = Ok d \<and> holds (vs_world s) d = Some c \<and> sha256 c = d"
    using validate_entry_Ok [OF v Cons.prems(2) assms(3)] e by auto
  then show ?case using Cons.IH [OF r k2(1)] k2(2) kv u by auto
qed simp

lemma validate_sound:
  assumes "doValidate st do_req mappend vctx s = (Ok x, s1)" and "inv (sv_blobs s)"
    and "v_FailIfMissing vctx" and "v_ValidateSHA256 vctx"
  shows "sv_assets s1 = sv_assets s \<and> sv_net s1 = sv_net s \<and> holds (sv_blobs s1) = holds (sv_blobs s) \<and>
    (\<forall>(k, v) \<in> set (gm_entries (blobs (sv_assets s))).
      \<exists>u d c. url_Parse k = Ok u \<and> hex_decode (Sha256 v) = Ok d \<and> holds (sv_blobs s) d = Some c \<and> sha256 c = d)"
proof -
  let ?v0 = "\<lparr>vs_missing = [], vs_wrong = [], vs_world = sv_blobs s\<rparr>"
  obtain y vs rv where fe: "for_each (validate_entry st vctx) (gm_entries (blobs (sv_assets s))) ?v0 = (Ok y, vs)"
    and hm: "handle_missing st do_req mappend vctx (vs_missing vs) None (s\<lparr>sv_blobs := vs_world vs\<rparr>) = (Ok rv, s1)"
    and rw: "report_wrong mappend (vs_wrong vs) rv = None"
    using assms(1) by (auto simp: doValidate_def ForEach_def res_simps split: res.splits prod.splits)
  have rv: "rv = None" "vs_wrong vs = []" using rw by (auto simp: report_wrong_None)
  have m: "vs_missing vs = []" "s1 = s\<lparr>sv_blobs := vs_world vs\<rparr>"
    using handle_missing_fail [OF assms(3) hm] rv by auto
  have "inv (vs_world ?v0)" using assms(2) by simp
  from for_each_sound [OF fe this assms(4) m(1) rv(2)] for_each_keeps [OF fe this] show ?thesis using m(2) by simp
qed

end

section \<open>Fetching what is missing\<close>

text \<open>
  A fetch without a client whose response has status 200: without \<open>AllowOverwrite\<close> it succeeds only if
  the body has the digest that the manifest expects, and then the store holds it.
\<close>

definition net_status_ok :: "(request \<Rightarrow> 'n \<Rightarrow> response res \<times> 'n) \<Rightarrow> bool" where
  "net_status_ok do_req \<longleftrightarrow> (\<forall>q n resp n'. do_req q n = (Ok resp, n') \<longrightarrow> StatusCode resp = 200)"

lemma AddBlob_expected:
  assumes "AddBlob u info f = (Ok x, f')" and "\<not> SkipSave u f" and "gm_get (blobs f) (url_Redacted u) = Some v"
    and "\<not> AllowOverwrite (options f)"
  shows "Sha256 v = Sha256 info"
  using assms by (auto simp: AddBlob_def SkipSave_def internalAddBlob_def blobEquals_def split: if_splits)

context blob_store begin

lemma store_response_expected:
  assumes "store_response st u hc resp wr b f w = (Ok x, wr1, b1, f1, w1)" and "fw_inv inv holds f w"
    and "bwf b" and "pending b w = Some []" and "\<not> SkipSave u f" and "gm_get (blobs f) (url_Redacted u) = Some v"
    and "\<not> AllowOverwrite (options f)"
  shows "Sha256 v = hex_encode (sha256 (rd_content (rs_Body resp))) \<and>
    holds w1 (sha256 (rd_content (rs_Body resp))) = Some (rd_content (rs_Body resp))"
proof -
  have w: "inv w" using assms(2) by (simp add: fw_inv_def)
  obtain x2 b2 w2 digest b3 hs where cp: "copy_response st (rs_Body resp) wr b w = (Ok x2, wr1, b2, w2)"
    and cm: "Blob_Commit st b2 w2 = (Ok digest, b3, w1)"
    and ad: "AddBlob u \<lparr>Sha256 = hex_encode digest, Headers = hs\<rparr> f = (Ok x, f1)"
    using assms(1) by (auto simp: store_response_def res_simps split: res.splits prod.splits)
  note k = copy_response_keeps [OF cp w assms(3)] and p = copy_response_Ok [OF cp w assms(3,4)]
  have "digest = sha256 (rd_content (rs_Body resp))" "holds w1 digest = Some (rd_content (rs_Body resp))"
    using commit_Ok [of w2 b2 "rd_content (rs_Body resp)" digest b3 w1] cm k p by simp_all
  then show ?thesis using AddBlob_expected [OF ad assms(5-7)] by simp
qed

lemma fetch_expected:
  assumes "fetchAndSaveBlob st do_req meth body u hc pre wr s = (Ok x, wr1, s1)" and "srv_inv inv holds s"
    and "\<not> SkipSave u (sv_assets s)" and "gm_get (blobs (sv_assets s)) (url_Redacted u) = Some v"
    and "\<not> AllowOverwrite (options (sv_assets s))" and "net_status_ok do_req"
  shows "\<exists>d. hex_decode (Sha256 v) = Ok d \<and> holds (sv_blobs s1) d \<noteq> None"
proof -
  obtain rq2 resp n where d: "do_req rq2 (sv_net s) = (Ok resp, n)"
    and hr: "handle_response st u hc resp wr (s\<lparr>sv_net := n\<rparr>) = (Ok x, wr1, s1)"
    using assms(1) by (auto simp: fetchAndSaveBlob_def res_simps split: res.splits prod.splits option.splits)
  let ?wr0 = "map_option (\<lambda>r. rw_WriteHeader (StatusCode resp) (r\<lparr>rw_header := hdr_add_all (rs_Header resp) (rw_header r)\<rparr>)) wr"
  have "StatusCode resp = 200" using assms(6) d by (auto simp: net_status_ok_def)
  then obtain b w1 b2 f2 w2 e b3 w3 where pt: "Store_Put st (sv_blobs s) = (Ok b, w1)"
    and sr: "store_response st u hc resp ?wr0 b (sv_assets s) w1 = (Ok x, wr1, b2, f2, w2)"
    and cl: "Blob_Cleanup st b2 w2 = (e, b3, w3)" and s1: "s1 = s\<lparr>sv_net := n, sv_assets := f2, sv_blobs := w3\<rparr>"
    using hr assms(3) by (auto simp: handle_response_def Let_def res_simps split: res.splits prod.splits)
  have fw: "fw_inv inv holds (sv_assets s) (sv_blobs s)" and iw: "inv (sv_blobs s)"
    using assms(2) by (auto simp: srv_inv_def fw_inv_def)
  have k1: "inv w1" "holds w1 = holds (sv_blobs s)" using put_keeps [OF iw pt] by auto
  have b: "bwf b" "pending b w1 = Some []" using put_fresh [OF iw pt] by auto
  have fw1: "fw_inv inv holds (sv_assets s) w1" using fw_world [OF fw k1] by auto
  have "inv w2" "bwf b2" using store_response_keeps [OF sr fw1 b] by (auto simp: fw_inv_def)
  then have "holds w3 = holds w2" using cleanup_keeps [OF _ _ cl] by blast
  then show ?thesis using store_response_expected [OF sr fw1 b assms(3,4,5)] s1 by auto
qed

lemma handle_missing_keeps:
  "handle_missing st do_req mappend vctx ms rv s = (r, s1) \<Longrightarrow> srv_inv inv holds s \<Longrightarrow> srv_inv inv holds s1 \<and> srv_le holds s s1"
proof (induction ms arbitrary: rv s)
  case (Cons kv ms)
  obtain k v where kv: "kv = (k, v)" by (metis surj_pair)
  show ?case
  proof (cases "v_FailIfMissing vctx \<or> \<not> v_FetchIfMissing vctx")
    case True
    then show ?thesis using Cons.IH Cons.prems kv by (auto split: if_splits)
  next
    case False
    obtain x wr s2 where f: "fetchAndSaveBlob st do_req ''GET'' [] k (v_HeadersToCache vctx) None None s = (x, wr, s2)"
      by (metis prod_cases3)
    note k = fetchAndSaveBlob_keeps [OF f Cons.prems(2)]
    show ?thesis
    proof (cases x)
      case (Ok y)
      then have "handle_missing st do_req mappend vctx ms rv s2 = (r, s1)" using Cons.prems(1) False kv f by simp
      from Cons.IH [OF this] k show ?thesis using srv_le_trans [of holds s s2 s1] by simp
    qed (use Cons.prems False kv f k in auto)
  qed
qed simp

lemma handle_missing_fetched:
  assumes "handle_missing st do_req mappend vctx ms rv s = (Ok rv', s1)" and "srv_inv inv holds s"
    and "\<not> v_FailIfMissing vctx" and "v_FetchIfMissing vctx" and "\<not> AllowOverwrite (options (sv_assets s))" and "net_status_ok do_req"
    and "\<forall>(k, v) \<in> set ms. \<not> SkipSave k (sv_assets s) \<and> gm_get (blobs (sv_assets s)) (url_Redacted k) = Some v"
  shows "rv' = rv \<and> (\<forall>(k, v) \<in> set ms. \<exists>d. hex_decode (Sha256 v) = Ok d \<and> holds (sv_blobs s1) d \<noteq> None)"
  using assms(1,2,5,7)
proof (induction ms arbitrary: s)
  case (Cons kv ms)
  obtain k v where kv: "kv = (k, v)" by (metis surj_pair)
  obtain y wr s2 where f: "fetchAndSaveBlob st do_req ''GET'' [] k (v_HeadersToCache vctx) None None s = (Ok y, wr, s2)"
      and r: "handle_missing st do_req mappend vctx ms rv s2 = (Ok rv', s1)"
    using Cons.prems(1) assms(3,4) kv by (auto split: res.splits prod.splits)
  have k2: "srv_inv inv holds s2" "srv_le holds s s2" using fetchAndSaveBlob_keeps [OF f Cons.prems(2)] by auto
  then have o: "options (sv_assets s2) = options (sv_assets s)"
      "gm_get (blobs (sv_assets s)) \<subseteq>\<^sub>m gm_get (blobs (sv_assets s2))"
    using Cons.prems(3) by (auto simp: srv_le_def fw_le_def)
  have "\<forall>(k, v) \<in> set ms. \<not> SkipSave k (sv_assets s2) \<and> gm_get (blobs (sv_assets s2)) (url_Redacted k) = Some v"
    using Cons.prems(4) o(1) map_le_Some_D [OF o(2)] by (auto simp: SkipSave_def)
  from Cons.IH [OF r k2(1) _ this] Cons.prems(3) o(1)
  have IH: "rv' = rv" "\<forall>(k, v) \<in> set ms. \<exists>d. hex_decode (Sha256 v) = Ok d \<and> holds (sv_blobs s1) d \<noteq> None" by auto
  have "\<exists>d. hex_decode (Sha256 v) = Ok d \<and> holds (sv_blobs s2) d \<noteq> None"
    using fetch_expected [OF f Cons.prems(2) _ _ Cons.prems(3) assms(6)] Cons.prems(4) kv by auto
  moreover have "dom (holds (sv_blobs s2)) \<subseteq> dom (holds (sv_blobs s1))"
    using handle_missing_keeps [OF r k2(1)] by (simp add: srv_le_def fw_le_def)
  ultimately have "\<exists>d. hex_decode (Sha256 v) = Ok d \<and> holds (sv_blobs s1) d \<noteq> None" by blast
  then show ?case using IH kv by simp
qed simp

text \<open>After the first pass every entry is on one of the lists or has its content in the store.\<close>

lemma for_each_covered:
  assumes "for_each (validate_entry st vctx) es s = (Ok x, s1)" and "inv (vs_world s)" and "v_ValidateSHA256 vctx"
    and "vs_wrong s1 = []" and "(k, v) \<in> set es"
  shows "\<exists>u. url_Parse k = Ok u \<and> ((u, v) \<in> set (vs_missing s1) \<or>
      (\<exists>d c. hex_decode (Sha256 v) = Ok d \<and> holds (vs_world s) d = Some c \<and> sha256 c = d))"
  using assms(1,2,5)
proof (induction es arbitrary: s)
  case (Cons kv es)
  obtain k' v' where kv: "kv = (k', v')" by (metis surj_pair)
  obtain u y s2 where u: "url_Parse k' = Ok u" and ve: "validate_entry st vctx u v' s = (Ok y, s2)"
      and r: "for_each (validate_entry st vctx) es s2 = (Ok x, s1)"
    using Cons.prems(1) kv by (auto split: res.splits prod.splits)
  have k2: "inv (vs_world s2)" "holds (vs_world s2) = holds (vs_world s)"
    using validate_entry_keeps [OF ve Cons.prems(2)] by auto
  show ?case
  proof (cases "(k, v) \<in> set es")
    case True
    then show ?thesis using Cons.IH [OF r k2(1)] k2(2) by simp
  next
    case False
    then have kv': "k' = k" "v' = v" using Cons.prems(3) kv by auto
    obtain m where m: "vs_missing s1 = vs_missing s2 @ m" and w: "vs_wrong s2 = []"
      using for_each_lists [OF r] assms(4) by auto
    have "vs_missing s2 = vs_missing s @ [(u, v)] \<or> (\<exists>d c. hex_decode (Sha256 v) = Ok d \<and> holds (vs_world s) d = Some c \<and> sha256 c = d)"
      using validate_entry_Ok [OF ve Cons.prems(2) assms(3)] w kv'(2) by auto
    then show ?thesis using u kv'(1) m by auto
  qed
qed simp

end

lemma validate_entry_missing:
  "validate_entry st vctx u v s = (r, s1) \<Longrightarrow> set (vs_missing s1) \<subseteq> insert (u, v) (set (vs_missing s))"
  by (auto simp: validate_entry_def Let_def split: res.splits prod.splits if_splits)

lemma missing_origin:
  assumes "for_each (validate_entry st vctx) es s = (r, s1)" and "(u, v) \<in> set (vs_missing s1)" and "(u, v) \<notin> set (vs_missing s)"
  shows "\<exists>k. (k, v) \<in> set es \<and> url_Parse k = Ok u"
  using assms(1,3)
proof (induction es arbitrary: s)
  case Nil
  then show ?case using assms(2) by simp
next
  case (Cons kv es)
  obtain k' v' where kv: "kv = (k', v')" by (metis surj_pair)
  show ?case
  proof (cases "url_Parse k'")
    case (Ok u')
    obtain y s2 where ve: "validate_entry st vctx u' v' s = (y, s2)" by (metis surj_pair)
    note sub = validate_entry_missing [OF ve]
    show ?thesis
    proof (cases "(u, v) \<in> set (vs_missing s2)")
      case True
      then show ?thesis using sub Cons.prems(2) kv Ok by auto
    next
      case False
      then have "for_each (validate_entry st vctx) es s2 = (r, s1)"
        using Cons.prems(1) kv Ok ve assms(2) by (cases y) auto
      from Cons.IH [OF this False] show ?thesis by auto
    qed
  qed (use Cons.prems kv assms(2) in auto)
qed

context blob_store begin

lemma validate_fetch_sound:
  assumes "doValidate st do_req mappend vctx s = (Ok x, s1)" and "srv_inv inv holds s"
    and "\<not> v_FailIfMissing vctx" and "v_FetchIfMissing vctx" and "v_ValidateSHA256 vctx"
    and "\<not> AllowOverwrite (options (sv_assets s))" and "net_status_ok do_req"
    and "\<forall>k v u. (k, v) \<in> set (gm_entries (blobs (sv_assets s))) \<and> url_Parse k = Ok u \<longrightarrow> url_Redacted u = k \<and> \<not> SkipSave u (sv_assets s)"
  shows "srv_inv inv holds s1 \<and> srv_le holds s s1 \<and>
    (\<forall>(k, v) \<in> set (gm_entries (blobs (sv_assets s))). \<exists>d c. hex_decode (Sha256 v) = Ok d \<and> holds (sv_blobs s1) d = Some c \<and> sha256 c = d)"
proof -
  let ?es = "gm_entries (blobs (sv_assets s))" and ?v0 = "\<lparr>vs_missing = [], vs_wrong = [], vs_world = sv_blobs s\<rparr>"
  obtain y vs rv where fe: "for_each (validate_entry st vctx) ?es ?v0 = (Ok y, vs)"
    and hm: "handle_missing st do_req mappend vctx (vs_missing vs) None (s\<lparr>sv_blobs := vs_world vs\<rparr>) = (Ok rv, s1)"
    and rw: "report_wrong mappend (vs_wrong vs) rv = None"
    using assms(1) by (auto simp: doValidate_def ForEach_def res_simps split: res.splits prod.splits)
  have wr: "vs_wrong vs = []" using rw by (auto simp: report_wrong_None)
  have iw: "inv (sv_blobs s)" using assms(2) by (simp add: srv_inv_def fw_inv_def)
  then have k: "inv (vs_world vs)" "holds (vs_world vs) = holds (sv_blobs s)" using for_each_keeps [OF fe] by auto
  have sv: "srv_inv inv holds (s\<lparr>sv_blobs := vs_world vs\<rparr>)" "srv_le holds s (s\<lparr>sv_blobs := vs_world vs\<rparr>)"
    using assms(2) k by (auto simp: srv_inv_def fw_inv_def srv_le_def fw_le_def)
  note k1 = handle_missing_keeps [OF hm sv(1)]
  have le: "srv_le holds s s1" using srv_le_trans [OF sv(2), of s1] k1 by simp
  have cl: "\<exists>u. url_Parse k = Ok u \<and> ((u, v) \<in> set (vs_missing vs) \<or>
      (\<exists>d c. hex_decode (Sha256 v) = Ok d \<and> holds (sv_blobs s) d = Some c \<and> sha256 c = d))" if "(k, v) \<in> set ?es" for k v
    using for_each_covered [OF fe _ assms(5) wr that] iw by simp
  have or: "\<exists>k. (k, v) \<in> set ?es \<and> url_Parse k = Ok u" if "(u, v) \<in> set (vs_missing vs)" for u v
    using missing_origin [OF fe that] by simp
  have wf: "gm_wf (blobs (sv_assets s))"
    using assms(2) by (simp add: srv_inv_def fw_inv_def file_wf_def manifest_wf_iff)
  have "\<forall>(u, v) \<in> set (vs_missing vs). \<not> SkipSave u (sv_assets (s\<lparr>sv_blobs := vs_world vs\<rparr>)) \<and>
      gm_get (blobs (sv_assets (s\<lparr>sv_blobs := vs_world vs\<rparr>))) (url_Redacted u) = Some v"
    using or assms(8) gm_get_mem [OF wf] by fastforce
  from handle_missing_fetched [OF hm sv(1) assms(3,4) _ assms(7) this] assms(6)
  have ft: "\<forall>(u, v) \<in> set (vs_missing vs). \<exists>d. hex_decode (Sha256 v) = Ok d \<and> holds (sv_blobs s1) d \<noteq> None" by simp
  have dm: "dom (holds (sv_blobs s)) \<subseteq> dom (holds (sv_blobs s1))" using le by (simp add: srv_le_def fw_le_def)
  have ca: "content_addressed (holds (sv_blobs s1))" using k1 by (simp add: srv_inv_def fw_inv_def)
  have "\<exists>d c. hex_decode (Sha256 v) = Ok d \<and> holds (sv_blobs s1) d = Some c \<and> sha256 c = d" if kv: "(k, v) \<in> set ?es" for k v
  proof -
    obtain u where "(u, v) \<in> set (vs_missing vs) \<or> (\<exists>d c. hex_decode (Sha256 v) = Ok d \<and> holds (sv_blobs s) d = Some c \<and> sha256 c = d)"
      using cl [OF kv] by blast
    then have "\<exists>d. hex_decode (Sha256 v) = Ok d \<and> holds (sv_blobs s1) d \<noteq> None"
      using ft dm by blast
    then show ?thesis using content_addressedD [OF ca] by force
  qed
  then show ?thesis using k1 le by blast
qed

end

section \<open>Over a ready directory\<close>

text \<open>What has to hold of an entry for the command to be content with it.\<close>

definition entry_good :: "(bytes \<Rightarrow> bytes option) \<Rightarrow> string \<times> BlobInfo \<Rightarrow> bool" where
  "entry_good h kv \<longleftrightarrow> is_Ok (url_Parse (fst kv)) \<and>
     (case hex_decode (Sha256 (snd kv)) of
        Ok d \<Rightarrow> (case h d of Some c \<Rightarrow> sha256 c = d | None \<Rightarrow> False)
      | _ \<Rightarrow> False)"

text \<open>An entry whose blob is missing, but which is otherwise well-formed.\<close>

definition entry_missing :: "(bytes \<Rightarrow> bytes option) \<Rightarrow> string \<times> BlobInfo \<Rightarrow> bool" where
  "entry_missing h kv \<longleftrightarrow> is_Ok (url_Parse (fst kv)) \<and>
     (case hex_decode (Sha256 (snd kv)) of Ok d \<Rightarrow> h d = None | _ \<Rightarrow> False)"

lemma ready_Get_missing:
  assumes "dir_ready (ds_dir d) w" and "dir_holds (ds_dir d) w k = None"
  shows "ds_Get d k w = (Err (Errorf ''%w %w'' [ErrBlobNotExist, ErrNotExist]), w)"
proof -
  have "\<not> dir_exists w (ds_resolve d k)"
    using assms(1) by (simp add: dir_ready_def dir_inv_def dir_exists_def ds_resolve_def)
  then have "os_Open (ds_resolve d k) w = (Err ErrNotExist, w)"
    using assms by (simp add: os_Open_def dir_ready_def dir_holds_def ds_resolve_def)
  then show ?thesis by (simp add: ds_Get_def)
qed

lemma is_OkE: "is_Ok r \<Longrightarrow> (\<And>x. r = Ok x \<Longrightarrow> P) \<Longrightarrow> P"
  by (cases r) auto

lemma validate_entry_good:
  assumes "dir_ready (ds_dir d) (vs_world s)" and "entry_good (dir_holds (ds_dir d) (vs_world s)) (k, v)"
  shows "validate_entry (dir_store d) vctx u v s = (Ok (), s)"
proof -
  obtain h c where h: "hex_decode (Sha256 v) = Ok h" "dir_holds (ds_dir d) (vs_world s) h = Some c" "sha256 c = h"
    using assms(2) by (auto simp: entry_good_def split: res.splits option.splits)
  then show ?thesis
    using ready_Get [OF assms(1) h(2)] by (simp add: validate_entry_def open_reader_def hash_copy Let_def)
qed

lemma validate_entry_absent:
  assumes "dir_ready (ds_dir d) (vs_world s)" and "entry_missing (dir_holds (ds_dir d) (vs_world s)) (k, v)"
  shows "validate_entry (dir_store d) vctx u v s = (Ok (), s\<lparr>vs_missing := vs_missing s @ [(u, v)]\<rparr>)"
proof -
  obtain h where h: "hex_decode (Sha256 v) = Ok h" "dir_holds (ds_dir d) (vs_world s) h = None"
    using assms(2) by (auto simp: entry_missing_def split: res.splits)
  then show ?thesis
    using ready_Get_missing [OF assms(1) h(2)] by (simp add: validate_entry_def)
qed

lemma for_each_ready:
  assumes "dir_ready (ds_dir d) (vs_world s)"
    and "\<forall>kv \<in> set es. entry_good (dir_holds (ds_dir d) (vs_world s)) kv \<or> entry_missing (dir_holds (ds_dir d) (vs_world s)) kv"
  shows "\<exists>m. for_each (validate_entry (dir_store d) vctx) es s = (Ok (), s\<lparr>vs_missing := vs_missing s @ m\<rparr>) \<and>
    (\<forall>(u, v) \<in> set m. \<exists>k. (k, v) \<in> set es \<and> url_Parse k = Ok u \<and> entry_missing (dir_holds (ds_dir d) (vs_world s)) (k, v))"
  using assms
proof (induction es arbitrary: s)
  case Nil
  then show ?case by (intro exI [of _ "[]"]) simp
next
  case (Cons kv es)
  obtain k v where kv: "kv = (k, v)" by (metis surj_pair)
  let ?h = "dir_holds (ds_dir d) (vs_world s)"
  have "is_Ok (url_Parse k)" using Cons.prems(2) kv by (auto simp: entry_good_def entry_missing_def)
  then obtain u where u: "url_Parse k = Ok u" by (rule is_OkE)
  show ?case
  proof (cases "entry_good ?h (k, v)")
    case True
    then show ?thesis
      using Cons.IH [of s] Cons.prems kv u validate_entry_good [OF Cons.prems(1) True] by fastforce
  next
    case False
    then have m: "entry_missing ?h (k, v)" using Cons.prems(2) kv by auto
    let ?s = "s\<lparr>vs_missing := vs_missing s @ [(u, v)]\<rparr>"
    obtain ms where "for_each (validate_entry (dir_store d) vctx) es ?s = (Ok (), ?s\<lparr>vs_missing := vs_missing ?s @ ms\<rparr>)"
      "\<forall>(u, v) \<in> set ms. \<exists>k. (k, v) \<in> set es \<and> url_Parse k = Ok u \<and> entry_missing ?h (k, v)"
      using Cons.IH [of ?s] Cons.prems by auto
    then show ?thesis
      using kv u m validate_entry_absent [OF Cons.prems(1) m]
      by (intro exI [of _ "(u, v) # ms"]) auto
  qed
qed

text \<open>A network that answers every request, but never with status 200.\<close>

definition net_refuses :: "(request \<Rightarrow> 'n \<Rightarrow> response res \<times> 'n) \<Rightarrow> bool" where
  "net_refuses do_req \<longleftrightarrow> (\<forall>q n. \<exists>resp n'. do_req q n = (Ok resp, n') \<and> StatusCode resp \<noteq> 200 \<and> rd_close (rs_Body resp) = None)"

lemma fetch_refused:
  assumes "net_refuses do_req" and "http_NewRequest meth (url_String u) body = Ok nr"
  shows "\<exists>n. fetchAndSaveBlob st do_req meth body u hc None None s = (Ok (), None, s\<lparr>sv_net := n\<rparr>)"
proof -
  obtain resp n where "do_req nr (sv_net s) = (Ok resp, n)" "StatusCode resp \<noteq> 200" "rd_close (rs_Body resp) = None"
    using assms(1) unfolding net_refuses_def by blast
  then show ?thesis using assms(2) by (auto simp: fetchAndSaveBlob_def handle_response_def)
qed

lemma handle_missing_refused:
  assumes "net_refuses do_req" and "\<not> v_FailIfMissing vctx" and "v_FetchIfMissing vctx"
    and "\<forall>(u, v) \<in> set ms. is_Ok (http_NewRequest ''GET'' (url_String u) [])"
  shows "\<exists>n. handle_missing st do_req mappend vctx ms rv s = (Ok rv, s\<lparr>sv_net := n\<rparr>)"
  using assms(4)
proof (induction ms arbitrary: s)
  case Nil
  then show ?case by (intro exI [of _ "sv_net s"]) simp
next
  case (Cons kv ms)
  obtain k v where kv: "kv = (k, v)" by (metis surj_pair)
  have "is_Ok (http_NewRequest ''GET'' (url_String k) [])" using Cons.prems kv by auto
  then obtain nr where "http_NewRequest ''GET'' (url_String k) [] = Ok nr" by (rule is_OkE)
  then obtain n where f: "fetchAndSaveBlob st do_req ''GET'' [] k (v_HeadersToCache vctx) None None s = (Ok (), None, s\<lparr>sv_net := n\<rparr>)"
    using fetch_refused [OF assms(1)] by blast
  obtain n2 where "handle_missing st do_req mappend vctx ms rv (s\<lparr>sv_net := n\<rparr>) = (Ok rv, s\<lparr>sv_net := n, sv_net := n2\<rparr>)"
    using Cons.IH [of "s\<lparr>sv_net := n\<rparr>"] Cons.prems by auto
  then show ?case using f kv assms(2,3) by auto
qed

text \<open>With a directory that is ready and an answer with status 200, a fetch without a client succeeds when its entry can be added.\<close>

lemma ready_fetch_direct:
  assumes "dir_ready (ds_dir d) (sv_blobs s)" and "ds_writable d" and "\<not> SkipSave u (sv_assets s)"
    and "http_NewRequest ''GET'' (url_String u) [] = Ok rq" and "do_req rq (sv_net s) = (Ok resp, n)"
    and "StatusCode resp = 200" and "rd_err (rs_Body resp) = None" and "rd_close (rs_Body resp) = None"
    and "filterHeaders hc (rs_Header resp) = Ok hs"
    and "AddBlob u \<lparr>Sha256 = hex_encode (sha256 (rd_content (rs_Body resp))), Headers = hs\<rparr> (sv_assets s) = (Ok (), f1)"
  shows "\<exists>w2. fetchAndSaveBlob (dir_store d) do_req ''GET'' [] u hc None None s
    = (Ok (), None, s\<lparr>sv_assets := f1, sv_blobs := w2, sv_net := n\<rparr>)"
proof -
  let ?c0 = "NewContentAddressableFile (ds_resolve d)"
  have wf: "caf_wf (ds_dir d) ?c0" by (simp add: ds_resolve_eq caf_wf_new)
  obtain c1 w1 where cp: "io_Copy (blob_write (dir_store d)) (rd_chunks (rs_Body resp)) None (?c0, sv_blobs s) = (None, (c1, w1))"
    and rd1: "dir_ready (ds_dir d) w1" and wf1: "caf_wf (ds_dir d) c1" and p1: "caf_pending c1 w1 = Some (rd_content (rs_Body resp))"
    using ready_copy [OF wf caf_pending_new assms(1) refl, of "rd_chunks (rs_Body resp)"] by (auto simp: rd_content_def)
  obtain c2 w2 where cm: "caf_Commit c1 w1 = (Ok (sha256 (rd_content (rs_Body resp))), c2, w2)"
    using ready_Commit [OF wf1 p1 rd1] by blast
  have cl: "caf_Cleanup c2 w2 = (None, c2\<lparr>caf_mw := False, caf_dg := None\<rparr>, w2)"
    using caf_Commit_done [OF cm] by (simp add: caf_Cleanup_def)
  have "store_response (dir_store d) u hc resp None ?c0 (sv_assets s) (sv_blobs s) = (Ok (), None, c2, f1, w2)"
    using cp cm assms(7,9,10) by (simp add: store_response_def copy_response_def)
  then have "fetchAndSaveBlob (dir_store d) do_req ''GET'' [] u hc None None s
      = (Ok (), None, s\<lparr>sv_assets := f1, sv_blobs := w2, sv_net := n\<rparr>)"
    using cl assms by (simp add: fetchAndSaveBlob_def handle_response_def ds_Put_def)
  then show ?thesis by blast
qed

definition sample_vctx :: "bool \<Rightarrow> validateCtx" where
  "sample_vctx fetch = \<lparr>v_HeadersToCache = None, v_FailIfMissing = \<not> fetch, v_FetchIfMissing = fetch, v_RepairIfWrong = False, v_ValidateSHA256 = True\<rparr>"

text \<open>A manifest with one entry, and a directory that has its blob.\<close>

definition sample_entry :: BlobInfo where
  "sample_entry = \<lparr>Sha256 = hex_encode (sha256 ''hello''), Headers = Some []\<rparr>"

definition sample_verify :: "os \<Rightarrow> (path, os, nat) srv" where
  "sample_verify w = sample_srv\<lparr>sv_assets := sample_file\<lparr>blobs := Some [(''https://example.com/a'', sample_entry)]\<rparr>, sv_blobs := w\<rparr>"

definition sample_dirs :: os where
  "sample_dirs = \<lparr>files = [([''blobs'', hex_encode (sha256 ''hello'')], ''hello'')], dirs = [[''blobs'']], faults = []\<rparr>"

lemma sample_key: "url_Parse ''https://example.com/a'' = Ok sample_url" "url_Redacted sample_url = ''https://example.com/a''"
  by code_simp+

lemma sample_dirs_ready: "dir_ready (ds_dir sample_store) sample_dirs"
  by (auto simp: sample_dir sample_dirs_def dir_ready_def dir_inv_def fs_get_def prefixes_of_def)

lemma empty_ready: "dir_ready (ds_dir sample_store) empty_os"
  using sample_ready by (simp add: sample_srv_def)

lemma sample_good: "entry_good (dir_holds (ds_dir sample_store) sample_dirs) (''https://example.com/a'', sample_entry)"
  by (simp add: entry_good_def sample_key sample_entry_def dir_holds_def sample_dir sample_dirs_def fs_get_def)

lemma sample_absent: "entry_missing (dir_holds (ds_dir sample_store) empty_os) (''https://example.com/a'', sample_entry)"
  by (simp add: entry_missing_def sample_key sample_entry_def dir_holds_def sample_dir empty_os_def fs_get_def)

lemma sample_verify_simps: "gm_entries (blobs (sv_assets (sample_verify w))) = [(''https://example.com/a'', sample_entry)]"
    "sv_blobs (sample_verify w) = w" "\<not> AllowOverwrite (options (sv_assets (sample_verify w)))"
    "\<not> SkipSave u (sv_assets (sample_verify w))"
  by (simp_all add: sample_verify_def sample_srv_def sample_file_def sample_opts_def SkipSave_def)

lemma sample_verify_inv: "srv_inv (dir_inv (ds_dir sample_store)) (dir_holds (ds_dir sample_store)) (sample_verify empty_os)"
  using empty_ready
  by (simp add: dir_ready_def srv_inv_def fw_inv_def sample_verify_def sample_srv_def sample_file_def file_wf_def content_addressed_def
      dir_holds_def empty_os_def fs_get_def manifest_wf_def gm_wf_def sample_entry_def)

section \<open>Properties\<close>

text \<open>
  C9. Verification without fetching is exact. Over a directory, when the command succeeds every entry of
  the manifest has a parseable URL, a well-formed digest and a blob whose content has this digest,
  whatever was written to the directory before and whatever faults occurred, and nothing was changed;
  when no fault occurs and all entries are like this, it succeeds.
\<close>

theorem verify_exact:
  assumes "dir_inv (ds_dir d) (sv_blobs s)" and "v_FailIfMissing vctx" and "v_ValidateSHA256 vctx"
    and "doValidate (dir_store d) do_req mappend vctx s = (r, s1)"
  shows "(r = Ok () \<longrightarrow> list_all (entry_good (dir_holds (ds_dir d) (sv_blobs s))) (gm_entries (blobs (sv_assets s))) \<and>
      sv_assets s1 = sv_assets s \<and> sv_net s1 = sv_net s \<and> dir_holds (ds_dir d) (sv_blobs s1) = dir_holds (ds_dir d) (sv_blobs s)) \<and>
    (dir_ready (ds_dir d) (sv_blobs s) \<and> list_all (entry_good (dir_holds (ds_dir d) (sv_blobs s))) (gm_entries (blobs (sv_assets s)))
      \<longrightarrow> r = Ok () \<and> s1 = s)"
proof (intro conjI impI)
  assume r: "r = Ok ()"
  note vs = ds.validate_sound [OF assms(4) [unfolded r] assms(1-3)]
  show "list_all (entry_good (dir_holds (ds_dir d) (sv_blobs s))) (gm_entries (blobs (sv_assets s)))"
    using vs by (fastforce simp: list_all_iff entry_good_def)
  show "sv_assets s1 = sv_assets s" "sv_net s1 = sv_net s" "dir_holds (ds_dir d) (sv_blobs s1) = dir_holds (ds_dir d) (sv_blobs s)"
    using vs by auto
next
  assume a: "dir_ready (ds_dir d) (sv_blobs s) \<and> list_all (entry_good (dir_holds (ds_dir d) (sv_blobs s))) (gm_entries (blobs (sv_assets s)))"
  let ?v0 = "\<lparr>vs_missing = [], vs_wrong = [], vs_world = sv_blobs s\<rparr>"
  have "for_each (validate_entry (dir_store d) vctx) es ?v0 = (Ok (), ?v0)"
    if "list_all (entry_good (dir_holds (ds_dir d) (sv_blobs s))) es" for es
    using that
  proof (induction es)
    case (Cons kv es)
    obtain k v where kv: "kv = (k, v)" by (metis surj_pair)
    then have g: "entry_good (dir_holds (ds_dir d) (vs_world ?v0)) (k, v)" using Cons.prems by simp
    then have "is_Ok (url_Parse k)" by (simp add: entry_good_def)
    then obtain u where "url_Parse k = Ok u" by (rule is_OkE)
    then show ?case using validate_entry_good [OF _ g, of vctx] a Cons kv by simp
  qed simp
  then have "doValidate (dir_store d) do_req mappend vctx s = (Ok (), s)"
    using a by (simp add: doValidate_def ForEach_def)
  then show "r = Ok ()" "s1 = s" using assms(4) by auto
qed

lemma verify_exact_witness:
  "doValidate (dir_store sample_store) sample_net (\<lambda>_ e. e) (sample_vctx False) (sample_verify sample_dirs) = (Ok (), sample_verify sample_dirs)"
proof -
  have "dir_inv (ds_dir sample_store) (sv_blobs (sample_verify sample_dirs))"
    using sample_dirs_ready by (simp add: sample_verify_simps dir_ready_def)
  moreover obtain r s1 where v: "doValidate (dir_store sample_store) sample_net (\<lambda>_ e. e) (sample_vctx False) (sample_verify sample_dirs) = (r, s1)"
    by (metis surj_pair)
  moreover have "v_FailIfMissing (sample_vctx False)" "v_ValidateSHA256 (sample_vctx False)" by (simp_all add: sample_vctx_def)
  ultimately show ?thesis
    using verify_exact [of sample_store "sample_verify sample_dirs" "sample_vctx False" sample_net "\<lambda>_ e. e" r s1]
      sample_dirs_ready sample_good
    by (simp add: sample_verify_simps)
qed

text \<open>
  C27. Verification with fetching. Over a directory, with a manifest in the form in which the program
  writes it, without overwriting, and if the network answers with status 200 whenever it answers: when the
  command succeeds, every entry has its content in the store, also those that were missing; the
  entries are unchanged and the store has only grown.
\<close>

theorem verify_fetch_restores:
  assumes "srv_inv (dir_inv (ds_dir d)) (dir_holds (ds_dir d)) s" and "\<not> AllowOverwrite (options (sv_assets s))"
    and "\<not> v_FailIfMissing vctx" and "v_FetchIfMissing vctx" and "v_ValidateSHA256 vctx" and "net_status_ok do_req"
    and "\<forall>k v u. (k, v) \<in> set (gm_entries (blobs (sv_assets s))) \<and> url_Parse k = Ok u \<longrightarrow> url_Redacted u = k \<and> \<not> SkipSave u (sv_assets s)"
    and "doValidate (dir_store d) do_req mappend vctx s = (Ok (), s1)"
  shows "(\<forall>(k, v) \<in> set (gm_entries (blobs (sv_assets s))). \<exists>h c.
      hex_decode (Sha256 v) = Ok h \<and> dir_holds (ds_dir d) (sv_blobs s1) h = Some c \<and> sha256 c = h) \<and>
    gm_get (blobs (sv_assets s)) \<subseteq>\<^sub>m gm_get (blobs (sv_assets s1)) \<and>
    dom (dir_holds (ds_dir d) (sv_blobs s)) \<subseteq> dom (dir_holds (ds_dir d) (sv_blobs s1)) \<and>
    srv_inv (dir_inv (ds_dir d)) (dir_holds (ds_dir d)) s1"
  using ds.validate_fetch_sound [OF assms(8,1,3,4,5,2,6,7)] assms(2) by (simp add: srv_le_def fw_le_def)

text \<open>
  The manifest has an entry whose blob is not there: the store is empty. It is fetched, and is there afterwards, with
  the entry as it was.
\<close>

lemma verify_fetch_restores_witness:
  "dir_holds [''blobs''] (sv_blobs (sample_verify empty_os)) (sha256 ''hello'') = None \<and>
   (\<exists>s1. doValidate (dir_store sample_store) sample_net (\<lambda>_ e. e) (sample_vctx True) (sample_verify empty_os) = (Ok (), s1) \<and>
      sv_net s1 = 1 \<and> gm_get (blobs (sv_assets s1)) ''https://example.com/a'' = Some sample_entry \<and>
      (\<exists>c. dir_holds [''blobs''] (sv_blobs s1) (sha256 ''hello'') = Some c \<and> sha256 c = sha256 ''hello''))"
proof -
  let ?s = "sample_verify empty_os" and ?k = "''https://example.com/a''"
  have absent: "dir_holds (ds_dir sample_store) empty_os (sha256 ''hello'') = None" by (simp add: dir_holds_def empty_os_def fs_get_def)
  have "for_each (validate_entry (dir_store sample_store) (sample_vctx True)) [(?k, sample_entry)]
      \<lparr>vs_missing = [], vs_wrong = [], vs_world = empty_os\<rparr> = (Ok (), \<lparr>vs_missing = [(sample_url, sample_entry)], vs_wrong = [], vs_world = empty_os\<rparr>)"
    using validate_entry_absent [of sample_store "\<lparr>vs_missing = [], vs_wrong = [], vs_world = empty_os\<rparr>" ?k sample_entry]
      empty_ready sample_absent sample_key by simp
  then have v: "ForEach (validate_entry (dir_store sample_store) (sample_vctx True)) (sv_assets ?s) \<lparr>vs_missing = [], vs_wrong = [], vs_world = sv_blobs ?s\<rparr>
      = (Ok (), \<lparr>vs_missing = [(sample_url, sample_entry)], vs_wrong = [], vs_world = empty_os\<rparr>)"
    by (simp add: ForEach_def sample_verify_simps)
  have fh: "filterHeaders None (rs_Header sample_response) = Ok (Some [])" by code_simp
  have ad: "AddBlob sample_url \<lparr>Sha256 = hex_encode (sha256 ''hello''), Headers = Some []\<rparr> (sv_assets ?s) = (Ok (), sv_assets ?s)"
    by (simp add: AddBlob_def internalAddBlob_def sample_verify_def sample_srv_def sample_file_def sample_opts_def mm_Match_def sample_key
        gm_get_def sample_entry_def blobEquals_def maps_Equal_def)
  obtain rq where rq: "http_NewRequest ''GET'' (url_String sample_url) [] = Ok rq"
    using sample_new_request unfolding sample_extract by (simp add: sample_request_def)
  have nt: "sample_net rq (sv_net ?s) = (Ok sample_response, 1)" by (simp add: sample_net_def sample_verify_def sample_srv_def)
  have sk: "\<not> SkipSave sample_url (sv_assets ?s)"
    by (simp add: SkipSave_def sample_verify_def sample_srv_def sample_file_def sample_opts_def mm_Match_def)
  have rd: "dir_ready (ds_dir sample_store) (sv_blobs ?s)" using empty_ready by (simp add: sample_verify_simps)
  obtain w2 where f: "fetchAndSaveBlob (dir_store sample_store) sample_net ''GET'' [] sample_url None None None ?s
      = (Ok (), None, ?s\<lparr>sv_blobs := w2, sv_net := 1\<rparr>)"
    using ready_fetch_direct [of sample_store ?s sample_url rq sample_net sample_response 1 None "Some []" "sv_assets ?s",
        OF rd sample_dir(2) sk rq nt sample_response_simps(1-3) fh] ad sample_response_simps(4)
    by auto
  have st: "?s\<lparr>sv_blobs := empty_os\<rparr> = ?s" by (simp add: sample_verify_def)
  have d: "doValidate (dir_store sample_store) sample_net (\<lambda>_ e. e) (sample_vctx True) ?s = (Ok (), ?s\<lparr>sv_blobs := w2, sv_net := 1\<rparr>)"
    using v f by (simp add: doValidate_def sample_vctx_def st)
  note sample_verify_inv
  moreover have "net_status_ok sample_net" by (simp add: net_status_ok_def sample_net_def sample_response_def)
  ultimately have "(\<forall>(k, v) \<in> set (gm_entries (blobs (sv_assets ?s))). \<exists>h c.
      hex_decode (Sha256 v) = Ok h \<and> dir_holds (ds_dir sample_store) w2 h = Some c \<and> sha256 c = h) \<and>
      gm_get (blobs (sv_assets ?s)) \<subseteq>\<^sub>m gm_get (blobs (sv_assets ?s))"
    using verify_fetch_restores [of sample_store ?s "sample_vctx True" sample_net "\<lambda>_ e. e", OF _ _ _ _ _ _ _ d] sk sample_key
    by (auto simp: sample_verify_simps sample_vctx_def)
  then show ?thesis using d absent by (auto simp: sample_verify_simps sample_entry_def sample_dir gm_get_def)
qed

text \<open>
  C40. A fetch that is refused goes unnoticed. If every answer of the network has another status than 200
  (404, say), the verify command with \<open>--fetch\<close> succeeds although entries are missing, and nothing is
  stored.
\<close>

theorem verify_accepts_refused_fetch:
  assumes "dir_ready (ds_dir d) (sv_blobs s)" and "net_refuses do_req"
    and "\<not> v_FailIfMissing vctx" and "v_FetchIfMissing vctx"
    and "\<forall>kv \<in> set (gm_entries (blobs (sv_assets s))).
      entry_good (dir_holds (ds_dir d) (sv_blobs s)) kv \<or> entry_missing (dir_holds (ds_dir d) (sv_blobs s)) kv"
    and "\<forall>kv \<in> set (gm_entries (blobs (sv_assets s))). \<forall>u. url_Parse (fst kv) = Ok u \<longrightarrow> is_Ok (http_NewRequest ''GET'' (url_String u) [])"
  shows "\<exists>n. doValidate (dir_store d) do_req mappend vctx s = (Ok (), s\<lparr>sv_net := n\<rparr>)"
proof -
  let ?v0 = "\<lparr>vs_missing = [], vs_wrong = [], vs_world = sv_blobs s\<rparr>" and ?es = "gm_entries (blobs (sv_assets s))"
  obtain m where f: "for_each (validate_entry (dir_store d) vctx) ?es ?v0 = (Ok (), ?v0\<lparr>vs_missing := m\<rparr>)"
    and m: "\<forall>(u, v) \<in> set m. \<exists>k. (k, v) \<in> set ?es \<and> url_Parse k = Ok u"
    using for_each_ready [of d ?v0 ?es vctx] assms(1,5) by fastforce
  have "\<forall>(u, v) \<in> set m. is_Ok (http_NewRequest ''GET'' (url_String u) [])" using m assms(6) by fastforce
  then obtain n where "handle_missing (dir_store d) do_req mappend vctx m None s = (Ok None, s\<lparr>sv_net := n\<rparr>)"
    using handle_missing_refused [OF assms(2-4)] by blast
  then show ?thesis using f by (auto simp: doValidate_def ForEach_def)
qed

lemma verify_accepts_refused_fetch_witness:
  "\<exists>n. doValidate (dir_store sample_store) (\<lambda>q n. (Ok (sample_response\<lparr>StatusCode := 404\<rparr>), Suc n)) (\<lambda>_ e. e) (sample_vctx True) (sample_verify empty_os)
    = (Ok (), sample_verify empty_os\<lparr>sv_net := n\<rparr>)"
proof -
  have "net_refuses (\<lambda>q n. (Ok (sample_response\<lparr>StatusCode := 404\<rparr>), Suc n))"
    by (simp add: net_refuses_def sample_response_def)
  moreover have "is_Ok (http_NewRequest ''GET'' (url_String sample_url) [])" by code_simp
  ultimately show ?thesis
    using verify_accepts_refused_fetch [of sample_store "sample_verify empty_os" "\<lambda>q n. (Ok (sample_response\<lparr>StatusCode := 404\<rparr>), Suc n)"
        "sample_vctx True" "\<lambda>_ e. e"] empty_ready sample_absent
    by (simp add: sample_verify_simps sample_vctx_def sample_key)
qed

end
