(* ===== verification/SharedStore.thy ===== *)
theory SharedStore
  imports DirectoryStore
begin

text \<open>
  Several unfinished blobs of one store at a time: the contract that lets goroutines write to a store side
  by side, each call of an operation being one step, and its proof for the directory store.
\<close>

section \<open>The contract\<close>

text \<open>
  \<open>alive b w\<close> says that what \<open>b\<close> owns in the world is there, \<open>indep b c\<close> that \<open>b\<close> and \<open>c\<close> own different
  things. Reading leaves all unfinished blobs alone, and so do the operations on one blob with the others.
\<close>

locale blob_store_shared = blob_store +
  fixes alive :: "'b \<Rightarrow> 'a \<Rightarrow> bool"
    and indep :: "'b \<Rightarrow> 'b \<Rightarrow> bool"
  assumes indep_sym: "indep b c \<Longrightarrow> indep c b"
    and get_frame: "Store_Get st k w = (r, w') \<Longrightarrow> alive c w \<Longrightarrow> alive c w' \<and> pending c w' = pending c w"
    and exists_frame: "Store_Exists st k w = (rx, w') \<Longrightarrow> alive c w \<Longrightarrow> alive c w' \<and> pending c w' = pending c w"
    and put_frame: "Store_Put st w = (rp, w') \<Longrightarrow> alive c w \<Longrightarrow> alive c w' \<and> pending c w' = pending c w"
    and put_alive: "Store_Put st w = (Ok b, w') \<Longrightarrow> alive b w' \<and> indep b c"
    and write_alive: "bwf b \<Longrightarrow> alive b w \<Longrightarrow> Blob_Write st b p w = (rw, b', w') \<Longrightarrow> alive b' w'"
    and write_frame: "bwf b \<Longrightarrow> bwf c \<Longrightarrow> alive c w \<Longrightarrow> indep b c \<Longrightarrow> Blob_Write st b p w = (rw, b', w') \<Longrightarrow>
      alive c w' \<and> pending c w' = pending c w \<and> indep b' c"
    and commit_alive: "bwf b \<Longrightarrow> alive b w \<Longrightarrow> Blob_Commit st b w = (rc, b', w') \<Longrightarrow> alive b' w'"
    and commit_frame: "bwf b \<Longrightarrow> bwf c \<Longrightarrow> alive c w \<Longrightarrow> indep b c \<Longrightarrow> Blob_Commit st b w = (rc, b', w') \<Longrightarrow>
      alive c w' \<and> pending c w' = pending c w \<and> indep b' c"
    and cleanup_frame: "bwf b \<Longrightarrow> bwf c \<Longrightarrow> alive c w \<Longrightarrow> indep b c \<Longrightarrow> Blob_Cleanup st b w = (re, b', w') \<Longrightarrow>
      alive c w' \<and> pending c w' = pending c w \<and> indep b' c"

text \<open>
  What a step that turns the blob \<open>h\<close> of one goroutine (if it has one) into \<open>h'\<close> does for the blobs of the others,
  and blobs of which any two are independent.
\<close>

definition blob_frame :: "('b \<Rightarrow> bool) \<Rightarrow> ('b \<Rightarrow> 'w \<Rightarrow> bool) \<Rightarrow> ('b \<Rightarrow> 'w \<Rightarrow> bytes option) \<Rightarrow> ('b \<Rightarrow> 'b \<Rightarrow> bool)
    \<Rightarrow> 'b option \<Rightarrow> 'w \<Rightarrow> 'b option \<Rightarrow> 'w \<Rightarrow> bool" where
  "blob_frame bwf alive pending indep h w h' w' \<longleftrightarrow>
     (\<forall>c. bwf c \<and> alive c w \<and> (\<forall>b. h = Some b \<longrightarrow> indep b c) \<longrightarrow>
        alive c w' \<and> pending c w' = pending c w \<and> (\<forall>b'. h' = Some b' \<longrightarrow> indep b' c))"

definition all_indep :: "('b \<Rightarrow> 'b \<Rightarrow> bool) \<Rightarrow> 'b option list \<Rightarrow> bool" where
  "all_indep indep hs \<longleftrightarrow>
     (\<forall>i < length hs. \<forall>j < length hs. \<forall>b c. i \<noteq> j \<and> hs ! i = Some b \<and> hs ! j = Some c \<longrightarrow> indep b c)"

lemma all_indepI: "(\<And>h. h \<in> set hs \<Longrightarrow> h = None) \<Longrightarrow> all_indep indep hs"
  unfolding all_indep_def by (metis nth_mem option.distinct(1))

lemma all_indep_Nil [simp]: "all_indep indep []"
  by (simp add: all_indep_def)

lemma all_indep_snoc: "all_indep indep hs \<Longrightarrow> all_indep indep (hs @ [None])"
  by (auto simp: all_indep_def nth_append less_Suc_eq split: if_splits)

context blob_store_shared begin

lemma frame_update:
  assumes "all_indep indep hs" and "i < length hs" and "blob_frame bwf alive pending indep (hs ! i) w h' w'"
    and "\<And>j c. j < length hs \<Longrightarrow> hs ! j = Some c \<Longrightarrow> bwf c \<and> alive c w"
  shows "all_indep indep (hs[i := h'])"
    and "j < length hs \<Longrightarrow> j \<noteq> i \<Longrightarrow> hs ! j = Some c \<Longrightarrow> alive c w' \<and> pending c w' = pending c w"
proof -
  have f: "alive c w' \<and> pending c w' = pending c w \<and> (\<forall>b'. h' = Some b' \<longrightarrow> indep b' c)"
    if "j < length hs" "j \<noteq> i" "hs ! j = Some c" for j c
    using assms(1,2,3) assms(4) [OF that(1,3)] that unfolding blob_frame_def all_indep_def by metis
  then show "j < length hs \<Longrightarrow> j \<noteq> i \<Longrightarrow> hs ! j = Some c \<Longrightarrow> alive c w' \<and> pending c w' = pending c w" by blast
  show "all_indep indep (hs[i := h'])"
    unfolding all_indep_def
  proof (intro allI impI, elim conjE)
    fix j l b c
    assume j: "j < length (hs[i := h'])" and l: "l < length (hs[i := h'])" and jl: "j \<noteq> l"
      and b: "hs[i := h'] ! j = Some b" and c: "hs[i := h'] ! l = Some c"
    show "indep b c"
      using j l jl b c f [of l c] f [of j b] assms(1) indep_sym unfolding all_indep_def
      by (cases "j = i"; cases "l = i") auto
  qed
qed

end

section \<open>Temporary files of the directory store\<close>

definition caf_alive :: "caf \<Rightarrow> os \<Rightarrow> bool" where
  "caf_alive c w \<longleftrightarrow> (\<forall>h. caf_tf c = Some h \<longrightarrow> fs_get w (h_name h) \<noteq> None)"

definition caf_off :: "caf \<Rightarrow> path \<Rightarrow> bool" where
  "caf_off c p \<longleftrightarrow> (\<forall>h. caf_tf c = Some h \<longrightarrow> h_name h \<noteq> p)"

definition caf_indep :: "caf \<Rightarrow> caf \<Rightarrow> bool" where
  "caf_indep b c \<longleftrightarrow> (\<forall>h. caf_tf c = Some h \<longrightarrow> caf_off b (h_name h))"

text \<open>
  An operation on one file, seen from a temporary file of another one: \<open>caf_apart b w b' w' p\<close> says that
  \<open>p\<close> is left alone and does not become the temporary file of \<open>b\<close>.
\<close>

definition caf_apart :: "caf \<Rightarrow> os \<Rightarrow> caf \<Rightarrow> os \<Rightarrow> path \<Rightarrow> bool" where
  "caf_apart b w b' w' p \<longleftrightarrow>
     (caf_off b p \<and> fs_get w p \<noteq> None \<longrightarrow> caf_off b' p \<and> fs_get w' p = fs_get w p)"

lemma caf_apart_trans: "caf_apart b w b1 w1 p \<Longrightarrow> caf_apart b1 w1 b' w' p \<Longrightarrow> caf_apart b w b' w' p"
  by (auto simp: caf_apart_def)

lemma caf_init_apart: "caf_init b w = (e, b', w') \<Longrightarrow> caf_apart b w b' w' p"
  by (auto simp: caf_init_def Let_def caf_apart_def caf_off_def split: if_splits prod.splits option.splits res.splits
      dest!: os_MkdirAll_fs os_CreateTemp_Ok os_CreateTemp_Err os_CreateTemp_not_Panic [THEN notE])

lemma caf_init_alive: "caf_init b w = (e, b', w') \<Longrightarrow> caf_alive b w \<Longrightarrow> caf_alive b' w'"
  by (auto simp: caf_init_def Let_def caf_alive_def split: if_splits prod.splits option.splits res.splits
      dest!: os_MkdirAll_fs os_CreateTemp_Ok os_CreateTemp_Err os_CreateTemp_not_Panic [THEN notE])

lemma os_Write_kept: "os_Write h b w = (r, w') \<Longrightarrow> fs_get w p \<noteq> None \<Longrightarrow> fs_get w' p \<noteq> None"
  by (auto simp: os_Write_def fs_simps split: prod.splits fault.splits option.splits if_splits dest!: pop_fault_same)

lemma os_Write_other: "os_Write h b w = (r, w') \<Longrightarrow> h_name h \<noteq> p \<Longrightarrow> fs_get w' p = fs_get w p"
  using os_Write_frame by metis

lemma caf_multi_apart:
  assumes "caf_multi_write b p w = (r, b', w')"
  shows "caf_apart b w b' w' q"
proof (cases "caf_tf b")
  case None
  then show ?thesis using assms by (simp add: caf_multi_write_def caf_apart_def)
next
  case (Some h)
  obtain n e w1 where o: "os_Write h p w = ((n, e), w1)" by (metis surj_pair)
  have "caf_tf b' = caf_tf b" "w' = w1"
    using assms Some o by (auto simp: caf_multi_write_def split: option.splits if_splits)
  then show ?thesis using os_Write_other [OF o, of q] Some by (simp add: caf_apart_def caf_off_def)
qed

lemma caf_multi_alive: "caf_multi_write b p w = (r, b', w') \<Longrightarrow> caf_alive b w \<Longrightarrow> caf_alive b' w'"
  by (auto simp: caf_multi_write_def caf_alive_def split: option.splits prod.splits if_splits
      dest: os_Write_kept)

lemma caf_size_apart [simp]: "caf_apart b w (b'\<lparr>caf_size := n\<rparr>) w' p = caf_apart b w b' w' p"
  "caf_alive (b'\<lparr>caf_size := n\<rparr>) w' = caf_alive b' w'"
  by (simp_all add: caf_apart_def caf_alive_def caf_off_def)

lemma caf_always_apart:
  assumes "caf_writeAlways b p w = (r, b', w')"
  shows "caf_apart b w b' w' q \<and> (caf_alive b w \<longrightarrow> caf_alive b' w')"
proof -
  obtain e b1 w1 where i: "caf_init b w = (e, b1, w1)" by (metis surj_pair)
  show ?thesis
  proof (cases e)
    case None
    obtain n r2 b2 w2 where m: "caf_multi_write b1 p w1 = ((n, r2), b2, w2)" by (metis surj_pair)
    then have "b' = b2\<lparr>caf_size := caf_size b2 + n\<rparr>" "w' = w2"
      using assms i None by (simp_all add: caf_writeAlways_def)
    then show ?thesis
      using caf_apart_trans [OF caf_init_apart [OF i] caf_multi_apart [OF m], of q] caf_init_alive [OF i] caf_multi_alive [OF m]
      by simp
  next
    case (Some er)
    then show ?thesis
      using assms i caf_init_apart [OF i, of q] caf_init_alive [OF i] by (simp add: caf_writeAlways_def)
  qed
qed

lemma caf_Write_apart:
  assumes "caf_Write b p w = (r, b', w')"
  shows "caf_apart b w b' w' q \<and> (caf_alive b w \<longrightarrow> caf_alive b' w')"
  using assms caf_always_apart [of b p w r b' w' q] by (auto simp: caf_Write_def caf_apart_def split: if_splits)

text \<open>Renaming the temporary file to its digest does not touch other temporary files.\<close>

lemma os_Rename_other: "os_Rename p q w = (r, w') \<Longrightarrow> p \<noteq> x \<Longrightarrow> q \<noteq> x \<Longrightarrow> fs_get w' x = fs_get w x"
  by (auto simp: os_Rename_def fs_simps split: prod.splits fault.splits option.splits if_splits dest!: pop_fault_same)

lemma os_Remove_other: "os_Remove p w = (r, w') \<Longrightarrow> p \<noteq> x \<Longrightarrow> fs_get w' x = fs_get w x"
  using os_Remove_frame by metis

lemma caf_finish_apart:
  assumes "caf_finish b w = (r, b', w')" and "\<forall>k. caf_fn b k \<noteq> q"
  shows "caf_apart b w b' w' q \<and> (caf_alive b w \<longrightarrow> caf_alive b' w')"
proof (cases "caf_tf b")
  case None
  then show ?thesis using assms by (auto simp: caf_finish_def caf_apart_def)
next
  case (Some h)
  obtain e h1 w1 where c: "os_Close h w = (e, h1, w1)" by (metis surj_pair)
  have n: "h_name h1 = h_name h" and f: "fs_get w1 = fs_get w" using os_Close_h [OF c] os_Close_fs [OF c] by auto
  show ?thesis
    using assms Some c n f
    by (auto simp: caf_finish_def Let_def caf_apart_def caf_off_def caf_alive_def split: prod.splits option.splits
        dest!: os_MkdirAll_fs os_Rename_Err dest: os_Rename_other)
qed

lemma caf_init_fn: "caf_init b w = (e, b', w') \<Longrightarrow> caf_fn b' = caf_fn b"
  by (auto simp: caf_init_def Let_def split: if_splits prod.splits option.splits res.splits)

lemma caf_always_fn: "caf_writeAlways b p w = (r, b', w') \<Longrightarrow> caf_fn b' = caf_fn b"
  by (auto simp: caf_writeAlways_def caf_multi_write_def split: prod.splits option.splits if_splits dest!: caf_init_fn)

lemma caf_Commit_apart:
  assumes "caf_Commit b w = (r, b', w')" and "\<forall>k. caf_fn b k \<noteq> q"
  shows "caf_apart b w b' w' q \<and> (caf_alive b w \<longrightarrow> caf_alive b' w')"
proof (cases "caf_size b = 0")
  case True
  obtain n e b1 w1 where a: "caf_writeAlways b [] w = ((n, e), b1, w1)" by (metis surj_pair)
  note k = caf_always_apart [OF a, of q]
  show ?thesis
  proof (cases e)
    case None
    then have "caf_finish b1 w1 = (r, b', w')" using assms(1) a True by (simp add: caf_Commit_def)
    from caf_finish_apart [OF this] k assms(2) caf_always_fn [OF a] show ?thesis
      by (auto intro: caf_apart_trans)
  next
    case (Some er)
    then show ?thesis using assms(1) a True k by (simp add: caf_Commit_def)
  qed
next
  case False
  then show ?thesis using assms caf_finish_apart by (simp add: caf_Commit_def)
qed

lemma caf_Cleanup_apart:
  assumes "caf_Cleanup b w = (r, b', w')"
  shows "caf_apart b w b' w' q"
proof (cases "caf_tf b")
  case None
  then show ?thesis using assms by (auto simp: caf_Cleanup_def caf_apart_def caf_off_def)
next
  case (Some h)
  obtain e h1 w1 where c: "os_Close h w = (e, h1, w1)" by (metis surj_pair)
  obtain e2 w2 where m: "os_Remove (h_name h1) w1 = (e2, w2)" by (metis surj_pair)
  show ?thesis
    using assms Some c m os_Close_h [OF c] os_Close_fs [OF c] os_Remove_other [OF m, of q]
    by (auto simp: caf_Cleanup_def caf_apart_def caf_off_def)
qed

text \<open>What this means for another blob of the same store.\<close>

lemma apart_frame:
  assumes "caf_wf d c" and "caf_alive c w" and "caf_indep b c" and "\<And>n. caf_apart b w b' w' (d @ [tmp_name n])"
  shows "caf_alive c w' \<and> caf_pending c w' = caf_pending c w \<and> caf_indep b' c"
proof (cases "caf_tf c")
  case None
  then show ?thesis by (simp add: caf_alive_def caf_pending_def caf_indep_def)
next
  case (Some h)
  obtain n where n: "h_name h = d @ [tmp_name n]" using assms(1) Some by (auto simp: caf_wf_def)
  have "caf_off b' (h_name h) \<and> fs_get w' (h_name h) = fs_get w (h_name h)"
    using assms(2-4) Some n unfolding caf_apart_def caf_indep_def caf_alive_def by metis
  then show ?thesis using assms(2) Some by (simp add: caf_alive_def caf_pending_def caf_indep_def)
qed

lemma same_frame: "fs_get w' = fs_get w \<Longrightarrow> caf_alive c w \<Longrightarrow> caf_alive c w' \<and> caf_pending c w' = caf_pending c w"
  by (simp add: caf_alive_def caf_pending_def split: option.splits)

lemma caf_fn_not_tmp: "caf_wf d b \<Longrightarrow> \<forall>k. caf_fn b k \<noteq> d @ [tmp_name n]"
  by (simp add: caf_wf_def)

lemma ds_Get_fs: "ds_Get s k w = (r, w') \<Longrightarrow> fs_get w' = fs_get w"
  by (auto simp: ds_Get_def split: prod.splits res.splits if_splits dest: os_Open_same)

lemma ds_Exists_fs: "ds_Exists s k w = (r, w') \<Longrightarrow> fs_get w' = fs_get w"
  by (auto simp: ds_Exists_def split: prod.splits option.splits if_splits dest: os_Stat_same)

section \<open>The directory store keeps the contract\<close>

interpretation dss: blob_store_shared "dir_store s" "dir_holds (ds_dir s)" "dir_inv (ds_dir s)"
    "caf_wf (ds_dir s)" caf_pending caf_alive caf_indep for s
proof (unfold_locales, goal_cases)
  case (1 b c)
  then show ?case unfolding caf_indep_def caf_off_def by metis
next
  case (2 k w r w' c)
  then show ?case using ds_Get_fs [of s k w r w'] same_frame [of w' w c] by simp
next
  case (3 k w r w' c)
  then show ?case using ds_Exists_fs [of s k w r w'] same_frame [of w' w c] by simp
next
  case (4 w r w' c)
  then show ?case by (auto simp: ds_Put_def split: if_splits)
next
  case (5 w b w' c)
  then show ?case
    by (auto simp: ds_Put_def caf_alive_def caf_indep_def caf_off_def NewContentAddressableFile_def split: if_splits)
next
  case (6 b w p r b' w')
  then show ?case using caf_Write_apart [of b p w r b' w'] by simp
next
  case (7 b c w p r b' w')
  then show ?case using apart_frame [of "ds_dir s" c w b b' w'] caf_Write_apart [of b p w r b' w'] by simp
next
  case (8 b w r b' w')
  then show ?case using caf_Commit_apart [of b w r b' w'] caf_fn_not_tmp [of "ds_dir s" b] by auto
next
  case (9 b c w r b' w')
  then show ?case
    using apart_frame [of "ds_dir s" c w b b' w'] caf_Commit_apart [of b w r b' w'] caf_fn_not_tmp [of "ds_dir s" b] by simp
next
  case (10 b c w r b' w')
  then show ?case using apart_frame [of "ds_dir s" c w b b' w'] caf_Cleanup_apart [of b w r b' w'] by simp
qed

section \<open>Operations stay in their directory\<close>

text \<open>
  \<open>dir_local d w w'\<close>: only files directly in \<open>d\<close> changed, and only \<open>d\<close> and its parents may be new
  directories. It is what a store over another directory sees of an operation.
\<close>

definition dir_local :: "path \<Rightarrow> os \<Rightarrow> os \<Rightarrow> bool" where
  "dir_local d w w' \<longleftrightarrow>
     (\<forall>p. butlast p \<noteq> d \<longrightarrow> fs_get w' p = fs_get w p) \<and>
     set (dirs w') \<subseteq> set (dirs w) \<union> set (prefixes_of d) \<and> set (faults w') \<subseteq> set (faults w)"

lemma dir_local_refl [simp]: "dir_local d w w"
  by (simp add: dir_local_def)

lemma dir_local_trans: "dir_local d w1 w2 \<Longrightarrow> dir_local d w2 w3 \<Longrightarrow> dir_local d w1 w3"
  by (auto simp: dir_local_def)

lemma dir_localI: "env_le w w' \<Longrightarrow> (\<And>p. butlast p \<noteq> d \<Longrightarrow> fs_get w' p = fs_get w p) \<Longrightarrow> dir_local d w w'"
  by (simp add: dir_local_def env_le_def)

lemma local_MkdirAll: "os_MkdirAll d w = (r, w') \<Longrightarrow> dir_local d w w'"
  using os_MkdirAll_faults [of d w r w'] os_MkdirAll_fs [of d w r w'] by (auto simp: dir_local_def)

lemma local_CreateTemp: "os_CreateTemp d w = (r, w') \<Longrightarrow> dir_local d w w'"
  by (rule dir_localI) (auto simp: os_CreateTemp_env,
      cases r, auto dest!: os_CreateTemp_Ok os_CreateTemp_Err os_CreateTemp_not_Panic [THEN notE])

lemma local_Write: "os_Write h b w = (r, w') \<Longrightarrow> butlast (h_name h) = d \<Longrightarrow> dir_local d w w'"
  by (rule dir_localI, erule os_Write_env, rule os_Write_other) auto

lemma local_Close: "os_Close h w = (r, h', w') \<Longrightarrow> dir_local d w w'"
  by (rule dir_localI) (auto simp: os_Close_env os_Close_fs)

lemma local_Rename: "os_Rename p q w = (r, w') \<Longrightarrow> butlast p = d \<Longrightarrow> butlast q = d \<Longrightarrow> dir_local d w w'"
  by (rule dir_localI, erule os_Rename_env, rule os_Rename_other) auto

lemma local_Remove: "os_Remove p w = (r, w') \<Longrightarrow> butlast p = d \<Longrightarrow> dir_local d w w'"
  unfolding dir_local_def
  by (intro conjI allI impI, rule os_Remove_other, assumption, force)
    (use os_Remove_faults [of p w r w'] in auto)

lemma caf_init_local: "caf_init b w = (e, b', w') \<Longrightarrow> caf_wf d b \<Longrightarrow> dir_local d w w'"
  by (auto simp: caf_init_def Let_def caf_wf_fn split: if_splits prod.splits option.splits res.splits
      dest!: local_MkdirAll local_CreateTemp intro: dir_local_trans)

lemma caf_multi_local:
  assumes "caf_multi_write b p w = (r, b', w')" and "caf_wf d b"
  shows "dir_local d w w'"
proof (cases "caf_tf b")
  case None
  then show ?thesis using assms by (simp add: caf_multi_write_def)
next
  case (Some h)
  obtain n e w1 where o: "os_Write h p w = ((n, e), w1)" by (metis surj_pair)
  have "w' = w1" using assms(1) Some o by (auto simp: caf_multi_write_def split: option.splits if_splits)
  moreover have "butlast (h_name h) = d" using assms(2) Some by (auto simp: caf_wf_def)
  ultimately show ?thesis using local_Write [OF o] by simp
qed

lemma caf_always_local:
  assumes "caf_writeAlways b p w = (r, b', w')" and "caf_wf d b"
  shows "dir_local d w w'"
proof -
  obtain e b1 w1 where i: "caf_init b w = (e, b1, w1)" by (metis surj_pair)
  obtain n r2 b2 w2 where m: "caf_multi_write b1 p w1 = ((n, r2), b2, w2)" by (metis surj_pair)
  have l1: "dir_local d w w1" "caf_wf d b1" using caf_init_local [OF i assms(2)] caf_init_keeps [OF i assms(2)] by auto
  show ?thesis
    using assms(1) i m l1 dir_local_trans [OF l1(1) caf_multi_local [OF m l1(2)]]
    by (cases e) (auto simp: caf_writeAlways_def)
qed

lemma caf_Write_local: "caf_Write b p w = (r, b', w') \<Longrightarrow> caf_wf d b \<Longrightarrow> dir_local d w w'"
  by (auto simp: caf_Write_def split: if_splits dest: caf_always_local)

lemma caf_finish_local:
  assumes "caf_finish b w = (r, b', w')" and "caf_wf d b"
  shows "dir_local d w w'"
proof (cases "caf_tf b")
  case None
  then show ?thesis using assms(1) by (simp add: caf_finish_def)
next
  case (Some h)
  obtain e h1 w1 where c: "os_Close h w = (e, h1, w1)" by (metis surj_pair)
  obtain e2 w2 where mk: "os_MkdirAll d w1 = (e2, w2)" by (metis surj_pair)
  have "butlast (h_name h1) = d" using assms(2) Some os_Close_h [OF c] by (auto simp: caf_wf_def)
  then have rn: "dir_local d w2 w3" if "os_Rename (h_name h1) (d @ [x]) w2 = (e3, w3)" for x e3 w3
    using local_Rename [OF that] by simp
  show ?thesis
    using assms(1) Some c mk caf_wf_fn [OF assms(2)] local_Close [OF c, of d] local_MkdirAll [OF mk]
    by (auto simp: caf_finish_def Let_def split: prod.splits option.splits dest!: rn intro: dir_local_trans)
qed

lemma caf_Commit_local:
  assumes "caf_Commit b w = (r, b', w')" and "caf_wf d b"
  shows "dir_local d w w'"
proof (cases "caf_size b = 0")
  case True
  obtain n e b1 w1 where a: "caf_writeAlways b [] w = ((n, e), b1, w1)" by (metis surj_pair)
  have l1: "dir_local d w w1" "caf_wf d b1" using caf_always_local [OF a assms(2)] caf_writeAlways_keeps [OF a assms(2)] by auto
  show ?thesis
    using assms(1) a True l1 caf_finish_local [of b1 w1 r b' w' d] dir_local_trans
    by (cases e) (auto simp: caf_Commit_def)
next
  case False
  then show ?thesis using assms caf_finish_local by (simp add: caf_Commit_def)
qed

lemma caf_Cleanup_local:
  assumes "caf_Cleanup b w = (r, b', w')" and "caf_wf d b"
  shows "dir_local d w w'"
proof (cases "caf_tf b")
  case None
  then show ?thesis using assms(1) by (simp add: caf_Cleanup_def)
next
  case (Some h)
  obtain e h1 w1 where c: "os_Close h w = (e, h1, w1)" by (metis surj_pair)
  obtain e2 w2 where m: "os_Remove (h_name h1) w1 = (e2, w2)" by (metis surj_pair)
  have "butlast (h_name h1) = d" using assms(2) Some os_Close_h [OF c] by (auto simp: caf_wf_def)
  then show ?thesis
    using assms(1) Some c m local_Close [OF c, of d] local_Remove [OF m, of d]
    by (auto simp: caf_Cleanup_def intro: dir_local_trans)
qed

lemma ds_Get_local: "ds_Get s k w = (r, w') \<Longrightarrow> dir_local d w w'"
  by (rule dir_localI) (auto simp: ds_Get_def split: prod.splits res.splits if_splits dest: os_Open_env os_Open_same)

lemma ds_Exists_local: "ds_Exists s k w = (r, w') \<Longrightarrow> dir_local d w w'"
  by (rule dir_localI) (auto simp: ds_Exists_def split: prod.splits option.splits if_splits dest: os_Stat_env os_Stat_same)

lemma ds_Put_local: "ds_Put s w = (r, w') \<Longrightarrow> dir_local d w w'"
  by (auto simp: ds_Put_def split: if_splits)

text \<open>A store over directory \<open>d1\<close> stays well-formed and, unless \<open>d\<close> is the same, keeps its blobs.\<close>

definition dir_apart :: "path \<Rightarrow> path \<Rightarrow> bool" where
  "dir_apart d1 d \<longleftrightarrow> (\<forall>k. d1 @ [hex_encode k] \<notin> set (prefixes_of d))"

lemma dir_local_inv: "dir_local d w w' \<Longrightarrow> dir_apart d1 d \<Longrightarrow> dir_inv d1 w \<Longrightarrow> dir_inv d1 w'"
  by (auto simp: dir_local_def dir_apart_def dir_inv_def list_all_iff)

lemma dir_local_holds: "dir_local d w w' \<Longrightarrow> d1 \<noteq> d \<Longrightarrow> dir_holds d1 w' = dir_holds d1 w"
  by (simp add: dir_local_def dir_holds_def fun_eq_iff)

end
