(* ===== verification/RegistryStore.thy ===== *)
theory RegistryStore
  imports BlobStore Http
begin

text \<open>
  \<open>blobstore/registry/reg_store.go\<close>: a store in a container registry, through the HTTP API of the OCI
  distribution specification. The registry is a server that is not part of the program: \<open>client.Do\<close> is the
  parameter \<open>do_req\<close>, and \<open>body_read\<close> is how much of the body of a request the transport had read when \<open>Do\<close>
  came back (the digest sees only that). What the store relies on is the locale \<open>oci_registry\<close>; under it the
  registry store keeps the \<open>blob_store\<close> contract.

  Writing to a blob after \<open>Commit\<close>, which no client does, is not modelled.
\<close>

section \<open>The store\<close>

record RegistryStore =
  rg_base :: string
  rg_writable :: bool

definition NewRegistryStore :: "string \<Rightarrow> bool \<Rightarrow> RegistryStore" where
  "NewRegistryStore u wr = \<lparr>rg_base = (if \<not> has_suffix u ''/'' then u @ ''/'' else u), rg_writable = wr\<rparr>"

definition blob_url :: "string \<Rightarrow> bytes \<Rightarrow> string" where
  "blob_url base k = base @ ''blobs/sha256:'' @ hex_encode k"

definition reg_Exists :: "(request \<Rightarrow> 'n \<Rightarrow> response res \<times> 'n) \<Rightarrow> RegistryStore \<Rightarrow> bytes \<Rightarrow> 'n \<Rightarrow> bool res \<times> 'n" where
  "reg_Exists do_req r k n =
     (case client_Head do_req (blob_url (rg_base r) k) n of
        (Err e, n1) \<Rightarrow> (Err (wrap ''error checking blob existence from registry store'' e), n1)
      | (Panic p, n1) \<Rightarrow> (Panic p, n1)
      | (Ok resp, n1) \<Rightarrow>
          (if StatusCode resp = 200 then Ok True
           else if StatusCode resp = 404 then Ok False
           else Err (Errorf (''bad status code in registry store for HEAD blob: '' @ nat_string (StatusCode resp)) []), n1))"

definition reg_Get :: "(request \<Rightarrow> 'n \<Rightarrow> response res \<times> 'n) \<Rightarrow> RegistryStore \<Rightarrow> bytes \<Rightarrow> 'n \<Rightarrow> reader res \<times> 'n" where
  "reg_Get do_req r k n =
     (case client_Get do_req (blob_url (rg_base r) k) n of
        (Err e, n1) \<Rightarrow> (Err (wrap ''error fetching blob from registry store'' e), n1)
      | (Panic p, n1) \<Rightarrow> (Panic p, n1)
      | (Ok resp, n1) \<Rightarrow>
          (if StatusCode resp = 200 then Ok (rs_Body resp)
           else if StatusCode resp = 404 then Err (Errorf ''can't find blob in registry'' [ErrBlobNotExist])
           else Err (Errorf (''bad status code in registry store for blob: '' @ nat_string (StatusCode resp)) []), n1))"

text \<open>A blob being uploaded: where to send the next part, the bytes hashed so far, and the offset.\<close>

record blobBeingUploaded =
  bu_url :: string
  bu_digest :: "bytes option"
  bu_bw :: nat

definition newPutAddressableBlob :: "string \<Rightarrow> blobBeingUploaded" where
  "newPutAddressableBlob u = \<lparr>bu_url = u, bu_digest = Some [], bu_bw = 0\<rparr>"

definition reg_Put :: "(request \<Rightarrow> 'n \<Rightarrow> response res \<times> 'n) \<Rightarrow> RegistryStore \<Rightarrow> 'n \<Rightarrow> blobBeingUploaded res \<times> 'n" where
  "reg_Put do_req r n =
     (if \<not> rg_writable r then (Err (Errorf ''attempt to write to unwriteable blobstore'' []), n)
      else
        (case client_Post do_req (rg_base r @ ''blobs/uploads/'') [] [] n of
           (Err e, n1) \<Rightarrow> (Err (wrap ''error fetching blob from registry store'' e), n1)
         | (Panic p, n1) \<Rightarrow> (Panic p, n1)
         | (Ok resp, n1) \<Rightarrow>
             (if StatusCode resp = 202 then
                (case rd_close (rs_Body resp) of
                   Some e \<Rightarrow> Err (wrap ''unexpected error on close'' e)
                 | None \<Rightarrow>
                     (let urlToUpload = hdr_Get (rs_Header resp) ''Location'' in
                      if length urlToUpload = 0 then Err (Errorf ''no location returned therefore cannot put blob!'' [])
                      else Ok (newPutAddressableBlob urlToUpload)))
              else Err (Errorf (''bad status code in registry store for putting blob: '' @ nat_string (StatusCode resp)) []), n1)))"

definition reg_Destroy :: "RegistryStore \<Rightarrow> 'n \<Rightarrow> err option \<times> 'n" where
  "reg_Destroy r n = (Some (Errorf ''destroy not implemented for registry store'' []), n)"

definition reg_RemoveExcept :: "RegistryStore \<Rightarrow> (string, bool) gomap \<Rightarrow> 'n \<Rightarrow> err option \<times> 'n" where
  "reg_RemoveExcept r keep n = (Some (Errorf ''RemoveExcept not implemented for registry store'' []), n)"

definition content_range :: "nat \<Rightarrow> nat \<Rightarrow> string" where
  "content_range bw l = ''bytes '' @ nat_string bw @ ''-'' @ nat_string (bw + l - 1) @ ''/*''"

definition patch_headers :: "nat \<Rightarrow> bytes \<Rightarrow> header \<Rightarrow> header" where
  "patch_headers bw bb h =
     hdr_Set ''Content-Range'' (content_range bw (length bb))
       (hdr_Set ''Content-Type'' ''application/octet-stream'' (hdr_Set ''Content-Length'' (nat_string (length bb)) h))"

definition bu_Write :: "(request \<Rightarrow> 'n \<Rightarrow> response res \<times> 'n) \<Rightarrow> (request \<Rightarrow> 'n \<Rightarrow> nat) \<Rightarrow> blobBeingUploaded \<Rightarrow> bytes \<Rightarrow> 'n
    \<Rightarrow> (nat \<times> err option) \<times> blobBeingUploaded \<times> 'n" where
  "bu_Write do_req body_read b bb n =
     (if length bb = 0 then ((0, None), b, n)
      else
        (case http_NewRequest ''PATCH'' (bu_url b) bb of
           Err e \<Rightarrow> ((0, Some (wrap ''error making PATCH req'' e)), b, n)
         | Panic p \<Rightarrow> ((0, Some (Errorf p [])), b, n)
         | Ok rq \<Rightarrow>
             (let req = rq\<lparr>rq_Header := patch_headers (bu_bw b) bb (rq_Header rq)\<rparr>;
                  b1 = b\<lparr>bu_digest := map_option (\<lambda>d. d @ take (body_read req n) bb) (bu_digest b)\<rparr>
              in case do_req req n of
                   (Err e, n1) \<Rightarrow> ((0, Some (wrap ''error doing PATCH'' e)), b1, n1)
                 | (Panic p, n1) \<Rightarrow> ((0, Some (Errorf p [])), b1, n1)
                 | (Ok resp, n1) \<Rightarrow>
                     (if StatusCode resp \<noteq> 202 then ((0, Some (Errorf ''bad status code'' [])), b1, n1)
                      else
                        (let newLoc = hdr_Get (rs_Header resp) ''Location'' in
                         if length newLoc = 0 then ((0, Some (Errorf ''no location set on response!'' [])), b1, n1)
                         else ((length bb, None), b1\<lparr>bu_url := newLoc, bu_bw := bu_bw b + length bb\<rparr>, n1))))))"

definition digest_url :: "string \<Rightarrow> bytes \<Rightarrow> string" where
  "digest_url loc k = loc @ ''&digest=sha256:'' @ hex_encode k"

text \<open>Whether \<open>NewRequest\<close> or \<open>Do\<close> failed shows in the message.\<close>

definition req_err :: "string \<Rightarrow> string \<Rightarrow> string \<Rightarrow> err \<Rightarrow> err" where
  "req_err meth verb u e =
     wrap (case http_NewRequest meth u [] of Ok _ \<Rightarrow> ''error doing '' @ verb | _ \<Rightarrow> ''error making '' @ meth @ '' req'') e"

definition bu_Commit :: "(request \<Rightarrow> 'n \<Rightarrow> response res \<times> 'n) \<Rightarrow> blobBeingUploaded \<Rightarrow> 'n \<Rightarrow> bytes res \<times> blobBeingUploaded \<times> 'n" where
  "bu_Commit do_req b n =
     (case bu_digest b of
        None \<Rightarrow> (Panic ''nil pointer dereference'', b, n)
      | Some d \<Rightarrow>
          (let digest = sha256 d in
           case client_request do_req ''PUT'' (digest_url (bu_url b) digest)
                  [(''Content-Length'', ''0''), (''Content-Type'', ''application/octet-stream'')] [] n of
             (Err e, n1) \<Rightarrow> (Err (req_err ''PUT'' ''PUT'' (digest_url (bu_url b) digest) e), b, n1)
           | (Panic p, n1) \<Rightarrow> (Panic p, b, n1)
           | (Ok resp, n1) \<Rightarrow>
               (if StatusCode resp \<noteq> 201 then (Err (Errorf ''bad status code from COMMIT'' []), b, n1)
                else (Ok digest, b\<lparr>bu_digest := None\<rparr>, n1))))"

definition bu_Cleanup :: "(request \<Rightarrow> 'n \<Rightarrow> response res \<times> 'n) \<Rightarrow> blobBeingUploaded \<Rightarrow> 'n
    \<Rightarrow> err option \<times> blobBeingUploaded \<times> 'n" where
  "bu_Cleanup do_req b n =
     (if bu_digest b = None then (None, b, n)
      else
        (case client_request do_req ''DELETE'' (bu_url b) [] [] n of
           (Err e, n1) \<Rightarrow> (Some (req_err ''DELETE'' ''PATCH'' (bu_url b) e), b, n1)
         | (Panic p, n1) \<Rightarrow> (Some (Errorf p []), b, n1)
         | (Ok resp, n1) \<Rightarrow>
             (if StatusCode resp \<noteq> 204 then (Some (Errorf ''bad status code'' []), b, n1)
              else (None, b\<lparr>bu_digest := None\<rparr>, n1))))"

definition reg_store :: "(request \<Rightarrow> 'n \<Rightarrow> response res \<times> 'n) \<Rightarrow> (request \<Rightarrow> 'n \<Rightarrow> nat) \<Rightarrow> RegistryStore
    \<Rightarrow> ('n, blobBeingUploaded) Store" where
  "reg_store do_req body_read r =
     \<lparr>Store_Get = reg_Get do_req r, Store_Exists = reg_Exists do_req r, Store_Put = reg_Put do_req r,
      Store_Destroy = reg_Destroy r, Store_RemoveExcept = reg_RemoveExcept r,
      Blob_Write = bu_Write do_req body_read, Blob_Commit = bu_Commit do_req, Blob_Cleanup = bu_Cleanup do_req\<rparr>"

lemma reg_store_simps [simp]:
  "Store_Get (reg_store do_req body_read r) = reg_Get do_req r"
  "Store_Exists (reg_store do_req body_read r) = reg_Exists do_req r"
  "Store_Put (reg_store do_req body_read r) = reg_Put do_req r"
  "Store_Destroy (reg_store do_req body_read r) = reg_Destroy r"
  "Store_RemoveExcept (reg_store do_req body_read r) = reg_RemoveExcept r"
  "Blob_Write (reg_store do_req body_read r) = bu_Write do_req body_read"
  "Blob_Commit (reg_store do_req body_read r) = bu_Commit do_req"
  "Blob_Cleanup (reg_store do_req body_read r) = bu_Cleanup do_req"
  by (simp_all add: reg_store_def)

section \<open>Requests are made or refused, without panics\<close>

lemma case_no_Panic: "r \<noteq> Panic p \<Longrightarrow> (case r of Ok s \<Rightarrow> Ok (f s) | Err e \<Rightarrow> Err e | Panic q \<Rightarrow> Panic q) \<noteq> Panic p"
  by (cases r) auto

lemma url_unescape_no_Panic [simp]: "url_unescape mode s \<noteq> Panic p"
proof (induction s rule: length_induct)
  case (1 s)
  show ?case
  proof (cases s)
    case (Cons c cs)
    have tl: "url_unescape mode cs \<noteq> Panic p" using 1 Cons by simp
    show ?thesis
    proof (cases "c = CHR ''%''")
      case True
      show ?thesis
      proof (cases "length cs < 2")
        case True
        then show ?thesis using Cons \<open>c = CHR ''%''\<close> by (cases cs rule: remdups_adj.cases) auto
      next
        case False
        then obtain a b r where cs: "cs = a # b # r" by (cases cs rule: remdups_adj.cases) auto
        have "url_unescape mode r \<noteq> Panic p" using 1 Cons cs by simp
        then show ?thesis
          using Cons cs \<open>c = CHR ''%''\<close> by (auto simp: case_no_Panic split: option.splits)
      qed
    qed (use Cons tl in \<open>auto simp: case_no_Panic\<close>)
  qed simp
qed

lemma res_append_no_Panic: "a \<noteq> Panic p \<Longrightarrow> b \<noteq> Panic p \<Longrightarrow> res_append a b \<noteq> Panic p"
  by (cases a; cases b) auto

lemma parseHost_no_Panic [simp]: "parseHost h \<noteq> Panic p"
  by (auto simp del: url_unescape.simps simp: parseHost_def res_append_no_Panic split: option.splits prod.splits if_splits)

lemma parseAuthority_no_Panic [simp]: "parseAuthority a \<noteq> Panic p"
  by (auto simp: parseAuthority_def split: option.splits prod.splits res.splits if_splits)

lemma setPath_no_Panic [simp]: "setPath q u \<noteq> Panic p"
  by (auto simp: setPath_def split: res.splits)

lemma parse_rest_no_Panic [simp]: "parse_rest r u \<noteq> Panic p"
  by (auto simp: parse_rest_def Let_def split: res.splits prod.splits if_splits)

lemma url_parse_nofrag_no_Panic [simp]: "url_parse_nofrag s \<noteq> Panic p"
  by (auto simp: url_parse_nofrag_def split: option.splits prod.splits if_splits)

lemma url_Parse_no_Panic [simp]: "url_Parse s \<noteq> Panic p"
  by (auto simp: url_Parse_def setFragment_def split: prod.splits res.splits option.splits list.splits)

lemma http_NewRequest_no_Panic [simp]: "http_NewRequest m u b \<noteq> Panic p"
  by (auto simp: http_NewRequest_def Let_def split: res.splits if_splits)

lemma client_request_no_Panic:
  "(\<And>q n n'. do_req q n \<noteq> (Panic p, n')) \<Longrightarrow> client_request do_req m u hs b n \<noteq> (Panic p, n')"
  by (auto simp: client_request_def split: res.splits)

section \<open>What the store relies on\<close>

text \<open>
  A registry by the distribution specification: \<open>blobs_of\<close> are the blobs it holds and \<open>upload_of\<close> the content
  received for an upload location. A request may always fail. HEAD and GET of a blob answer 200 only if the
  blob is there (then with its content) and 404 only if it is not; POST answers 202 with the location of a
  new, empty upload; PATCH with the range that continues an upload answers 202 once it has appended the
  whole body, with the location for what follows; PUT answers 201 only if the digest is that of the upload,
  which then is a blob under this digest; when it fails, the blob may have been stored nevertheless;
  \<^item> nothing else changes a blob. Errors of the transport are not \<open>ErrBlobNotExist\<close>.
\<close>

locale oci_registry =
  fixes do_req :: "request \<Rightarrow> 'n \<Rightarrow> response res \<times> 'n"
    and body_read :: "request \<Rightarrow> 'n \<Rightarrow> nat"
    and base :: string
    and blobs_of :: "'n \<Rightarrow> bytes \<Rightarrow> bytes option"
    and upload_of :: "'n \<Rightarrow> string \<Rightarrow> bytes option"
    and ninv :: "'n \<Rightarrow> bool"
  assumes no_panic: "do_req q n \<noteq> (Panic p, n')"
    and head_blob: "ninv n \<Longrightarrow> client_Head do_req (blob_url base k) n = (r, n') \<Longrightarrow>
      ninv n' \<and> blobs_of n' = blobs_of n \<and>
      (\<forall>resp. r = Ok resp \<longrightarrow> (StatusCode resp = 200 \<longrightarrow> blobs_of n k \<noteq> None) \<and> (StatusCode resp = 404 \<longrightarrow> blobs_of n k = None))"
    and get_blob: "ninv n \<Longrightarrow> client_Get do_req (blob_url base k) n = (r, n') \<Longrightarrow>
      ninv n' \<and> blobs_of n' = blobs_of n \<and>
      (\<forall>resp. r = Ok resp \<longrightarrow>
        (StatusCode resp = 200 \<and> rd_err (rs_Body resp) = None \<longrightarrow> blobs_of n k = Some (rd_content (rs_Body resp))) \<and>
        (StatusCode resp = 404 \<longrightarrow> blobs_of n k = None)) \<and>
      (\<forall>e. r = Err e \<longrightarrow> \<not> err_is e ErrBlobNotExist)"
    and post_upload: "ninv n \<Longrightarrow> client_Post do_req (base @ ''blobs/uploads/'') [] [] n = (r, n') \<Longrightarrow>
      ninv n' \<and> blobs_of n' = blobs_of n \<and>
      (\<forall>resp. r = Ok resp \<and> StatusCode resp = 202 \<longrightarrow> upload_of n' (hdr_Get (rs_Header resp) ''Location'') = Some [])"
    and patch_upload: "ninv n \<Longrightarrow> http_NewRequest ''PATCH'' loc bb = Ok q \<Longrightarrow>
      do_req (q\<lparr>rq_Header := patch_headers off bb (rq_Header q)\<rparr>) n = (r, n') \<Longrightarrow>
      ninv n' \<and> blobs_of n' = blobs_of n \<and>
      (\<forall>resp c. r = Ok resp \<and> StatusCode resp = 202 \<and> upload_of n loc = Some c \<and> off = length c \<longrightarrow>
        length bb \<le> body_read (q\<lparr>rq_Header := patch_headers off bb (rq_Header q)\<rparr>) n \<and>
        upload_of n' (hdr_Get (rs_Header resp) ''Location'') = Some (c @ bb))"
    and put_upload: "ninv n \<Longrightarrow> upload_of n loc = Some c \<Longrightarrow> client_request do_req ''PUT'' (digest_url loc k) hs [] n = (r, n') \<Longrightarrow>
      ninv n' \<and> (blobs_of n' = blobs_of n \<or> k = sha256 c \<and> blobs_of n' = (blobs_of n)(k \<mapsto> c)) \<and>
      (\<forall>resp. r = Ok resp \<and> StatusCode resp = 201 \<longrightarrow> k = sha256 c \<and> blobs_of n' = (blobs_of n)(k \<mapsto> c))"
    and delete_upload: "ninv n \<Longrightarrow> client_request do_req ''DELETE'' loc [] [] n = (r, n') \<Longrightarrow>
      ninv n' \<and> blobs_of n' = blobs_of n"

text \<open>The content that \<open>Commit\<close> would store: what was hashed, while the registry has received the same.\<close>

definition bu_pending :: "('n \<Rightarrow> string \<Rightarrow> bytes option) \<Rightarrow> blobBeingUploaded \<Rightarrow> 'n \<Rightarrow> bytes option" where
  "bu_pending upload_of b n =
     (case bu_digest b of
        None \<Rightarrow> None
      | Some d \<Rightarrow> if upload_of n (bu_url b) = Some d \<and> bu_bw b = length d then Some d else None)"

lemma bu_pending_Some: "bu_pending upload_of b n = Some d \<longleftrightarrow>
    bu_digest b = Some d \<and> upload_of n (bu_url b) = Some d \<and> bu_bw b = length d"
  by (auto simp: bu_pending_def split: option.splits if_splits)

context oci_registry begin

lemma write_keep:
  assumes "ninv n" and "bu_Write do_req body_read b p n = (r, b', n')"
  shows "ninv n' \<and> blobs_of n' = blobs_of n"
  using assms patch_upload [OF assms(1)]
  by (auto simp: bu_Write_def Let_def split: if_splits res.splits prod.splits)

lemma write_accept:
  assumes "ninv n" and "bu_pending upload_of b n = Some d" and "bu_Write do_req body_read b p n = ((m, None), b', n')"
  shows "bu_pending upload_of b' n' = Some (d @ p)"
proof (cases "p = []")
  case True
  then show ?thesis using assms(2,3) by (auto simp: bu_Write_def)
next
  case False
  let ?h = "\<lambda>q. q\<lparr>rq_Header := patch_headers (bu_bw b) p (rq_Header q)\<rparr>"
  obtain q resp where q: "http_NewRequest ''PATCH'' (bu_url b) p = Ok q" and d: "do_req (?h q) n = (Ok resp, n')"
    and s: "StatusCode resp = 202"
    and b': "b' = b\<lparr>bu_digest := map_option (\<lambda>d. d @ take (body_read (?h q) n) p) (bu_digest b),
        bu_url := hdr_Get (rs_Header resp) ''Location'', bu_bw := bu_bw b + length p\<rparr>"
    using assms(3) False by (auto simp: bu_Write_def Let_def split: if_splits res.splits prod.splits)
  have p: "bu_digest b = Some d" "upload_of n (bu_url b) = Some d" "bu_bw b = length d"
    using assms(2) by (auto simp: bu_pending_Some)
  have "length p \<le> body_read (?h q) n \<and> upload_of n' (hdr_Get (rs_Header resp) ''Location'') = Some (d @ p)"
    using patch_upload [OF assms(1) q d] s p by simp
  then show ?thesis using b' p by (simp add: bu_pending_Some)
qed

lemma commit_cases:
  assumes "ninv n" and "bu_pending upload_of b n = Some d" and "bu_Commit do_req b n = (r, b', n')"
  shows "ninv n' \<and> \<not> is_Panic r \<and> (blobs_of n' = blobs_of n \<or> blobs_of n' = (blobs_of n)(sha256 d \<mapsto> d)) \<and>
    (\<forall>k. r = Ok k \<longrightarrow> k = sha256 d \<and> blobs_of n' = (blobs_of n)(k \<mapsto> d))"
proof -
  have p: "bu_digest b = Some d" "upload_of n (bu_url b) = Some d" using assms(2) by (auto simp: bu_pending_Some)
  let ?hs = "[(''Content-Length'', ''0''), (''Content-Type'', ''application/octet-stream'')]"
  obtain x n1 where c: "client_request do_req ''PUT'' (digest_url (bu_url b) (sha256 d)) ?hs [] n = (x, n1)" by (metis surj_pair)
  have np: "x \<noteq> Panic m" for m using client_request_no_Panic [of do_req m] no_panic c by metis
  show ?thesis
    using assms(3) p(1) c np put_upload [OF assms(1) p(2) c] by (auto simp: bu_Commit_def Let_def split: res.splits if_splits)
qed

lemma cleanup_keep:
  assumes "ninv n" and "bu_Cleanup do_req b n = (r, b', n')"
  shows "ninv n' \<and> blobs_of n' = blobs_of n"
  using assms delete_upload [OF assms(1)]
  by (auto simp: bu_Cleanup_def split: if_splits res.splits prod.splits)

text \<open>The registry store keeps the contract of a store.\<close>

lemma reg_contract:
  "blob_store_notfound (reg_store do_req body_read \<lparr>rg_base = base, rg_writable = wr\<rparr>) blobs_of ninv (\<lambda>b. True) (bu_pending upload_of)"
proof (unfold_locales, goal_cases)
  case (1 w k r w')
  then show ?case using get_blob [OF 1(1), of k] by (auto simp: reg_Get_def split: res.splits prod.splits)
next
  case (2 w k rd w')
  then show ?case
    using get_blob [OF 2(1), of k] by (auto simp: reg_Get_def split: res.splits prod.splits if_splits)
next
  case (3 k w m w')
  then show ?case
    using client_request_no_Panic [of do_req m "''GET''" "blob_url base k" "[]" "[]" w w'] no_panic
    by (auto simp: reg_Get_def client_Get_def split: res.splits prod.splits if_splits)
next
  case (4 w k r w')
  then show ?case using head_blob [OF 4(1), of k] by (auto simp: reg_Exists_def split: res.splits prod.splits)
next
  case (5 w k x w')
  then show ?case
    using head_blob [OF 5(1), of k] by (auto simp: reg_Exists_def split: res.splits prod.splits if_splits)
next
  case (6 k w m w')
  then show ?case
    using client_request_no_Panic [of do_req m "''HEAD''" "blob_url base k" "[]" "[]" w w'] no_panic
    by (auto simp: reg_Exists_def client_Head_def split: res.splits prod.splits if_splits)
next
  case (7 w r w')
  then show ?case using post_upload [OF 7(1)] by (auto simp: reg_Put_def split: res.splits prod.splits if_splits)
next
  case (8 w b w')
  then show ?case
    using post_upload [OF 8(1)]
    by (auto simp: reg_Put_def newPutAddressableBlob_def bu_pending_Some Let_def split: res.splits prod.splits if_splits option.splits)
next
  case (9 w m w')
  then show ?case
    using client_request_no_Panic [of do_req m "''POST''" "base @ ''blobs/uploads/''" "[(''Content-Type'', [])]" "[]" w w'] no_panic
    by (auto simp: reg_Put_def client_Post_def Let_def split: res.splits prod.splits if_splits option.splits)
next
  case (10 w b p r b' w')
  then show ?case using write_keep by simp
next
  case (11 w b d p n b' w')
  then show ?case using write_accept by simp
next
  case (12 w b d k b' w')
  then show ?case using commit_cases [of w b d "Ok k" b' w'] by simp
next
  case (13 w b d e b' w')
  then show ?case using commit_cases [of w b d "Err e" b' w'] by simp
next
  case (14 b w d m b' w')
  then show ?case
    using client_request_no_Panic [of do_req m] no_panic
    by (auto simp: bu_Commit_def bu_pending_Some Let_def split: res.splits prod.splits if_splits)
next
  case (15 w b r b' w')
  then show ?case using cleanup_keep by simp
next
  case (16 w k e w')
  then show ?case
    using get_blob [OF 16(1), of k] by (auto simp: reg_Get_def split: res.splits prod.splits if_splits)
qed

end

end
