(* ===== verification/S3Store.thy ===== *)
theory S3Store
  imports Verify
begin

text \<open>
  \<open>blobstore/s3store/s3_store.go\<close>: a store in an S3 bucket. A blob is collected in a temporary file and
  uploaded by \<open>Commit\<close>. The AWS client is not part of the program: its three calls are the fields of the
  record \<open>s3_client\<close> over a state of their own, and what the store relies on is the locale \<open>s3_service\<close>.
  The world of the store is the file system together with the state of the service.
\<close>

section \<open>The store\<close>

record 'n s3_client =
  GetObject :: "string \<Rightarrow> string \<Rightarrow> 'n \<Rightarrow> reader res \<times> 'n"
  HeadObject :: "string \<Rightarrow> string \<Rightarrow> 'n \<Rightarrow> unit res \<times> 'n"
  PutObject :: "string \<Rightarrow> string \<Rightarrow> reader \<Rightarrow> 'n \<Rightarrow> unit res \<times> 'n"

record S3StoreConfig =
  Bucket :: string
  Prefix :: string

record 'n S3Store =
  s3_config :: S3StoreConfig
  s3_cl :: "'n s3_client"

text \<open>\<open>config.LoadDefaultConfig\<close> and \<open>s3.NewFromConfig\<close> give the client or an error.\<close>

definition NewS3Store :: "'n s3_client res \<Rightarrow> S3StoreConfig \<Rightarrow> 'n S3Store res" where
  "NewS3Store loaded s3cfg =
     (case loaded of
        Err e \<Rightarrow> Err (wrap ''err creating s3 context'' e)
      | Panic p \<Rightarrow> Panic p
      | Ok cl \<Rightarrow> Ok \<lparr>s3_config = s3cfg, s3_cl = cl\<rparr>)"

definition keyToName :: "'n S3Store \<Rightarrow> bytes \<Rightarrow> string" where
  "keyToName s k = Prefix (s3_config s) @ hex_encode k"

definition s3_Get :: "'n S3Store \<Rightarrow> bytes \<Rightarrow> os \<times> 'n \<Rightarrow> reader res \<times> os \<times> 'n" where
  "s3_Get s k = (\<lambda>(w, n).
     case GetObject (s3_cl s) (Bucket (s3_config s)) (keyToName s k) n of
       (r, n1) \<Rightarrow> (wrap_res ''error getting object from S3'' r, w, n1))"

text \<open>\<open>errors.As(err, &responseError)\<close>: the status of the first response error in the tree.\<close>

fun err_as_response :: "err \<Rightarrow> nat option" and err_as_first :: "err list \<Rightarrow> nat option" where
  "err_as_response (ResponseError n) = Some n"
| "err_as_response (Errorf m es) = err_as_first es"
| "err_as_response e = None"
| "err_as_first [] = None"
| "err_as_first (e # es) = (case err_as_response e of Some n \<Rightarrow> Some n | None \<Rightarrow> err_as_first es)"

definition s3_Exists :: "'n S3Store \<Rightarrow> bytes \<Rightarrow> os \<times> 'n \<Rightarrow> bool res \<times> os \<times> 'n" where
  "s3_Exists s k = (\<lambda>(w, n).
     case HeadObject (s3_cl s) (Bucket (s3_config s)) (keyToName s k) n of
       (Ok _, n1) \<Rightarrow> (Ok True, w, n1)
     | (Panic p, n1) \<Rightarrow> (Panic p, w, n1)
     | (Err e, n1) \<Rightarrow>
         (if err_as_response e = Some 404 then Ok False
          else Err (wrap ''error checking for object existence in s3'' e), w, n1))"

text \<open>
  A blob being collected. \<open>tb_w\<close> is the file that the multi-writer holds: the same file as \<open>t.f\<close>, which
  stays with the writer when \<open>Cleanup\<close> sets \<open>t.f\<close> to \<open>nil\<close>.
\<close>

record tbUploaded =
  tb_f :: "file_h option"
  tb_w :: file_h
  tb_h :: bytes

text \<open>\<open>temp_dir\<close> is the result of \<open>os.TempDir\<close>.\<close>

definition s3_Put :: "path \<Rightarrow> os \<times> 'n \<Rightarrow> tbUploaded res \<times> os \<times> 'n" where
  "s3_Put temp_dir = (\<lambda>(w, n).
     case os_CreateTemp temp_dir w of
       (Err e, w1) \<Rightarrow> (Err (wrap ''error creating temp file'' e), w1, n)
     | (Panic p, w1) \<Rightarrow> (Panic p, w1, n)
     | (Ok f, w1) \<Rightarrow> (Ok \<lparr>tb_f = Some f, tb_w = f, tb_h = []\<rparr>, w1, n))"

definition tb_Write :: "tbUploaded \<Rightarrow> bytes \<Rightarrow> os \<times> 'n \<Rightarrow> (nat \<times> err option) \<times> tbUploaded \<times> os \<times> 'n" where
  "tb_Write t b = (\<lambda>(w, n).
     case os_Write (tb_w t) b w of
       ((m, Some e), w1) \<Rightarrow> ((m, Some e), t, w1, n)
     | ((m, None), w1) \<Rightarrow>
         (if m \<noteq> length b then ((m, Some ErrShortWrite), t, w1, n)
          else ((length b, None), t\<lparr>tb_h := tb_h t @ b\<rparr>, w1, n)))"

definition tb_Cleanup :: "tbUploaded \<Rightarrow> os \<times> 'n \<Rightarrow> err option \<times> tbUploaded \<times> os \<times> 'n" where
  "tb_Cleanup t = (\<lambda>(w, n).
     case tb_f t of
       None \<Rightarrow> (None, t, w, n)
     | Some f \<Rightarrow>
         (case os_Close f w of
            (_, f1, w1) \<Rightarrow>
              (case os_Remove (h_name f1) w1 of
                 (Some e, w2) \<Rightarrow>
                   (Some (wrap ''error removing temp file for s3 upload'' e), t\<lparr>tb_f := Some f1, tb_w := f1\<rparr>, w2, n)
               | (None, w2) \<Rightarrow> (None, t\<lparr>tb_f := None, tb_w := f1\<rparr>, w2, n))))"

text \<open>\<open>f.Seek(0, io.SeekStart)\<close>, and the file as the body of the request; a removed file is still readable
  through its handle, but nothing removes it while it is open.\<close>

definition file_Seek :: "file_h option \<Rightarrow> os \<Rightarrow> err option \<times> os" where
  "file_Seek f w =
     (case f of
        None \<Rightarrow> (Some ErrInvalid, w)
      | Some h \<Rightarrow>
          (if h_closed h then (Some ErrClosed, w)
           else (case pop_fault w of (FailAt i e, w1) \<Rightarrow> (Some e, w1) | (Pass, w1) \<Rightarrow> (None, w1))))"

definition file_body :: "file_h \<Rightarrow> os \<Rightarrow> reader \<times> os" where
  "file_body h w =
     (case pop_fault w of (f, w1) \<Rightarrow>
        (open_reader (case fs_get w1 (h_name h) of None \<Rightarrow> [] | Some c \<Rightarrow> c) f Pass, w1))"

definition tb_Commit :: "'n S3Store \<Rightarrow> tbUploaded \<Rightarrow> os \<times> 'n \<Rightarrow> bytes res \<times> tbUploaded \<times> os \<times> 'n" where
  "tb_Commit s t = (\<lambda>(w, n).
     case file_Seek (tb_f t) w of
       (Some e, w1) \<Rightarrow> (Err (wrap ''error seeking file start'' e), t, w1, n)
     | (None, w1) \<Rightarrow>
         (let k = sha256 (tb_h t) in
          case file_body (the (tb_f t)) w1 of
            (body, w2) \<Rightarrow>
              (case PutObject (s3_cl s) (Bucket (s3_config s)) (keyToName s k) body n of
                 (Err e, n1) \<Rightarrow> (Err (wrap ''error uploading blob to s3'' e), t, w2, n1)
               | (Panic p, n1) \<Rightarrow> (Panic p, t, w2, n1)
               | (Ok _, n1) \<Rightarrow>
                   (case tb_Cleanup t (w2, n1) of
                      (Some e, t1, w3, n2) \<Rightarrow> (Err (wrap ''error cleaning up after upload'' e), t1, w3, n2)
                    | (None, t1, w3, n2) \<Rightarrow> (Ok k, t1, w3, n2)))))"

definition s3_Destroy :: "'w \<Rightarrow> err option \<times> 'w" where
  "s3_Destroy w = (Some (Errorf ''destroy except currently not implemented for S3 blobstore implementation yet'' []), w)"

definition s3_RemoveExcept :: "(string, bool) gomap \<Rightarrow> 'w \<Rightarrow> err option \<times> 'w" where
  "s3_RemoveExcept keep w = (Some (Errorf ''remove except currently not implemented for S3 blobstore implementation yet'' []), w)"

definition s3_store :: "path \<Rightarrow> 'n S3Store \<Rightarrow> (os \<times> 'n, tbUploaded) Store" where
  "s3_store temp_dir s =
     \<lparr>Store_Get = s3_Get s, Store_Exists = s3_Exists s, Store_Put = s3_Put temp_dir, Store_Destroy = s3_Destroy,
      Store_RemoveExcept = s3_RemoveExcept, Blob_Write = tb_Write, Blob_Commit = tb_Commit s, Blob_Cleanup = tb_Cleanup\<rparr>"

lemma s3_store_simps [simp]:
  "Store_Get (s3_store d s) = s3_Get s" "Store_Exists (s3_store d s) = s3_Exists s" "Store_Put (s3_store d s) = s3_Put d"
  "Blob_Write (s3_store d s) = tb_Write" "Blob_Commit (s3_store d s) = tb_Commit s" "Blob_Cleanup (s3_store d s) = tb_Cleanup"
  by (simp_all add: s3_store_def)

section \<open>What the store relies on\<close>

text \<open>
  The documented behaviour of S3: an object is read as it was written; a HEAD answers 404 only for an object that
  is not there; a PUT is atomic, takes effect whenever it succeeds, and only with a body that could be read.
\<close>

locale s3_service =
  fixes cl :: "'n s3_client"
    and objects :: "'n \<Rightarrow> string \<Rightarrow> string \<Rightarrow> bytes option"
    and ninv :: "'n \<Rightarrow> bool"
  assumes get_object: "ninv n \<Longrightarrow> GetObject cl b key n = (r, n') \<Longrightarrow> ninv n' \<and> objects n' = objects n \<and>
      (\<forall>rd. r = Ok rd \<and> rd_err rd = None \<longrightarrow> objects n b key = Some (rd_content rd)) \<and>
      (\<forall>e. r = Err e \<longrightarrow> \<not> err_is e ErrBlobNotExist)"
    and get_no_panic: "GetObject cl b key n \<noteq> (Panic m, n')"
    and head_object: "ninv n \<Longrightarrow> HeadObject cl b key n = (rh, n') \<Longrightarrow> ninv n' \<and> objects n' = objects n \<and>
      (rh = Ok () \<longrightarrow> objects n b key \<noteq> None) \<and>
      (\<forall>e. rh = Err e \<and> err_as_response e = Some 404 \<longrightarrow> objects n b key = None)"
    and head_no_panic: "HeadObject cl b key n \<noteq> (Panic m, n')"
    and put_object: "ninv n \<Longrightarrow> PutObject cl b key body n = (rp, n') \<Longrightarrow> ninv n' \<and>
      (objects n' = objects n \<or> rd_err body = None \<and> objects n' = (objects n)(b := (objects n b)(key \<mapsto> rd_content body))) \<and>
      (rp = Ok () \<longrightarrow> rd_err body = None \<and> objects n' = (objects n)(b := (objects n b)(key \<mapsto> rd_content body)))"
    and put_no_panic: "PutObject cl b key body n \<noteq> (Panic m, n')"

definition s3_holds :: "('n \<Rightarrow> string \<Rightarrow> string \<Rightarrow> bytes option) \<Rightarrow> S3StoreConfig \<Rightarrow> os \<times> 'n \<Rightarrow> bytes \<Rightarrow> bytes option" where
  "s3_holds objects cfg = (\<lambda>(w, n) k. objects n (Bucket cfg) (Prefix cfg @ hex_encode k))"

definition tb_wf :: "tbUploaded \<Rightarrow> bool" where
  "tb_wf t \<longleftrightarrow> (\<forall>h. tb_f t = Some h \<longrightarrow> tb_w t = h)"

definition tb_pending :: "tbUploaded \<Rightarrow> os \<times> 'n \<Rightarrow> bytes option" where
  "tb_pending t = (\<lambda>(w, n).
     case tb_f t of
       None \<Rightarrow> None
     | Some h \<Rightarrow> if \<not> h_closed h \<and> fs_get w (h_name h) = Some (tb_h t) then Some (tb_h t) else None)"

lemma tb_pending_Some: "tb_pending t (w, n) = Some d \<longleftrightarrow>
    (\<exists>h. tb_f t = Some h \<and> \<not> h_closed h \<and> fs_get w (h_name h) = Some d \<and> tb_h t = d)"
  by (auto simp: tb_pending_def split: option.splits if_splits)

lemma tb_Write_wf: "tb_Write t p (w, n) = (r, t', w', n') \<Longrightarrow> tb_wf t \<Longrightarrow> tb_wf t' \<and> n' = n"
  by (auto simp: tb_Write_def tb_wf_def split: prod.splits option.splits if_splits)

lemma tb_Write_accepts:
  assumes "tb_Write t p (w, n) = ((m, None), t', w', n')" and "tb_wf t" and "tb_pending t (w, n) = Some d"
  shows "tb_pending t' (w', n') = Some (d @ p)"
proof -
  obtain h where h: "tb_f t = Some h" "\<not> h_closed h" "fs_get w (h_name h) = Some d" "tb_h t = d" "tb_w t = h"
    using assms(2,3) by (auto simp: tb_pending_Some tb_wf_def)
  obtain w1 where o: "os_Write h p w = ((length p, None), w1)" and r: "t' = t\<lparr>tb_h := d @ p\<rparr>" "w' = w1"
    using assms(1) h by (auto simp: tb_Write_def split: prod.splits option.splits if_splits)
  then show ?thesis using h os_Write_Ok [OF o] by (simp add: tb_pending_def fs_simps)
qed

lemma tb_Cleanup_facts:
  "tb_Cleanup t (w, n) = (e, t', w', n') \<Longrightarrow> tb_wf t \<Longrightarrow> n' = n \<and> tb_wf t' \<and>
    (\<forall>h. e = None \<and> tb_f t = Some h \<longrightarrow> tb_f t' = None \<and> fs_get w' (h_name h) = None)"
  by (auto simp: tb_Cleanup_def tb_wf_def split: option.splits prod.splits dest: os_Remove_Ok dest!: os_Close_h)

lemma file_body_content:
  "file_body h w = (body, w') \<Longrightarrow> rd_err body = None \<Longrightarrow> fs_get w (h_name h) = Some c \<Longrightarrow> rd_content body = c"
  by (auto simp: file_body_def split: prod.splits dest!: pop_fault_same)

lemma file_Seek_fs: "file_Seek f w = (e, w') \<Longrightarrow> fs_get w' = fs_get w"
  by (auto simp: file_Seek_def split: option.splits if_splits prod.splits fault.splits dest!: pop_fault_same)

context s3_service begin

lemma commit_cases:
  assumes "ninv n" and "tb_wf t" and "tb_pending t (w, n) = Some d" and "s3_cl s = cl"
    and "tb_Commit s t (w, n) = (r, t', w', n')"
  shows "ninv n' \<and> tb_wf t' \<and> \<not> is_Panic r \<and>
    (s3_holds objects (s3_config s) (w', n') = s3_holds objects (s3_config s) (w, n) \<or>
     s3_holds objects (s3_config s) (w', n') = (s3_holds objects (s3_config s) (w, n))(sha256 d \<mapsto> d)) \<and>
    (\<forall>k. r = Ok k \<longrightarrow> k = sha256 d \<and>
      s3_holds objects (s3_config s) (w', n') = (s3_holds objects (s3_config s) (w, n))(k \<mapsto> d) \<and> tb_f t' = None \<and>
      (\<forall>h. tb_f t = Some h \<longrightarrow> fs_get w' (h_name h) = None))"
proof -
  obtain h where h: "tb_f t = Some h" "fs_get w (h_name h) = Some d" "tb_h t = d" using assms(3) by (auto simp: tb_pending_Some)
  obtain e w1 where sk: "file_Seek (tb_f t) w = (e, w1)" by (metis surj_pair)
  show ?thesis
  proof (cases e)
    case (Some er)
    then show ?thesis using assms(1,2,5) sk by (auto simp: tb_Commit_def s3_holds_def)
  next
    case None
    obtain body w2 where bd: "file_body h w1 = (body, w2)" by (metis surj_pair)
    let ?key = "keyToName s (sha256 d)" and ?b = "Bucket (s3_config s)"
    obtain p n1 where pt: "PutObject cl ?b ?key body n = (p, n1)" by (metis surj_pair)
    have c: "rd_err body = None \<Longrightarrow> rd_content body = d"
      using file_body_content [OF bd] file_Seek_fs [OF sk] h(2) by simp
    have upd: "s3_holds objects (s3_config s) (w', n1) = (s3_holds objects (s3_config s) (w, n))(sha256 d \<mapsto> d)"
      if "objects n1 = (objects n)(?b := (objects n ?b)(?key \<mapsto> d))" for w'
      using that by (auto simp: s3_holds_def keyToName_def fun_eq_iff)
    have same: "s3_holds objects (s3_config s) (w', n1) = s3_holds objects (s3_config s) (w, n)" if "objects n1 = objects n" for w'
      using that by (simp add: s3_holds_def)
    note po = put_object [OF assms(1) pt]
    have np: "p \<noteq> Panic m" for m using put_no_panic pt by metis
    show ?thesis
    proof (cases p)
      case (Err er)
      then have "r = Err (wrap ''error uploading blob to s3'' er)" "t' = t" "n' = n1"
        using assms(4,5) sk None h bd pt by (auto simp: tb_Commit_def Let_def)
      then show ?thesis using po assms(2) c upd same by auto
    next
      case (Ok u)
      obtain ec t1 w3 n3 where cu: "tb_Cleanup t (w2, n1) = (ec, t1, w3, n3)" by (metis surj_pair)
      have r: "t' = t1" "n' = n3" "w' = w3" "r = (case ec of None \<Rightarrow> Ok (sha256 d) | Some er \<Rightarrow> Err (wrap ''error cleaning up after upload'' er))"
        using assms(4,5) sk None h bd pt Ok cu by (auto simp: tb_Commit_def Let_def split: option.splits)
      note cf = tb_Cleanup_facts [OF cu assms(2)]
      have "objects n1 = (objects n)(?b := (objects n ?b)(?key \<mapsto> d))" using po Ok c by auto
      then show ?thesis using r cf upd [of w3] po h(1) by (auto split: option.splits)
    qed (use np in blast)
  qed
qed

text \<open>The S3 store keeps the contract of a store.\<close>

lemma s3_contract:
  assumes "s3_cl s = cl"
  shows "blob_store_notfound (s3_store d s) (s3_holds objects (s3_config s)) (\<lambda>(w, n). ninv n) tb_wf tb_pending"
proof (unfold_locales, goal_cases)
  case (1 w k r w')
  then show ?case
    using get_object assms by (auto simp: s3_Get_def s3_holds_def split: prod.splits)
next
  case (2 w k rd w')
  then show ?case
    using get_object assms by (auto simp: s3_Get_def s3_holds_def keyToName_def res_simps split: prod.splits)
next
  case (3 k w m w')
  obtain x n1 where "GetObject cl (Bucket (s3_config s)) (keyToName s k) (snd w) = (x, n1)" by (metis surj_pair)
  then show ?case using get_no_panic assms by (cases x) (auto simp: s3_Get_def split: prod.splits)
next
  case (4 w k r w')
  obtain x n1 where "HeadObject cl (Bucket (s3_config s)) (keyToName s k) (snd w) = (x, n1)" by (metis surj_pair)
  then show ?case
    using 4 head_object [of "snd w" _ _ x n1] assms by (cases x) (auto simp: s3_Exists_def s3_holds_def split: prod.splits)
next
  case (5 w k x w')
  obtain y n1 where h: "HeadObject cl (Bucket (s3_config s)) (keyToName s k) (snd w) = (y, n1)" by (metis surj_pair)
  have "ninv (snd w)" using 5(1) by (auto split: prod.splits)
  from head_object [OF this h] show ?case
    using 5(2) h assms by (cases y) (auto simp: s3_Exists_def s3_holds_def keyToName_def split: prod.splits if_splits)
next
  case (6 k w m w')
  obtain y n1 where h: "HeadObject cl (Bucket (s3_config s)) (keyToName s k) (snd w) = (y, n1)" by (metis surj_pair)
  then show ?case using head_no_panic assms by (cases y) (auto simp: s3_Exists_def split: prod.splits if_splits)
next
  case (7 w r w')
  then show ?case by (auto simp: s3_Put_def s3_holds_def split: prod.splits res.splits)
next
  case (8 w b w')
  then show ?case
    by (auto simp: s3_Put_def tb_wf_def tb_pending_def split: prod.splits res.splits dest!: os_CreateTemp_Ok)
next
  case (9 w m w')
  then show ?case by (auto simp: s3_Put_def os_CreateTemp_not_Panic split: prod.splits res.splits)
next
  case (10 w b p r b' w')
  obtain w0 n0 w1 n1 where w: "w = (w0, n0)" "w' = (w1, n1)" by (metis surj_pair)
  then show ?case using 10 tb_Write_wf [of b p w0 n0 r b' w1 n1] by (simp add: s3_holds_def)
next
  case (11 w b c p m b' w')
  obtain w0 n0 w1 n1 where w: "w = (w0, n0)" "w' = (w1, n1)" by (metis surj_pair)
  then show ?case using 11 tb_Write_accepts [of b p w0 n0 m b' w1 n1 c] by simp
next
  case (12 w b c k b' w')
  obtain w0 n0 w1 n1 where w: "w = (w0, n0)" "w' = (w1, n1)" by (metis surj_pair)
  then show ?case using 12 commit_cases [of n0 b w0 c s "Ok k" b' w1 n1] assms by simp
next
  case (13 w b c e b' w')
  obtain w0 n0 w1 n1 where w: "w = (w0, n0)" "w' = (w1, n1)" by (metis surj_pair)
  then show ?case using 13 commit_cases [of n0 b w0 c s "Err e" b' w1 n1] assms by simp
next
  case (14 b w c m b' w')
  obtain w0 n0 w1 n1 where w: "w = (w0, n0)" "w' = (w1, n1)" by (metis surj_pair)
  have "tb_Commit s b (w0, n0) \<noteq> (Panic m, b', w1, n1)"
  proof
    assume "tb_Commit s b (w0, n0) = (Panic m, b', w1, n1)"
    then show False
      using put_no_panic assms by (auto simp: tb_Commit_def Let_def split: prod.splits option.splits res.splits)
  qed
  then show ?case using w by simp
next
  case (15 w b r b' w')
  obtain w0 n0 w1 n1 where w: "w = (w0, n0)" "w' = (w1, n1)" by (metis surj_pair)
  then show ?case using 15 tb_Cleanup_facts [of b w0 n0 r b' w1 n1] by (simp add: s3_holds_def)
next
  case (16 w k e w')
  obtain x n1 where g: "GetObject cl (Bucket (s3_config s)) (keyToName s k) (snd w) = (x, n1)" by (metis surj_pair)
  have "ninv (snd w)" using 16(1) by (auto split: prod.splits)
  from get_object [OF this g] show ?case
    using 16(2,3) g assms by (cases x) (auto simp: s3_Get_def split: prod.splits)
qed

end

section \<open>A service that meets the assumptions\<close>

definition ss_client :: "((string \<times> string) \<times> bytes) list s3_client" where
  "ss_client =
     \<lparr>GetObject = (\<lambda>b key n. (case map_of n (b, key) of
          None \<Rightarrow> Err (Errorf ''operation error S3: GetObject'' [ResponseError 404]) | Some c \<Rightarrow> Ok (open_reader c Pass Pass), n)),
      HeadObject = (\<lambda>b key n. (case map_of n (b, key) of
          None \<Rightarrow> Err (Errorf ''operation error S3: HeadObject'' [ResponseError 404]) | Some c \<Rightarrow> Ok (), n)),
      PutObject = (\<lambda>b key body n. (case rd_err body of
          Some e \<Rightarrow> (Err e, n) | None \<Rightarrow> (Ok (), AList.update (b, key) (rd_content body) n)))\<rparr>"

definition ss_objects :: "((string \<times> string) \<times> bytes) list \<Rightarrow> string \<Rightarrow> string \<Rightarrow> bytes option" where
  "ss_objects n b key = map_of n (b, key)"

lemma ss_update: "ss_objects (AList.update (b, key) c n) = (ss_objects n)(b := (ss_objects n b)(key \<mapsto> c))"
  by (auto simp: ss_objects_def fun_eq_iff update_conv')

interpretation ss: s3_service ss_client ss_objects "\<lambda>n. True"
  by unfold_locales
    (auto simp: ss_client_def ss_objects_def [symmetric] ss_update open_reader_def rd_content_def split: option.splits)

section \<open>Properties\<close>

text \<open>
  C34. A blob written to a bucket is read back, and its temporary file is gone. With a service that keeps to
  the documentation of S3, when \<open>Put\<close>, a copy of any chunks and \<open>Commit\<close> succeed, the key is the SHA-256 digest of
  the whole content, the bucket holds the content under prefix and digest with no other change to the store, no
  temporary file is left, and a \<open>Get\<close> of the key that is read to its end returns the content.
\<close>

theorem s3_roundtrip:
  assumes "s3_service (s3_cl s) objects ninv" and "ninv n" and "s3_Put d (w, n) = (Ok b, w1, n1)"
    and "io_Copy (blob_write (s3_store d s)) cs e (b, (w1, n1)) = (None, (b2, (w2, n2)))"
    and "tb_Commit s b2 (w2, n2) = (Ok k, b3, w3, n3)"
  shows "k = sha256 (concat cs) \<and>
    s3_holds objects (s3_config s) (w3, n3) = (s3_holds objects (s3_config s) (w, n))(k \<mapsto> concat cs) \<and>
    tb_f b3 = None \<and> (\<forall>h. tb_f b2 = Some h \<longrightarrow> fs_get w3 (h_name h) = None) \<and>
    (\<forall>rd x. s3_Get s k (w3, n3) = (Ok rd, x) \<and> rd_err rd = None \<longrightarrow> rd_content rd = concat cs)"
proof -
  have bs: "blob_store (s3_store d s) (s3_holds objects (s3_config s)) (\<lambda>(w, n). ninv n) tb_wf tb_pending"
    using s3_service.s3_contract [OF assms(1) refl, of d] by (simp add: blob_store_notfound_def)
  let ?inv = "\<lambda>(w :: os, n). ninv n"
  have i: "?inv (w, n)" using assms(2) by simp
  have p: "ninv n1" "s3_holds objects (s3_config s) (w1, n1) = s3_holds objects (s3_config s) (w, n)"
      "tb_wf b" "tb_pending b (w1, n1) = Some []"
    using blob_store.put_keeps [OF bs i, of "Ok b" "(w1, n1)"] blob_store.put_fresh [OF bs i, of b "(w1, n1)"] assms(3) by auto
  have c: "ninv n2" "s3_holds objects (s3_config s) (w2, n2) = s3_holds objects (s3_config s) (w1, n1)"
      "tb_wf b2" "tb_pending b2 (w2, n2) = Some (concat cs)"
    using blob_store.copy_into_blob [OF bs _ p(3,4) assms(4)] p(1) by auto
  note k = s3_service.commit_cases [OF assms(1) c(1,3,4) refl assms(5)]
  have "rd_content rd = concat cs" if "s3_Get s k (w3, n3) = (Ok rd, x)" and "rd_err rd = None" for rd x
    using blob_store.get_content [OF bs, of "(w3, n3)" k rd x] that k by simp
  then show ?thesis using k c p by auto
qed

definition ss_store :: "((string \<times> string) \<times> bytes) list S3Store" where
  "ss_store = \<lparr>s3_config = \<lparr>Bucket = ''b'', Prefix = ''p/''\<rparr>, s3_cl = ss_client\<rparr>"

definition tmp_os :: os where
  "tmp_os = \<lparr>files = [], dirs = [[''tmp'']], faults = []\<rparr>"

lemma s3_roundtrip_witness:
  "\<exists>b w1 n1 b2 w2 n2 b3 w3 n3. s3_Put [''tmp''] (tmp_os, []) = (Ok b, w1, n1) \<and>
    io_Copy (blob_write (s3_store [''tmp''] ss_store)) [''hel'', ''lo''] None (b, (w1, n1)) = (None, (b2, (w2, n2))) \<and>
    tb_Commit ss_store b2 (w2, n2) = (Ok (sha256 ''hello''), b3, w3, n3) \<and>
    s3_holds ss_objects (s3_config ss_store) (w3, n3) (sha256 ''hello'') = Some ''hello''"
proof -
  let ?f = "\<lparr>h_name = [''tmp'', ''tmp''], h_closed = False\<rparr>"
  let ?b = "\<lparr>tb_f = Some ?f, tb_w = ?f, tb_h = []\<rparr>" and ?b2 = "\<lparr>tb_f = Some ?f, tb_w = ?f, tb_h = ''hello''\<rparr>"
  let ?w1 = "tmp_os\<lparr>files := [([''tmp'', ''tmp''], [])]\<rparr>" and ?w2 = "tmp_os\<lparr>files := [([''tmp'', ''tmp''], ''hello'')]\<rparr>"
  have put: "s3_Put [''tmp''] (tmp_os, [] :: ((string \<times> string) \<times> bytes) list) = (Ok ?b, ?w1, [])" by code_simp
  have cp: "io_Copy (blob_write (s3_store [''tmp''] ss_store)) [''hel'', ''lo''] None (?b, (?w1, [])) = (None, (?b2, (?w2, [])))"
    by code_simp
  have "\<exists>b3 w3 n3. tb_Commit ss_store ?b2 (?w2, []) = (Ok (sha256 ''hello''), b3, w3, n3)"
    by (simp add: tb_Commit_def Let_def file_Seek_def file_body_def tmp_os_def ss_store_def ss_client_def open_reader_def
        tb_Cleanup_def os_Close_def os_Remove_def fs_get_def)
  then obtain b3 w3 n3 where cm: "tb_Commit ss_store ?b2 (?w2, []) = (Ok (sha256 ''hello''), b3, w3, n3)" by blast
  have "s3_service (s3_cl ss_store) ss_objects (\<lambda>n. True)" using ss.s3_service_axioms by (simp add: ss_store_def)
  from s3_roundtrip [OF this _ put cp cm] show ?thesis using put cp cm by auto
qed

text \<open>Verifying an entry whose object is missing.\<close>

lemma s3_entry_missing:
  assumes "s3_service (s3_cl s) objects ninv" and "case vs_world x of (w, n) \<Rightarrow> ninv n" and "v_ValidateSHA256 vctx"
    and "hex_decode (Sha256 v) = Ok k" and "s3_holds objects (s3_config s) (vs_world x) k = None"
  shows "\<not> is_Ok (fst (validate_entry (s3_store d s) vctx u v x))"
proof -
  obtain w n where wn: "vs_world x = (w, n)" by (metis surj_pair)
  obtain r n1 where g: "GetObject (s3_cl s) (Bucket (s3_config s)) (keyToName s k) n = (r, n1)" by (metis surj_pair)
  have i: "ninv n" using assms(2) wn by simp
  note go = s3_service.get_object [OF assms(1) i g]
  have h: "objects n (Bucket (s3_config s)) (keyToName s k) = None" using assms(5) wn by (simp add: s3_holds_def keyToName_def)
  show ?thesis
  proof (cases r)
    case (Ok rd)
    then have "rd_err rd \<noteq> None" using go h by auto
    then obtain e where "rd_err rd = Some e" by blast
    then show ?thesis
      using assms(3,4) wn g Ok by (auto simp: validate_entry_def s3_Get_def hash_copy Let_def)
  next
    case (Err e)
    then show ?thesis using assms(4) wn g go by (auto simp: validate_entry_def s3_Get_def)
  next
    case (Panic p)
    then show ?thesis using s3_service.get_no_panic [OF assms(1)] g by blast
  qed
qed

lemma s3_for_each_missing:
  assumes "s3_service (s3_cl s) objects ninv" and "v_ValidateSHA256 vctx"
    and "case vs_world x of (w, n) \<Rightarrow> ninv n"
    and "\<exists>(q, v) \<in> set es. \<exists>k. hex_decode (Sha256 v) = Ok k \<and> s3_holds objects (s3_config s) (vs_world x) k = None"
  shows "\<not> is_Ok (fst (for_each (validate_entry (s3_store d s) vctx) es x))"
  using assms(3,4)
proof (induction es arbitrary: x)
  case (Cons qv es)
  obtain q v where qv: "qv = (q, v)" by (metis surj_pair)
  have bs: "blob_store (s3_store d s) (s3_holds objects (s3_config s)) (\<lambda>(w, n). ninv n) tb_wf tb_pending"
    using s3_service.s3_contract [OF assms(1) refl, of d] by (simp add: blob_store_notfound_def)
  show ?case
  proof (cases "url_Parse q")
    case (Ok u)
    obtain r y where v: "validate_entry (s3_store d s) vctx u v x = (r, y)" by (metis surj_pair)
    have k: "case vs_world y of (w, n) \<Rightarrow> ninv n" "s3_holds objects (s3_config s) (vs_world y) = s3_holds objects (s3_config s) (vs_world x)"
      using blob_store.validate_entry_keeps [OF bs v] Cons.prems(1) by auto
    show ?thesis
    proof (cases r)
      case r: (Ok z)
      then have "\<nexists>k. hex_decode (Sha256 v) = Ok k \<and> s3_holds objects (s3_config s) (vs_world x) k = None"
        using s3_entry_missing [OF assms(1) Cons.prems(1) assms(2), of v _ d u] v by fastforce
      then show ?thesis using Cons.IH [OF k(1)] Cons.prems(2) k(2) qv Ok v r by auto
    qed (use qv Ok v in auto)
  qed (use qv in auto)
qed simp

text \<open>
  A missing object ends a verification. The S3 store does not report a missing object as
  \<open>ErrBlobNotExist\<close>, so when the object of an entry is missing, the verify command fails even when it was asked
  to fetch what is missing, before it has fetched anything.
\<close>

theorem s3_missing_ends_verify:
  assumes "s3_service (s3_cl s) objects ninv" and "v_ValidateSHA256 vctx" and "case sv_blobs x of (w, n) \<Rightarrow> ninv n"
    and "(q, v) \<in> set (gm_entries (blobs (sv_assets x)))" and "hex_decode (Sha256 v) = Ok k"
    and "s3_holds objects (s3_config s) (sv_blobs x) k = None"
  shows "\<not> is_Ok (fst (doValidate (s3_store d s) do_req mappend vctx x)) \<and>
    sv_net (snd (doValidate (s3_store d s) do_req mappend vctx x)) = sv_net x \<and>
    sv_assets (snd (doValidate (s3_store d s) do_req mappend vctx x)) = sv_assets x"
proof -
  let ?x = "\<lparr>vs_missing = [], vs_wrong = [], vs_world = sv_blobs x\<rparr>"
  obtain r vs where fe: "for_each (validate_entry (s3_store d s) vctx) (gm_entries (blobs (sv_assets x))) ?x = (r, vs)"
    by (metis surj_pair)
  have "\<not> is_Ok r"
    using s3_for_each_missing [OF assms(1,2), of ?x "gm_entries (blobs (sv_assets x))" d] assms(3-6) fe by fastforce
  then show ?thesis using fe by (cases r) (simp_all add: doValidate_def ForEach_def)
qed

lemma s3_missing_ends_verify_witness:
  "\<not> is_Ok (fst (doValidate (s3_store [''tmp''] ss_store) sample_net (\<lambda>rv e. e)
     \<lparr>v_HeadersToCache = gm_make, v_FailIfMissing = False, v_FetchIfMissing = True, v_RepairIfWrong = False, v_ValidateSHA256 = True\<rparr>
     \<lparr>sv_assets = sample_file\<lparr>blobs := Some [(url_Redacted sample_url, sample_info)]\<rparr>, sv_blobs = (tmp_os, []), sv_net = 0, sv_missing = 0\<rparr>))"
proof -
  have sv: "s3_service (s3_cl ss_store) ss_objects (\<lambda>n. True)" using ss.s3_service_axioms by (simp add: ss_store_def)
  have d: "hex_decode (Sha256 sample_info) = Ok [char_of (171 :: nat), char_of (18 :: nat)]" by code_simp
  show ?thesis
    using s3_missing_ends_verify [OF sv _ _ _ d, of
      "\<lparr>v_HeadersToCache = gm_make, v_FailIfMissing = False, v_FetchIfMissing = True, v_RepairIfWrong = False, v_ValidateSHA256 = True\<rparr>"
      "\<lparr>sv_assets = sample_file\<lparr>blobs := Some [(url_Redacted sample_url, sample_info)]\<rparr>, sv_blobs = (tmp_os, []), sv_net = 0, sv_missing = 0\<rparr>"
      "url_Redacted sample_url" "[''tmp'']" sample_net "\<lambda>rv e. e"]
    by (simp add: s3_holds_def ss_objects_def)
qed

end
