(* ===== verification/Backend.thy ===== *)
theory Backend
  imports DirectoryStore RegistryStore S3Store
begin

text \<open>
  The blob store that the options choose (\<open>CacheOptions\<close>, \<open>xdgIt\<close>, \<open>MakeBlobStore\<close> in
  htvend/flags_manifest.go): an interface value, so a directory, a registry or a bucket, with the blobs of each.

  The world of such a store is the file system together with the state \<open>'m\<close> of the storage services. What
  is outside of the repository is a record of parameters: the working directory, \<open>xdg.DataFile\<close>,
  \<open>regexp.Compile\<close>, the default HTTP client and the S3 client that the AWS configuration gives.
\<close>

section \<open>Options and the environment\<close>

record 'm platform =
  pl_cwd :: path
  pl_temp :: path
  xdg_DataFile :: "string \<Rightarrow> os \<Rightarrow> string res \<times> os"
  regexp_Compile :: "string \<Rightarrow> rx res"
  DefaultClient_Do :: "request \<Rightarrow> 'm \<Rightarrow> response res \<times> 'm"
  client_reads :: "request \<Rightarrow> 'm \<Rightarrow> nat"
  s3_LoadDefaultConfig :: "'m s3_client res"

text \<open>The file that a name given on the command line stands for, without symbolic links.\<close>

fun path_walk :: "path \<Rightarrow> string list \<Rightarrow> path" where
  "path_walk p [] = p"
| "path_walk p (c # cs) =
     (if c = [] \<or> c = ''.'' then path_walk p cs
      else if c = ''..'' then path_walk (butlast p) cs
      else path_walk (p @ [c]) cs)"

definition path_of :: "path \<Rightarrow> string \<Rightarrow> path" where
  "path_of cwd s = path_walk (if has_prefix s ''/'' then [] else cwd) (str_split (CHR ''/'') s)"

record CacheOptions =
  BlobsBackend :: string
  BlobsRegistry :: string
  BlobsDir :: string
  BlobsBucket :: string
  BlobsPrefix :: string

definition xdg_home :: string where
  "xdg_home = ''${XDG_DATA_HOME}/''"

definition xdgIt :: "'m platform \<Rightarrow> string \<Rightarrow> os \<Rightarrow> string res \<times> os" where
  "xdgIt pl origPath w =
     (if has_prefix origPath xdg_home then
        (case xdg_DataFile pl (drop (length xdg_home) origPath) w of
           (Err e, w1) \<Rightarrow> (Err (wrap (''error getting path with xdg ('' @ origPath @ '')'') e), w1)
         | r \<Rightarrow> r)
      else (Ok origPath, w))"

datatype 'm backend = FileStore DirectoryStore | RegStore RegistryStore | BucketStore "'m S3Store"

definition MakeBlobStore :: "'m platform \<Rightarrow> CacheOptions \<Rightarrow> bool \<Rightarrow> os \<Rightarrow> 'm backend res \<times> os" where
  "MakeBlobStore pl co writable w =
     (if BlobsBackend co = ''filesystem'' then
        (case xdgIt pl (BlobsDir co) w of
           (Ok d, w1) \<Rightarrow> (Ok (FileStore (NewDirectoryStore (path_of (pl_cwd pl) d) writable)), w1)
         | (Err e, w1) \<Rightarrow> (Err (wrap ''error getting blob store with xdg'' e), w1)
         | (Panic p, w1) \<Rightarrow> (Panic p, w1))
      else if BlobsBackend co = ''registry'' then (Ok (RegStore (NewRegistryStore (BlobsRegistry co) writable)), w)
      else if BlobsBackend co = ''s3'' then
        (map_res BucketStore (NewS3Store (s3_LoadDefaultConfig pl) \<lparr>Bucket = BlobsBucket co, Prefix = BlobsPrefix co\<rparr>), w)
      else (Err (Errorf (''bad blob store type: '' @ BlobsBackend co) []), w))"

section \<open>The store as an interface value\<close>

text \<open>A blob is a value of its own interface: its methods are chosen by what it is, whatever the store.\<close>

datatype 'm any_blob = FileBlob caf | RegBlob blobBeingUploaded | BucketBlob "'m S3Store" tbUploaded

fun un_FileBlob :: "'m any_blob \<Rightarrow> caf" where
  "un_FileBlob (FileBlob b) = b"
| "un_FileBlob _ = undefined"

fun un_RegBlob :: "'m any_blob \<Rightarrow> blobBeingUploaded" where
  "un_RegBlob (RegBlob b) = b"
| "un_RegBlob _ = undefined"

fun un_BucketBlob :: "'m any_blob \<Rightarrow> tbUploaded" where
  "un_BucketBlob (BucketBlob s b) = b"
| "un_BucketBlob _ = undefined"

definition on_os :: "(os \<Rightarrow> 'r \<times> os) \<Rightarrow> os \<times> 'm \<Rightarrow> 'r \<times> os \<times> 'm" where
  "on_os f = (\<lambda>(w, m). case f w of (r, w1) \<Rightarrow> (r, w1, m))"

definition on_net :: "('m \<Rightarrow> 'r \<times> 'm) \<Rightarrow> os \<times> 'm \<Rightarrow> 'r \<times> os \<times> 'm" where
  "on_net f = (\<lambda>(w, m). case f m of (r, m1) \<Rightarrow> (r, w, m1))"

definition on_blob :: "('b \<Rightarrow> 'c) \<Rightarrow> ('v \<Rightarrow> ('r \<times> 'b) \<times> 'v) \<Rightarrow> 'v \<Rightarrow> 'r \<times> 'c \<times> 'v" where
  "on_blob emb f v = (case f v of ((r, b), v1) \<Rightarrow> (r, emb b, v1))"

definition assoc3 :: "'r \<times> 'b \<times> 'w \<Rightarrow> ('r \<times> 'b) \<times> 'w" where
  "assoc3 = (\<lambda>(r, b, w). ((r, b), w))"

fun any_Get :: "'m platform \<Rightarrow> 'm backend \<Rightarrow> bytes \<Rightarrow> os \<times> 'm \<Rightarrow> reader res \<times> os \<times> 'm" where
  "any_Get pl (FileStore s) k = on_os (ds_Get s k)"
| "any_Get pl (RegStore r) k = on_net (reg_Get (DefaultClient_Do pl) r k)"
| "any_Get pl (BucketStore b) k = s3_Get b k"

fun any_Exists :: "'m platform \<Rightarrow> 'm backend \<Rightarrow> bytes \<Rightarrow> os \<times> 'm \<Rightarrow> bool res \<times> os \<times> 'm" where
  "any_Exists pl (FileStore s) k = on_os (ds_Exists s k)"
| "any_Exists pl (RegStore r) k = on_net (reg_Exists (DefaultClient_Do pl) r k)"
| "any_Exists pl (BucketStore b) k = s3_Exists b k"

fun any_Put :: "'m platform \<Rightarrow> 'm backend \<Rightarrow> os \<times> 'm \<Rightarrow> 'm any_blob res \<times> os \<times> 'm" where
  "any_Put pl (FileStore s) v = (case on_os (ds_Put s) v of (r, v1) \<Rightarrow> (map_res FileBlob r, v1))"
| "any_Put pl (RegStore r) v = (case on_net (reg_Put (DefaultClient_Do pl) r) v of (x, v1) \<Rightarrow> (map_res RegBlob x, v1))"
| "any_Put pl (BucketStore b) v = (case s3_Put (pl_temp pl) v of (r, v1) \<Rightarrow> (map_res (BucketBlob b) r, v1))"

fun any_Destroy :: "'m backend \<Rightarrow> os \<times> 'm \<Rightarrow> err option \<times> os \<times> 'm" where
  "any_Destroy (FileStore s) = on_os (ds_Destroy s)"
| "any_Destroy (RegStore r) = on_net (reg_Destroy r)"
| "any_Destroy (BucketStore b) = s3_Destroy"

fun any_RemoveExcept :: "'m backend \<Rightarrow> (string, bool) gomap \<Rightarrow> os \<times> 'm \<Rightarrow> err option \<times> os \<times> 'm" where
  "any_RemoveExcept (FileStore s) keep = on_os (ds_RemoveExcept s keep)"
| "any_RemoveExcept (RegStore r) keep = on_net (reg_RemoveExcept r keep)"
| "any_RemoveExcept (BucketStore b) keep = s3_RemoveExcept keep"

fun any_Write :: "'m platform \<Rightarrow> 'm any_blob \<Rightarrow> bytes \<Rightarrow> os \<times> 'm \<Rightarrow> (nat \<times> err option) \<times> 'm any_blob \<times> os \<times> 'm" where
  "any_Write pl (FileBlob b) p v = on_blob FileBlob (on_os (\<lambda>w. assoc3 (caf_Write b p w))) v"
| "any_Write pl (RegBlob b) p v = on_blob RegBlob (on_net (\<lambda>m. assoc3 (bu_Write (DefaultClient_Do pl) (client_reads pl) b p m))) v"
| "any_Write pl (BucketBlob s b) p v = on_blob (BucketBlob s) (\<lambda>v. assoc3 (tb_Write b p v)) v"

fun any_Commit :: "'m platform \<Rightarrow> 'm any_blob \<Rightarrow> os \<times> 'm \<Rightarrow> bytes res \<times> 'm any_blob \<times> os \<times> 'm" where
  "any_Commit pl (FileBlob b) v = on_blob FileBlob (on_os (\<lambda>w. assoc3 (caf_Commit b w))) v"
| "any_Commit pl (RegBlob b) v = on_blob RegBlob (on_net (\<lambda>m. assoc3 (bu_Commit (DefaultClient_Do pl) b m))) v"
| "any_Commit pl (BucketBlob s b) v = on_blob (BucketBlob s) (\<lambda>v. assoc3 (tb_Commit s b v)) v"

fun any_Cleanup :: "'m platform \<Rightarrow> 'm any_blob \<Rightarrow> os \<times> 'm \<Rightarrow> err option \<times> 'm any_blob \<times> os \<times> 'm" where
  "any_Cleanup pl (FileBlob b) v = on_blob FileBlob (on_os (\<lambda>w. assoc3 (caf_Cleanup b w))) v"
| "any_Cleanup pl (RegBlob b) v = on_blob RegBlob (on_net (\<lambda>m. assoc3 (bu_Cleanup (DefaultClient_Do pl) b m))) v"
| "any_Cleanup pl (BucketBlob s b) v = on_blob (BucketBlob s) (\<lambda>v. assoc3 (tb_Cleanup b v)) v"

definition any_store :: "'m platform \<Rightarrow> 'm backend \<Rightarrow> (os \<times> 'm, 'm any_blob) Store" where
  "any_store pl s =
     \<lparr>Store_Get = any_Get pl s, Store_Exists = any_Exists pl s, Store_Put = any_Put pl s,
      Store_Destroy = any_Destroy s, Store_RemoveExcept = any_RemoveExcept s,
      Blob_Write = any_Write pl, Blob_Commit = any_Commit pl, Blob_Cleanup = any_Cleanup pl\<rparr>"

lemma any_store_simps [simp]:
  "Store_Get (any_store pl s) = any_Get pl s" "Store_Exists (any_store pl s) = any_Exists pl s"
  "Store_Put (any_store pl s) = any_Put pl s" "Blob_Write (any_store pl s) = any_Write pl"
  "Blob_Commit (any_store pl s) = any_Commit pl" "Blob_Cleanup (any_store pl s) = any_Cleanup pl"
  by (simp_all add: any_store_def)

lemmas any_lift_simps = on_os_def on_net_def on_blob_def assoc3_def

section \<open>A store seen through another world\<close>

text \<open>
  The contract of a store holds for the same store on a larger world, of which it sees a part (\<open>view\<close>), with
  its blobs embedded in another type.
\<close>

locale store_lift = base: blob_store_notfound st holds inv bwf pending
  for st :: "('w, 'b) Store" and holds and inv and bwf and pending +
  fixes big :: "('v, 'c) Store"
    and view :: "'v \<Rightarrow> 'w"
    and upd :: "'w \<Rightarrow> 'v \<Rightarrow> 'v"
    and emb :: "'b \<Rightarrow> 'c"
    and prj :: "'c \<Rightarrow> 'b"
  assumes view_upd: "view (upd w v) = w"
    and upd_upd: "upd w2 (upd w v) = upd w2 v"
    and prj_emb: "prj (emb b) = b"
    and lift_get: "Store_Get big k v = (case Store_Get st k (view v) of (r, w) \<Rightarrow> (r, upd w v))"
    and lift_exists: "Store_Exists big k v = (case Store_Exists st k (view v) of (rx, w) \<Rightarrow> (rx, upd w v))"
    and lift_put: "Store_Put big v = (case Store_Put st (view v) of (rp, w) \<Rightarrow> (map_res emb rp, upd w v))"
    and lift_write: "Blob_Write big (emb b) p v = (case Blob_Write st b p (view v) of (rw, b1, w) \<Rightarrow> (rw, emb b1, upd w v))"
    and lift_commit: "Blob_Commit big (emb b) v = (case Blob_Commit st b (view v) of (rc, b1, w) \<Rightarrow> (rc, emb b1, upd w v))"
    and lift_cleanup: "Blob_Cleanup big (emb b) v = (case Blob_Cleanup st b (view v) of (re, b1, w) \<Rightarrow> (re, emb b1, upd w v))"

sublocale store_lift \<subseteq> lifted: blob_store_notfound big "\<lambda>v. holds (view v)" "\<lambda>v. inv (view v)"
    "\<lambda>c. \<exists>b. c = emb b \<and> bwf b" "\<lambda>c v. pending (prj c) (view v)"
proof (unfold_locales, goal_cases)
  case (1 w k r w')
  then show ?case using base.get_keeps by (auto simp: lift_get view_upd split: prod.splits)
next
  case (2 w k rd w')
  then show ?case using base.get_content by (auto simp: lift_get view_upd split: prod.splits)
next
  case (3 k w m w')
  then show ?case using base.get_no_panic by (auto simp: lift_get split: prod.splits)
next
  case (4 w k rx w')
  then show ?case using base.exists_keeps by (auto simp: lift_exists view_upd split: prod.splits)
next
  case (5 w k x w')
  then show ?case using base.exists_iff by (auto simp: lift_exists view_upd split: prod.splits)
next
  case (6 k w m w')
  then show ?case using base.exists_no_panic by (auto simp: lift_exists split: prod.splits)
next
  case (7 w rp w')
  then show ?case using base.put_keeps by (auto simp: lift_put view_upd split: prod.splits)
next
  case (8 w b w')
  obtain rp w1 where p: "Store_Put st (view w) = (rp, w1)" by (metis surj_pair)
  then obtain b0 where "rp = Ok b0" using 8(2) by (cases rp) (auto simp: lift_put)
  then show ?case using 8 base.put_fresh [OF 8(1), of b0 w1] p by (auto simp: lift_put view_upd prj_emb)
next
  case (9 w m w')
  obtain rp w1 where p: "Store_Put st (view w) = (rp, w1)" by (metis surj_pair)
  then have "\<not> is_Panic rp" using base.put_no_panic by (cases rp) auto
  then show ?case using p by (cases rp) (auto simp: lift_put)
next
  case (10 w b p rw b' w')
  then obtain b0 where b: "b = emb b0" "bwf b0" by blast
  obtain r1 b1 w1 where c: "Blob_Write st b0 p (view w) = (r1, b1, w1)" by (metis surj_pair)
  then show ?case using 10(3) b base.write_keeps [OF 10(1) b(2) c] by (auto simp: lift_write view_upd)
next
  case (11 w b d p n b' w')
  then obtain b0 where b: "b = emb b0" "bwf b0" by blast
  obtain r1 b1 w1 where c: "Blob_Write st b0 p (view w) = (r1, b1, w1)" by (metis surj_pair)
  then show ?case
    using 11(3,4) b base.write_accepts [OF 11(1) b(2), of d p n b1 w1] by (auto simp: lift_write view_upd prj_emb)
next
  case (12 w b d k b' w')
  then obtain b0 where b: "b = emb b0" "bwf b0" by blast
  obtain rc b1 w1 where c: "Blob_Commit st b0 (view w) = (rc, b1, w1)" by (metis surj_pair)
  then show ?case
    using 12(3,4) b base.commit_Ok [OF 12(1) b(2), of d k b1 w1] by (auto simp: lift_commit view_upd prj_emb)
next
  case (13 w b d e b' w')
  then obtain b0 where b: "b = emb b0" "bwf b0" by blast
  obtain rc b1 w1 where c: "Blob_Commit st b0 (view w) = (rc, b1, w1)" by (metis surj_pair)
  then show ?case
    using 13(3,4) b base.commit_Err [OF 13(1) b(2), of d e b1 w1] by (auto simp: lift_commit view_upd prj_emb)
next
  case (14 b w d m b' w')
  then obtain b0 where b: "b = emb b0" "bwf b0" by blast
  obtain rc b1 w1 where c: "Blob_Commit st b0 (view w) = (rc, b1, w1)" by (metis surj_pair)
  then show ?case
    using 14(2) b base.commit_no_panic [OF b(2), of "view w" d m b1 w1] by (auto simp: lift_commit prj_emb)
next
  case (15 w b re b' w')
  then obtain b0 where b: "b = emb b0" "bwf b0" by blast
  obtain r1 b1 w1 where c: "Blob_Cleanup st b0 (view w) = (r1, b1, w1)" by (metis surj_pair)
  then show ?case using 15(3) b base.cleanup_keeps [OF 15(1) b(2) c] by (auto simp: lift_cleanup view_upd)
next
  case (16 w k e w')
  then show ?case using base.get_not_exist by (auto simp: lift_get view_upd split: prod.splits)
qed

context store_lift begin

lemma lifted_contract:
  "blob_store_notfound big (\<lambda>v. holds (view v)) (\<lambda>v. inv (view v)) (\<lambda>c. \<exists>b. c = emb b \<and> bwf b) (\<lambda>c v. pending (prj c) (view v))"
  by unfold_locales

end

interpretation fl: store_lift "dir_store s" "dir_holds (ds_dir s)" "dir_inv (ds_dir s)" "caf_wf (ds_dir s)" caf_pending
    "any_store pl (FileStore s)" fst "\<lambda>w v. (w, snd v)" FileBlob un_FileBlob for s pl
  by unfold_locales (auto simp: any_lift_simps split: prod.splits)

text \<open>The same for a registry and a bucket that behave as documented.\<close>

lemma any_registry:
  assumes "oci_registry (DefaultClient_Do pl) (client_reads pl) base blobs_of upload_of ninv"
  shows "blob_store_notfound (any_store pl (RegStore \<lparr>rg_base = base, rg_writable = wr\<rparr>)) (\<lambda>v. blobs_of (snd v)) (\<lambda>v. ninv (snd v))
    (\<lambda>c. \<exists>b. c = RegBlob b \<and> True) (\<lambda>c v. bu_pending upload_of (un_RegBlob c) (snd v))"
proof -
  have "store_lift (reg_store (DefaultClient_Do pl) (client_reads pl) \<lparr>rg_base = base, rg_writable = wr\<rparr>) blobs_of ninv (\<lambda>b. True)
      (bu_pending upload_of) (any_store pl (RegStore \<lparr>rg_base = base, rg_writable = wr\<rparr>)) snd (\<lambda>m v. (fst v, m)) RegBlob un_RegBlob"
    by (intro store_lift.intro store_lift_axioms.intro oci_registry.reg_contract [OF assms])
      (auto simp: any_lift_simps reg_store_def split: prod.splits)
  from store_lift.lifted_contract [OF this] show ?thesis by simp
qed

lemma any_bucket:
  assumes "s3_service (s3_cl s) objects ninv"
  shows "blob_store_notfound (any_store pl (BucketStore s)) (s3_holds objects (s3_config s)) (\<lambda>(w, m). ninv m)
    (\<lambda>c. \<exists>b. c = BucketBlob s b \<and> tb_wf b) (\<lambda>c v. tb_pending (un_BucketBlob c) v)"
proof -
  have "store_lift (s3_store (pl_temp pl) s) (s3_holds objects (s3_config s)) (\<lambda>(w, m). ninv m) tb_wf tb_pending
      (any_store pl (BucketStore s)) (\<lambda>v. v) (\<lambda>w v. w) (BucketBlob s) un_BucketBlob"
    by (intro store_lift.intro store_lift_axioms.intro s3_service.s3_contract [OF assms refl])
      (auto simp: any_lift_simps split: prod.splits)
  from store_lift.lifted_contract [OF this] show ?thesis by simp
qed

end
