(* ===== verification/Frame.thy ===== *)
theory Frame
  imports Verify SharedStore Backend
begin

text \<open>
  What the request handler and the verify command leave alone: the parts of the world that the operations of
  the store do not touch. It is what a manifest file in the same file system needs while a server runs.
\<close>

section \<open>The frame of a store\<close>

text \<open>\<open>loc w w'\<close> says that \<open>w'\<close> differs from \<open>w\<close> only where the store may change it.\<close>

locale store_frame =
  fixes st :: "('w, 'b) Store"
    and bwf :: "'b \<Rightarrow> bool"
    and loc :: "'w \<Rightarrow> 'w \<Rightarrow> bool"
  assumes loc_refl: "loc w w"
    and loc_trans: "loc w1 w2 \<Longrightarrow> loc w2 w3 \<Longrightarrow> loc w1 w3"
    and loc_get: "Store_Get st k w = (r, w') \<Longrightarrow> loc w w'"
    and loc_exists: "Store_Exists st k w = (rx, w') \<Longrightarrow> loc w w'"
    and loc_put: "Store_Put st w = (rp, w') \<Longrightarrow> loc w w'"
    and bwf_put: "Store_Put st w = (Ok b, w') \<Longrightarrow> bwf b"
    and loc_write: "bwf b \<Longrightarrow> Blob_Write st b p w = (rw, b', w') \<Longrightarrow> bwf b' \<and> loc w w'"
    and loc_commit: "bwf b \<Longrightarrow> Blob_Commit st b w = (rc, b', w') \<Longrightarrow> bwf b' \<and> loc w w'"
    and loc_cleanup: "bwf b \<Longrightarrow> Blob_Cleanup st b w = (re, b', w') \<Longrightarrow> loc w w'"

context store_frame begin

lemma copy_response_loc:
  assumes "copy_response st body wr b w = (r, wr1, b1, w1)" and "bwf b"
  shows "bwf b1 \<and> loc w w1"
proof (cases wr)
  case None
  then obtain e where "io_Copy (blob_write st) (rd_chunks body) (rd_err body) (b, w) = (e, b1, w1)"
    using assms(1) by (auto simp: copy_response_def split: prod.splits)
  moreover have "bwf (fst s1) \<and> loc w (snd s1)"
    if "blob_write st c s = (res, s1)" and "bwf (fst s) \<and> loc w (snd s)" for c s res s1
    using that loc_write [of "fst s" c "snd s" res "fst s1" "snd s1"] loc_trans [of w "snd s" "snd s1"]
    by (auto simp: blob_write_def split_beta)
  ultimately show ?thesis
    using io_Copy_keeps [of "blob_write st" "rd_chunks body" "rd_err body" "(b, w)" e "(b1, w1)"
        "\<lambda>s. bwf (fst s) \<and> loc w (snd s)"] assms(2) loc_refl [of w] by (cases e) auto
next
  case (Some r0)
  then obtain e r1 where cp: "io_CopyTee tee_client (tee_blob st) (rd_chunks body) (rd_err body) (r0, b, w) = (e, r1, b1, w1)"
    using assms(1) by (auto simp: copy_response_def split: prod.splits)
  let ?I = "\<lambda>s. bwf (fst (snd s)) \<and> loc w (snd (snd s))"
  have "?I s1" if "tee_client c s = (res, s1)" and "?I s" for c res and s s1 :: "rw \<times> 'b \<times> 'w"
    using that by (auto simp: tee_client_def split: prod.splits)
  moreover have "?I s1" if "tee_blob st c s = (res, s1)" and "?I s" for c res and s s1 :: "rw \<times> 'b \<times> 'w"
    using that loc_write [of "fst (snd s)" c "snd (snd s)" res "fst (snd s1)" "snd (snd s1)"]
      loc_trans [of w "snd (snd s)" "snd (snd s1)"]
    by (auto simp: tee_blob_def blob_write_def split_beta)
  ultimately show ?thesis
    using io_CopyTee_keeps [OF cp, of ?I] assms(2) loc_refl [of w] by (cases e) auto
qed

lemma store_response_loc:
  assumes "store_response st u hs resp wr b f w = (r, wr1, b1, f1, w1)" and "bwf b"
  shows "bwf b1 \<and> loc w w1"
proof -
  obtain x wr2 b2 w2 where c: "copy_response st (rs_Body resp) wr b w = (x, wr2, b2, w2)" by (metis surj_pair)
  note k = copy_response_loc [OF c assms(2)]
  obtain y b3 w3 where m: "Blob_Commit st b2 w2 = (y, b3, w3)" by (metis surj_pair)
  have k3: "bwf b3 \<and> loc w w3" using k loc_commit [of b2 w2 y b3 w3] m loc_trans [of w w2 w3] by blast
  show ?thesis
    using assms(1) c m k k3 by (auto simp: store_response_def split: res.splits prod.splits)
qed

lemma handle_response_loc:
  assumes "handle_response st u hs resp wr s = (r, wr1, s1)"
  shows "loc (sv_blobs s) (sv_blobs s1)"
proof (cases "SkipSave u (sv_assets s) \<or> StatusCode resp \<noteq> 200")
  case True
  then have "s1 = s" using assms by (auto simp: handle_response_def Let_def split: option.splits prod.splits)
  then show ?thesis by (simp add: loc_refl)
next
  case False
  define wr0 where "wr0 = map_option (\<lambda>r. rw_WriteHeader (StatusCode resp) (r\<lparr>rw_header := hdr_add_all (rs_Header resp) (rw_header r)\<rparr>)) wr"
  obtain x w1 where p: "Store_Put st (sv_blobs s) = (x, w1)" by (metis surj_pair)
  note l = loc_put [OF p]
  show ?thesis
  proof (cases x)
    case (Ok b)
    obtain r2 wr2 b2 f2 w2 where sr: "store_response st u hs resp wr0 b (sv_assets s) w1 = (r2, wr2, b2, f2, w2)"
      by (metis surj_pair)
    obtain e b3 w3 where cl: "Blob_Cleanup st b2 w2 = (e, b3, w3)" by (metis surj_pair)
    have b: "bwf b2 \<and> loc w1 w2" using store_response_loc [OF sr] bwf_put p Ok by blast
    then have "loc (sv_blobs s) w3" using l loc_cleanup [of b2 w2 e b3 w3] cl loc_trans by metis
    then show ?thesis
      using assms False p Ok sr cl by (simp add: handle_response_def Let_def wr0_def [symmetric]) auto
  qed (use assms False p l in \<open>auto simp: handle_response_def Let_def\<close>)
qed

lemma fetch_loc:
  "fetchAndSaveBlob st do_req meth body u hs pre wr s = (r, wr1, s1) \<Longrightarrow> loc (sv_blobs s) (sv_blobs s1)"
  by (auto simp: fetchAndSaveBlob_def loc_refl split: res.splits prod.splits dest!: handle_response_loc)

lemma serveFound_loc: "serveFoundBlob st bi r w = (x, r1, w1) \<Longrightarrow> loc w w1"
  by (auto simp: serveFoundBlob_def loc_refl Let_def split: res.splits prod.splits dest: loc_get)

lemma handle_loc:
  assumes "handleMainServerRequest st do_req lctx r w s = (x, w1, s1)"
  shows "loc (sv_blobs s) (sv_blobs s1)"
proof -
  let ?u = "extractReqFromURL r"
  obtain g f where g: "GetBlob ?u (sv_assets s) = (g, f)" by (metis surj_pair)
  show ?thesis
  proof (cases "g = Ok None \<and> FetchIfMissing lctx")
    case True
    then show ?thesis
      using assms g fetch_loc [of do_req "rq_Method r" "rq_Body r" ?u "HeadersToCache lctx" "Some (forward_headers (rq_Header r))"
          "Some w" "s\<lparr>sv_assets := f, sv_missing := sv_missing s + 1\<rparr>"]
      by (auto simp: handleMainServerRequest_def Let_def loc_refl split: if_splits prod.splits option.splits)
  next
    case False
    then show ?thesis
      using assms g serveFound_loc
      by (auto simp: handleMainServerRequest_def Let_def loc_refl split: if_splits prod.splits option.splits res.splits)
  qed
qed

lemma proxy_loc: "proxy_handler st do_req lctx r w s = (x, s1) \<Longrightarrow> loc (sv_blobs s) (sv_blobs s1)"
  by (auto simp: proxy_handler_def split: prod.splits res.splits dest: handle_loc)

lemma serve_all_loc: "loc (sv_blobs s) (sv_blobs (serve_all st do_req lctx rs s))"
proof (induction rs arbitrary: s)
  case (Cons q rs)
  obtain r fs where q: "q = (r, fs)" by (metis surj_pair)
  obtain x s1 where p: "proxy_handler st do_req lctx r (rw_new fs) s = (x, s1)" by (metis surj_pair)
  show ?case using proxy_loc [OF p] Cons.IH [of s1] p q loc_trans by auto
qed (simp add: loc_refl)

lemma validate_entry_loc: "validate_entry st vctx k v s = (r, s1) \<Longrightarrow> loc (vs_world s) (vs_world s1)"
  by (auto simp: validate_entry_def Let_def loc_refl split: res.splits prod.splits if_splits dest: loc_get)

lemma for_each_loc: "for_each (validate_entry st vctx) es s = (r, s1) \<Longrightarrow> loc (vs_world s) (vs_world s1)"
proof (induction es arbitrary: s)
  case (Cons kv es)
  obtain k v where kv: "kv = (k, v)" by (metis surj_pair)
  show ?case
  proof (cases "url_Parse k")
    case (Ok u)
    obtain x s2 where v: "validate_entry st vctx u v s = (x, s2)" by (metis surj_pair)
    show ?thesis
      using Cons.prems Cons.IH [of s2] kv Ok v validate_entry_loc [OF v] loc_trans [of "vs_world s" "vs_world s2" "vs_world s1"]
      by (cases x) auto
  qed (use Cons.prems kv loc_refl in auto)
qed (simp add: loc_refl)

lemma handle_missing_loc: "handle_missing st do_req mappend vctx ms rv s = (r, s1) \<Longrightarrow> loc (sv_blobs s) (sv_blobs s1)"
proof (induction ms arbitrary: rv s)
  case (Cons kv ms)
  obtain k v where kv: "kv = (k, v)" by (metis surj_pair)
  obtain x wr s2 where f: "fetchAndSaveBlob st do_req ''GET'' [] k (v_HeadersToCache vctx) None None s = (x, wr, s2)"
    by (metis surj_pair)
  have l: "loc (sv_blobs s) (sv_blobs s2)" using fetch_loc [OF f] .
  show ?case
    using Cons.prems Cons.IH kv f l loc_trans [OF l] by (cases x) (auto split: if_splits)
qed (simp add: loc_refl)

lemma doValidate_loc:
  assumes "doValidate st do_req mappend vctx s = (r, s1)"
  shows "loc (sv_blobs s) (sv_blobs s1)"
proof -
  let ?x = "\<lparr>vs_missing = [], vs_wrong = [], vs_world = sv_blobs s\<rparr>"
  obtain y vs where fe: "for_each (validate_entry st vctx) (gm_entries (blobs (sv_assets s))) ?x = (y, vs)" by (metis surj_pair)
  have l: "loc (sv_blobs s) (vs_world vs)" using for_each_loc [OF fe] by simp
  obtain z s2 where hm: "handle_missing st do_req mappend vctx (vs_missing vs) None (s\<lparr>sv_blobs := vs_world vs\<rparr>) = (z, s2)"
    by (metis surj_pair)
  have "loc (vs_world vs) (sv_blobs s2)" using handle_missing_loc [OF hm] by simp
  with l have "loc (sv_blobs s) (sv_blobs s2)" by (rule loc_trans)
  then show ?thesis
    using assms fe hm l by (cases y; cases z) (auto simp: doValidate_def ForEach_def)
qed

end

section \<open>The frames of the stores\<close>

definition file_loc :: "path \<Rightarrow> os \<times> 'm \<Rightarrow> os \<times> 'm \<Rightarrow> bool" where
  "file_loc d v v' \<longleftrightarrow> dir_local d (fst v) (fst v') \<and> snd v' = snd v"

lemma caf_finish_wf: "caf_finish c w = (r, c', w') \<Longrightarrow> caf_wf d c \<Longrightarrow> caf_wf d c'"
  by (auto simp: caf_finish_def Let_def caf_wf_def split: prod.splits option.splits dest!: os_Close_h)

lemma caf_Commit_wf: "caf_Commit c w = (r, c', w') \<Longrightarrow> caf_wf d c \<Longrightarrow> caf_wf d c'"
  by (auto simp: caf_Commit_def split: prod.splits option.splits if_splits
      dest!: caf_writeAlways_keeps [of _ _ _ _ _ _ d] intro: caf_finish_wf)

interpretation dl: store_frame "dir_store s" "caf_wf (ds_dir s)" "dir_local (ds_dir s)" for s
proof (unfold_locales, goal_cases)
  case (6 w b w')
  then show ?case by (auto simp: ds_Put_def ds_resolve_eq caf_wf_new split: if_splits)
next
  case (7 b p w rw b' w')
  then show ?case using caf_Write_local [of b p w rw b' w'] caf_Write_keeps [of b p w rw b' w'] by auto
next
  case (8 b w rc b' w')
  then show ?case using caf_Commit_local [of b w rc b' w'] caf_Commit_wf [of b w rc b' w'] by auto
qed (auto intro: dir_local_trans ds_Get_local ds_Exists_local ds_Put_local caf_Cleanup_local)

interpretation fll: store_frame "any_store pl (FileStore s)" "\<lambda>c. \<exists>b. c = FileBlob b \<and> caf_wf (ds_dir s) b"
    "file_loc (ds_dir s)" for pl s
proof (unfold_locales, goal_cases)
  case (6 w b w')
  obtain x w1 where x: "ds_Put s (fst w) = (x, w1)" by (metis surj_pair)
  then have "x = Ok y \<Longrightarrow> caf_wf (ds_dir s) y" for y using dl.bwf_put [of s "fst w" y w1] by simp
  then show ?case using 6 x by (cases x) (auto simp: any_lift_simps split: prod.splits)
next
  case (7 b p w rw b' w')
  then show ?case using dl.loc_write [of s] by (fastforce simp: any_lift_simps file_loc_def split: prod.splits)
next
  case (8 b w rc b' w')
  then show ?case using dl.loc_commit [of s] by (fastforce simp: any_lift_simps file_loc_def split: prod.splits)
next
  case (9 b w re b' w')
  then show ?case using dl.loc_cleanup [of s] by (fastforce simp: any_lift_simps file_loc_def split: prod.splits)
qed (auto simp: any_lift_simps file_loc_def split: prod.splits
      intro: dir_local_trans ds_Get_local ds_Exists_local ds_Put_local)

text \<open>A registry touches no file.\<close>

interpretation rgl: store_frame "any_store pl (RegStore r)" "\<lambda>c. \<exists>b. c = RegBlob b" "\<lambda>v v'. fst v' = fst v" for pl r
proof (unfold_locales, goal_cases)
  case (6 w b w')
  obtain x w1 where "reg_Put (DefaultClient_Do pl) r (snd w) = (x, w1)" by (metis surj_pair)
  then show ?case using 6 by (cases x) (auto simp: any_lift_simps split: prod.splits)
qed (auto simp: any_lift_simps split: prod.splits)

section \<open>What happens to the manifest\<close>

text \<open>A server and a verification only look entries up and add well-formed ones.\<close>

definition file_run :: "'h File \<Rightarrow> 'h File \<Rightarrow> bool" where
  "file_run f f' \<longleftrightarrow> (\<exists>cs. (\<forall>c \<in> set cs. call_info_wf c \<and> call_key c \<noteq> None) \<and> f' = run_calls cs f)"

lemma file_run_refl [simp]: "file_run f f"
  unfolding file_run_def by (rule exI [of _ "[]"]) (simp add: run_calls_def)

lemma file_run_trans:
  assumes "file_run f1 f2" and "file_run f2 f3"
  shows "file_run f1 f3"
proof -
  let ?ok = "\<lambda>cs. \<forall>c \<in> set cs. call_info_wf c \<and> call_key c \<noteq> None"
  obtain cs ds where "?ok cs" "f2 = run_calls cs f1" "?ok ds" "f3 = run_calls ds f2"
    using assms unfolding file_run_def by blast
  then have "?ok (cs @ ds) \<and> f3 = run_calls (cs @ ds) f1" by (auto simp: run_calls_def)
  then show ?thesis unfolding file_run_def by blast
qed

lemma GetBlob_run: "GetBlob u f = (r, f') \<Longrightarrow> file_run f f'"
  unfolding file_run_def by (rule exI [of _ "[CGet u]"]) (simp add: run_calls_def)

lemma AddBlob_run: "AddBlob u b f = (r, f') \<Longrightarrow> gm_wf (Headers b) \<Longrightarrow> file_run f f'"
  unfolding file_run_def by (rule exI [of _ "[CAdd u b]"]) (simp add: run_calls_def)

lemma file_run_facts:
  assumes "file_run f f'"
  shows "options f' = options f \<and> lock f' = lock f \<and> lockPath f' = lockPath f \<and> (file_wf f \<longrightarrow> file_wf f') \<and>
    (clean_synced w f \<longrightarrow> clean_synced w f')"
proof -
  obtain cs where "\<forall>c \<in> set cs. call_info_wf c" "f' = run_calls cs f" using assms by (auto simp: file_run_def)
  then show ?thesis using run_calls_wf [of f cs] run_calls_clean [of w f cs] by simp
qed

lemma store_response_run:
  assumes "store_response st u hs resp wr b f w = (r, wr1, b1, f1, w1)"
  shows "file_run f f1"
  using assms
  by (auto simp: store_response_def dest: AddBlob_run filterHeaders_wf split: res.splits prod.splits)
    (metis AddBlob_run filterHeaders_wf BlobInfo.select_convs(2))+

lemma handle_response_run: "handle_response st u hs resp wr s = (r, wr1, s1) \<Longrightarrow> file_run (sv_assets s) (sv_assets s1)"
  by (auto simp: handle_response_def Let_def split: if_splits option.splits res.splits prod.splits dest: store_response_run)

lemma fetch_run: "fetchAndSaveBlob st do_req meth body u hs pre wr s = (r, wr1, s1) \<Longrightarrow> file_run (sv_assets s) (sv_assets s1)"
  by (auto simp: fetchAndSaveBlob_def split: res.splits prod.splits dest!: handle_response_run)

lemma handle_run:
  assumes "handleMainServerRequest st do_req lctx r w s = (x, w1, s1)"
  shows "file_run (sv_assets s) (sv_assets s1)"
proof -
  let ?u = "extractReqFromURL r"
  obtain g f where g: "GetBlob ?u (sv_assets s) = (g, f)" by (metis surj_pair)
  let ?s1 = "s\<lparr>sv_assets := f, sv_missing := sv_missing s + 1\<rparr>"
  obtain y wr2 s2 where fe: "fetchAndSaveBlob st do_req (rq_Method r) (rq_Body r) ?u (HeadersToCache lctx)
      (Some (forward_headers (rq_Header r))) (Some w) ?s1 = (y, wr2, s2)" by (metis prod_cases3)
  have "file_run (sv_assets s) f" using GetBlob_run [OF g] .
  moreover have "file_run (sv_assets s) (sv_assets s2)"
    using fetch_run [OF fe] calculation file_run_trans by auto
  moreover have "sv_assets s1 = sv_assets s \<or> sv_assets s1 = f \<or> s1 = s2"
    using assms g fe
    by (auto simp: handleMainServerRequest_def Let_def split: if_splits res.splits option.splits prod.splits)
  ultimately show ?thesis by auto
qed

lemma serve_all_run: "file_run (sv_assets s) (sv_assets (serve_all st do_req lctx rs s))"
proof (induction rs arbitrary: s)
  case (Cons q rs)
  obtain r fs where q: "q = (r, fs)" by (metis surj_pair)
  obtain x w1 s1 where h: "handleMainServerRequest st do_req lctx r (rw_new fs) s = (x, w1, s1)" by (metis prod_cases3)
  then have "snd (proxy_handler st do_req lctx r (rw_new fs) s) = s1" by (cases x) (simp_all add: proxy_handler_def)
  then show ?case using Cons.IH [of s1] handle_run [OF h] q file_run_trans by auto
qed simp

lemma handle_missing_run: "handle_missing st do_req mappend vctx ms rv s = (r, s1) \<Longrightarrow> file_run (sv_assets s) (sv_assets s1)"
proof (induction ms arbitrary: rv s)
  case (Cons kv ms)
  obtain k v where kv: "kv = (k, v)" by (metis surj_pair)
  obtain x wr s2 where f: "fetchAndSaveBlob st do_req ''GET'' [] k (v_HeadersToCache vctx) None None s = (x, wr, s2)"
    by (metis surj_pair)
  have l: "file_run (sv_assets s) (sv_assets s2)" using fetch_run [OF f] .
  show ?case
    using Cons.prems Cons.IH kv f l file_run_trans [OF l] by (cases x) (auto split: if_splits)
qed simp

lemma doValidate_run:
  "doValidate st do_req mappend vctx s = (r, s1) \<Longrightarrow> file_run (sv_assets s) (sv_assets s1)"
  by (auto simp: doValidate_def split: res.splits prod.splits dest!: handle_missing_run)

end
