(* ===== verification/Jobs.thy ===== *)
theory Jobs
  imports Prelude "HOL-Library.Multiset"
begin

text \<open>
  jobs/multitasker.go: goroutines that run queued functions, a \<open>WaitGroup\<close>, an unbuffered channel of their
  errors, and \<open>Wait\<close>, which drains the channel and returns the first error.

  A queued function is a machine of its own: \<open>step\<close> is its next action on the shared state, \<open>outc\<close> its
  result once it has returned (\<open>Panic\<close> when it panics). The goroutines, the goroutine that closes the
  channel and the caller interleave in any order; every rule below is one action of one of them. A send
  on the unbuffered channel and the receive by the \<open>range\<close> loop, with the loop's body, are one step.
\<close>

section \<open>The machine\<close>

text \<open>
  A goroutine: running \<open>f\<close>, blocked in the send of its result, before and after the deferred
  \<open>wg.Done()\<close>. The result stays recorded after it was sent.
\<close>

datatype 't task = Running 't | Sending "err option" | Sent "err option" | Finished "err option"

datatype 't caller = Queueing "'t list" | Ranging "err option" | Returned "err option"

datatype closer = NotStarted | WgWait | Closing | Closed

text \<open>
  The fields \<open>wg\<close> and \<open>errors\<close> of \<open>MultiTasker\<close> (of the channel, whether it is closed), the program
  counters of the three kinds of goroutines, the shared state, the calls of \<open>errCallback\<close>, what was
  received so far, and the message of a panic, which ends the program.
\<close>

record ('t, 'w) MultiTasker =
  wg :: nat
  errors_closed :: bool
  mt_caller :: "'t caller"
  mt_tasks :: "'t task list"
  mt_closer :: closer
  mt_world :: 'w
  mt_calls :: "err list"
  mt_recv :: "err option list"
  mt_panic :: "string option"

definition NewMultiTasker :: "'t list \<Rightarrow> 'w \<Rightarrow> ('t, 'w) MultiTasker" where
  "NewMultiTasker js w =
     \<lparr>wg = 0, errors_closed = False, mt_caller = Queueing js, mt_tasks = [], mt_closer = NotStarted,
      mt_world = w, mt_calls = [], mt_recv = [], mt_panic = None\<rparr>"

text \<open>The body of the loop over the channel.\<close>

definition range_body :: "err option \<Rightarrow> err option \<Rightarrow> err list \<Rightarrow> err option \<times> err list" where
  "range_body e rvErr calls =
     (case (e, rvErr) of (Some er, None) \<Rightarrow> (Some er, calls @ [er]) | _ \<Rightarrow> (rvErr, calls))"

inductive mt_step :: "('t \<Rightarrow> 'w \<Rightarrow> 't \<times> 'w) \<Rightarrow> ('t \<Rightarrow> unit res option) \<Rightarrow>
    ('t, 'w) MultiTasker \<Rightarrow> ('t, 'w) MultiTasker \<Rightarrow> bool" for step outc where
  Queue: "mt_panic s = None \<Longrightarrow> mt_caller s = Queueing (f # fs) \<Longrightarrow>
     mt_step step outc s (s\<lparr>wg := wg s + 1, mt_tasks := mt_tasks s @ [Running f], mt_caller := Queueing fs\<rparr>)"
| Wait: "mt_panic s = None \<Longrightarrow> mt_caller s = Queueing [] \<Longrightarrow>
     mt_step step outc s (s\<lparr>mt_closer := WgWait, mt_caller := Ranging None\<rparr>)"
| Run: "mt_panic s = None \<Longrightarrow> i < length (mt_tasks s) \<Longrightarrow> mt_tasks s ! i = Running t \<Longrightarrow> outc t = None \<Longrightarrow>
     step t (mt_world s) = (t', w') \<Longrightarrow>
     mt_step step outc s (s\<lparr>mt_tasks := (mt_tasks s)[i := Running t'], mt_world := w'\<rparr>)"
| Ret: "mt_panic s = None \<Longrightarrow> i < length (mt_tasks s) \<Longrightarrow> mt_tasks s ! i = Running t \<Longrightarrow> outc t = Some r \<Longrightarrow>
     r = of_err e \<Longrightarrow> mt_step step outc s (s\<lparr>mt_tasks := (mt_tasks s)[i := Sending e]\<rparr>)"
| JobPanic: "mt_panic s = None \<Longrightarrow> i < length (mt_tasks s) \<Longrightarrow> mt_tasks s ! i = Running t \<Longrightarrow>
     outc t = Some (Panic p) \<Longrightarrow> mt_step step outc s (s\<lparr>mt_panic := Some p\<rparr>)"
| Send: "mt_panic s = None \<Longrightarrow> i < length (mt_tasks s) \<Longrightarrow> mt_tasks s ! i = Sending e \<Longrightarrow> \<not> errors_closed s \<Longrightarrow>
     mt_caller s = Ranging rvErr \<Longrightarrow> range_body e rvErr (mt_calls s) = (rvErr', calls') \<Longrightarrow>
     mt_step step outc s (s\<lparr>mt_tasks := (mt_tasks s)[i := Sent e], mt_caller := Ranging rvErr',
       mt_calls := calls', mt_recv := mt_recv s @ [e]\<rparr>)"
| SendClosed: "mt_panic s = None \<Longrightarrow> i < length (mt_tasks s) \<Longrightarrow> mt_tasks s ! i = Sending e \<Longrightarrow> errors_closed s \<Longrightarrow>
     mt_step step outc s (s\<lparr>mt_panic := Some ''send on closed channel''\<rparr>)"
| Done: "mt_panic s = None \<Longrightarrow> i < length (mt_tasks s) \<Longrightarrow> mt_tasks s ! i = Sent e \<Longrightarrow> wg s > 0 \<Longrightarrow>
     mt_step step outc s (s\<lparr>mt_tasks := (mt_tasks s)[i := Finished e], wg := wg s - 1\<rparr>)"
| DoneNeg: "mt_panic s = None \<Longrightarrow> i < length (mt_tasks s) \<Longrightarrow> mt_tasks s ! i = Sent e \<Longrightarrow> wg s = 0 \<Longrightarrow>
     mt_step step outc s (s\<lparr>mt_panic := Some ''sync: negative WaitGroup counter''\<rparr>)"
| Wake: "mt_panic s = None \<Longrightarrow> mt_closer s = WgWait \<Longrightarrow> wg s = 0 \<Longrightarrow>
     mt_step step outc s (s\<lparr>mt_closer := Closing\<rparr>)"
| Close: "mt_panic s = None \<Longrightarrow> mt_closer s = Closing \<Longrightarrow> \<not> errors_closed s \<Longrightarrow>
     mt_step step outc s (s\<lparr>mt_closer := Closed, errors_closed := True\<rparr>)"
| CloseClosed: "mt_panic s = None \<Longrightarrow> mt_closer s = Closing \<Longrightarrow> errors_closed s \<Longrightarrow>
     mt_step step outc s (s\<lparr>mt_panic := Some ''close of closed channel''\<rparr>)"
| RangeEnd: "mt_panic s = None \<Longrightarrow> mt_caller s = Ranging rvErr \<Longrightarrow> errors_closed s \<Longrightarrow>
     mt_step step outc s (s\<lparr>mt_caller := Returned rvErr\<rparr>)"

inductive mt_reach :: "('t \<Rightarrow> 'w \<Rightarrow> 't \<times> 'w) \<Rightarrow> ('t \<Rightarrow> unit res option) \<Rightarrow> 't list \<Rightarrow> 'w \<Rightarrow>
    ('t, 'w) MultiTasker \<Rightarrow> bool" for step outc js w where
  start: "mt_reach step outc js w (NewMultiTasker js w)"
| step: "mt_reach step outc js w s \<Longrightarrow> mt_step step outc s s' \<Longrightarrow> mt_reach step outc js w s'"

section \<open>The invariant\<close>

fun task_result :: "'t task \<Rightarrow> err option option" where
  "task_result (Sent e) = Some e"
| "task_result (Finished e) = Some e"
| "task_result _ = None"

fun is_Finished :: "'t task \<Rightarrow> bool" where
  "is_Finished (Finished e) = True"
| "is_Finished _ = False"

text \<open>The first error of a sequence of results.\<close>

fun first_error :: "err option list \<Rightarrow> err option" where
  "first_error [] = None"
| "first_error (None # es) = first_error es"
| "first_error (Some e # es) = Some e"

definition calls_of :: "err option \<Rightarrow> err list" where
  "calls_of e = (case e of None \<Rightarrow> [] | Some er \<Rightarrow> [er])"

text \<open>
  The counter counts the goroutines before their \<open>Done\<close>; the channel is closed only by the closer, which
  gets there only when no goroutine is left; what was received is what the goroutines have sent; and the
  loop's variable is the first error received, with which alone the callback was called.
\<close>

definition mt_inv :: "('t, 'w) MultiTasker \<Rightarrow> bool" where
  "mt_inv s \<longleftrightarrow>
     wg s = length (filter (\<lambda>t. \<not> is_Finished t) (mt_tasks s)) \<and>
     (errors_closed s \<longleftrightarrow> mt_closer s = Closed) \<and>
     (mt_closer s = NotStarted \<longleftrightarrow> (\<exists>fs. mt_caller s = Queueing fs)) \<and>
     (mt_closer s = Closing \<or> mt_closer s = Closed \<longrightarrow> list_all is_Finished (mt_tasks s)) \<and>
     mset (mt_recv s) = mset (List.map_filter task_result (mt_tasks s)) \<and>
     (case mt_caller s of
        Queueing fs \<Rightarrow> mt_recv s = [] \<and> mt_calls s = []
      | Ranging e \<Rightarrow> e = first_error (mt_recv s) \<and> mt_calls s = calls_of e
      | Returned e \<Rightarrow> e = first_error (mt_recv s) \<and> mt_calls s = calls_of e \<and> errors_closed s)"

lemma first_error_snoc: "first_error (es @ [e]) = (case first_error es of None \<Rightarrow> e | Some x \<Rightarrow> Some x)"
  by (induction es rule: first_error.induct) (auto split: option.splits, cases e, auto)

lemma first_error_None: "first_error es = None \<longleftrightarrow> (\<forall>e \<in> set es. e = None)"
  by (induction es rule: first_error.induct) auto

lemma first_error_mem: "first_error es = Some e \<Longrightarrow> Some e \<in> set es"
  by (induction es rule: first_error.induct) auto

lemma mset_map_filter_update:
  assumes "i < length xs"
  shows "mset (List.map_filter f (xs[i := x])) + (case f (xs ! i) of None \<Rightarrow> {#} | Some a \<Rightarrow> {#a#})
    = mset (List.map_filter f xs) + (case f x of None \<Rightarrow> {#} | Some a \<Rightarrow> {#a#})"
  using assms
proof (induction xs arbitrary: i)
  case (Cons y ys)
  then show ?case by (cases i) (auto simp: List.map_filter_def split: option.splits)
qed simp

lemma length_filter_update:
  "i < length xs \<Longrightarrow> length (filter P (xs[i := x])) + (if P (xs ! i) then 1 else 0)
    = length (filter P xs) + (if P x then 1 else 0)"
proof (induction xs arbitrary: i)
  case (Cons y ys)
  show ?case
  proof (cases i)
    case (Suc j)
    then show ?thesis using Cons.IH [of j] Cons.prems by (cases "P y") simp_all
  qed simp
qed simp

lemma list_all_nth_iff: "list_all P xs \<Longrightarrow> i < length xs \<Longrightarrow> P (xs ! i)"
  by (simp add: list_all_length)

lemma mt_inv_new [simp]: "mt_inv (NewMultiTasker js w)"
  by (simp add: mt_inv_def NewMultiTasker_def List.map_filter_def)

text \<open>Replacing one goroutine: how its counters and results change.\<close>

lemma task_update:
  assumes "i < length ts"
  shows "length (filter (\<lambda>t. \<not> is_Finished t) (ts[i := x])) + (if is_Finished (ts ! i) then 0 else 1)
      = length (filter (\<lambda>t. \<not> is_Finished t) ts) + (if is_Finished x then 0 else 1)"
    and "mset (List.map_filter task_result (ts[i := x])) + (case task_result (ts ! i) of None \<Rightarrow> {#} | Some a \<Rightarrow> {#a#})
      = mset (List.map_filter task_result ts) + (case task_result x of None \<Rightarrow> {#} | Some a \<Rightarrow> {#a#})"
  using length_filter_update [OF assms, of "\<lambda>t. \<not> is_Finished t" x] mset_map_filter_update [OF assms, of task_result x]
  by (auto split: if_splits)

lemma not_closed_if_busy:
  assumes "mt_inv s" and "i < length (mt_tasks s)" and "\<not> is_Finished (mt_tasks s ! i)"
  shows "mt_closer s \<noteq> Closing" and "mt_closer s \<noteq> Closed" and "\<not> errors_closed s" and "wg s > 0"
proof -
  show c: "mt_closer s \<noteq> Closing" "mt_closer s \<noteq> Closed"
    using assms by (auto simp: mt_inv_def dest: list_all_nth_iff)
  then show "\<not> errors_closed s" using assms(1) by (simp add: mt_inv_def)
  have "mt_tasks s ! i \<in> set (filter (\<lambda>t. \<not> is_Finished t) (mt_tasks s))" using assms(2,3) by simp
  then have "filter (\<lambda>t. \<not> is_Finished t) (mt_tasks s) \<noteq> []" by (metis empty_iff empty_set)
  then show "wg s > 0" using assms(1) by (simp add: mt_inv_def)
qed

lemma range_body_first:
  assumes "range_body e (first_error es) (calls_of (first_error es)) = (rv, calls)"
  shows "rv = first_error (es @ [e]) \<and> calls = calls_of rv"
proof (cases "first_error es")
  case None
  then show ?thesis using assms by (cases e) (auto simp: range_body_def first_error_snoc calls_of_def)
next
  case (Some a)
  show ?thesis
    using assms by (cases e) (auto simp: Some range_body_def first_error_snoc calls_of_def)
qed

lemma wg_zero_finished: "mt_inv s \<Longrightarrow> wg s = 0 \<Longrightarrow> list_all is_Finished (mt_tasks s)"
  by (auto simp: mt_inv_def list_all_iff filter_empty_conv)

lemma mt_step_inv: "mt_step step outc s s' \<Longrightarrow> mt_inv s \<Longrightarrow> mt_inv s'"
proof (induction rule: mt_step.induct)
  case (Queue s f fs)
  then show ?case by (auto simp: mt_inv_def List.map_filter_def)
next
  case (Wait s)
  then show ?case by (auto simp: mt_inv_def calls_of_def)
next
  case (Run s i t t' w')
  note b = not_closed_if_busy [OF \<open>mt_inv s\<close> Run(2)]
  from Run task_update [OF Run(2), of "Running t'"] b show ?case by (auto simp: mt_inv_def split: caller.splits)
next
  case (Ret s i t r e)
  note b = not_closed_if_busy [OF \<open>mt_inv s\<close> Ret(2)]
  from Ret task_update [OF Ret(2), of "Sending e"] b show ?case by (auto simp: mt_inv_def split: caller.splits)
next
  case (JobPanic s i t p)
  then show ?case by (auto simp: mt_inv_def split: caller.splits)
next
  case (Send s i e rvErr rvErr' calls')
  note b = not_closed_if_busy [OF \<open>mt_inv s\<close> Send(2)]
  have "rvErr' = first_error (mt_recv s @ [e]) \<and> calls' = calls_of rvErr'"
    using Send by (intro range_body_first) (auto simp: mt_inv_def)
  with Send task_update [OF Send(2), of "Sent e"] b show ?case by (auto simp: mt_inv_def)
next
  case (SendClosed s i e)
  then show ?case by (auto simp: mt_inv_def split: caller.splits)
next
  case (Done s i e)
  note b = not_closed_if_busy [OF \<open>mt_inv s\<close> Done(2)]
  from Done task_update [OF Done(2), of "Finished e"] b show ?case by (auto simp: mt_inv_def split: caller.splits)
next
  case (DoneNeg s i e)
  then show ?case by (auto simp: mt_inv_def split: caller.splits)
next
  case (Wake s)
  then show ?case using wg_zero_finished [of s] by (auto simp: mt_inv_def split: caller.splits)
next
  case (Close s)
  then show ?case by (auto simp: mt_inv_def split: caller.splits)
next
  case (CloseClosed s)
  then show ?case by (auto simp: mt_inv_def split: caller.splits)
next
  case (RangeEnd s rvErr)
  then show ?case by (auto simp: mt_inv_def)
qed

lemma mt_reach_inv: "mt_reach step outc js w s \<Longrightarrow> mt_inv s"
  by (induction rule: mt_reach.induct) (auto intro: mt_step_inv)

section \<open>Panics\<close>

text \<open>The task machinery never panics: no send on the closed channel, no negative counter, no second close.\<close>

lemma mt_panic_step:
  assumes "mt_step step outc s s'" and "mt_inv s" and "mt_panic s' = Some p"
  shows "\<exists>i t. i < length (mt_tasks s') \<and> mt_tasks s' ! i = Running t \<and> outc t = Some (Panic p)"
  using assms
proof (induction rule: mt_step.induct)
  case (SendClosed s i e)
  then show ?case using not_closed_if_busy(3) [of s i] by simp
next
  case (DoneNeg s i e)
  then show ?case using not_closed_if_busy(4) [of s i] by simp
next
  case (CloseClosed s)
  then show ?case by (auto simp: mt_inv_def)
next
  case (JobPanic s i t p)
  then show ?case by auto
qed auto

lemma mt_reach_panic:
  "mt_reach step outc js w s \<Longrightarrow> mt_panic s = Some p \<Longrightarrow>
    \<exists>i t. i < length (mt_tasks s) \<and> mt_tasks s ! i = Running t \<and> outc t = Some (Panic p)"
proof (induction rule: mt_reach.induct)
  case start
  then show ?case by (simp add: NewMultiTasker_def)
next
  case (step s s')
  then show ?case using mt_panic_step [OF step(2) mt_reach_inv [OF step(1)]] by blast
qed

section \<open>Progress\<close>

text \<open>A state without a next step is a panic or the end: \<open>Wait\<close> has returned and every goroutine is gone.\<close>

definition mt_stuck :: "('t \<Rightarrow> 'w \<Rightarrow> 't \<times> 'w) \<Rightarrow> ('t \<Rightarrow> unit res option) \<Rightarrow> ('t, 'w) MultiTasker \<Rightarrow> bool" where
  "mt_stuck step outc s \<longleftrightarrow> (\<forall>s'. \<not> mt_step step outc s s')"

lemma busy_task_steps:
  assumes "mt_inv s" and "mt_panic s = None" and "mt_caller s = Ranging rv"
    and "i < length (mt_tasks s)" and "\<not> is_Finished (mt_tasks s ! i)"
  shows "\<exists>s'. mt_step step outc s s'"
proof -
  note b = not_closed_if_busy [OF assms(1,4,5)]
  show ?thesis
  proof (cases "mt_tasks s ! i")
    case (Running t)
    show ?thesis
    proof (cases "outc t")
      case None
      then show ?thesis using mt_step.Run [of s i t outc step, OF assms(2,4) Running None] by (metis surj_pair)
    next
      case (Some r)
      show ?thesis
      proof (cases r)
        case (Ok u)
        then have "r = of_err None" by simp
        then show ?thesis using mt_step.Ret [of s i t outc _ _ step, OF assms(2,4) Running Some] by blast
      next
        case (Err e)
        then have "r = of_err (Some e)" by simp
        then show ?thesis using mt_step.Ret [of s i t outc _ _ step, OF assms(2,4) Running Some] by blast
      next
        case (Panic p)
        then show ?thesis using mt_step.JobPanic [of s i t outc _ step, OF assms(2,4) Running] Some by blast
      qed
    qed
  next
    case (Sending e)
    then show ?thesis using mt_step.Send [OF assms(2,4) Sending b(3) assms(3)] by (metis surj_pair)
  next
    case (Sent e)
    then show ?thesis using mt_step.Done [OF assms(2,4) Sent b(4)] by blast
  next
    case (Finished e)
    then show ?thesis using assms(5) by simp
  qed
qed

lemma mt_progress:
  assumes "mt_inv s" and "mt_stuck step outc s" and "mt_panic s = None"
  shows "\<exists>e. mt_caller s = Returned e \<and> list_all is_Finished (mt_tasks s)"
proof (cases "mt_caller s")
  case (Queueing fs)
  have "\<exists>s'. mt_step step outc s s'"
  proof (cases fs)
    case Nil
    then show ?thesis using mt_step.Wait [OF assms(3)] Queueing by blast
  next
    case (Cons f fs')
    then show ?thesis using mt_step.Queue [OF assms(3), of f fs'] Queueing by blast
  qed
  then show ?thesis using assms(2) by (simp add: mt_stuck_def)
next
  case (Ranging rv)
  show ?thesis
  proof (cases "list_all is_Finished (mt_tasks s)")
    case True
    then have z: "wg s = 0" and cl: "mt_closer s \<noteq> NotStarted"
      using assms(1) Ranging by (auto simp: mt_inv_def list_all_iff)
    have "\<exists>s'. mt_step step outc s s'"
    proof (cases "mt_closer s")
      case WgWait
      then show ?thesis using mt_step.Wake [OF assms(3) _ z] by blast
    next
      case Closing
      then show ?thesis using mt_step.Close [OF assms(3)] mt_step.CloseClosed [OF assms(3)] by blast
    next
      case Closed
      then have "errors_closed s" using assms(1) by (simp add: mt_inv_def)
      then show ?thesis using mt_step.RangeEnd [OF assms(3) Ranging] by blast
    qed (use cl in simp)
    then show ?thesis using assms(2) by (simp add: mt_stuck_def)
  next
    case False
    then obtain i where "i < length (mt_tasks s)" "\<not> is_Finished (mt_tasks s ! i)"
      by (auto simp: list_all_length)
    from busy_task_steps [OF assms(1,3) Ranging this, of step outc] assms(2) show ?thesis by (simp add: mt_stuck_def)
  qed
next
  case (Returned e)
  then show ?thesis using assms(1) by (auto simp: mt_inv_def)
qed

section \<open>Termination\<close>

text \<open>
  The functions still to run decrease as a multiset; steps that leave them alone move a goroutine, the
  caller or the closer ahead.
\<close>

fun running :: "'t task \<Rightarrow> 't option" where
  "running (Running t) = Some t"
| "running _ = None"

fun task_phase :: "'t task \<Rightarrow> nat" where
  "task_phase (Running t) = 3"
| "task_phase (Sending e) = 2"
| "task_phase (Sent e) = 1"
| "task_phase (Finished e) = 0"

fun closer_phase :: "closer \<Rightarrow> nat" where
  "closer_phase NotStarted = 3"
| "closer_phase WgWait = 2"
| "closer_phase Closing = 1"
| "closer_phase Closed = 0"

fun caller_phase :: "'t caller \<Rightarrow> nat" where
  "caller_phase (Queueing fs) = 5 + 4 * length fs"
| "caller_phase (Ranging e) = 1"
| "caller_phase (Returned e) = 0"

fun queued :: "'t caller \<Rightarrow> 't list" where
  "queued (Queueing fs) = fs"
| "queued _ = []"

definition mt_phase :: "('t, 'w) MultiTasker \<Rightarrow> nat" where
  "mt_phase s = sum_list (map task_phase (mt_tasks s)) + closer_phase (mt_closer s) + caller_phase (mt_caller s)
     + (if mt_panic s = None then 1 else 0)"

definition mt_work :: "('t, 'w) MultiTasker \<Rightarrow> 't multiset" where
  "mt_work s = mset (queued (mt_caller s)) + mset (List.map_filter running (mt_tasks s))"

lemma phase_update:
  "i < length ts \<Longrightarrow> sum_list (map task_phase (ts[i := x])) + task_phase (ts ! i)
    = sum_list (map task_phase ts) + task_phase x"
proof (induction ts arbitrary: i)
  case (Cons y ys)
  then show ?case by (cases i) (simp_all add: add.assoc)
qed simp

lemma work_update:
  "i < length ts \<Longrightarrow> mset (List.map_filter running (ts[i := x])) + (case running (ts ! i) of None \<Rightarrow> {#} | Some a \<Rightarrow> {#a#})
    = mset (List.map_filter running ts) + (case running x of None \<Rightarrow> {#} | Some a \<Rightarrow> {#a#})"
  by (rule mset_map_filter_update)

lemma mult_replace: "(t', t) \<in> r \<Longrightarrow> (N + {#t'#}, N + {#t#}) \<in> mult r"
  unfolding mult_def by (rule r_into_trancl, rule mult1I [of _ t N _ "{#t'#}"]) auto

lemma mult_drop: "(N, N + {#t#}) \<in> mult r"
  unfolding mult_def by (rule r_into_trancl, rule mult1I [of _ t N _ "{#}"]) auto

lemma mt_step_decreases:
  assumes "mt_step step outc s s'" and "\<forall>t w. outc t = None \<longrightarrow> (fst (step t w), t) \<in> R"
  shows "((mt_work s', mt_phase s'), (mt_work s, mt_phase s)) \<in> mult R <*lex*> less_than"
  using assms(1)
proof (induction rule: mt_step.induct)
  case (Run s i t t' w')
  obtain N where N: "mt_work s = N + {#t#}" "mt_work (s\<lparr>mt_tasks := (mt_tasks s)[i := Running t'], mt_world := w'\<rparr>) = N + {#t'#}"
  proof -
    let ?M = "mset (List.map_filter running (mt_tasks s))" and ?Q = "mset (queued (mt_caller s))"
    have u: "mset (List.map_filter running ((mt_tasks s)[i := Running t'])) + {#t#} = ?M + {#t'#}"
      using work_update [OF Run(2), of "Running t'"] Run(3) by simp
    have "t \<in># ?M"
      using nth_mem [OF Run(2)] Run(3) by (force simp: List.map_filter_def image_iff)
    then obtain N where N: "?M = add_mset t N" by (metis multi_member_split)
    with u have "mset (List.map_filter running ((mt_tasks s)[i := Running t'])) = add_mset t' N"
      by (simp add: add_mset_commute [of t' t])
    then show ?thesis using that [of "?Q + N"] N by (simp add: mt_work_def)
  qed
  have "(t', t) \<in> R" using assms(2) Run(4,5) by (metis fst_conv)
  then show ?case using mult_replace [of t' t R N] N by simp
next
  case (Ret s i t r e)
  have "mt_work s = mt_work (s\<lparr>mt_tasks := (mt_tasks s)[i := Sending e]\<rparr>) + {#t#}"
    using work_update [OF Ret(2), of "Sending e"] Ret(3) by (simp add: mt_work_def)
  then show ?case using mult_drop [of "mt_work (s\<lparr>mt_tasks := (mt_tasks s)[i := Sending e]\<rparr>)" t R] by simp
next
  case (Send s i e rvErr rvErr' calls')
  show ?case
    using work_update [OF Send(2), of "Sent e"] phase_update [OF Send(2), of "Sent e"] Send(3,5)
    by (simp add: mt_work_def mt_phase_def)
next
  case (Done s i e)
  show ?case
    using work_update [OF Done(2), of "Finished e"] phase_update [OF Done(2), of "Finished e"] Done(3)
    by (simp add: mt_work_def mt_phase_def)
qed (auto simp: mt_work_def mt_phase_def List.map_filter_def)

lemma mt_step_wf:
  assumes "wf R" and "\<forall>t w. outc t = None \<longrightarrow> (fst (step t w), t) \<in> R"
  shows "wf {(s', s). mt_step step outc s s'}"
proof -
  have "wf (mult R <*lex*> less_than)" using wf_mult [OF assms(1)] by (simp add: wf_lex_prod)
  from wf_inv_image [OF this, of "\<lambda>s. (mt_work s, mt_phase s)"] show ?thesis
    by (rule wf_subset) (use mt_step_decreases [OF _ assms(2)] in \<open>auto simp: inv_image_def\<close>)
qed

lemma mt_reach_stuck:
  assumes "wf {(s', s). mt_step step outc s s'}" and "mt_reach step outc js w s"
  shows "\<exists>s'. mt_reach step outc js w s' \<and> mt_stuck step outc s'"
  using assms(1,2)
proof (induction s rule: wf_induct_rule)
  case (less s)
  show ?case
  proof (cases "mt_stuck step outc s")
    case True
    then show ?thesis using less(2) by blast
  next
    case False
    then obtain s' where st: "mt_step step outc s s'" by (auto simp: mt_stuck_def)
    show ?thesis by (rule less(1) [OF _ mt_reach.step [OF less(2) st]]) (use st in simp)
  qed
qed

section \<open>Refinement: an interleaving of the functions\<close>

text \<open>
  What a client relies on: the queued functions run in some interleaving, each to its own result.
\<close>

datatype 't ptask = Busy 't | Ended "err option"

inductive par_step :: "('t \<Rightarrow> 'w \<Rightarrow> 't \<times> 'w) \<Rightarrow> ('t \<Rightarrow> unit res option) \<Rightarrow>
    't ptask list \<times> 'w \<Rightarrow> 't ptask list \<times> 'w \<Rightarrow> bool" for step outc where
  act: "i < length ts \<Longrightarrow> ts ! i = Busy t \<Longrightarrow> outc t = None \<Longrightarrow> step t w = (t', w') \<Longrightarrow>
     par_step step outc (ts, w) (ts[i := Busy t'], w')"
| ret: "i < length ts \<Longrightarrow> ts ! i = Busy t \<Longrightarrow> outc t = Some (of_err e) \<Longrightarrow>
     par_step step outc (ts, w) (ts[i := Ended e], w)"

inductive par_reach :: "('t \<Rightarrow> 'w \<Rightarrow> 't \<times> 'w) \<Rightarrow> ('t \<Rightarrow> unit res option) \<Rightarrow> 't list \<Rightarrow> 'w \<Rightarrow>
    't ptask list \<times> 'w \<Rightarrow> bool" for step outc js w where
  start: "par_reach step outc js w (map Busy js, w)"
| step: "par_reach step outc js w c \<Longrightarrow> par_step step outc c c' \<Longrightarrow> par_reach step outc js w c'"

fun task_abs :: "'t task \<Rightarrow> 't ptask" where
  "task_abs (Running t) = Busy t"
| "task_abs (Sending e) = Ended e"
| "task_abs (Sent e) = Ended e"
| "task_abs (Finished e) = Ended e"

definition mt_abs :: "('t, 'w) MultiTasker \<Rightarrow> 't ptask list \<times> 'w" where
  "mt_abs s = (map task_abs (mt_tasks s) @ map Busy (queued (mt_caller s)), mt_world s)"

lemma abs_update:
  "i < length ts \<Longrightarrow> map task_abs (ts[i := x]) @ r = (map task_abs ts @ r)[i := task_abs x]"
  "i < length ts \<Longrightarrow> (map task_abs ts @ r) ! i = task_abs (ts ! i)"
  by (simp_all add: map_update list_update_append nth_append)

lemma abs_same: "i < length ts \<Longrightarrow> task_abs x = task_abs (ts ! i) \<Longrightarrow> map task_abs (ts[i := x]) = map task_abs ts"
  by (metis list_update_id length_map map_update nth_map)

lemma mt_step_refines:
  "mt_step step outc s s' \<Longrightarrow> mt_abs s' = mt_abs s \<or> par_step step outc (mt_abs s) (mt_abs s')"
proof (induction rule: mt_step.induct)
  case (Run s i t t' w')
  let ?r = "map Busy (queued (mt_caller s))"
  have "par_step step outc (map task_abs (mt_tasks s) @ ?r, mt_world s)
      ((map task_abs (mt_tasks s) @ ?r)[i := Busy t'], w')"
    by (rule par_step.act [where t = t]) (use Run abs_update(2) [OF Run(2)] in auto)
  then show ?case using abs_update(1) [OF Run(2), of "Running t'"] by (simp add: mt_abs_def)
next
  case (Ret s i t r e)
  let ?r = "map Busy (queued (mt_caller s))"
  have "par_step step outc (map task_abs (mt_tasks s) @ ?r, mt_world s)
      ((map task_abs (mt_tasks s) @ ?r)[i := Ended e], mt_world s)"
    by (rule par_step.ret [where t = t]) (use Ret abs_update(2) [OF Ret(2)] in auto)
  then show ?case using abs_update(1) [OF Ret(2), of "Sending e"] by (simp add: mt_abs_def)
qed (simp_all add: mt_abs_def abs_same)

lemma mt_reach_refines: "mt_reach step outc js w s \<Longrightarrow> par_reach step outc js w (mt_abs s)"
proof (induction rule: mt_reach.induct)
  case start
  show ?case using par_reach.start [of step outc js w] by (simp add: mt_abs_def NewMultiTasker_def)
next
  case (step s s')
  then show ?case using mt_step_refines [OF step(2)] par_reach.step by metis
qed

lemma par_length: "par_reach step outc js w c \<Longrightarrow> length (fst c) = length js"
  by (induction rule: par_reach.induct) (auto elim!: par_step.cases)

lemma all_finished: "list_all is_Finished ts \<Longrightarrow> \<exists>es. ts = map Finished es"
proof (induction ts)
  case (Cons t ts)
  then obtain e es where "t = Finished e" "ts = map Finished es" by (cases t) auto
  then have "t # ts = map Finished (e # es)" by simp
  then show ?case by (rule exI)
qed simp

lemma finished_results [simp]: "List.map_filter task_result (map Finished es) = es"
  by (induction es) (simp_all add: List.map_filter_def)

lemma returned_state:
  assumes "mt_reach step outc js w s" and "mt_caller s = Returned rv"
  shows "\<exists>es. mt_tasks s = map Finished es \<and> mset (mt_recv s) = mset es \<and> rv = first_error (mt_recv s) \<and>
    mt_calls s = calls_of rv \<and> par_reach step outc js w (map Ended es, mt_world s)"
proof -
  have i: "mt_inv s" using assms(1) by (rule mt_reach_inv)
  then have "list_all is_Finished (mt_tasks s)" using assms(2) by (auto simp: mt_inv_def)
  then obtain es where es: "mt_tasks s = map Finished es" using all_finished by blast
  have "mt_abs s = (map Ended es, mt_world s)" using es assms(2) by (simp add: mt_abs_def comp_def)
  then show ?thesis using mt_reach_refines [OF assms(1)] es i assms(2) by (auto simp: mt_inv_def)
qed

section \<open>Properties\<close>

text \<open>
  C14. \<open>Wait\<close> returns. When the queued functions terminate (their steps decrease in a well-founded
  order), there is no infinite run, and in every interleaving a state without a next step is either the
  panic of one of the functions or the end, with \<open>Wait\<close> returned and every goroutine gone: no deadlock, and
  no panic of the channel or the counter.
\<close>

theorem wait_terminates:
  assumes "wf R" and "\<forall>t w. outc t = None \<longrightarrow> (fst (step t w), t) \<in> R"
  shows "\<not> (\<exists>run. \<forall>i. mt_step step outc (run i) (run (Suc i))) \<and>
    (\<forall>s. mt_reach step outc js w s \<and> mt_stuck step outc s \<longrightarrow>
      (\<exists>p i t. mt_panic s = Some p \<and> i < length (mt_tasks s) \<and> mt_tasks s ! i = Running t \<and> outc t = Some (Panic p)) \<or>
      (mt_panic s = None \<and> (\<exists>rv. mt_caller s = Returned rv) \<and> list_all is_Finished (mt_tasks s)))"
proof -
  have "(\<exists>p i t. mt_panic s = Some p \<and> i < length (mt_tasks s) \<and> mt_tasks s ! i = Running t \<and> outc t = Some (Panic p)) \<or>
      (mt_panic s = None \<and> (\<exists>rv. mt_caller s = Returned rv) \<and> list_all is_Finished (mt_tasks s))"
    if r: "mt_reach step outc js w s" and st: "mt_stuck step outc s" for s
  proof (cases "mt_panic s")
    case None
    then show ?thesis using mt_progress [OF mt_reach_inv [OF r] st] by blast
  next
    case (Some p)
    then show ?thesis using mt_reach_panic [OF r] by blast
  qed
  moreover have "\<not> (\<exists>run. \<forall>i. mt_step step outc (run i) (run (Suc i)))"
    using mt_step_wf [OF assms] unfolding wf_iff_no_infinite_down_chain by simp
  ultimately show ?thesis by blast
qed

text \<open>A sample: each function counts down and adds one to the shared state at each step.\<close>

definition count_step :: "nat \<Rightarrow> nat \<Rightarrow> nat \<times> nat" where
  "count_step t w = (t - 1, w + 1)"

definition count_outc :: "nat \<Rightarrow> unit res option" where
  "count_outc t = (if t = 0 then Some (Ok ()) else if t = 7 then Some (Err ErrInvalid) else None)"

lemma count_less: "\<forall>t w. count_outc t = None \<longrightarrow> (fst (count_step t w), t) \<in> less_than"
  by (auto simp: count_outc_def count_step_def)

lemma count_no_panic: "count_outc t \<noteq> Some (Panic p)"
  by (simp add: count_outc_def)

lemma wait_terminates_witness:
  "\<not> (\<exists>run. \<forall>i. mt_step count_step count_outc (run i) (run (Suc i)))"
  using wait_terminates [OF wf_less_than count_less] by simp

lemma count_returns: "\<exists>s rv. mt_reach count_step count_outc js w s \<and> mt_caller s = Returned rv"
  using mt_reach_stuck [OF mt_step_wf [OF wf_less_than count_less] mt_reach.start, of js w]
    mt_progress [OF mt_reach_inv] mt_reach_panic count_no_panic by (metis not_None_eq)

text \<open>
  C10. What \<open>Wait\<close> returns. In every interleaving in which it returns, all queued functions have
  run to their end, in some interleaving of their steps alone; each of their results was received exactly
  once; the returned error is the first one received that is not nil, so it is nil exactly if no function
  failed; and the callback was called with this error and with nothing else.
\<close>

theorem wait_result:
  assumes "mt_reach step outc js w s" and "mt_caller s = Returned rv"
  shows "\<exists>es. length es = length js \<and> mt_tasks s = map Finished es \<and> mset (mt_recv s) = mset es \<and>
    par_reach step outc js w (map Ended es, mt_world s) \<and>
    rv = first_error (mt_recv s) \<and> mt_calls s = calls_of rv \<and>
    (rv = None \<longleftrightarrow> (\<forall>e \<in> set es. e = None)) \<and> (rv \<noteq> None \<longrightarrow> rv \<in> set es)"
proof -
  obtain es where es: "mt_tasks s = map Finished es" "mset (mt_recv s) = mset es" "rv = first_error (mt_recv s)"
      "mt_calls s = calls_of rv" "par_reach step outc js w (map Ended es, mt_world s)"
    using returned_state [OF assms] by blast
  have "set (mt_recv s) = set es" using es(2) by (rule mset_eq_setD)
  then have "rv = None \<longleftrightarrow> (\<forall>e \<in> set es. e = None)" "rv \<noteq> None \<longrightarrow> rv \<in> set es"
    using es(3) first_error_None [of "mt_recv s"] first_error_mem [of "mt_recv s"] by simp_all (metis not_None_eq)?
  moreover have "length es = length js" using par_length [OF es(5)] by simp
  ultimately show ?thesis using es by blast
qed

lemma wait_result_witness:
  "\<exists>s. mt_reach count_step count_outc [2, 9] 5 s \<and> (\<exists>es. length es = 2 \<and> mt_tasks s = map Finished es)"
proof -
  obtain s rv where s: "mt_reach count_step count_outc [2, 9] 5 s" "mt_caller s = Returned rv"
    using count_returns by blast
  from wait_result [OF s] obtain es where "length es = length [2 :: nat, 9]" "mt_tasks s = map Finished es" by blast
  then have "length es = 2 \<and> mt_tasks s = map Finished es" by simp
  then show ?thesis using s(1) by blast
qed

text \<open>
  C17. The multitasker refines the interleaving of its functions: every step of the goroutines, the
  caller and the closer is one step of one function or changes nothing that the functions can see, so that
  every reachable state is a reachable state of the functions running side by side.
\<close>

theorem multitasker_refines:
  assumes "mt_reach step outc js w s"
  shows "par_reach step outc js w (mt_abs s) \<and>
    (\<forall>s'. mt_step step outc s s' \<longrightarrow> mt_abs s' = mt_abs s \<or> par_step step outc (mt_abs s) (mt_abs s'))"
  using mt_reach_refines [OF assms] mt_step_refines by blast

lemma multitasker_refines_witness:
  "\<exists>s rv. mt_caller s = Returned rv \<and> par_reach count_step count_outc [2, 9] 5 (mt_abs s)"
proof -
  obtain s rv where s: "mt_reach count_step count_outc [2, 9] 5 s" "mt_caller s = Returned rv"
    using count_returns by blast
  then show ?thesis using multitasker_refines [OF s(1)] by blast
qed

end
