(* ===== verification/Export.thy ===== *)
theory Export
  imports SharedStore Lockfile Jobs
begin

text \<open>
  The export command (htvend/command_export.go): every blob that the manifest names is copied from one
  store to another by goroutines of a \<open>MultiTasker\<close>. \<open>ensureBlobExported\<close> is given twice: as the function of
  the source, and as a machine whose steps are the calls of store operations, which is what the goroutines
  interleave; the two agree. Both stores live in one world, so that they may be the same or overlap.
\<close>

section \<open>Exporting one blob\<close>

text \<open>The part between \<open>Put\<close> and the deferred \<open>Cleanup\<close>.\<close>

definition export_copy :: "('w, 'b) Store \<Rightarrow> bytes \<Rightarrow> reader \<Rightarrow> 'b \<Rightarrow> 'w \<Rightarrow> unit res \<times> 'b \<times> 'w" where
  "export_copy dst expectedH srcBlob b w =
     (case io_Copy (blob_write dst) (rd_chunks srcBlob) (rd_err srcBlob) (b, w) of
        (Some e, b1, w1) \<Rightarrow> (Err (wrap ''error reading from src to dst'' e), b1, w1)
      | (None, b1, w1) \<Rightarrow>
          (case Blob_Commit dst b1 w1 of
             (Err e, b2, w2) \<Rightarrow> (Err (wrap ''error comming destination blob'' e), b2, w2)
           | (Panic p, b2, w2) \<Rightarrow> (Panic p, b2, w2)
           | (Ok actualH, b2, w2) \<Rightarrow>
               (if expectedH \<noteq> actualH
                then (Err (Errorf (''actual hash ('' @ hex_encode actualH @ '') received differs from desired hash ('' @
                        hex_encode expectedH @ '') for blob'') []), b2, w2)
                else (Ok (), b2, w2))))"

definition ensureBlobExported :: "('w, 'c) Store \<Rightarrow> ('w, 'b) Store \<Rightarrow> bytes \<Rightarrow> 'w \<Rightarrow> unit res \<times> 'w" where
  "ensureBlobExported src dst expectedH w =
     (case Store_Exists dst expectedH w of
        (Err e, w1) \<Rightarrow> (Err (wrap ''error checking if destination exists'' e), w1)
      | (Panic p, w1) \<Rightarrow> (Panic p, w1)
      | (Ok True, w1) \<Rightarrow> (Ok (), w1)
      | (Ok False, w1) \<Rightarrow>
          (case Store_Get src expectedH w1 of
             (Err e, w2) \<Rightarrow> (Err (wrap ''error fetching from upstream blobstore'' e), w2)
           | (Panic p, w2) \<Rightarrow> (Panic p, w2)
           | (Ok srcBlob, w2) \<Rightarrow>
               (case Store_Put dst w2 of
                  (Err e, w3) \<Rightarrow> (Err (wrap ''error creating destination blobstore to write'' e), w3)
                | (Panic p, w3) \<Rightarrow> (Panic p, w3)
                | (Ok b, w3) \<Rightarrow>
                    (case export_copy dst expectedH srcBlob b w3 of
                       (r, b4, w4) \<Rightarrow>
                         (case Blob_Cleanup dst b4 w4 of
                            (e, b5, w5) \<Rightarrow> (defer_err r (wrap_opt ''error committing to dest'' e), w5))))))"

text \<open>The machine: where the function stands and what it holds there.\<close>

datatype 'b export_pc =
    E_Start bytes
  | E_Get bytes
  | E_Put bytes reader
  | E_Copy bytes 'b "bytes list" "err option"
  | E_Commit bytes 'b
  | E_Cleanup 'b "unit res"
  | E_Ret "unit res"

fun export_step :: "('w, 'c) Store \<Rightarrow> ('w, 'b) Store \<Rightarrow> 'b export_pc \<Rightarrow> 'w \<Rightarrow> 'b export_pc \<times> 'w" where
  "export_step src dst (E_Start k) w =
     (case Store_Exists dst k w of
        (Err e, w1) \<Rightarrow> (E_Ret (Err (wrap ''error checking if destination exists'' e)), w1)
      | (Panic p, w1) \<Rightarrow> (E_Ret (Panic p), w1)
      | (Ok x, w1) \<Rightarrow> (if x then E_Ret (Ok ()) else E_Get k, w1))"
| "export_step src dst (E_Get k) w =
     (case Store_Get src k w of
        (Err e, w1) \<Rightarrow> (E_Ret (Err (wrap ''error fetching from upstream blobstore'' e)), w1)
      | (Panic p, w1) \<Rightarrow> (E_Ret (Panic p), w1)
      | (Ok r, w1) \<Rightarrow> (E_Put k r, w1))"
| "export_step src dst (E_Put k r) w =
     (case Store_Put dst w of
        (Err e, w1) \<Rightarrow> (E_Ret (Err (wrap ''error creating destination blobstore to write'' e)), w1)
      | (Panic p, w1) \<Rightarrow> (E_Ret (Panic p), w1)
      | (Ok b, w1) \<Rightarrow> (E_Copy k b (rd_chunks r) (rd_err r), w1))"
| "export_step src dst (E_Copy k b [] e) w =
     (case e of
        None \<Rightarrow> (E_Commit k b, w)
      | Some er \<Rightarrow> (E_Cleanup b (Err (wrap ''error reading from src to dst'' er)), w))"
| "export_step src dst (E_Copy k b (c # cs) e) w =
     (case Blob_Write dst b c w of
        ((n, Some er), b1, w1) \<Rightarrow> (E_Cleanup b1 (Err (wrap ''error reading from src to dst'' er)), w1)
      | ((n, None), b1, w1) \<Rightarrow>
          (if n \<noteq> length c then (E_Cleanup b1 (Err (wrap ''error reading from src to dst'' ErrShortWrite)), w1)
           else (E_Copy k b1 cs e, w1)))"
| "export_step src dst (E_Commit k b) w =
     (case Blob_Commit dst b w of
        (Err e, b1, w1) \<Rightarrow> (E_Cleanup b1 (Err (wrap ''error comming destination blob'' e)), w1)
      | (Panic p, b1, w1) \<Rightarrow> (E_Cleanup b1 (Panic p), w1)
      | (Ok actualH, b1, w1) \<Rightarrow>
          (E_Cleanup b1 (if k \<noteq> actualH
             then Err (Errorf (''actual hash ('' @ hex_encode actualH @ '') received differs from desired hash ('' @
                        hex_encode k @ '') for blob'') [])
             else Ok ()), w1))"
| "export_step src dst (E_Cleanup b r) w =
     (case Blob_Cleanup dst b w of (e, b1, w1) \<Rightarrow> (E_Ret (defer_err r (wrap_opt ''error committing to dest'' e)), w1))"
| "export_step src dst (E_Ret r) w = (E_Ret r, w)"

fun export_outc :: "'b export_pc \<Rightarrow> unit res option" where
  "export_outc (E_Ret r) = Some r"
| "export_outc _ = None"

text \<open>The steps that are left.\<close>

fun export_phase :: "'b export_pc \<Rightarrow> nat" where
  "export_phase (E_Start k) = 5"
| "export_phase (E_Get k) = 4"
| "export_phase (E_Put k r) = 3"
| "export_phase (E_Copy k b cs e) = 2"
| "export_phase (E_Commit k b) = 2"
| "export_phase (E_Cleanup b r) = 1"
| "export_phase (E_Ret r) = 0"

fun export_left :: "'b export_pc \<Rightarrow> nat" where
  "export_left (E_Copy k b cs e) = Suc (length cs)"
| "export_left _ = 0"

definition export_order :: "('b export_pc \<times> 'b export_pc) set" where
  "export_order = measures [export_phase, export_left]"

lemma wf_export_order: "wf export_order"
  by (simp add: export_order_def)

lemma export_step_decreases:
  "export_outc t = None \<Longrightarrow> (fst (export_step src dst t w), t) \<in> export_order"
  by (cases "(src, dst, t, w)" rule: export_step.cases)
    (auto simp: export_order_def split: prod.splits res.splits option.splits)

lemma export_step_less: "\<forall>t w. export_outc t = None \<longrightarrow> (fst (export_step src dst t w), t) \<in> export_order"
  by (intro allI impI, rule export_step_decreases)

section \<open>The machine run alone is the function\<close>

fun export_run :: "('w, 'c) Store \<Rightarrow> ('w, 'b) Store \<Rightarrow> nat \<Rightarrow> 'b export_pc \<Rightarrow> 'w \<Rightarrow> 'b export_pc \<times> 'w" where
  "export_run src dst 0 t w = (t, w)"
| "export_run src dst (Suc n) t w = (case export_step src dst t w of (t1, w1) \<Rightarrow> export_run src dst n t1 w1)"

lemma export_run_ret [simp]: "export_run src dst n (E_Ret r) w = (E_Ret r, w)"
  by (induction n) simp_all

lemma export_run_add:
  "export_run src dst (m + n) t w = (case export_run src dst m t w of (t1, w1) \<Rightarrow> export_run src dst n t1 w1)"
  by (induction m arbitrary: t w) (auto split: prod.splits)

text \<open>The result of the part from the copy on, with the clean-up.\<close>

definition export_end :: "('w, 'b) Store \<Rightarrow> unit res \<times> 'b \<times> 'w \<Rightarrow> unit res \<times> 'w" where
  "export_end dst = (\<lambda>(r, b, w). case Blob_Cleanup dst b w of
     (e, b1, w1) \<Rightarrow> (defer_err r (wrap_opt ''error committing to dest'' e), w1))"

lemma export_run_copy:
  assumes "length cs + 3 \<le> n"
  shows "export_run src dst n (E_Copy k b cs e) w =
    (case export_end dst (export_copy dst k \<lparr>rd_chunks = cs, rd_err = e, rd_close = c\<rparr> b w) of (r, w1) \<Rightarrow> (E_Ret r, w1))"
  using assms
proof (induction cs arbitrary: n b w)
  case Nil
  then obtain m where m: "n = Suc (Suc (Suc m))" by (auto simp: le_iff_add)
  show ?case
    by (auto simp: m export_copy_def export_end_def split: prod.splits option.splits res.splits)
next
  case (Cons x cs)
  then obtain m where m: "n = Suc m" "length cs + 3 \<le> m" by (cases n) auto
  obtain j er b1 w1 where wr: "Blob_Write dst b x w = ((j, er), b1, w1)" by (metis surj_pair)
  obtain l where l: "m = Suc l" using m(2) by (cases m) auto
  show ?case
  proof (cases "er = None \<and> j = length x")
    case True
    then show ?thesis using Cons.IH [OF m(2)] wr m(1) by (simp add: export_copy_def blob_write_def)
  next
    case False
    then show ?thesis
      using wr m(1) l by (auto simp: export_copy_def blob_write_def export_end_def split: prod.splits option.splits)
  qed
qed

lemma export_alone:
  "\<exists>n. export_run src dst n (E_Start k) w = (E_Ret (fst (ensureBlobExported src dst k w)), snd (ensureBlobExported src dst k w))"
proof -
  obtain x w1 where ex: "Store_Exists dst k w = (x, w1)" by (metis surj_pair)
  obtain r w2 where g: "Store_Get src k w1 = (r, w2)" by (metis surj_pair)
  obtain p w3 where pt: "Store_Put dst w2 = (p, w3)" by (metis surj_pair)
  show ?thesis
  proof (cases "x = Ok False \<and> is_Ok r \<and> is_Ok p")
    case True
    then obtain rd b where rb: "x = Ok False" "r = Ok rd" "p = Ok b" by (cases r; cases p) auto
    have e: "ensureBlobExported src dst k w = export_end dst (export_copy dst k rd b w3)"
      using ex g pt rb by (auto simp: ensureBlobExported_def export_end_def split: prod.splits)
    obtain N where N: "N = length (rd_chunks rd) + 3" by blast
    have "export_run src dst N (E_Copy k b (rd_chunks rd) (rd_err rd)) w3
        = (case export_end dst (export_copy dst k rd b w3) of (r, w1) \<Rightarrow> (E_Ret r, w1))"
      using export_run_copy [of "rd_chunks rd" N src dst k b "rd_err rd" w3 "rd_close rd"] N by (cases rd) simp
    then have "export_run src dst (Suc (Suc (Suc N))) (E_Start k) w
        = (E_Ret (fst (ensureBlobExported src dst k w)), snd (ensureBlobExported src dst k w))"
      using ex g pt rb e by (simp add: split_beta)
    then show ?thesis by blast
  next
    case False
    have "export_run src dst 3 (E_Start k) w
        = (E_Ret (fst (ensureBlobExported src dst k w)), snd (ensureBlobExported src dst k w))"
      using False ex g pt
      by (cases x; cases r; cases p) (auto simp: numeral_3_eq_3 ensureBlobExported_def split: bool.splits)
    then show ?thesis by blast
  qed
qed

section \<open>Goroutines side by side\<close>

text \<open>
  What the export needs of its two stores: the destination takes several blobs at a time, and the
  operations of each store leave the other one well-formed (\<open>sinv\<close> for the source).
\<close>

locale export_pair = dst: blob_store_shared dst holds inv bwf pending alive indep
  for dst :: "('w, 'b) Store" and holds and inv and bwf and pending and alive and indep +
  fixes src :: "('w, 'c) Store"
    and sinv :: "'w \<Rightarrow> bool"
  assumes src_get: "sinv w \<Longrightarrow> inv w \<Longrightarrow> Store_Get src k w = (r, w') \<Longrightarrow>
      sinv w' \<and> inv w' \<and> holds w' = holds w \<and> (\<forall>c. alive c w \<longrightarrow> alive c w' \<and> pending c w' = pending c w)"
    and src_no_panic: "Store_Get src k w \<noteq> (Panic m, w')"
    and dst_exists: "sinv w \<Longrightarrow> inv w \<Longrightarrow> Store_Exists dst k w = (rx, w') \<Longrightarrow> sinv w'"
    and dst_put: "sinv w \<Longrightarrow> inv w \<Longrightarrow> Store_Put dst w = (rp, w') \<Longrightarrow> sinv w'"
    and dst_write: "sinv w \<Longrightarrow> inv w \<Longrightarrow> bwf b \<Longrightarrow> Blob_Write dst b p w = (rw, b', w') \<Longrightarrow> sinv w'"
    and dst_commit: "sinv w \<Longrightarrow> inv w \<Longrightarrow> bwf b \<Longrightarrow> Blob_Commit dst b w = (rc, b', w') \<Longrightarrow> sinv w'"
    and dst_cleanup: "sinv w \<Longrightarrow> inv w \<Longrightarrow> bwf b \<Longrightarrow> Blob_Cleanup dst b w = (re, b', w') \<Longrightarrow> sinv w'"

fun export_handle :: "'b export_pc \<Rightarrow> 'b option" where
  "export_handle (E_Copy k b cs e) = Some b"
| "export_handle (E_Commit k b) = Some b"
| "export_handle (E_Cleanup b r) = Some b"
| "export_handle _ = None"

text \<open>The invariant of the goroutine for key \<open>k\<close>: a success is claimed only once the store holds the key.\<close>

fun export_ok :: "('b \<Rightarrow> bool) \<Rightarrow> ('b \<Rightarrow> 'w \<Rightarrow> bool) \<Rightarrow> ('b \<Rightarrow> 'w \<Rightarrow> bytes option) \<Rightarrow> ('w \<Rightarrow> bytes \<Rightarrow> bytes option)
    \<Rightarrow> 'w \<Rightarrow> bytes \<Rightarrow> 'b export_pc ptask \<Rightarrow> bool" where
  "export_ok bwf alive pending holds w k (Busy (E_Start k')) \<longleftrightarrow> k' = k"
| "export_ok bwf alive pending holds w k (Busy (E_Get k')) \<longleftrightarrow> k' = k"
| "export_ok bwf alive pending holds w k (Busy (E_Put k' r)) \<longleftrightarrow> k' = k"
| "export_ok bwf alive pending holds w k (Busy (E_Copy k' b cs e)) \<longleftrightarrow> k' = k \<and> bwf b \<and> alive b w \<and> pending b w \<noteq> None"
| "export_ok bwf alive pending holds w k (Busy (E_Commit k' b)) \<longleftrightarrow> k' = k \<and> bwf b \<and> alive b w \<and> pending b w \<noteq> None"
| "export_ok bwf alive pending holds w k (Busy (E_Cleanup b r)) \<longleftrightarrow>
     bwf b \<and> alive b w \<and> \<not> is_Panic r \<and> (r = Ok () \<longrightarrow> holds w k \<noteq> None)"
| "export_ok bwf alive pending holds w k (Busy (E_Ret r)) \<longleftrightarrow>
     \<not> is_Panic r \<and> (r = Ok () \<longrightarrow> holds w k \<noteq> None)"
| "export_ok bwf alive pending holds w k (Ended e) \<longleftrightarrow> (e = None \<longrightarrow> holds w k \<noteq> None)"

fun task_handle :: "'b export_pc ptask \<Rightarrow> 'b option" where
  "task_handle (Busy t) = export_handle t"
| "task_handle (Ended e) = None"

text \<open>
  The invariant of all goroutines together: one for each key, and unfinished blobs that are independent.
\<close>

definition export_inv :: "('w \<Rightarrow> bool) \<Rightarrow> ('b \<Rightarrow> bool) \<Rightarrow> ('b \<Rightarrow> 'w \<Rightarrow> bool) \<Rightarrow> ('b \<Rightarrow> 'w \<Rightarrow> bytes option)
    \<Rightarrow> ('b \<Rightarrow> 'b \<Rightarrow> bool) \<Rightarrow> ('w \<Rightarrow> bytes \<Rightarrow> bytes option) \<Rightarrow> bytes list \<Rightarrow> 'b export_pc ptask list \<Rightarrow> 'w \<Rightarrow> bool" where
  "export_inv good bwf alive pending indep holds ks ts w \<longleftrightarrow>
     good w \<and> length ts = length ks \<and>
     (\<forall>i < length ts. export_ok bwf alive pending holds w (ks ! i) (ts ! i)) \<and>
     all_indep indep (map task_handle ts)"

context export_pair begin

abbreviation "ok_at \<equiv> export_ok bwf alive pending holds"
abbreviation "frame \<equiv> blob_frame bwf alive pending indep"
abbreviation "good w \<equiv> inv w \<and> sinv w \<and> content_addressed (holds w)"

lemma step_start:
  assumes "export_step src dst (E_Start k) w = (t', w')" and "good w"
  shows "good w' \<and> dom (holds w) \<subseteq> dom (holds w') \<and> ok_at w' k (Busy t') \<and> frame None w (export_handle t') w'"
proof -
  obtain r w1 where e: "Store_Exists dst k w = (r, w1)" by (metis surj_pair)
  have w': "w' = w1" using assms(1) e by (auto split: res.splits)
  have k: "inv w1" "holds w1 = holds w" "sinv w1"
    using dst.exists_keeps [OF _ e] dst_exists [OF _ _ e] assms(2) by auto
  have f: "frame None w None w1" using dst.exists_frame [OF e] by (simp add: blob_frame_def)
  have "ok_at w1 k (Busy t') \<and> export_handle t' = None"
    using assms(1) e k(2) dst.exists_iff [of w k True w1] dst.exists_no_panic [of k w _ w1] assms(2)
    by (cases r) auto
  then show ?thesis using k f w' assms(2) by simp
qed

lemma step_get:
  assumes "export_step src dst (E_Get k) w = (t', w')" and "good w"
  shows "good w' \<and> dom (holds w) \<subseteq> dom (holds w') \<and> ok_at w' k (Busy t') \<and> frame None w (export_handle t') w'"
proof -
  obtain r w1 where e: "Store_Get src k w = (r, w1)" by (metis surj_pair)
  have w': "w' = w1" using assms(1) e by (auto split: res.splits)
  note k = src_get [OF _ _ e]
  have "ok_at w1 k (Busy t') \<and> export_handle t' = None" using assms(1) e src_no_panic [of k w _ w1] by (cases r) auto
  then show ?thesis using k w' assms(2) by (simp add: blob_frame_def)
qed

lemma step_put:
  assumes "export_step src dst (E_Put k rd) w = (t', w')" and "good w"
  shows "good w' \<and> dom (holds w) \<subseteq> dom (holds w') \<and> ok_at w' k (Busy t') \<and> frame None w (export_handle t') w'"
proof -
  obtain r w1 where e: "Store_Put dst w = (r, w1)" by (metis surj_pair)
  have w': "w' = w1" using assms(1) e by (auto split: res.splits)
  have k: "inv w1" "holds w1 = holds w" "sinv w1"
    using dst.put_keeps [OF _ e] dst_put [OF _ _ e] assms(2) by auto
  have "ok_at w1 k (Busy t') \<and> frame None w (export_handle t') w1"
  proof (cases r)
    case (Ok b)
    have "bwf b \<and> pending b w1 = Some []" using dst.put_fresh [of w b w1] e Ok assms(2) by blast
    then show ?thesis
      using assms(1) e Ok dst.put_alive [OF e [unfolded Ok]] dst.put_frame [OF e] by (auto simp: blob_frame_def)
  next
    case (Err er)
    then show ?thesis using assms(1) e dst.put_frame [OF e] by (auto simp: blob_frame_def)
  next
    case (Panic p)
    then show ?thesis using dst.put_no_panic e by blast
  qed
  then show ?thesis using k w' assms(2) by simp
qed

lemma step_copy:
  assumes "export_step src dst (E_Copy k b cs e) w = (t', w')" and "good w" and "ok_at w k (Busy (E_Copy k b cs e))"
  shows "good w' \<and> dom (holds w) \<subseteq> dom (holds w') \<and> ok_at w' k (Busy t') \<and> frame (Some b) w (export_handle t') w'"
proof (cases cs)
  case Nil
  then show ?thesis using assms by (cases e) (auto simp: blob_frame_def)
next
  case (Cons c ct)
  obtain n er b1 w1 where wr: "Blob_Write dst b c w = ((n, er), b1, w1)" by (metis surj_pair)
  have w': "w' = w1" using assms(1) wr Cons by (auto split: option.splits if_splits)
  have b: "bwf b" "alive b w" using assms(3) by auto
  have k: "inv w1" "bwf b1" "holds w1 = holds w" "sinv w1" "alive b1 w1"
    using dst.write_keeps [OF _ b(1) wr] dst_write [OF _ _ b(1) wr] dst.write_alive [OF b wr] assms(2) by auto
  have f: "frame (Some b) w (Some b1) w1"
    using dst.write_frame [OF b(1) _ _ _ wr] by (simp add: blob_frame_def)
  obtain d where d: "pending b w = Some d" using assms(3) by auto
  have p: "er = None \<Longrightarrow> pending b1 w1 = Some (d @ c)"
    using dst.write_accepts [OF _ b(1) d] wr assms(2) by blast
  have "ok_at w1 k (Busy t') \<and> export_handle t' = Some b1"
    using assms(1) wr Cons k p by (auto split: option.splits if_splits)
  then show ?thesis using k f w' assms(2) by simp
qed

lemma step_commit:
  assumes "export_step src dst (E_Commit k b) w = (t', w')" and "good w" and "ok_at w k (Busy (E_Commit k b))"
  shows "good w' \<and> dom (holds w) \<subseteq> dom (holds w') \<and> ok_at w' k (Busy t') \<and> frame (Some b) w (export_handle t') w'"
proof -
  have b: "bwf b" "alive b w" using assms(3) by auto
  obtain d where d: "pending b w = Some d" using assms(3) by auto
  obtain r b1 w1 where cm: "Blob_Commit dst b w = (r, b1, w1)" by (metis surj_pair)
  have w': "w' = w1" using assms(1) cm by (auto split: res.splits)
  have s: "sinv w1" "alive b1 w1" "content_addressed (holds w1)"
    using dst_commit [OF _ _ b(1) cm] dst.commit_alive [OF b cm] dst.commit_addressed [OF _ b(1) d cm] assms(2) by auto
  have f: "frame (Some b) w (Some b1) w1"
    using dst.commit_frame [OF b(1) _ _ _ cm] by (simp add: blob_frame_def)
  have "inv w1 \<and> bwf b1 \<and> dom (holds w) \<subseteq> dom (holds w1) \<and> ok_at w1 k (Busy t') \<and> export_handle t' = Some b1"
  proof (cases r)
    case (Ok a)
    then show ?thesis using dst.commit_Ok [OF _ b(1) d cm [unfolded Ok]] assms(1,2) cm s(2) by auto
  next
    case (Err er)
    then show ?thesis using dst.commit_Err [OF _ b(1) d cm [unfolded Err]] assms(1,2) cm s(2) by auto
  next
    case (Panic p)
    then show ?thesis using dst.commit_no_panic [OF b(1) d] cm by blast
  qed
  then show ?thesis using s f w' by simp
qed

lemma step_cleanup:
  assumes "export_step src dst (E_Cleanup b r) w = (t', w')" and "good w" and "ok_at w k (Busy (E_Cleanup b r))"
  shows "good w' \<and> dom (holds w) \<subseteq> dom (holds w') \<and> ok_at w' k (Busy t') \<and> frame (Some b) w (export_handle t') w'"
proof -
  have b: "bwf b" "alive b w" using assms(3) by auto
  obtain e b1 w1 where cl: "Blob_Cleanup dst b w = (e, b1, w1)" by (metis surj_pair)
  have w': "w' = w1" "t' = E_Ret (defer_err r (wrap_opt ''error committing to dest'' e))" using assms(1) cl by auto
  have s: "sinv w1" "inv w1" "holds w1 = holds w"
    using dst_cleanup [OF _ _ b(1) cl] dst.cleanup_keeps [OF _ b(1) cl] assms(2) by auto
  have "frame (Some b) w None w1"
    using dst.cleanup_frame [OF b(1) _ _ _ cl] by (simp add: blob_frame_def)
  moreover have "\<not> is_Panic (defer_err r e')" for e' using assms(3) by (cases r; cases e') auto
  ultimately show ?thesis using s w' assms(2,3) by (simp add: res_simps)
qed

lemma step_ok:
  assumes "export_step src dst t w = (t', w')" and "good w" and "ok_at w k (Busy t)" and "export_outc t = None"
  shows "good w' \<and> dom (holds w) \<subseteq> dom (holds w') \<and> ok_at w' k (Busy t') \<and> frame (export_handle t) w (export_handle t') w'"
proof (cases t)
  case (E_Start k')
  have "k' = k" using assms(3) E_Start by simp
  then show ?thesis
    using step_start [OF assms(1) [unfolded E_Start \<open>k' = k\<close>] assms(2)] assms(3) E_Start by simp
next
  case (E_Get k')
  have "k' = k" using assms(3) E_Get by simp
  then show ?thesis
    using step_get [OF assms(1) [unfolded E_Get \<open>k' = k\<close>] assms(2)] assms(3) E_Get by simp
next
  case (E_Put k' r)
  have "k' = k" using assms(3) E_Put by simp
  then show ?thesis
    using step_put [OF assms(1) [unfolded E_Put \<open>k' = k\<close>] assms(2)] assms(3) E_Put by simp
next
  case (E_Copy k' b cs e)
  have "k' = k" using assms(3) E_Copy by simp
  then show ?thesis
    using step_copy [OF assms(1) [unfolded E_Copy \<open>k' = k\<close>] assms(2)] assms(3) E_Copy by simp
next
  case (E_Commit k' b)
  have "k' = k" using assms(3) E_Commit by simp
  then show ?thesis
    using step_commit [OF assms(1) [unfolded E_Commit \<open>k' = k\<close>] assms(2)] assms(3) E_Commit by simp
next
  case (E_Cleanup b r)
  show ?thesis
    using step_cleanup [OF assms(1) [unfolded E_Cleanup] assms(2), of k] assms(3) E_Cleanup by simp
next
  case (E_Ret r)
  then show ?thesis using assms(4) by simp
qed

text \<open>The invariant of the other goroutines survives, and so does the independence of the blobs.\<close>

lemma ok_handle: "ok_at w k t \<Longrightarrow> task_handle t = Some b \<Longrightarrow> bwf b \<and> alive b w"
  by (cases t; cases "case t of Busy x \<Rightarrow> x") auto

lemma ok_frame:
  assumes "ok_at w k t" and "dom (holds w) \<subseteq> dom (holds w')"
    and "\<And>c. task_handle t = Some c \<Longrightarrow> alive c w' \<and> pending c w' = pending c w"
  shows "ok_at w' k t"
proof -
  have d: "holds w k \<noteq> None \<Longrightarrow> holds w' k \<noteq> None" for k using assms(2) by blast
  show ?thesis
  proof (cases t)
    case (Busy pc)
    show ?thesis using assms(1,3) d Busy by (cases pc) auto
  next
    case (Ended e)
    then show ?thesis using assms(1) d by simp
  qed
qed

abbreviation "all_ok \<equiv> export_inv (\<lambda>w. good w) bwf alive pending indep holds"

lemma par_step_ok:
  assumes "par_step (export_step src dst) export_outc c c'" and "all_ok ks (fst c) (snd c)"
  shows "all_ok ks (fst c') (snd c') \<and> dom (holds (snd c)) \<subseteq> dom (holds (snd c'))"
  using assms
proof (induction rule: par_step.induct)
  case (act i ts t w t' w')
  let ?hs = "map task_handle ts"
  have good: "good w" and oks: "\<And>j. j < length ts \<Longrightarrow> ok_at w (ks ! j) (ts ! j)" and ind: "all_indep indep ?hs"
    using act(5) by (auto simp: export_inv_def)
  have "ok_at w (ks ! i) (Busy t)" using oks [OF act(1)] act(2) by simp
  note s = step_ok [OF act(4) good this act(3)]
  have own: "bwf c \<and> alive c w" if "j < length ?hs" "?hs ! j = Some c" for j c
    using ok_handle [OF oks] that by simp
  have fr: "frame (?hs ! i) w (export_handle t') w'" using s act(1,2) by simp
  have i: "i < length ?hs" using act(1) by simp
  note u = dst.frame_update [OF ind i fr own]
  have "ok_at w' (ks ! j) (ts[i := Busy t'] ! j)" if j: "j < length ts" for j
  proof (cases "j = i")
    case False
    then have "alive c w' \<and> pending c w' = pending c w" if "task_handle (ts ! j) = Some c" for c
      using u(2) [where j = j and c = c] that j by simp
    then show ?thesis using ok_frame [OF oks [OF j]] s False by simp
  qed (use s act(1) in simp)
  moreover have "all_indep indep (map task_handle (ts[i := Busy t']))" using u(1) by (simp add: map_update)
  ultimately show ?case using s act(5) by (auto simp: export_inv_def)
next
  case (ret i ts t e w)
  then obtain r where t: "t = E_Ret r" "r = of_err e" by (cases t) auto
  have "ok_at w (ks ! i) (Busy t)" using ret by (auto simp: export_inv_def)
  then have "ok_at w (ks ! i) (Ended e)" using t by (cases e) auto
  moreover have "map task_handle (ts[i := Ended e]) = map task_handle ts"
    using ret(1,2) t by (intro nth_equalityI) (auto simp: nth_list_update)
  ultimately show ?case using ret by (auto simp: export_inv_def nth_list_update split: if_splits)
qed

lemma par_reach_ok:
  assumes "par_reach (export_step src dst) export_outc (map E_Start ks) w c" and "good w"
  shows "all_ok ks (fst c) (snd c) \<and> dom (holds w) \<subseteq> dom (holds (snd c))"
  using assms(1)
proof (induction rule: par_reach.induct)
  case start
  show ?case using assms(2) by (auto simp: export_inv_def intro: all_indepI)
next
  case (step c c')
  then show ?case using par_step_ok by blast
qed

text \<open>No goroutine panics.\<close>

lemma export_no_panic:
  assumes "mt_reach (export_step src dst) export_outc (map E_Start ks) w s" and "good w"
    and "i < length (mt_tasks s)" and "mt_tasks s ! i = Running t"
  shows "export_outc t \<noteq> Some (Panic p)"
proof -
  have "all_ok ks (fst (mt_abs s)) (snd (mt_abs s))"
    using par_reach_ok [OF mt_reach_refines [OF assms(1)] assms(2)] by blast
  moreover have "fst (mt_abs s) ! i = Busy t" "i < length (fst (mt_abs s))"
    using assms(3,4) abs_update(2) [OF assms(3)] by (auto simp: mt_abs_def)
  ultimately have "ok_at (snd (mt_abs s)) (ks ! i) (Busy t)" by (auto simp: export_inv_def)
  then show ?thesis by (cases t) auto
qed

text \<open>Whatever the interleaving: when \<open>Wait\<close> returns nil, every key is in the destination.\<close>

lemma export_all:
  assumes "mt_reach (export_step src dst) export_outc (map E_Start ks) w s" and "good w"
  shows "good (mt_world s) \<and> dom (holds w) \<subseteq> dom (holds (mt_world s)) \<and>
    (mt_caller s = Returned None \<longrightarrow> (\<forall>k \<in> set ks. \<exists>c. holds (mt_world s) k = Some c \<and> sha256 c = k))"
proof -
  have ok: "all_ok ks (fst (mt_abs s)) (snd (mt_abs s)) \<and> dom (holds w) \<subseteq> dom (holds (snd (mt_abs s)))"
    by (rule par_reach_ok [OF mt_reach_refines [OF assms(1)] assms(2)])
  have "\<exists>c. holds (mt_world s) k = Some c \<and> sha256 c = k" if r: "mt_caller s = Returned None" and k: "k \<in> set ks" for k
  proof -
    obtain es where es: "mt_tasks s = map Finished es" "mset (mt_recv s) = mset es" "None = first_error (mt_recv s)"
      using returned_state [OF assms(1) r] by blast
    have "set (mt_recv s) = set es" using es(2) by (rule mset_eq_setD)
    then have none: "\<forall>e \<in> set es. e = None" using es(3) first_error_None [of "mt_recv s"] by auto
    have ab: "mt_abs s = (map Ended es, mt_world s)" using es(1) r by (simp add: mt_abs_def comp_def)
    obtain i where i: "i < length ks" "ks ! i = k" using k by (auto simp: in_set_conv_nth)
    then have l: "i < length es" using ok ab by (simp add: export_inv_def)
    then have "ok_at (mt_world s) k (Ended (es ! i))" using ok ab i by (auto simp: export_inv_def)
    moreover have "es ! i = None" using none l by simp
    ultimately show ?thesis using ok ab by (auto simp: export_inv_def dest: content_addressedD)
  qed
  then show ?thesis using ok by (simp add: mt_abs_def export_inv_def)
qed

end

section \<open>The command\<close>

text \<open>The keys that are needed, each once, in canonical form; a map, whose order is any.\<close>

definition needed_entry :: "url \<Rightarrow> BlobInfo \<Rightarrow> (string, bool) gomap \<Rightarrow> unit res \<times> (string, bool) gomap" where
  "needed_entry k v m =
     (case hex_decode (Sha256 v) of
        Err e \<Rightarrow> (Err (wrap ''error decoding hash'' e), m)
      | Panic p \<Rightarrow> (Panic p, m)
      | Ok expectedH \<Rightarrow>
          (case gm_put (hex_encode expectedH) True m of
             Ok m2 \<Rightarrow> (Ok (), m2) | Err e \<Rightarrow> (Err e, m) | Panic p \<Rightarrow> (Panic p, m)))"

fun decode_keys :: "(string \<times> bool) list \<Rightarrow> bytes list res" where
  "decode_keys [] = Ok []"
| "decode_keys ((canonSha, b) # m) =
     (case hex_decode canonSha of
        Err e \<Rightarrow> Err (wrap ''error decoding hash'' e)
      | Panic p \<Rightarrow> Panic p
      | Ok k \<Rightarrow> (case decode_keys m of Ok ks \<Rightarrow> Ok (k # ks) | Err e \<Rightarrow> Err e | Panic p \<Rightarrow> Panic p))"

definition export_keys :: "'h File \<Rightarrow> bytes list res" where
  "export_keys f =
     (case ForEach needed_entry f gm_make of
        (Err e, m) \<Rightarrow> Err (wrap ''error iterating blobs'' e)
      | (Panic p, m) \<Rightarrow> Panic p
      | (Ok _, m) \<Rightarrow> decode_keys (gm_entries m))"

text \<open>
  What \<open>Execute\<close> does once the manifest is loaded and the stores are made, as a relation between the state
  before and what may come out, since the goroutines interleave freely.
\<close>

inductive export_execute :: "('w, 'c) Store \<Rightarrow> ('w, 'b) Store \<Rightarrow> 'h File \<Rightarrow> 'w \<Rightarrow> unit res \<Rightarrow> 'w \<Rightarrow> bool"
  for src dst f w where
  bad_keys: "export_keys f = Err e \<Longrightarrow> export_execute src dst f w (Err e) w"
| waited: "export_keys f = Ok ks \<Longrightarrow> mt_reach (export_step src dst) export_outc (map E_Start ks) w s \<Longrightarrow>
     mt_caller s = Returned rv \<Longrightarrow> export_execute src dst f w (of_err rv) (mt_world s)"

definition keys_canonical :: "(string \<times> bool) list \<Rightarrow> bool" where
  "keys_canonical m \<longleftrightarrow> (\<forall>s \<in> fst ` set m. \<exists>k. s = hex_encode k)"

lemma decode_keys_total: "keys_canonical m \<Longrightarrow> \<exists>ks. decode_keys m = Ok ks \<and> map hex_encode ks = map fst m"
proof (induction m)
  case (Cons sb m)
  obtain s b where sb: "sb = (s, b)" by (metis surj_pair)
  obtain ks where ks: "decode_keys m = Ok ks" "map hex_encode ks = map fst m"
    using Cons by (auto simp: keys_canonical_def)
  obtain k where k: "s = hex_encode k" using Cons.prems sb by (auto simp: keys_canonical_def)
  then have "decode_keys (sb # m) = Ok (k # ks)" using sb ks by simp
  then show ?case using sb ks k by auto
qed simp

lemma decode_keys_set:
  assumes "keys_canonical m" and "decode_keys m = Ok ks" and "hex_encode k \<in> fst ` set m"
  shows "k \<in> set ks"
proof -
  have "map hex_encode ks = map fst m" using decode_keys_total [OF assms(1)] assms(2) by auto
  then have "hex_encode k \<in> hex_encode ` set ks" using assms(3) by (metis image_set)
  then show ?thesis by auto
qed

lemma keys_canonical_update: "keys_canonical m \<Longrightarrow> keys_canonical (AList.update (hex_encode k) True m)"
  by (auto simp: keys_canonical_def dom_update)

text \<open>All entries of the manifest are among the keys.\<close>

lemma needed_entry_Ok:
  "needed_entry k v (Some m) = (Ok x, m') \<Longrightarrow>
    \<exists>h. hex_decode (Sha256 v) = Ok h \<and> m' = Some (AList.update (hex_encode h) True m)"
  by (auto simp: needed_entry_def split: res.splits)

lemma needed_all:
  assumes "for_each needed_entry es (Some m) = (Ok x, m')" and "keys_canonical m"
  shows "\<exists>m2. m' = Some m2 \<and> keys_canonical m2 \<and> fst ` set m \<subseteq> fst ` set m2 \<and>
    (\<forall>(u, v) \<in> set es. \<exists>k. hex_decode (Sha256 v) = Ok k \<and> hex_encode k \<in> fst ` set m2)"
  using assms
proof (induction es arbitrary: m)
  case (Cons kv es)
  obtain k v where kv: "kv = (k, v)" by (metis surj_pair)
  obtain u y s1 where n: "needed_entry u v (Some m) = (Ok y, s1)" and r: "for_each needed_entry es s1 = (Ok x, m')"
    using Cons.prems(1) kv by (auto split: res.splits prod.splits)
  obtain h where h: "hex_decode (Sha256 v) = Ok h" "s1 = Some (AList.update (hex_encode h) True m)"
    using needed_entry_Ok [OF n] by blast
  have s: "fst ` set (AList.update (hex_encode h) True m) = insert (hex_encode h) (fst ` set m)"
    by (simp add: dom_update)
  from Cons.IH [OF r [unfolded h(2)] keys_canonical_update [OF Cons.prems(2)]] show ?case
    using s h kv by auto
qed auto

lemma export_keys_all:
  assumes "export_keys f = Ok ks" and "(u, v) \<in> set (gm_entries (blobs f))"
  shows "\<exists>k. hex_decode (Sha256 v) = Ok k \<and> k \<in> set ks"
proof -
  obtain x m where fe: "for_each needed_entry (gm_entries (blobs f)) (Some []) = (Ok x, m)" and dk: "decode_keys (gm_entries m) = Ok ks"
    using assms(1) by (auto simp: export_keys_def ForEach_def gm_make_def split: res.splits prod.splits)
  have "keys_canonical []" by (simp add: keys_canonical_def)
  from needed_all [OF fe this] obtain m2 where m2: "m = Some m2" "keys_canonical m2"
    and all: "\<forall>(u, v) \<in> set (gm_entries (blobs f)). \<exists>k. hex_decode (Sha256 v) = Ok k \<and> hex_encode k \<in> fst ` set m2" by blast
  obtain k where "hex_decode (Sha256 v) = Ok k" "hex_encode k \<in> fst ` set m2" using all assms(2) by blast
  then show ?thesis using decode_keys_set [OF m2(2)] dk m2(1) by auto
qed

section \<open>Directory stores\<close>

text \<open>
  The source's part of the invariant fixes what the source held at the start (\<open>H\<close>), unless it is the
  destination itself.
\<close>

definition source_inv :: "path \<Rightarrow> path \<Rightarrow> (bytes \<Rightarrow> bytes option) \<Rightarrow> os \<Rightarrow> bool" where
  "source_inv d1 d H w \<longleftrightarrow> dir_apart d1 d \<and> dir_inv d1 w \<and> (d1 \<noteq> d \<longrightarrow> dir_holds d1 w = H)"

lemma source_inv_local: "dir_local d w w' \<Longrightarrow> source_inv d1 d H w \<Longrightarrow> source_inv d1 d H w'"
  using dir_local_inv [of d w w' d1] dir_local_holds [of d w w' d1] by (auto simp: source_inv_def)

interpretation ex: export_pair "dir_store s" "dir_holds (ds_dir s)" "dir_inv (ds_dir s)" "caf_wf (ds_dir s)"
    caf_pending caf_alive caf_indep "dir_store s1" "source_inv (ds_dir s1) (ds_dir s) H" for s s1 H
proof (unfold_locales, goal_cases)
  case (1 w k r w')
  have g: "ds_Get s1 k w = (r, w')" using 1 by simp
  have f: "fs_get w' = fs_get w" by (rule ds_Get_fs [OF g])
  have "dir_holds d w' = dir_holds d w" for d using f by (simp add: dir_holds_def fun_eq_iff)
  moreover have "dir_inv d w \<Longrightarrow> dir_inv d w'" for d
    using ds_Get_local [OF g, of "[]"] by (auto simp: dir_local_def dir_inv_def list_all_iff prefixes_of_def)
  ultimately show ?case using 1 same_frame [OF f] by (simp add: source_inv_def)
next
  case (2 k w m w')
  then show ?case using ds.get_no_panic [of s1 k w m w'] by simp
next
  case (3 w k r w')
  then show ?case using source_inv_local [OF ds_Exists_local] by simp
next
  case (4 w r w')
  then show ?case using source_inv_local [OF ds_Put_local] by simp
next
  case (5 w b p r b' w')
  then show ?case using source_inv_local [OF caf_Write_local] by simp
next
  case (6 w b r b' w')
  then show ?case using source_inv_local [OF caf_Commit_local] by simp
next
  case (7 w b r b' w')
  then show ?case using source_inv_local [OF caf_Cleanup_local] by simp
qed

text \<open>Runs between two directories end, and there is one.\<close>

lemma dir_export_wf: "wf {(t', t). mt_step (export_step (dir_store s1) (dir_store s)) export_outc t t'}"
  by (rule mt_step_wf [OF wf_export_order export_step_less])

lemma dir_export_stuck:
  assumes "dir_inv (ds_dir s) w \<and> source_inv (ds_dir s1) (ds_dir s) H w \<and> content_addressed (dir_holds (ds_dir s) w)"
    and "mt_reach (export_step (dir_store s1) (dir_store s)) export_outc (map E_Start ks) w t"
    and "mt_stuck (export_step (dir_store s1) (dir_store s)) export_outc t"
  shows "\<exists>rv. mt_caller t = Returned rv"
proof -
  have "mt_panic t = None"
    using mt_reach_panic [OF assms(2)] ex.export_no_panic [OF assms(2,1)] by (metis not_None_eq)
  then show ?thesis using mt_progress [OF mt_reach_inv [OF assms(2)] assms(3)] by blast
qed

lemma dir_export_some:
  assumes "dir_inv (ds_dir s) w \<and> source_inv (ds_dir s1) (ds_dir s) H w \<and> content_addressed (dir_holds (ds_dir s) w)"
    and "export_keys f = Ok ks"
  shows "\<exists>r w'. export_execute (dir_store s1) (dir_store s) f w r w'"
proof -
  obtain t where t: "mt_reach (export_step (dir_store s1) (dir_store s)) export_outc (map E_Start ks) w t"
      "mt_stuck (export_step (dir_store s1) (dir_store s)) export_outc t"
    using mt_reach_stuck [OF dir_export_wf mt_reach.start] by blast
  obtain rv where "mt_caller t = Returned rv" using dir_export_stuck [OF assms(1) t] by blast
  then show ?thesis using export_execute.waited [OF assms(2) t(1)] by blast
qed

section \<open>Without faults the export succeeds\<close>

text \<open>
  What a goroutine for key \<open>k\<close> has to do once the source is known to hold \<open>c\<close> there: it never sees an error,
  and what it has copied and what is left to copy are \<open>c\<close>.
\<close>

fun ready_task :: "bytes \<Rightarrow> os \<Rightarrow> caf export_pc ptask \<Rightarrow> bool" where
  "ready_task c w (Busy (E_Start k)) \<longleftrightarrow> True"
| "ready_task c w (Busy (E_Get k)) \<longleftrightarrow> True"
| "ready_task c w (Busy (E_Put k r)) \<longleftrightarrow> rd_err r = None \<and> rd_content r = c"
| "ready_task c w (Busy (E_Copy k b cs e)) \<longleftrightarrow> e = None \<and> (\<exists>x. caf_pending b w = Some x \<and> x @ concat cs = c)"
| "ready_task c w (Busy (E_Commit k b)) \<longleftrightarrow> caf_pending b w = Some c"
| "ready_task c w (Busy (E_Cleanup b r)) \<longleftrightarrow> r = Ok ()"
| "ready_task c w (Busy (E_Ret r)) \<longleftrightarrow> r = Ok ()"
| "ready_task c w (Ended e) \<longleftrightarrow> e = None"

definition both_ready :: "path \<Rightarrow> path \<Rightarrow> (bytes \<Rightarrow> bytes option) \<Rightarrow> os \<Rightarrow> bool" where
  "both_ready d1 d H w \<longleftrightarrow> dir_ready d w \<and> dir_ready d1 w \<and> dir_holds d1 w = H"

lemma both_ready_local:
  assumes "dir_local d w w'" and "both_ready d1 d H w" and "dir_ready d w'" and "dir_apart d1 d" and "d1 \<noteq> d"
    and "\<forall>x. d @ [x] \<notin> set (prefixes_of d1)"
  shows "both_ready d1 d H w'"
proof -
  have "fs_get w' q = None" if q: "q \<in> set (prefixes_of d1)" for q
  proof -
    have "q \<noteq> []" using q by (auto simp: prefixes_of_def)
    then have "butlast q \<noteq> d" using assms(6) q by (metis append_butlast_last_id)
    then show ?thesis using assms(1,2) q by (simp add: dir_local_def both_ready_def dir_ready_def)
  qed
  then show ?thesis
    using assms(2,3) dir_local_inv [OF assms(1,4)] dir_local_holds [OF assms(1,5)]
    by (simp add: both_ready_def dir_ready_def)
qed

lemma ready_Exists:
  assumes "dir_ready (ds_dir s) w"
  shows "ds_Exists s k w = (Ok (dir_holds (ds_dir s) w k \<noteq> None), w)"
proof -
  have "\<not> dir_exists w (ds_resolve s k)"
    using assms by (simp add: dir_ready_def dir_inv_def dir_exists_def ds_resolve_def)
  then show ?thesis
    using assms by (auto simp: ds_Exists_def os_Stat_def dir_ready_def dir_holds_def ds_resolve_def)
qed

lemma ready_Cleanup:
  assumes "caf_wf d b" and "dir_ready d w" and "caf_Cleanup b w = (e, b', w')"
  shows "e = None \<and> dir_ready d w'"
proof (cases "caf_tf b")
  case None
  then show ?thesis using assms by (simp add: caf_Cleanup_def)
next
  case (Some h)
  obtain n where n: "h_name h = d @ [tmp_name n]" using assms(1) Some by (auto simp: caf_wf_def)
  obtain e1 h1 w1 where c: "os_Close h w = (e1, h1, w1)" by (metis surj_pair)
  have w1: "w1 = w" "h_name h1 = h_name h"
    using c assms(2) by (auto simp: os_Close_def dir_ready_def split: if_splits)
  obtain e2 w2 where m: "os_Remove (h_name h1) w1 = (e2, w2)" by (metis surj_pair)
  have "dir_ready d w2"
    using m w1 assms(2) ready_put(3) [OF assms(2)] dir_inv_Remove [OF m, of d]
    by (auto simp: os_Remove_def dir_ready_def fs_simps split: if_splits)
  then show ?thesis using assms(3) Some c m by (simp add: caf_Cleanup_def)
qed

lemma ready_step:
  assumes "export_step (dir_store s1) (dir_store s) t w = (t', w')" and "export_outc t = None"
    and "both_ready (ds_dir s1) (ds_dir s) H w" and "ds_writable s" and "H k = Some c" and "sha256 c = k"
    and "export_ok (caf_wf (ds_dir s)) caf_alive caf_pending (dir_holds (ds_dir s)) w k (Busy t)"
    and "ready_task c w (Busy t)"
  shows "dir_ready (ds_dir s) w' \<and> dir_local (ds_dir s) w w' \<and> ready_task c w' (Busy t')"
proof -
  let ?d = "ds_dir s"
  have r: "dir_ready ?d w" and r1: "dir_ready (ds_dir s1) w" and h1: "dir_holds (ds_dir s1) w k = Some c"
    using assms(3,5) by (auto simp: both_ready_def)
  show ?thesis
  proof (cases t)
    case (E_Start k')
    then show ?thesis using assms(1) r ready_Exists [OF r] by auto
  next
    case (E_Get k')
    then have "ds_Get s1 k' w = (Ok (open_reader c Pass Pass), w)" using assms(7) ready_Get [OF r1 h1] by simp
    then show ?thesis using assms(1) E_Get r by (auto simp: open_reader_def rd_content_def)
  next
    case (E_Put k' rd)
    then show ?thesis using assms(1,4,8) r by (auto simp: ds_Put_def rd_content_def)
  next
    case (E_Copy k' b cs e)
    have b: "caf_wf ?d b" using assms(7) E_Copy by simp
    obtain x where x: "caf_pending b w = Some x" "x @ concat cs = c" "e = None" using assms(8) E_Copy by auto
    show ?thesis
    proof (cases cs)
      case Nil
      then show ?thesis using assms(1) E_Copy x r by auto
    next
      case (Cons p ps)
      obtain b1 w1 where wr: "caf_Write b p w = ((length p, None), b1, w1)" and r1: "dir_ready ?d w1"
        using ready_Write [OF b x(1) r] by blast
      have "caf_pending b1 w1 = Some (x @ p)" by (rule caf_Write_pending [OF wr b x(1)])
      then show ?thesis using assms(1) E_Copy Cons wr r1 x caf_Write_local [OF wr b] by auto
    qed
  next
    case (E_Commit k' b)
    have b: "caf_wf ?d b" "k' = k" using assms(7) E_Commit by auto
    have x: "caf_pending b w = Some c" using assms(8) E_Commit by simp
    obtain b1 w1 where cm: "caf_Commit b w = (Ok (sha256 c), b1, w1)" and r1: "dir_ready ?d w1"
      using ready_Commit [OF b(1) x r] by blast
    then show ?thesis using assms(1,6) E_Commit b(2) caf_Commit_local [OF cm b(1)] by auto
  next
    case (E_Cleanup b rr)
    have b: "caf_wf ?d b" "rr = Ok ()" using assms(7,8) E_Cleanup by auto
    obtain e b1 w1 where cl: "caf_Cleanup b w = (e, b1, w1)" by (metis surj_pair)
    show ?thesis
      using assms(1) E_Cleanup cl b(2) ready_Cleanup [OF b(1) r cl] caf_Cleanup_local [OF cl b(1)] by auto
  next
    case (E_Ret rr)
    then show ?thesis using assms(2) by simp
  qed
qed

text \<open>The invariant of all of them.\<close>

definition export_ready :: "DirectoryStore \<Rightarrow> DirectoryStore \<Rightarrow> (bytes \<Rightarrow> bytes option) \<Rightarrow> bytes list
    \<Rightarrow> caf export_pc ptask list \<times> os \<Rightarrow> bool" where
  "export_ready s1 s H ks = (\<lambda>(ts, w).
     export_inv (\<lambda>w. dir_inv (ds_dir s) w \<and> source_inv (ds_dir s1) (ds_dir s) H w \<and> content_addressed (dir_holds (ds_dir s) w))
       (caf_wf (ds_dir s)) caf_alive caf_pending caf_indep (dir_holds (ds_dir s)) ks ts w \<and>
     both_ready (ds_dir s1) (ds_dir s) H w \<and> (\<forall>i < length ks. ready_task (the (H (ks ! i))) w (ts ! i)))"

lemma ready_task_frame:
  "ready_task c w t \<Longrightarrow> (\<And>b. task_handle t = Some b \<Longrightarrow> caf_pending b w' = caf_pending b w) \<Longrightarrow> ready_task c w' t"
  by (cases t; cases "case t of Busy x \<Rightarrow> x") auto

lemma export_ready_step:
  assumes "par_step (export_step (dir_store s1) (dir_store s)) export_outc c c'" and "export_ready s1 s H ks c"
    and "ds_writable s" and "\<forall>k \<in> set ks. \<exists>x. H k = Some x \<and> sha256 x = k"
    and "dir_apart (ds_dir s1) (ds_dir s)" and "ds_dir s1 \<noteq> ds_dir s" and "\<forall>x. ds_dir s @ [x] \<notin> set (prefixes_of (ds_dir s1))"
  shows "export_ready s1 s H ks c'"
  using assms(1,2)
proof (induction rule: par_step.induct)
  case (act i ts t w t' w')
  let ?good = "\<lambda>w. dir_inv (ds_dir s) w \<and> source_inv (ds_dir s1) (ds_dir s) H w \<and> content_addressed (dir_holds (ds_dir s) w)"
  let ?inv = "export_inv ?good (caf_wf (ds_dir s)) caf_alive caf_pending caf_indep (dir_holds (ds_dir s)) ks"
  have inv: "?inv ts w" and br: "both_ready (ds_dir s1) (ds_dir s) H w"
    and rt: "\<And>j. j < length ks \<Longrightarrow> ready_task (the (H (ks ! j))) w (ts ! j)"
    using act(5) by (auto simp: export_ready_def)
  have len: "length ts = length ks" and good: "?good w"
    and oks: "\<And>j. j < length ts \<Longrightarrow> export_ok (caf_wf (ds_dir s)) caf_alive caf_pending (dir_holds (ds_dir s)) w (ks ! j) (ts ! j)"
    and ind: "all_indep caf_indep (map task_handle ts)"
    using inv by (auto simp: export_inv_def)
  have "par_step (export_step (dir_store s1) (dir_store s)) export_outc (ts, w) (ts[i := Busy t'], w')"
    using act(1-4) by (rule par_step.act)
  then have inv': "?inv (ts[i := Busy t']) w'" using ex.par_step_ok [of s1 s "(ts, w)" "(ts[i := Busy t'], w')" H ks] inv by simp
  obtain x where x: "H (ks ! i) = Some x" "sha256 x = ks ! i"
    using assms(4) act(1) len nth_mem [of i ks] by fastforce
  have oi: "export_ok (caf_wf (ds_dir s)) caf_alive caf_pending (dir_holds (ds_dir s)) w (ks ! i) (Busy t)"
    using oks [OF act(1)] act(2) by simp
  have "ready_task x w (Busy t)" using rt [of i] act(1,2) len x by simp
  note st = ready_step [OF act(4,3) br assms(3) x oi this]
  have fr: "blob_frame (caf_wf (ds_dir s)) caf_alive caf_pending caf_indep (export_handle t) w (export_handle t') w'"
    using ex.step_ok [OF act(4) good oi act(3)] by blast
  have "ready_task (the (H (ks ! j))) w' (ts[i := Busy t'] ! j)" if j: "j < length ks" for j
  proof (cases "j = i")
    case True
    then show ?thesis using st x act(1) by simp
  next
    case False
    have "caf_pending b w' = caf_pending b w" if b: "task_handle (ts ! j) = Some b" for b
    proof -
      have "caf_wf (ds_dir s) b \<and> caf_alive b w" using ex.ok_handle [OF oks [of j] b] j len by simp
      moreover have "export_handle t = Some b0 \<longrightarrow> caf_indep b0 b" for b0
        using ind act(1,2) b j len False by (auto simp: all_indep_def)
      ultimately show ?thesis using fr unfolding blob_frame_def by blast
    qed
    then show ?thesis using ready_task_frame [OF rt [OF j]] False by simp
  qed
  moreover have "both_ready (ds_dir s1) (ds_dir s) H w'"
    using both_ready_local [OF _ br _ assms(5-7)] st by blast
  ultimately show ?case using inv' by (simp add: export_ready_def)
next
  case (ret i ts t e w)
  have "par_step (export_step (dir_store s1) (dir_store s)) export_outc (ts, w) (ts[i := Ended e], w)"
    using ret(1-3) by (rule par_step.ret)
  from ex.par_step_ok [of s1 s "(ts, w)" "(ts[i := Ended e], w)" H ks, OF this] ret(4)
  have inv': "export_inv (\<lambda>w. dir_inv (ds_dir s) w \<and> source_inv (ds_dir s1) (ds_dir s) H w \<and> content_addressed (dir_holds (ds_dir s) w))
       (caf_wf (ds_dir s)) caf_alive caf_pending caf_indep (dir_holds (ds_dir s)) ks (ts[i := Ended e]) w"
    by (simp add: export_ready_def)
  obtain r where t: "t = E_Ret r" "r = of_err e" using ret(3) by (cases t) auto
  have "i < length ks" using ret(1,4) by (simp add: export_ready_def export_inv_def)
  then have "ready_task (the (H (ks ! i))) w (Busy t)" using ret(2,4) by (auto simp: export_ready_def)
  then have "e = None" using t by (cases e) auto
  then show ?case using inv' ret(1,4) by (auto simp: export_ready_def nth_list_update)
qed

lemma dir_export_ready:
  assumes "mt_reach (export_step (dir_store s1) (dir_store s)) export_outc (map E_Start ks) w t"
    and "both_ready (ds_dir s1) (ds_dir s) H w" and "content_addressed (dir_holds (ds_dir s) w)"
    and "ds_writable s" and "\<forall>k \<in> set ks. \<exists>x. H k = Some x \<and> sha256 x = k"
    and "dir_apart (ds_dir s1) (ds_dir s)" and "ds_dir s1 \<noteq> ds_dir s" and "\<forall>x. ds_dir s @ [x] \<notin> set (prefixes_of (ds_dir s1))"
    and "mt_caller t = Returned rv"
  shows "rv = None"
proof -
  have "export_ready s1 s H ks (map Busy (map E_Start ks), w)"
    using assms(2,3,6) by (auto simp: export_ready_def export_inv_def source_inv_def both_ready_def dir_ready_def intro: all_indepI)
  moreover have "export_ready s1 s H ks c"
    if "par_reach (export_step (dir_store s1) (dir_store s)) export_outc (map E_Start ks) w c"
      and "export_ready s1 s H ks (map Busy (map E_Start ks), w)" for c
    using that
  proof (induction rule: par_reach.induct)
    case (step c c')
    then show ?case using export_ready_step [OF step(2) _ assms(4-8)] by blast
  qed simp
  ultimately have rd: "export_ready s1 s H ks (mt_abs t)" using mt_reach_refines [OF assms(1)] by blast
  obtain es where es: "mt_tasks t = map Finished es" "mset (mt_recv t) = mset es" "rv = first_error (mt_recv t)"
    using returned_state [OF assms(1,9)] by blast
  have "mt_abs t = (map Ended es, mt_world t)" using es(1) assms(9) by (simp add: mt_abs_def comp_def)
  then have "\<forall>i < length es. es ! i = None" using rd by (auto simp: export_ready_def export_inv_def)
  then have "\<forall>e \<in> set es. e = None" by (auto simp: in_set_conv_nth)
  then show ?thesis using es(2,3) first_error_None [of "mt_recv t"] mset_eq_setD [OF es(2)] by simp
qed

lemma export_execute_ready:
  assumes "export_execute (dir_store s1) (dir_store s) f w r w'"
    and "both_ready (ds_dir s1) (ds_dir s) H w" and "content_addressed (dir_holds (ds_dir s) w)" and "ds_writable s"
    and "export_keys f = Ok ks" and "\<forall>k \<in> set ks. \<exists>x. H k = Some x \<and> sha256 x = k"
    and "dir_apart (ds_dir s1) (ds_dir s)" and "ds_dir s1 \<noteq> ds_dir s" and "\<forall>x. ds_dir s @ [x] \<notin> set (prefixes_of (ds_dir s1))"
  shows "r = Ok ()"
  using assms(1)
proof (cases rule: export_execute.cases)
  case (bad_keys e)
  then show ?thesis using assms(5) by simp
next
  case (waited ks' t rv)
  have "ks' = ks" using waited(3) assms(5) by simp
  then have "rv = None"
    using dir_export_ready [OF waited(4) assms(2,3,4) _ assms(7,8,9) waited(5)] assms(6) by simp
  then show ?thesis using waited(1) by simp
qed

section \<open>Properties\<close>

text \<open>Two directories with one blob in the first.\<close>

definition two_dirs :: os where
  "two_dirs = \<lparr>files = [([''src'', hex_encode (sha256 ''hello'')], ''hello'')], dirs = [[''src'']], faults = []\<rparr>"

definition two_file :: "path File" where
  "two_file = sample_file\<lparr>blobs := Some [(url_Redacted sample_url, \<lparr>Sha256 = hex_encode (sha256 ''hello''), Headers = None\<rparr>)]\<rparr>"

abbreviation "store_src \<equiv> NewDirectoryStore [''src''] False"
abbreviation "store_dst \<equiv> NewDirectoryStore [''dst''] True"

lemma two_dirs_facts:
  "dir_inv (ds_dir store_src) two_dirs" "dir_inv (ds_dir store_dst) two_dirs"
  "dir_apart (ds_dir store_src) (ds_dir store_dst)"
  "content_addressed (dir_holds (ds_dir store_dst) two_dirs)"
  by (auto simp: NewDirectoryStore_def dir_inv_def two_dirs_def dir_apart_def prefixes_of_def content_addressed_def
      dir_holds_def fs_get_def)

lemma two_file_keys: "export_keys two_file = Ok [sha256 ''hello'']"
proof -
  have "url_Parse (url_Redacted sample_url) = Ok sample_url" by code_simp
  then show ?thesis by (simp add: export_keys_def ForEach_def two_file_def needed_entry_def gm_make_def)
qed

lemma two_ready: "both_ready (ds_dir store_src) (ds_dir store_dst) (dir_holds [''src''] two_dirs) two_dirs"
  by (auto simp: both_ready_def dir_ready_def NewDirectoryStore_def dir_inv_def two_dirs_def prefixes_of_def fs_get_def)

lemma two_export: "\<exists>w'. export_execute (dir_store store_src) (dir_store store_dst) two_file two_dirs (Ok ()) w'"
proof -
  have "dir_inv (ds_dir store_dst) two_dirs \<and> source_inv (ds_dir store_src) (ds_dir store_dst) (dir_holds [''src''] two_dirs) two_dirs
      \<and> content_addressed (dir_holds (ds_dir store_dst) two_dirs)"
    using two_dirs_facts by (simp add: source_inv_def NewDirectoryStore_def)
  then obtain r w' where ex: "export_execute (dir_store store_src) (dir_store store_dst) two_file two_dirs r w'"
    using dir_export_some [OF _ two_file_keys] by blast
  then have "r = Ok ()"
  proof (cases rule: export_execute.cases)
    case (bad_keys e)
    then show ?thesis using two_file_keys by simp
  next
    case (waited ks t rv)
    have "rv = None"
    proof (rule dir_export_ready [OF waited(4) two_ready])
      have "dir_holds [''src''] two_dirs (sha256 ''hello'') = Some ''hello''"
        by (simp add: dir_holds_def two_dirs_def fs_get_def)
      then show "\<forall>k \<in> set ks. \<exists>x. dir_holds [''src''] two_dirs k = Some x \<and> sha256 x = k"
        using waited(3) two_file_keys by auto
    qed (use two_dirs_facts waited in \<open>auto simp: NewDirectoryStore_def prefixes_of_def\<close>)
    then show ?thesis using waited(1) by simp
  qed
  then show ?thesis using ex by blast
qed

text \<open>
  C8. A finished export is complete, in every interleaving of the goroutines and under every
  sequence of faults. Between two directories (which may be the same one), the destination stays
  content-addressed and loses nothing, another source directory keeps its blobs as they are, and when
  the command succeeds every entry of the manifest has, under its digest, content of this digest in the
  destination.
\<close>

theorem export_complete:
  assumes "dir_inv (ds_dir s1) w" and "dir_inv (ds_dir s) w" and "dir_apart (ds_dir s1) (ds_dir s)"
    and "content_addressed (dir_holds (ds_dir s) w)" and "export_execute (dir_store s1) (dir_store s) f w r w'"
  shows "content_addressed (dir_holds (ds_dir s) w') \<and> dom (dir_holds (ds_dir s) w) \<subseteq> dom (dir_holds (ds_dir s) w') \<and>
    (ds_dir s1 \<noteq> ds_dir s \<longrightarrow> dir_holds (ds_dir s1) w' = dir_holds (ds_dir s1) w) \<and>
    (r = Ok () \<longrightarrow> (\<forall>(u, v) \<in> set (gm_entries (blobs f)).
      \<exists>k c. hex_decode (Sha256 v) = Ok k \<and> dir_holds (ds_dir s) w' k = Some c \<and> sha256 c = k))"
  using assms(5)
proof (cases rule: export_execute.cases)
  case (bad_keys e)
  then show ?thesis using assms(4) by simp
next
  case (waited ks t rv)
  have i: "source_inv (ds_dir s1) (ds_dir s) (dir_holds (ds_dir s1) w) w" using assms(1,3) by (simp add: source_inv_def)
  have g: "dir_inv (ds_dir s) w \<and> source_inv (ds_dir s1) (ds_dir s) (dir_holds (ds_dir s1) w) w
      \<and> content_addressed (dir_holds (ds_dir s) w)" using i assms(2,4) by blast
  note all = ex.export_all [OF waited(4) g]
  have "\<exists>k c. hex_decode (Sha256 v) = Ok k \<and> dir_holds (ds_dir s) w' k = Some c \<and> sha256 c = k"
    if "r = Ok ()" and e: "(u, v) \<in> set (gm_entries (blobs f))" for u v
  proof -
    have "rv = None" using waited(1) that(1) by (cases rv) auto
    then show ?thesis using all export_keys_all [OF waited(3) e] waited(2,5) by blast
  qed
  then show ?thesis using all waited(2) by (auto simp: source_inv_def)
qed

lemma export_complete_witness:
  "\<exists>w'. export_execute (dir_store store_src) (dir_store store_dst) two_file two_dirs (Ok ()) w' \<and>
    (\<exists>c. dir_holds [''dst''] w' (sha256 ''hello'') = Some c \<and> sha256 c = sha256 ''hello'')"
proof -
  obtain w' where r: "export_execute (dir_store store_src) (dir_store store_dst) two_file two_dirs (Ok ()) w'"
    using two_export by blast
  show ?thesis
    using export_complete [OF two_dirs_facts r] r by (auto simp: two_file_def NewDirectoryStore_def)
qed

text \<open>
  C16. The export returns. For readable digests there is no infinite run of its goroutines, every run that
  cannot go on has come back from \<open>Wait\<close> (no deadlock and no panic, whatever the faults), and so the command
  has an outcome.
\<close>

theorem export_returns:
  assumes "dir_inv (ds_dir s1) w" and "dir_inv (ds_dir s) w" and "dir_apart (ds_dir s1) (ds_dir s)"
    and "content_addressed (dir_holds (ds_dir s) w)" and "export_keys f = Ok ks"
    and "step = export_step (dir_store s1) (dir_store s)"
  shows "\<not> (\<exists>run. \<forall>i. mt_step step export_outc (run i) (run (Suc i))) \<and>
    (\<forall>t. mt_reach step export_outc (map E_Start ks) w t \<and> mt_stuck step export_outc t \<longrightarrow>
      (\<exists>rv. mt_caller t = Returned rv)) \<and>
    (\<exists>r w'. export_execute (dir_store s1) (dir_store s) f w r w')"
proof -
  have g: "dir_inv (ds_dir s) w \<and> source_inv (ds_dir s1) (ds_dir s) (dir_holds (ds_dir s1) w) w
      \<and> content_addressed (dir_holds (ds_dir s) w)"
    using assms(1-4) by (simp add: source_inv_def)
  show ?thesis
    using dir_export_wf [of s1 s] dir_export_stuck [OF g] dir_export_some [OF g assms(5)]
    unfolding assms(6) wf_iff_no_infinite_down_chain by blast
qed

lemma export_returns_witness:
  "\<exists>r w'. export_execute (dir_store store_src) (dir_store store_dst) two_file two_dirs r w'"
  using export_returns [OF two_dirs_facts two_file_keys refl] by blast

text \<open>
  C26. Without faults the export succeeds. When both directories are accessible, the destination is
  writable and the source has the content of every entry under its digest, then in every interleaving of the
  goroutines the command succeeds.
\<close>

theorem export_succeeds:
  assumes "both_ready (ds_dir s1) (ds_dir s) H w" and "content_addressed (dir_holds (ds_dir s) w)" and "ds_writable s"
    and "export_keys f = Ok ks" and "\<forall>k \<in> set ks. \<exists>x. H k = Some x \<and> sha256 x = k"
    and "dir_apart (ds_dir s1) (ds_dir s)" and "ds_dir s1 \<noteq> ds_dir s" and "\<forall>x. ds_dir s @ [x] \<notin> set (prefixes_of (ds_dir s1))"
    and "export_execute (dir_store s1) (dir_store s) f w r w'"
  shows "r = Ok ()"
  using export_execute_ready [OF assms(9,1-8)] .

lemma export_succeeds_witness:
  "\<exists>w'. export_execute (dir_store store_src) (dir_store store_dst) two_file two_dirs (Ok ()) w'"
proof -
  obtain r w' where r: "export_execute (dir_store store_src) (dir_store store_dst) two_file two_dirs r w'"
    using two_export by blast
  have "dir_holds [''src''] two_dirs (sha256 ''hello'') = Some ''hello''"
    by (simp add: dir_holds_def two_dirs_def fs_get_def)
  then have "r = Ok ()"
    using export_succeeds [OF two_ready two_dirs_facts(4) _ two_file_keys _ two_dirs_facts(3) _ _ r]
    by (auto simp: NewDirectoryStore_def prefixes_of_def)
  then show ?thesis using r by blast
qed

text \<open>
  The machine that the goroutines interleave is the function: run without interruption from its
  start it returns what \<open>ensureBlobExported\<close> returns and leaves the world as that does, whatever the stores.
\<close>

theorem export_machine_agrees:
  "\<exists>n. export_run src dst n (E_Start k) w = (E_Ret (fst (ensureBlobExported src dst k w)), snd (ensureBlobExported src dst k w))"
  by (rule export_alone)

text \<open>
  A damaged blob is refused: when the source holds under a digest content of another digest, exporting
  it is an error, unless the destination has the blob already.
\<close>

theorem export_refuses_damaged:
  assumes "dir_inv (ds_dir s1) w" and "dir_inv (ds_dir s) w" and "dir_holds (ds_dir s) w k = None"
    and "dir_holds (ds_dir s1) w k = Some c" and "sha256 c \<noteq> k"
  shows "fst (ensureBlobExported (dir_store s1) (dir_store s) k w) \<noteq> Ok ()"
proof
  assume ok: "fst (ensureBlobExported (dir_store s1) (dir_store s) k w) = Ok ()"
  obtain w1 where ex: "ds_Exists s k w = (Ok False, w1)"
    using ok ds_Exists_iff [OF assms(2), of k] assms(3)
    by (cases "ds_Exists s k w") (auto simp: ensureBlobExported_def split: res.splits bool.splits)
  then obtain rd w2 b w3 where g: "ds_Get s1 k w1 = (Ok rd, w2)" and p: "ds_Put s w2 = (Ok b, w3)"
    and cp: "fst (export_copy (dir_store s) k rd b w3) = Ok ()"
    using ok by (auto simp: ensureBlobExported_def res_simps split: res.splits prod.splits)
  have i2: "dir_inv (ds_dir s) w2"
    using ds_Exists_keeps [OF ex assms(2)] ds_Get_local [OF g, of "[]"]
    by (auto simp: dir_local_def dir_inv_def list_all_iff prefixes_of_def)
  have f1: "dir_holds (ds_dir s1) w1 k = Some c" using ds_Exists_fs [OF ex] assms(4) by (simp add: dir_holds_def)
  have i3: "dir_inv (ds_dir s) w3" "caf_wf (ds_dir s) b" "caf_pending b w3 = Some []"
    using ds.put_keeps [of s w2 _ w3] ds.put_fresh [of s w2 b w3] p i2 by auto
  obtain b1 w4 d b2 w5 where io: "io_Copy (blob_write (dir_store s)) (rd_chunks rd) (rd_err rd) (b, w3) = (None, b1, w4)"
    and cm: "caf_Commit b1 w4 = (Ok k, b2, w5)"
    using cp by (auto simp: export_copy_def split: option.splits res.splits prod.splits if_splits)
  have "caf_pending b1 w4 = Some (concat (rd_chunks rd))" "rd_err rd = None" "caf_wf (ds_dir s) b1"
    using ds.copy_into_blob [OF i3(1,2,3) io] by auto
  moreover from this have "k = sha256 (concat (rd_chunks rd))" using caf_Commit_Ok [OF cm] by blast
  moreover have "rd_content rd = c" using ds_Get_content [OF g] f1 calculation(2) by simp
  ultimately show False using assms(5) by (simp add: rd_content_def)
qed

definition damaged_dirs :: os where
  "damaged_dirs = two_dirs\<lparr>files := [([''src'', hex_encode ''k''], ''x'')]\<rparr>"

lemma export_refuses_damaged_witness:
  "fst (ensureBlobExported (dir_store store_src) (dir_store store_dst) ''k'' damaged_dirs) \<noteq> Ok ()"
proof (rule export_refuses_damaged)
  show "dir_inv (ds_dir store_src) damaged_dirs" "dir_inv (ds_dir store_dst) damaged_dirs"
    by (auto simp: damaged_dirs_def two_dirs_def dir_inv_def NewDirectoryStore_def)
  show "dir_holds (ds_dir store_dst) damaged_dirs ''k'' = None" "dir_holds (ds_dir store_src) damaged_dirs ''k'' = Some ''x''"
    by (simp_all add: damaged_dirs_def two_dirs_def dir_holds_def fs_get_def NewDirectoryStore_def)
  have "length (sha256 ''x'') = 32" by simp
  moreover have "length ''k'' = 1" by simp
  ultimately show "sha256 ''x'' \<noteq> ''k''" by (metis one_eq_numeral_iff num.distinct(1,3))
qed

end
