(* ===== verification/Commands.thy ===== *)
theory Commands
  imports Frame Export
begin

text \<open>
  The commands (\<open>Execute\<close> in htvend/command_build.go, command_offline.go, command_verify.go and
  command_export.go) with the options that make their manifest and stores (htvend/flags_manifest.go).

  A command opens its manifest and stores, runs, and closes the manifest in a deferred call. What runs in the
  middle of \<open>build\<close> and \<open>offline\<close> is \<open>RunListenerWithSubprocess\<close>, the parameter \<open>session\<close> here: any function
  of what was opened; the theorems are about sessions that serve requests.
\<close>

section \<open>Options\<close>

record ManifestOptions =
  mo_Cache :: CacheOptions
  ManifestFile :: string

record manifestContextOptions =
  mc_Writable :: bool
  mc_AllowOverwrite :: bool
  NoCacheList :: "string list"

definition mc_none :: manifestContextOptions where
  "mc_none = \<lparr>mc_Writable = False, mc_AllowOverwrite = False, NoCacheList = []\<rparr>"

text \<open>The name of the manifest is taken not to end in a slash.\<close>

definition MakeManifestFile :: "'m platform \<Rightarrow> 'h fslock \<Rightarrow> ManifestOptions \<Rightarrow> manifestContextOptions \<Rightarrow> os \<Rightarrow> 'h File res \<times> os" where
  "MakeManifestFile pl lk mo opts w =
     (case NewMultiRegexMatcher (regexp_Compile pl) (NoCacheList opts) of
        Err e \<Rightarrow> (Err (wrap ''error creating no-cache regex matcher'' e), w)
      | Panic p \<Rightarrow> (Panic p, w)
      | Ok noCache \<Rightarrow>
          NewMapFile lk \<lparr>opt_Path = path_of (pl_cwd pl) (ManifestFile mo), Writable = mc_Writable opts,
            AllowOverwrite = mc_AllowOverwrite opts, NoCache = Some noCache\<rparr> w)"

record FetchOptions =
  fo_NoCache :: "string list"
  CacheHeader :: "string list"

fun header_flags :: "string list \<Rightarrow> (string, bool) gomap \<Rightarrow> (string, bool) gomap res" where
  "header_flags [] rv = Ok rv"
| "header_flags (h # hs) rv =
     (case gm_put (CanonicalMIMEHeaderKey h) True rv of
        Ok rv2 \<Rightarrow> header_flags hs rv2 | Err e \<Rightarrow> Err e | Panic p \<Rightarrow> Panic p)"

definition CacheHeaderMap :: "FetchOptions \<Rightarrow> (string, bool) gomap" where
  "CacheHeaderMap fo = (case header_flags (CacheHeader fo) gm_make of Ok rv \<Rightarrow> rv | _ \<Rightarrow> gm_make)"

section \<open>Opening, running, closing\<close>

text \<open>The deferred function: \<open>Close\<close>, whose error is returned when there is no other.\<close>

definition close_deferred :: "'h fslock \<Rightarrow> 'h File \<Rightarrow> unit res \<Rightarrow> os \<Rightarrow> unit res \<times> os" where
  "close_deferred lk f retErr w =
     (case Close lk f w of
        (Ok _, f1, w1) \<Rightarrow> (retErr, w1)
      | (Err e, f1, w1) \<Rightarrow> (defer_err retErr (Some e), w1)
      | (Panic p, f1, w1) \<Rightarrow> (Panic p, w1))"

text \<open>
  A command is what it opens (a result, the manifest once it is open, and the files then) and what it does with it.
\<close>

definition run_command :: "'h fslock \<Rightarrow> 'x res \<times> 'h File option \<times> os \<Rightarrow> ('x \<Rightarrow> ('h, os \<times> 'm, 'n) srv \<Rightarrow> unit res \<times> ('h, os \<times> 'm, 'n) srv)
    \<Rightarrow> 'm \<Rightarrow> 'n \<Rightarrow> unit res \<times> (os \<times> 'm) \<times> 'n" where
  "run_command lk opened body m n =
     (case opened of
        (r, None, w) \<Rightarrow> (case r of Ok x \<Rightarrow> Ok () | Err e \<Rightarrow> Err e | Panic p \<Rightarrow> Panic p, (w, m), n)
      | (Ok x, Some f, w) \<Rightarrow>
          (case body x \<lparr>sv_assets = f, sv_blobs = (w, m), sv_net = n, sv_missing = 0\<rparr> of
             (r, s) \<Rightarrow> (case close_deferred lk (sv_assets s) r (fst (sv_blobs s)) of
                (r1, w1) \<Rightarrow> (r1, (w1, snd (sv_blobs s)), sv_net s)))
      | (Err e, Some f, w) \<Rightarrow> (case close_deferred lk f (Err e) w of (r1, w1) \<Rightarrow> (r1, (w1, m), n))
      | (Panic p, Some f, w) \<Rightarrow> (case close_deferred lk f (Panic p) w of (r1, w1) \<Rightarrow> (r1, (w1, m), n)))"

subsection \<open>build\<close>

record BuildCommand =
  bc_Manifest :: ManifestOptions
  bc_Fetch :: FetchOptions
  ForceRefresh :: bool

definition build_open :: "'m platform \<Rightarrow> 'h fslock \<Rightarrow> BuildCommand \<Rightarrow> os \<Rightarrow> (listenerCtx \<times> 'm backend) res \<times> 'h File option \<times> os" where
  "build_open pl lk rc w =
     (case MakeBlobStore pl (mo_Cache (bc_Manifest rc)) True w of
        (Err e, w1) \<Rightarrow> (Err (wrap ''error making directory blob store'' e), None, w1)
      | (Panic p, w1) \<Rightarrow> (Panic p, None, w1)
      | (Ok bs, w1) \<Rightarrow>
          (case MakeManifestFile pl lk (bc_Manifest rc)
                  \<lparr>mc_Writable = True, mc_AllowOverwrite = False, NoCacheList = fo_NoCache (bc_Fetch rc)\<rparr> w1 of
             (Err e, w2) \<Rightarrow> (Err (wrap ''error getting manifest file'' e), None, w2)
           | (Panic p, w2) \<Rightarrow> (Panic p, None, w2)
           | (Ok mf, w2) \<Rightarrow>
               (case Reset (ForceRefresh rc) mf of
                  (Err e, mf1) \<Rightarrow> (Err (wrap ''error resetting manifest file'' e), Some mf1, w2)
                | (Panic p, mf1) \<Rightarrow> (Panic p, Some mf1, w2)
                | (Ok _, mf1) \<Rightarrow>
                    (Ok (\<lparr>FetchIfMissing = True, FailIfMissing = False, DummyOK = None,
                          HeadersToCache = CacheHeaderMap (bc_Fetch rc)\<rparr>, bs), Some mf1, w2))))"

definition build_Execute :: "'m platform \<Rightarrow> 'h fslock \<Rightarrow> BuildCommand \<Rightarrow>
    (listenerCtx \<times> 'm backend \<Rightarrow> ('h, os \<times> 'm, 'n) srv \<Rightarrow> unit res \<times> ('h, os \<times> 'm, 'n) srv) \<Rightarrow>
    os \<times> 'm \<Rightarrow> 'n \<Rightarrow> unit res \<times> (os \<times> 'm) \<times> 'n" where
  "build_Execute pl lk rc session = (\<lambda>(w, m) n. run_command lk (build_open pl lk rc w) session m n)"

subsection \<open>offline\<close>

record OfflineCommand =
  oc_Manifest :: ManifestOptions
  oc_DummyOK :: "string list"

definition offline_open :: "'m platform \<Rightarrow> 'h fslock \<Rightarrow> OfflineCommand \<Rightarrow> os \<Rightarrow> (listenerCtx \<times> 'm backend) res \<times> 'h File option \<times> os" where
  "offline_open pl lk rc w =
     (case MakeBlobStore pl (mo_Cache (oc_Manifest rc)) False w of
        (Err e, w1) \<Rightarrow> (Err (wrap ''error making directory blob store'' e), None, w1)
      | (Panic p, w1) \<Rightarrow> (Panic p, None, w1)
      | (Ok bs, w1) \<Rightarrow>
          (case MakeManifestFile pl lk (oc_Manifest rc) mc_none w1 of
             (Err e, w2) \<Rightarrow> (Err (wrap ''error getting manifest file'' e), None, w2)
           | (Panic p, w2) \<Rightarrow> (Panic p, None, w2)
           | (Ok mf, w2) \<Rightarrow>
               (case NewMultiRegexMatcher (regexp_Compile pl) (oc_DummyOK rc) of
                  Err e \<Rightarrow> (Err (wrap ''error creating dummy OK regex matcher'' e), Some mf, w2)
                | Panic p \<Rightarrow> (Panic p, Some mf, w2)
                | Ok dummyOK \<Rightarrow>
                    (Ok (\<lparr>FetchIfMissing = False, FailIfMissing = True, DummyOK = Some dummyOK, HeadersToCache = None\<rparr>, bs),
                     Some mf, w2))))"

definition offline_Execute :: "'m platform \<Rightarrow> 'h fslock \<Rightarrow> OfflineCommand \<Rightarrow>
    (listenerCtx \<times> 'm backend \<Rightarrow> ('h, os \<times> 'm, 'n) srv \<Rightarrow> unit res \<times> ('h, os \<times> 'm, 'n) srv) \<Rightarrow>
    os \<times> 'm \<Rightarrow> 'n \<Rightarrow> unit res \<times> (os \<times> 'm) \<times> 'n" where
  "offline_Execute pl lk rc session = (\<lambda>(w, m) n. run_command lk (offline_open pl lk rc w) session m n)"

subsection \<open>verify\<close>

record VerifyCommand =
  vc_Manifest :: ManifestOptions
  vc_Fetch :: FetchOptions
  Fetch :: bool
  Repair :: bool

definition verify_open :: "'m platform \<Rightarrow> 'h fslock \<Rightarrow> VerifyCommand \<Rightarrow> os \<Rightarrow> (validateCtx \<times> 'm backend) res \<times> 'h File option \<times> os" where
  "verify_open pl lk rc w =
     (case MakeManifestFile pl lk (vc_Manifest rc)
             \<lparr>mc_Writable = Repair rc, mc_AllowOverwrite = Repair rc, NoCacheList = fo_NoCache (vc_Fetch rc)\<rparr> w of
        (Err e, w1) \<Rightarrow> (Err (wrap ''error getting manifest file'' e), None, w1)
      | (Panic p, w1) \<Rightarrow> (Panic p, None, w1)
      | (Ok mf, w1) \<Rightarrow>
          (case MakeBlobStore pl (mo_Cache (vc_Manifest rc)) (Fetch rc) w1 of
             (Err e, w2) \<Rightarrow> (Err (wrap ''error creating blob store'' e), Some mf, w2)
           | (Panic p, w2) \<Rightarrow> (Panic p, Some mf, w2)
           | (Ok bs, w2) \<Rightarrow>
               (Ok (\<lparr>v_HeadersToCache = CacheHeaderMap (vc_Fetch rc), v_FailIfMissing = \<not> Fetch rc \<and> \<not> Repair rc,
                     v_FetchIfMissing = Fetch rc \<or> Repair rc, v_RepairIfWrong = Repair rc, v_ValidateSHA256 = True\<rparr>, bs),
                Some mf, w2)))"

definition verify_Execute :: "'m platform \<Rightarrow> 'h fslock \<Rightarrow> (request \<Rightarrow> 'n \<Rightarrow> response res \<times> 'n) \<Rightarrow> (err option \<Rightarrow> err \<Rightarrow> err) \<Rightarrow>
    VerifyCommand \<Rightarrow> os \<times> 'm \<Rightarrow> 'n \<Rightarrow> unit res \<times> (os \<times> 'm) \<times> 'n" where
  "verify_Execute pl lk client_Do mappend rc = (\<lambda>(w, m) n.
     run_command lk (verify_open pl lk rc w) (\<lambda>(vctx, bs). doValidate (any_store pl bs) client_Do mappend vctx) m n)"

subsection \<open>export\<close>

record ExportCommand =
  ec_Manifest :: ManifestOptions
  ec_Dest :: CacheOptions

definition export_open :: "'m platform \<Rightarrow> 'h fslock \<Rightarrow> ExportCommand \<Rightarrow> os \<Rightarrow> ('m backend \<times> 'm backend) res \<times> 'h File option \<times> os" where
  "export_open pl lk rc w =
     (case MakeManifestFile pl lk (ec_Manifest rc) mc_none w of
        (Err e, w1) \<Rightarrow> (Err (wrap ''error getting manifest file'' e), None, w1)
      | (Panic p, w1) \<Rightarrow> (Panic p, None, w1)
      | (Ok mf, w1) \<Rightarrow>
          (case MakeBlobStore pl (mo_Cache (ec_Manifest rc)) False w1 of
             (Err e, w2) \<Rightarrow> (Err (wrap ''error creating source blob store'' e), Some mf, w2)
           | (Panic p, w2) \<Rightarrow> (Panic p, Some mf, w2)
           | (Ok srcBs, w2) \<Rightarrow>
               (case MakeBlobStore pl (ec_Dest rc) True w2 of
                  (Err e, w3) \<Rightarrow> (Err (wrap ''error creating destination blob store'' e), Some mf, w3)
                | (Panic p, w3) \<Rightarrow> (Panic p, Some mf, w3)
                | (Ok dstBs, w3) \<Rightarrow> (Ok (srcBs, dstBs), Some mf, w3))))"

text \<open>The outcomes of an export: those of its parallel part, inside the command.\<close>

inductive export_Execute :: "'m platform \<Rightarrow> 'h fslock \<Rightarrow> ExportCommand \<Rightarrow> os \<times> 'm \<Rightarrow> unit res \<Rightarrow> os \<times> 'm \<Rightarrow> bool"
  for pl lk rc where
  opened: "export_open pl lk rc w = (Ok (srcBs, dstBs), Some mf, w1) \<Longrightarrow>
     export_execute (any_store pl srcBs) (any_store pl dstBs) mf (w1, m) r (w2, m2) \<Longrightarrow>
     close_deferred lk mf r w2 = (r1, w3) \<Longrightarrow> export_Execute pl lk rc (w, m) r1 (w3, m2)"
| not_opened: "export_open pl lk rc w = (x, f, w1) \<Longrightarrow> \<not> is_Ok x \<Longrightarrow>
     run_command lk (x, f, w1) (\<lambda>_ s. (Ok (), s)) m () = (r, v, u) \<Longrightarrow> export_Execute pl lk rc (w, m) r v"

end
