(* ===== verification/ServerThreads.thy ===== *)
theory ServerThreads
  imports Listener SharedStore Jobs
begin

text \<open>
  The request handler of the proxy as a goroutine: \<open>net/http\<close> runs the handler of every request in a goroutine of its
  own, so that the requests of a build interleave. \<open>handleMainServerRequest\<close> (\<open>Listener\<close>) is given again as a
  machine each of whose steps does at most one operation on what the goroutines share: a locked call of the manifest, a
  call of the store, a round trip, the counter. The two agree, and any number of such machines, which may start at
  any time and advance in any order, keep what the handler keeps when it runs alone.
\<close>

section \<open>The machine\<close>

text \<open>Where the handler stands and what it holds there; \<open>w\<close> is the response of its own client.\<close>

datatype 'b handler_pc =
    H_Start request rw
  | H_Found BlobInfo rw
  | H_Missing request rw
  | H_Do url request rw
  | H_Response url response rw
  | H_Copy url response 'b "bytes list" rw
  | H_Commit url response 'b rw
  | H_Record url response 'b bytes rw
  | H_Cleanup response 'b "unit res" rw
  | H_Done "unit res" rw

text \<open>The deferred close of the body of the response.\<close>

definition close_body :: "response \<Rightarrow> unit res \<Rightarrow> unit res" where
  "close_body resp r = defer_err r (wrap_opt ''error closing response'' (rd_close (rs_Body resp)))"

fun handler_step :: "('w, 'b) Store \<Rightarrow> (request \<Rightarrow> 'n \<Rightarrow> response res \<times> 'n) \<Rightarrow> listenerCtx \<Rightarrow> 'b handler_pc
    \<Rightarrow> ('h, 'w, 'n) srv \<Rightarrow> 'b handler_pc \<times> ('h, 'w, 'n) srv" where
  "handler_step st do_req lctx (H_Start r w) s =
     (let u = extractReqFromURL r in
      if mm_Match (DummyOK lctx) (url_Redacted u) then (H_Done (Ok ()) (rw_WriteHeader 200 w), s)
      else
        (case GetBlob u (sv_assets s) of
           (Err e, f) \<Rightarrow> (H_Done (Err (wrap ''error looking up asset'' e)) w, s\<lparr>sv_assets := f\<rparr>)
         | (Panic p, f) \<Rightarrow> (H_Done (Panic p) w, s\<lparr>sv_assets := f\<rparr>)
         | (Ok (Some bi), f) \<Rightarrow> (H_Found bi w, s\<lparr>sv_assets := f\<rparr>)
         | (Ok None, f) \<Rightarrow> (H_Missing r w, s\<lparr>sv_assets := f\<rparr>)))"
| "handler_step st do_req lctx (H_Found bi w) s =
     (case serveFoundBlob st bi w (sv_blobs s) of (r, w1, b1) \<Rightarrow> (H_Done r w1, s\<lparr>sv_blobs := b1\<rparr>))"
| "handler_step st do_req lctx (H_Missing r w) s =
     (let u = extractReqFromURL r; s1 = s\<lparr>sv_missing := sv_missing s + 1\<rparr> in
      if FetchIfMissing lctx then
        (case http_NewRequest (rq_Method r) (url_String u) (rq_Body r) of
           Err e \<Rightarrow> (H_Done (Err (wrap ''error making request object'' e)) w, s1)
         | Panic p \<Rightarrow> (H_Done (Panic p) w, s1)
         | Ok rq \<Rightarrow>
             (case forward_headers (rq_Header r) rq of
                Err e \<Rightarrow> (H_Done (Err (wrap ''error preprocessing request'' e)) w, s1)
              | Panic p \<Rightarrow> (H_Done (Panic p) w, s1)
              | Ok rq2 \<Rightarrow> (H_Do u rq2 w, s1)))
      else if FailIfMissing lctx then (H_Done (Ok ()) (http_Error ''missing asset'' 404 w), s1)
      else (H_Done (Err (Errorf ''missing logic path - should not have gotten here'' [])) w, s1))"
| "handler_step st do_req lctx (H_Do u rq w) s =
     (case do_req rq (sv_net s) of
        (Err e, n) \<Rightarrow> (H_Done (Err (wrap ''error performing request'' e)) w, s\<lparr>sv_net := n\<rparr>)
      | (Panic p, n) \<Rightarrow> (H_Done (Panic p) w, s\<lparr>sv_net := n\<rparr>)
      | (Ok resp, n) \<Rightarrow> (H_Response u resp w, s\<lparr>sv_net := n\<rparr>))"
| "handler_step st do_req lctx (H_Response u resp w) s =
     (let w1 = rw_WriteHeader (StatusCode resp) (w\<lparr>rw_header := hdr_add_all (rs_Header resp) (rw_header w)\<rparr>) in
      if SkipSave u (sv_assets s) \<or> StatusCode resp \<noteq> 200 then
        (case io_Copy rw_Write (rd_chunks (rs_Body resp)) (rd_err (rs_Body resp)) w1 of
           (e, w2) \<Rightarrow> (H_Done (close_body resp (of_err e)) w2, s))
      else
        (case Store_Put st (sv_blobs s) of
           (Err e, v) \<Rightarrow> (H_Done (close_body resp (Err (wrap ''error creating caf to put'' e))) w1, s\<lparr>sv_blobs := v\<rparr>)
         | (Panic p, v) \<Rightarrow> (H_Done (close_body resp (Panic p)) w1, s\<lparr>sv_blobs := v\<rparr>)
         | (Ok b, v) \<Rightarrow> (H_Copy u resp b (rd_chunks (rs_Body resp)) w1, s\<lparr>sv_blobs := v\<rparr>)))"
| "handler_step st do_req lctx (H_Copy u resp b [] w) s =
     (case rd_err (rs_Body resp) of
        None \<Rightarrow> (H_Commit u resp b w, s)
      | Some e \<Rightarrow> (H_Cleanup resp b (Err (wrap ''error copying response via tee'' e)) w, s))"
| "handler_step st do_req lctx (H_Copy u resp b (c # cs) w) s =
     (case io_CopyTee tee_client (tee_blob st) [c] None (w, b, sv_blobs s) of
        (Some e, w1, b1, v) \<Rightarrow> (H_Cleanup resp b1 (Err (wrap ''error copying response via tee'' e)) w1, s\<lparr>sv_blobs := v\<rparr>)
      | (None, w1, b1, v) \<Rightarrow> (H_Copy u resp b1 cs w1, s\<lparr>sv_blobs := v\<rparr>))"
| "handler_step st do_req lctx (H_Commit u resp b w) s =
     (case Blob_Commit st b (sv_blobs s) of
        (Err e, b1, v) \<Rightarrow> (H_Cleanup resp b1 (Err (wrap ''error committing blob'' e)) w, s\<lparr>sv_blobs := v\<rparr>)
      | (Panic p, b1, v) \<Rightarrow> (H_Cleanup resp b1 (Panic p) w, s\<lparr>sv_blobs := v\<rparr>)
      | (Ok digest, b1, v) \<Rightarrow> (H_Record u resp b1 digest w, s\<lparr>sv_blobs := v\<rparr>))"
| "handler_step st do_req lctx (H_Record u resp b digest w) s =
     (case filterHeaders (HeadersToCache lctx) (rs_Header resp) of
        Err e \<Rightarrow> (H_Cleanup resp b (Err e) w, s)
      | Panic p \<Rightarrow> (H_Cleanup resp b (Panic p) w, s)
      | Ok hs \<Rightarrow>
          (case AddBlob u \<lparr>Sha256 = hex_encode digest, Headers = hs\<rparr> (sv_assets s) of
             (r, f) \<Rightarrow> (H_Cleanup resp b (wrap_res ''error updating asset file'' r) w, s\<lparr>sv_assets := f\<rparr>)))"
| "handler_step st do_req lctx (H_Cleanup resp b r w) s =
     (case Blob_Cleanup st b (sv_blobs s) of
        (e, b1, v) \<Rightarrow> (H_Done (close_body resp (defer_err r e)) w, s\<lparr>sv_blobs := v\<rparr>))"
| "handler_step st do_req lctx (H_Done r w) s = (H_Done r w, s)"

fun is_Done :: "'b handler_pc \<Rightarrow> bool" where
  "is_Done (H_Done r w) = True"
| "is_Done _ = False"

section \<open>Alone, the machine is the handler\<close>

fun handler_run :: "('w, 'b) Store \<Rightarrow> (request \<Rightarrow> 'n \<Rightarrow> response res \<times> 'n) \<Rightarrow> listenerCtx \<Rightarrow> nat \<Rightarrow> 'b handler_pc
    \<Rightarrow> ('h, 'w, 'n) srv \<Rightarrow> 'b handler_pc \<times> ('h, 'w, 'n) srv" where
  "handler_run st do_req lctx 0 t s = (t, s)"
| "handler_run st do_req lctx (Suc n) t s = (case handler_step st do_req lctx t s of (t1, s1) \<Rightarrow> handler_run st do_req lctx n t1 s1)"

lemma handler_run_done [simp]: "handler_run st do_req lctx n (H_Done r w) s = (H_Done r w, s)"
  by (induction n) simp_all

lemma io_CopyTee_Cons:
  "io_CopyTee wr tee (c # cs) e s =
     (case io_CopyTee wr tee [c] None s of (Some er, s1) \<Rightarrow> (Some er, s1) | (None, s1) \<Rightarrow> io_CopyTee wr tee cs e s1)"
  by (auto split: prod.splits option.splits)

text \<open>The part between \<open>Put\<close> and the end, with the deferred calls.\<close>

definition handler_end :: "('w, 'b) Store \<Rightarrow> url \<Rightarrow> listenerCtx \<Rightarrow> response \<Rightarrow> reader \<Rightarrow> rw \<Rightarrow> 'b \<Rightarrow> ('h, 'w, 'n) srv
    \<Rightarrow> 'b handler_pc \<times> ('h, 'w, 'n) srv" where
  "handler_end st u lctx resp rd w b s =
     (case store_response st u (HeadersToCache lctx) (resp\<lparr>rs_Body := rd\<rparr>) (Some w) b (sv_assets s) (sv_blobs s) of
        (r, w1, b1, f, v) \<Rightarrow>
          (case Blob_Cleanup st b1 v of
             (e, b2, v2) \<Rightarrow> (H_Done (close_body resp (defer_err r e)) (the w1), s\<lparr>sv_assets := f, sv_blobs := v2\<rparr>)))"

lemma store_response_body:
  assumes "copy_response st (rs_Body q) wr b w = copy_response st (rs_Body q') wr' b' w'" and "rs_Header q = rs_Header q'"
  shows "store_response st u hc q wr b f w = store_response st u hc q' wr' b' f w'"
  unfolding store_response_def assms ..

lemma handler_run_commit:
  "handler_run st do_req lctx 3 (H_Commit u resp b w) s =
     handler_end st u lctx resp \<lparr>rd_chunks = [], rd_err = None, rd_close = c\<rparr> w b s"
proof -
  obtain x b1 v where cm: "Blob_Commit st b (sv_blobs s) = (x, b1, v)" by (metis prod_cases3)
  obtain e b2 v2 where cl: "Blob_Cleanup st b1 v = (e, b2, v2)" by (metis prod_cases3)
  show ?thesis
  proof (cases x)
    case (Ok k)
    show ?thesis
    proof (cases "filterHeaders (HeadersToCache lctx) (rs_Header resp)")
      case hs: (Ok hs)
      obtain r f where "AddBlob u \<lparr>Sha256 = hex_encode k, Headers = hs\<rparr> (sv_assets s) = (r, f)" by (metis surj_pair)
      then show ?thesis by (simp add: numeral_3_eq_3 handler_end_def store_response_def copy_response_def cm cl Ok hs)
    qed (simp_all add: numeral_3_eq_3 handler_end_def store_response_def copy_response_def cm cl Ok)
  qed (simp_all add: numeral_3_eq_3 handler_end_def store_response_def copy_response_def cm cl)
qed

lemma handler_run_copy:
  assumes "e = rd_err (rs_Body resp)"
  shows "\<exists>n. handler_run st do_req lctx n (H_Copy u resp b cs w) s =
    handler_end st u lctx resp \<lparr>rd_chunks = cs, rd_err = e, rd_close = c\<rparr> w b s"
proof (induction cs arbitrary: b w s)
  case Nil
  show ?case
  proof (cases e)
    case None
    have "handler_run st do_req lctx (Suc 3) (H_Copy u resp b [] w) s =
        handler_end st u lctx resp \<lparr>rd_chunks = [], rd_err = e, rd_close = c\<rparr> w b s"
      using None assms by (subst handler_run.simps(2)) (simp add: handler_run_commit [where c = c])
    then show ?thesis by blast
  next
    case (Some er)
    have "handler_run st do_req lctx 2 (H_Copy u resp b [] w) s =
        handler_end st u lctx resp \<lparr>rd_chunks = [], rd_err = e, rd_close = c\<rparr> w b s"
      using Some assms [symmetric]
      by (simp add: numeral_2_eq_2 handler_end_def store_response_def copy_response_def split: prod.split)
    then show ?thesis by blast
  qed
next
  case (Cons x cs)
  obtain er w1 b1 v where t: "io_CopyTee tee_client (tee_blob st) [x] None (w, b, sv_blobs s) = (er, w1, b1, v)"
    by (metis prod_cases4)
  note cp = io_CopyTee_Cons [of tee_client "tee_blob st" x cs e "(w, b, sv_blobs s)", unfolded t]
  show ?case
  proof (cases er)
    case None
    obtain n where n: "handler_run st do_req lctx n (H_Copy u resp b1 cs w1) (s\<lparr>sv_blobs := v\<rparr>) =
        handler_end st u lctx resp \<lparr>rd_chunks = cs, rd_err = e, rd_close = c\<rparr> w1 b1 (s\<lparr>sv_blobs := v\<rparr>)"
      using Cons.IH by blast
    have "copy_response st \<lparr>rd_chunks = x # cs, rd_err = e, rd_close = c\<rparr> (Some w) b (sv_blobs s) =
        copy_response st \<lparr>rd_chunks = cs, rd_err = e, rd_close = c\<rparr> (Some w1) b1 v"
      using cp None by (simp add: copy_response_def del: io_CopyTee.simps)
    then have "handler_end st u lctx resp \<lparr>rd_chunks = cs, rd_err = e, rd_close = c\<rparr> w1 b1 (s\<lparr>sv_blobs := v\<rparr>) =
        handler_end st u lctx resp \<lparr>rd_chunks = x # cs, rd_err = e, rd_close = c\<rparr> w b s"
      unfolding handler_end_def by (subst store_response_body [where q' = "resp\<lparr>rs_Body := \<lparr>rd_chunks = x # cs, rd_err = e, rd_close = c\<rparr>\<rparr>"
            and wr' = "Some w" and b' = b and w' = "sv_blobs s"]) simp_all
    then have "handler_run st do_req lctx (Suc n) (H_Copy u resp b (x # cs) w) s =
        handler_end st u lctx resp \<lparr>rd_chunks = x # cs, rd_err = e, rd_close = c\<rparr> w b s"
      using n t None by (simp del: io_CopyTee.simps)
    then show ?thesis by blast
  next
    case (Some y)
    have "handler_run st do_req lctx 2 (H_Copy u resp b (x # cs) w) s =
        handler_end st u lctx resp \<lparr>rd_chunks = x # cs, rd_err = e, rd_close = c\<rparr> w b s"
      using cp t Some
      by (simp add: numeral_2_eq_2 handler_end_def store_response_def copy_response_def del: io_CopyTee.simps split: prod.split)
    then show ?thesis by blast
  qed
qed

lemma response_run:
  assumes "handle_response st u (HeadersToCache lctx) resp (Some w) s = (z, wz, s1)"
  shows "\<exists>n. handler_run st do_req lctx n (H_Response u resp w) s = (H_Done (close_body resp z) (case wz of Some v \<Rightarrow> v | None \<Rightarrow> w), s1)"
proof -
  let ?w = "rw_WriteHeader (StatusCode resp) (w\<lparr>rw_header := hdr_add_all (rs_Header resp) (rw_header w)\<rparr>)"
  obtain p v where put: "Store_Put st (sv_blobs s) = (p, v)" by (metis surj_pair)
  show ?thesis
  proof (cases "\<not> (SkipSave u (sv_assets s) \<or> StatusCode resp \<noteq> 200) \<and> is_Ok p")
    case False
    have "handler_run st do_req lctx 1 (H_Response u resp w) s = (H_Done (close_body resp z) (case wz of Some v \<Rightarrow> v | None \<Rightarrow> w), s1)"
      using assms False put by (auto simp: handle_response_def Let_def split: if_splits prod.splits res.splits)
    then show ?thesis by blast
  next
    case True
    then obtain b where b: "p = Ok b" by (cases p) auto
    obtain rd where rd: "rd = rs_Body resp" "resp\<lparr>rs_Body := rd\<rparr> = resp" by (cases resp) simp
    obtain x w2 b2 f v2 where sr: "store_response st u (HeadersToCache lctx) resp (Some ?w) b (sv_assets s) v = (x, w2, b2, f, v2)"
      by (metis prod_cases5)
    obtain e b3 v3 where cl: "Blob_Cleanup st b2 v2 = (e, b3, v3)" by (metis prod_cases3)
    have z: "z = defer_err x e" "wz = w2" "s1 = s\<lparr>sv_assets := f, sv_blobs := v3\<rparr>"
      using assms True put b sr cl by (auto simp: handle_response_def Let_def)
    have "w2 \<noteq> None" using sr by (auto simp: store_response_def copy_response_def split: prod.splits res.splits)
    then obtain w3 where w3: "w2 = Some w3" by blast
    have "rd_err rd = rd_err (rs_Body resp)" by (simp add: rd(1))
    from handler_run_copy [OF this, of st do_req lctx u b "rd_chunks rd" ?w "s\<lparr>sv_blobs := v\<rparr>" "rd_close rd"]
    obtain n where "handler_run st do_req lctx n (H_Copy u resp b (rd_chunks rd) ?w) (s\<lparr>sv_blobs := v\<rparr>)
        = handler_end st u lctx resp rd ?w b (s\<lparr>sv_blobs := v\<rparr>)"
      by (cases rd) auto
    then have "handler_run st do_req lctx (Suc n) (H_Response u resp w) s = (H_Done (close_body resp z) w3, s1)"
      using True put b rd sr cl z w3 by (simp add: handler_end_def)
    then show ?thesis unfolding z(2) w3 option.case by (rule exI)
  qed
qed

lemma handler_alone:
  assumes "handleMainServerRequest st do_req lctx r w s = (x, w1, s1)"
  shows "\<exists>n. handler_run st do_req lctx n (H_Start r w) s = (H_Done x w1, s1)"
proof -
  let ?u = "extractReqFromURL r"
  let ?run = "handler_run st do_req lctx"
  obtain g f where g: "GetBlob ?u (sv_assets s) = (g, f)" by (metis surj_pair)
  let ?s1 = "s\<lparr>sv_assets := f, sv_missing := sv_missing s + 1\<rparr>"
  show ?thesis
  proof (cases "\<not> mm_Match (DummyOK lctx) (url_Redacted ?u) \<and> g = Ok None \<and> FetchIfMissing lctx")
    case False
    have "?run 2 (H_Start r w) s = (H_Done x w1, s1)"
      using assms False g
      by (auto simp: numeral_2_eq_2 handleMainServerRequest_def Let_def split: if_splits res.splits option.splits prod.splits)
    then show ?thesis by blast
  next
    case True
    then have h: "(case fetchAndSaveBlob st do_req (rq_Method r) (rq_Body r) ?u (HeadersToCache lctx)
          (Some (forward_headers (rq_Header r))) (Some w) ?s1 of
        (res, Some w1, s2) \<Rightarrow> (res, w1, s2) | (res, None, s2) \<Rightarrow> (res, w, s2)) = (x, w1, s1)"
      using assms g by (simp add: handleMainServerRequest_def)
    have start: "?run (Suc n) (H_Start r w) s = ?run n (H_Missing r w) (s\<lparr>sv_assets := f\<rparr>)" for n
      using True g by simp
    show ?thesis
    proof (cases "\<exists>rq. http_NewRequest (rq_Method r) (url_String ?u) (rq_Body r) = Ok rq")
      case False
      then have "?run 1 (H_Missing r w) (s\<lparr>sv_assets := f\<rparr>) = (H_Done x w1, s1)"
        using h True by (auto simp: fetchAndSaveBlob_def split: res.splits)
      then show ?thesis using start by metis
    next
      case rq: True
      then obtain rq where rq: "http_NewRequest (rq_Method r) (url_String ?u) (rq_Body r) = Ok rq" by blast
      let ?q = "rq\<lparr>rq_Header := hdr_add_all (rq_Header r) (rq_Header rq)\<rparr>"
      have miss: "?run (Suc n) (H_Missing r w) (s\<lparr>sv_assets := f\<rparr>) = ?run n (H_Do ?u ?q w) ?s1" for n
        using True rq by (simp add: forward_headers_def)
      obtain y n where d: "do_req ?q (sv_net s) = (y, n)" by (metis surj_pair)
      show ?thesis
      proof (cases "\<exists>resp. y = Ok resp")
        case False
        then have "?run 1 (H_Do ?u ?q w) ?s1 = (H_Done x w1, s1)"
          using h rq d by (auto simp: fetchAndSaveBlob_def forward_headers_def split: res.splits)
        then show ?thesis using start miss by metis
      next
        case resp: True
        then obtain resp where resp: "y = Ok resp" by blast
        let ?s2 = "?s1\<lparr>sv_net := n\<rparr>"
        have dos: "?run (Suc m) (H_Do ?u ?q w) ?s1 = ?run m (H_Response ?u resp w) ?s2" for m
          using d resp by simp
        obtain z wz s3 where hr: "handle_response st ?u (HeadersToCache lctx) resp (Some w) ?s2 = (z, wz, s3)" by (metis prod_cases3)
        have h3: "x = close_body resp z" "s1 = s3" "w1 = (case wz of Some v \<Rightarrow> v | None \<Rightarrow> w)"
          using h rq d resp hr by (auto simp: fetchAndSaveBlob_def forward_headers_def close_body_def split: option.splits)
        have "\<exists>m. ?run m (H_Response ?u resp w) ?s2 = (H_Done x w1, s1)"
          using response_run [OF hr] h3 by simp
        then show ?thesis using start miss dos by metis
      qed
    qed
  qed
qed

section \<open>Handlers side by side\<close>

text \<open>
  The handlers that were started, each with its request, and the state they share. A new request may arrive
  at any time (\<open>fs\<close> scripts the failures of the writes to its client), and any unfinished handler may take its next step.
\<close>

type_synonym 'b threads = "(request \<times> 'b handler_pc) list"

inductive threads_step :: "('w, 'b) Store \<Rightarrow> (request \<Rightarrow> 'n \<Rightarrow> response res \<times> 'n) \<Rightarrow> listenerCtx \<Rightarrow>
    'b threads \<times> ('h, 'w, 'n) srv \<Rightarrow> 'b threads \<times> ('h, 'w, 'n) srv \<Rightarrow> bool"
  for st do_req lctx where
  arrive: "threads_step st do_req lctx (ts, s) (ts @ [(r, H_Start r (rw_new fs))], s)"
| act: "i < length ts \<Longrightarrow> ts ! i = (r, t) \<Longrightarrow> \<not> is_Done t \<Longrightarrow> handler_step st do_req lctx t s = (t', s') \<Longrightarrow>
     threads_step st do_req lctx (ts, s) (ts[i := (r, t')], s')"

inductive_cases threads_stepE: "threads_step st do_req lctx c c'"

fun pc_blob :: "'b handler_pc \<Rightarrow> 'b option" where
  "pc_blob (H_Copy u resp b cs w) = Some b"
| "pc_blob (H_Commit u resp b w) = Some b"
| "pc_blob (H_Record u resp b digest w) = Some b"
| "pc_blob (H_Cleanup resp b r w) = Some b"
| "pc_blob _ = None"

text \<open>The manifest has the content \<open>c\<close> for the URL \<open>u\<close>, and the store holds what the entry names.\<close>

definition recorded :: "('w \<Rightarrow> bytes \<Rightarrow> bytes option) \<Rightarrow> ('h, 'w, 'n) srv \<Rightarrow> url \<Rightarrow> bytes \<Rightarrow> bool" where
  "recorded holds s u c \<longleftrightarrow>
     (\<exists>bi. gm_get (blobs (sv_assets s)) (url_Redacted u) = Some bi \<and> hex_decode (Sha256 bi) = Ok (sha256 c)) \<and>
     holds (sv_blobs s) (sha256 c) \<noteq> None"

abbreviation keeps_entries :: "('h, 'w, 'n) srv \<Rightarrow> url \<Rightarrow> bool" where
  "keeps_entries s u \<equiv> \<not> AllowOverwrite (options (sv_assets s)) \<and> \<not> SkipSave u (sv_assets s)"

text \<open>
  The invariant of the handler of request \<open>r\<close>. While it copies, its blob has accepted what its client got; it
  has a result without an error only once what its client got is recorded.
\<close>

fun handler_ok :: "('b \<Rightarrow> bool) \<Rightarrow> ('b \<Rightarrow> 'w \<Rightarrow> bool) \<Rightarrow> ('b \<Rightarrow> 'w \<Rightarrow> bytes option) \<Rightarrow> ('w \<Rightarrow> bytes \<Rightarrow> bytes option)
    \<Rightarrow> listenerCtx \<Rightarrow> ('h, 'w, 'n) srv \<Rightarrow> request \<Rightarrow> 'b handler_pc \<Rightarrow> bool" where
  "handler_ok bwf alive pending holds lctx s r (H_Start r' w) \<longleftrightarrow> r' = r \<and> (\<exists>fs. w = rw_new fs)"
| "handler_ok bwf alive pending holds lctx s r (H_Found bi w) \<longleftrightarrow> (\<exists>fs. w = rw_new fs) \<and>
     (keeps_entries s (extractReqFromURL r) \<longrightarrow> gm_get (blobs (sv_assets s)) (url_Redacted (extractReqFromURL r)) = Some bi)"
| "handler_ok bwf alive pending holds lctx s r (H_Missing r' w) \<longleftrightarrow> r' = r \<and> (\<exists>fs. w = rw_new fs)"
| "handler_ok bwf alive pending holds lctx s r (H_Do u rq w) \<longleftrightarrow> u = extractReqFromURL r \<and> (\<exists>fs. w = rw_new fs)"
| "handler_ok bwf alive pending holds lctx s r (H_Response u resp w) \<longleftrightarrow> u = extractReqFromURL r \<and> (\<exists>fs. w = rw_new fs)"
| "handler_ok bwf alive pending holds lctx s r (H_Copy u resp b cs w) \<longleftrightarrow> u = extractReqFromURL r \<and>
     bwf b \<and> alive b (sv_blobs s) \<and> pending b (sv_blobs s) = Some (rw_body w) \<and> rw_sent w \<noteq> None \<and>
     rw_body w @ concat cs = rd_content (rs_Body resp)"
| "handler_ok bwf alive pending holds lctx s r (H_Commit u resp b w) \<longleftrightarrow> u = extractReqFromURL r \<and>
     bwf b \<and> alive b (sv_blobs s) \<and> pending b (sv_blobs s) = Some (rw_body w)"
| "handler_ok bwf alive pending holds lctx s r (H_Record u resp b digest w) \<longleftrightarrow> u = extractReqFromURL r \<and>
     bwf b \<and> alive b (sv_blobs s) \<and> digest = sha256 (rw_body w) \<and> holds (sv_blobs s) digest \<noteq> None"
| "handler_ok bwf alive pending holds lctx s r (H_Cleanup resp b x w) \<longleftrightarrow> bwf b \<and> alive b (sv_blobs s) \<and>
     (x = Ok () \<and> keeps_entries s (extractReqFromURL r) \<longrightarrow> recorded holds s (extractReqFromURL r) (rw_body w))"
| "handler_ok bwf alive pending holds lctx s r (H_Done x w) \<longleftrightarrow>
     (x = Ok () \<and> fst (rw_result w) = 200 \<and> \<not> mm_Match (DummyOK lctx) (url_Redacted (extractReqFromURL r)) \<and>
       keeps_entries s (extractReqFromURL r) \<longrightarrow> recorded holds s (extractReqFromURL r) (rw_body w))"

definition threads_inv :: "('b \<Rightarrow> bool) \<Rightarrow> ('b \<Rightarrow> 'w \<Rightarrow> bool) \<Rightarrow> ('b \<Rightarrow> 'w \<Rightarrow> bytes option) \<Rightarrow> ('b \<Rightarrow> 'b \<Rightarrow> bool)
    \<Rightarrow> ('w \<Rightarrow> bytes \<Rightarrow> bytes option) \<Rightarrow> ('w \<Rightarrow> bool) \<Rightarrow> listenerCtx \<Rightarrow> 'b threads \<times> ('h, 'w, 'n) srv \<Rightarrow> bool" where
  "threads_inv bwf alive pending indep holds ok lctx c \<longleftrightarrow>
     srv_inv ok holds (snd c) \<and>
     (\<forall>(r, t) \<in> set (fst c). handler_ok bwf alive pending holds lctx (snd c) r t) \<and>
     all_indep indep (map (\<lambda>(r, t). pc_blob t) (fst c))"

lemma recorded_mono:
  assumes "srv_le holds s s'" and "\<not> AllowOverwrite (options (sv_assets s))" and "recorded holds s u c"
  shows "recorded holds s' u c"
proof -
  obtain bi where bi: "gm_get (blobs (sv_assets s)) (url_Redacted u) = Some bi" "hex_decode (Sha256 bi) = Ok (sha256 c)"
    using assms(3) by (auto simp: recorded_def)
  have "gm_get (blobs (sv_assets s)) \<subseteq>\<^sub>m gm_get (blobs (sv_assets s'))" and d: "dom (holds (sv_blobs s)) \<subseteq> dom (holds (sv_blobs s'))"
    using assms(1,2) by (auto simp: srv_le_def fw_le_def)
  then have "gm_get (blobs (sv_assets s')) (url_Redacted u) = Some bi" using bi(1) map_le_Some_D by metis
  moreover have "holds (sv_blobs s') (sha256 c) \<noteq> None" using assms(3) d by (auto simp: recorded_def)
  ultimately show ?thesis using bi(2) by (auto simp: recorded_def)
qed

text \<open>What is true of one handler stays true while the others take their steps.\<close>

lemma handler_ok_stable:
  assumes "handler_ok bwf alive pending holds lctx s r t" and "srv_le holds s s'"
    and "\<And>b. pc_blob t = Some b \<Longrightarrow> alive b (sv_blobs s') \<and> pending b (sv_blobs s') = pending b (sv_blobs s)"
  shows "handler_ok bwf alive pending holds lctx s' r t"
proof -
  have o: "options (sv_assets s') = options (sv_assets s)" and d: "dom (holds (sv_blobs s)) \<subseteq> dom (holds (sv_blobs s'))"
    and m: "\<not> AllowOverwrite (options (sv_assets s)) \<Longrightarrow> gm_get (blobs (sv_assets s)) \<subseteq>\<^sub>m gm_get (blobs (sv_assets s'))"
    using assms(2) by (auto simp: srv_le_def fw_le_def)
  have k: "keeps_entries s' u = keeps_entries s u" for u by (simp add: o SkipSave_def)
  note rc = recorded_mono [OF assms(2)]
  show ?thesis
  proof (cases t)
    case (H_Found bi w)
    then show ?thesis using assms(1) m k by (auto dest: map_le_Some_D)
  next
    case (H_Record u resp b digest w)
    then show ?thesis using assms(1,3) d by auto
  next
    case (H_Cleanup resp b x w)
    then show ?thesis using assms(1,3) k rc by auto
  next
    case (H_Done x w)
    then show ?thesis using assms(1) k rc by auto
  qed (use assms(1,3) in auto)
qed

lemma AddBlob_same:
  assumes "AddBlob u info f = (Ok x, f')" and "\<not> SkipSave u f" and "\<not> AllowOverwrite (options f)"
  shows "\<exists>bi. gm_get (blobs f') (url_Redacted u) = Some bi \<and> Sha256 bi = Sha256 info"
  using assms
  by (auto simp: AddBlob_def SkipSave_def internalAddBlob_def gomap_simps blobEquals_def split: option.splits if_splits res.splits prod.splits)

lemma GetBlob_Some: "GetBlob u f = (Ok (Some bi), f') \<Longrightarrow> gm_get (blobs f') (url_Redacted u) = Some bi"
  by (auto simp: GetBlob_def internalAddBlob_def gomap_simps split: option.splits if_splits res.splits prod.splits)

lemma close_body_Ok: "close_body resp r = Ok () \<Longrightarrow> r = Ok ()"
  by (cases r) (auto simp: close_body_def res_simps)

lemma close_body_errors [simp]: "close_body resp (Err e) = Err e" "close_body resp (Panic p) = Panic p"
  by (simp_all add: close_body_def)

lemma rw_new_simps [simp]: "rw_sent (rw_new fs) = None" "rw_body (rw_new fs) = []" "rw_header (rw_new fs) = []"
  by (simp_all add: rw_new_def)

lemma error_status: "fst (rw_result (http_Error m c (rw_new fs))) = c"
proof -
  have "rw_sent (snd (rw_Write p r)) = rw_sent r" if "rw_sent r \<noteq> None" for p r
    using that by (auto simp: rw_Write_def rw_WriteHeader_def Let_def split: list.splits fault.splits)
  then show ?thesis by (simp add: http_Error_def rw_result_def rw_WriteHeader_def Let_def)
qed

context blob_store_shared begin

abbreviation "hok \<equiv> handler_ok bwf alive pending holds"
abbreviation "hframe \<equiv> blob_frame bwf alive pending indep"

text \<open>One chunk, to the blob and to the client.\<close>

lemma tee_chunk:
  assumes "io_CopyTee tee_client (tee_blob st) [c] None (w, b, v) = (e, w1, b1, v1)" and "inv v" and "bwf b" and "alive b v"
  shows "inv v1 \<and> bwf b1 \<and> holds v1 = holds v \<and> alive b1 v1 \<and> hframe (Some b) v (Some b1) v1 \<and>
    (e = None \<longrightarrow> pending b v = Some d \<longrightarrow> rw_sent w \<noteq> None \<longrightarrow>
       pending b1 v1 = Some (d @ c) \<and> rw_body w1 = rw_body w @ c \<and> rw_sent w1 = rw_sent w)"
proof -
  obtain n er b2 v2 where wr: "Blob_Write st b c v = ((n, er), b2, v2)" by (metis surj_pair)
  then have t: "tee_blob st c (w, b, v) = ((n, er), w, b2, v2)" by (simp add: tee_blob_def blob_write_def)
  have bv: "b1 = b2 \<and> v1 = v2"
    using assms(1) t by (auto simp: tee_client_def split: option.splits if_splits prod.splits)
  have "pending b2 v2 = Some (d @ c) \<and> rw_body w1 = rw_body w @ c \<and> rw_sent w1 = rw_sent w"
    if e: "e = None" and p: "pending b v = Some d" and sent: "rw_sent w \<noteq> None"
  proof -
    have er: "er = None" using assms(1) t e by (auto split: option.splits if_splits prod.splits)
    then obtain m where "rw_Write c w = ((m, None), w1)"
      using assms(1) t e by (auto simp: tee_client_def split: prod.splits option.splits if_splits)
    then show ?thesis
      using rw_Write_None [of c w m w1] sent write_accepts [OF assms(2,3) p] wr er by (auto split: option.splits)
  qed
  then show ?thesis
    using bv write_keeps [OF assms(2,3) wr] write_alive [OF assms(3,4) wr] write_frame [OF assms(3) _ _ _ wr]
    by (simp add: blob_frame_def)
qed

lemma srv_world: "srv_inv inv holds s \<Longrightarrow> inv v \<Longrightarrow> holds v = holds (sv_blobs s) \<Longrightarrow>
    srv_inv inv holds (s\<lparr>sv_blobs := v\<rparr>) \<and> srv_le holds s (s\<lparr>sv_blobs := v\<rparr>)"
  using fw_world [of inv holds "sv_assets s" "sv_blobs s" v] by (simp add: srv_inv_def srv_le_def)

lemma srv_facts: "srv_inv inv holds s \<Longrightarrow> inv (sv_blobs s) \<and> content_addressed (holds (sv_blobs s))"
  by (simp add: srv_inv_def fw_inv_def)

lemma step_start:
  assumes "handler_step st do_req lctx (H_Start r w) s = (t', s')" and "srv_inv inv holds s" and "hok lctx s r (H_Start r w)"
  shows "srv_inv inv holds s' \<and> srv_le holds s s' \<and> hok lctx s' r t' \<and> hframe None (sv_blobs s) (pc_blob t') (sv_blobs s')"
proof (cases "mm_Match (DummyOK lctx) (url_Redacted (extractReqFromURL r))")
  case True
  then show ?thesis using assms by (auto simp: Let_def blob_frame_def)
next
  case False
  let ?u = "extractReqFromURL r"
  obtain g f where g: "GetBlob ?u (sv_assets s) = (g, f)" by (metis surj_pair)
  have "fw_inv inv holds f (sv_blobs s) \<and> fw_le holds (sv_assets s) (sv_blobs s) f (sv_blobs s)"
    by (rule fw_file [OF _ GetBlob_step [OF g] GetBlob_options [OF g]]) (use assms(2) in \<open>auto simp: srv_inv_def\<close>)
  then have s: "srv_inv inv holds (s\<lparr>sv_assets := f\<rparr>)" "srv_le holds s (s\<lparr>sv_assets := f\<rparr>)" by (auto simp: srv_inv_def srv_le_def)
  show ?thesis
  proof (cases "\<exists>x. g = Ok x")
    case True
    then obtain x where x: "g = Ok x" by blast
    show ?thesis
      using assms(1,3) False g x s GetBlob_Some [of ?u "sv_assets s" _ f] by (cases x) (auto simp: blob_frame_def)
  next
    case no: False
    then show ?thesis using assms(1) False g s by (cases g) (auto simp: blob_frame_def)
  qed
qed

lemma step_found:
  assumes "handler_step st do_req lctx (H_Found bi w) s = (t', s')" and "srv_inv inv holds s" and "hok lctx s r (H_Found bi w)"
  shows "srv_inv inv holds s' \<and> srv_le holds s s' \<and> hok lctx s' r t' \<and> hframe None (sv_blobs s) (pc_blob t') (sv_blobs s')"
proof -
  let ?u = "extractReqFromURL r"
  obtain fs where w: "w = rw_new fs" using assms(3) by auto
  obtain x w1 v where sf: "serveFoundBlob st bi w (sv_blobs s) = (x, w1, v)" by (metis prod_cases3)
  have t': "t' = H_Done x w1" "s' = s\<lparr>sv_blobs := v\<rparr>" using assms(1) sf by auto
  note iw = srv_facts [OF assms(2)]
  have k: "inv v \<and> holds v = holds (sv_blobs s) \<and> hframe None (sv_blobs s) None v"
    using sf get_keeps [OF iw [THEN conjunct1]] iw get_frame
    by (auto simp: serveFoundBlob_def Let_def blob_frame_def split: res.splits prod.splits)
  have "recorded holds (s\<lparr>sv_blobs := v\<rparr>) ?u (rw_body w1)" if x: "x = Ok ()" and ke: "keeps_entries s ?u"
  proof -
    obtain d c where dc: "hex_decode (Sha256 bi) = Ok d" "holds (sv_blobs s) d = Some c"
        "rw_result w1 = (200, fold (\<lambda>(k, v) h. hdr_Set k v h) (gm_entries (Headers bi)) [], c)"
      using serveFoundBlob_Ok [of bi fs "sv_blobs s" "()" w1 v] sf w x iw by blast
    have "d = sha256 c" using content_addressedD iw dc(2) by blast
    moreover have "rw_body w1 = c" using dc(3) by (auto simp: rw_result_def split: option.splits)
    ultimately show ?thesis using dc(1,2) k assms(3) ke by (simp add: recorded_def)
  qed
  then show ?thesis using t' k srv_world [OF assms(2), of v] by simp
qed

lemma step_missing:
  assumes "handler_step st do_req lctx (H_Missing q w) s = (t', s')" and "srv_inv inv holds s" and "hok lctx s r (H_Missing q w)"
  shows "srv_inv inv holds s' \<and> srv_le holds s s' \<and> hok lctx s' r t' \<and> hframe None (sv_blobs s) (pc_blob t') (sv_blobs s')"
proof -
  have s': "s' = s\<lparr>sv_missing := sv_missing s + 1\<rparr>"
    using assms(1) by (auto simp: Let_def split: if_splits res.splits)
  have "hok lctx s' r t' \<and> pc_blob t' = None"
    using assms(1,3) by (auto simp: Let_def error_status split: if_splits res.splits)
  then show ?thesis using assms(2) s' by (simp add: srv_inv_def srv_le_def blob_frame_def)
qed

lemma step_do:
  assumes "handler_step st do_req lctx (H_Do u q w) s = (t', s')" and "srv_inv inv holds s" and "hok lctx s r (H_Do u q w)"
  shows "srv_inv inv holds s' \<and> srv_le holds s s' \<and> hok lctx s' r t' \<and> hframe None (sv_blobs s) (pc_blob t') (sv_blobs s')"
proof -
  obtain x n where d: "do_req q (sv_net s) = (x, n)" by (metis surj_pair)
  have s': "s' = s\<lparr>sv_net := n\<rparr>" using assms(1) d by (auto split: res.splits)
  have "hok lctx s' r t' \<and> pc_blob t' = None" using assms(1,3) d by (cases x) auto
  then show ?thesis using assms(2) s' by (simp add: srv_inv_def srv_le_def blob_frame_def)
qed

lemma step_response:
  assumes "handler_step st do_req lctx (H_Response u resp w) s = (t', s')" and "srv_inv inv holds s"
    and "hok lctx s r (H_Response u resp w)"
  shows "srv_inv inv holds s' \<and> srv_le holds s s' \<and> hok lctx s' r t' \<and> hframe None (sv_blobs s) (pc_blob t') (sv_blobs s')"
proof -
  obtain fs where w: "w = rw_new fs" and u: "u = extractReqFromURL r" using assms(3) by auto
  let ?w = "rw_WriteHeader (StatusCode resp) (w\<lparr>rw_header := hdr_add_all (rs_Header resp) (rw_header w)\<rparr>)"
  have sent: "rw_sent ?w = Some (StatusCode resp, hdr_add_all (rs_Header resp) [])" "rw_body ?w = []"
    by (simp_all add: w rw_WriteHeader_def)
  show ?thesis
  proof (cases "SkipSave u (sv_assets s) \<or> StatusCode resp \<noteq> 200")
    case True
    obtain e w2 where cp: "io_Copy rw_Write (rd_chunks (rs_Body resp)) (rd_err (rs_Body resp)) ?w = (e, w2)" by (metis surj_pair)
    have t': "t' = H_Done (close_body resp (of_err e)) w2" "s' = s" using assms(1) True cp by (simp_all add: Let_def)
    have "StatusCode resp = 200" if "close_body resp (of_err e) = Ok ()" "fst (rw_result w2) = 200"
    proof -
      have "e = None" using close_body_Ok [OF that(1)] by (cases e) auto
      then have "rw_sent w2 = rw_sent ?w" using io_Copy_rw [of _ _ ?w w2] cp sent(1) by auto
      then show ?thesis using that(2) sent(1) by (simp add: rw_result_def)
    qed
    then show ?thesis using assms(2) t' True u by (auto simp: blob_frame_def)
  next
    case False
    note iw = srv_facts [OF assms(2), THEN conjunct1]
    obtain p v where put: "Store_Put st (sv_blobs s) = (p, v)" by (metis surj_pair)
    note k = put_keeps [OF iw put] and s' = srv_world [OF assms(2), of v]
    show ?thesis
    proof (cases p)
      case (Ok b)
      have t': "t' = H_Copy u resp b (rd_chunks (rs_Body resp)) ?w" "s' = s\<lparr>sv_blobs := v\<rparr>"
        using assms(1) False put Ok by (simp_all add: Let_def)
      have "bwf b" "pending b v = Some []" "alive b v" "\<And>c. indep b c"
        using put_fresh [OF iw] put_alive put Ok by blast+
      moreover have "hframe None (sv_blobs s) (Some b) v" using put_frame [OF put] \<open>\<And>c. indep b c\<close> by (simp add: blob_frame_def)
      ultimately show ?thesis using t' k s' u sent by (simp add: rd_content_def)
    next
      case (Err e)
      have "hframe None (sv_blobs s) None v" using put_frame [OF put] by (simp add: blob_frame_def)
      then show ?thesis using assms(1) False put Err k s' by (auto simp: Let_def)
    next
      case (Panic p)
      then show ?thesis using put put_no_panic by blast
    qed
  qed
qed

lemma step_copy:
  assumes "handler_step st do_req lctx (H_Copy u resp b cs w) s = (t', s')" and "srv_inv inv holds s"
    and "hok lctx s r (H_Copy u resp b cs w)"
  shows "srv_inv inv holds s' \<and> srv_le holds s s' \<and> hok lctx s' r t' \<and> hframe (Some b) (sv_blobs s) (pc_blob t') (sv_blobs s')"
proof (cases cs)
  case Nil
  then show ?thesis using assms by (auto simp: blob_frame_def split: option.splits)
next
  case (Cons c cs')
  note iw = srv_facts [OF assms(2), THEN conjunct1]
  obtain e w1 b1 v where t: "io_CopyTee tee_client (tee_blob st) [c] None (w, b, sv_blobs s) = (e, w1, b1, v)" by (metis prod_cases4)
  have b: "bwf b" "alive b (sv_blobs s)" "pending b (sv_blobs s) = Some (rw_body w)" using assms(3) by auto
  note k = tee_chunk [OF t iw b(1,2), of "rw_body w"]
  have st': "srv_inv inv holds (s\<lparr>sv_blobs := v\<rparr>) \<and> srv_le holds s (s\<lparr>sv_blobs := v\<rparr>)" by (rule srv_world [OF assms(2)]) (use k in auto)
  show ?thesis
  proof (cases e)
    case None
    have t': "t' = H_Copy u resp b1 cs' w1" "s' = s\<lparr>sv_blobs := v\<rparr>"
      using assms(1) t None Cons by (simp_all del: io_CopyTee.simps)
    show ?thesis using k b(3) assms(3) st' None Cons unfolding t' by (auto simp del: io_CopyTee.simps)
  next
    case (Some er)
    have t': "t' = H_Cleanup resp b1 (Err (wrap ''error copying response via tee'' er)) w1" "s' = s\<lparr>sv_blobs := v\<rparr>"
      using assms(1) t Some Cons by (simp_all del: io_CopyTee.simps)
    show ?thesis using k st' unfolding t' by simp
  qed
qed

lemma step_commit:
  assumes "handler_step st do_req lctx (H_Commit u resp b w) s = (t', s')" and "srv_inv inv holds s"
    and "hok lctx s r (H_Commit u resp b w)"
  shows "srv_inv inv holds s' \<and> srv_le holds s s' \<and> hok lctx s' r t' \<and> hframe (Some b) (sv_blobs s) (pc_blob t') (sv_blobs s')"
proof -
  obtain x b1 v where cm: "Blob_Commit st b (sv_blobs s) = (x, b1, v)" by (metis prod_cases3)
  have b: "bwf b" "alive b (sv_blobs s)" "pending b (sv_blobs s) = Some (rw_body w)" using assms(3) by auto
  have fw: "fw_inv inv holds (sv_assets s) (sv_blobs s)" using assms(2) by (simp add: srv_inv_def)
  note k = commit_fw [OF fw b(1,3) cm] and al = commit_alive [OF b(1,2) cm]
  have st': "srv_inv inv holds (s\<lparr>sv_blobs := v\<rparr>) \<and> srv_le holds s (s\<lparr>sv_blobs := v\<rparr>)"
    using k by (simp add: srv_inv_def srv_le_def)
  have fr: "hframe (Some b) (sv_blobs s) (Some b1) v" using commit_frame [OF b(1) _ _ _ cm] by (simp add: blob_frame_def)
  have "\<not> is_Panic x" using commit_no_panic [OF b(1,3)] cm by (cases x) auto
  then show ?thesis using assms(1,3) cm k al st' fr by (cases x) auto
qed

lemma step_record:
  assumes "handler_step st do_req lctx (H_Record u resp b digest w) s = (t', s')" and "srv_inv inv holds s"
    and "hok lctx s r (H_Record u resp b digest w)"
  shows "srv_inv inv holds s' \<and> srv_le holds s s' \<and> hok lctx s' r t' \<and> hframe (Some b) (sv_blobs s) (pc_blob t') (sv_blobs s')"
proof (cases "filterHeaders (HeadersToCache lctx) (rs_Header resp)")
  case (Ok hs)
  let ?bi = "\<lparr>Sha256 = hex_encode digest, Headers = hs\<rparr>"
  obtain x f where a: "AddBlob u ?bi (sv_assets s) = (x, f)" by (metis surj_pair)
  have t': "t' = H_Cleanup resp b (wrap_res ''error updating asset file'' x) w" "s' = s\<lparr>sv_assets := f\<rparr>"
    using assms(1) Ok a by simp_all
  have u: "u = extractReqFromURL r" and d: "digest = sha256 (rw_body w)" "holds (sv_blobs s) digest \<noteq> None" using assms(3) by auto
  then have "info_backed (holds (sv_blobs s)) ?bi" by (simp add: info_backed_def hex_decode_encode)
  then have "fw_inv inv holds f (sv_blobs s) \<and> fw_le holds (sv_assets s) (sv_blobs s) f (sv_blobs s)"
    by (intro fw_file [OF _ AddBlob_step [OF a] AddBlob_options [OF a]])
      (use assms(2) filterHeaders_wf [OF Ok] in \<open>auto simp: srv_inv_def\<close>)
  then have st': "srv_inv inv holds (s\<lparr>sv_assets := f\<rparr>)" "srv_le holds s (s\<lparr>sv_assets := f\<rparr>)" by (simp_all add: srv_inv_def srv_le_def)
  have o: "options f = options (sv_assets s)" by (rule AddBlob_options [OF a])
  have "recorded holds (s\<lparr>sv_assets := f\<rparr>) u (rw_body w)" if "x = Ok ()" "keeps_entries s u"
    using AddBlob_same [of u ?bi "sv_assets s" "()" f] a that d by (auto simp: recorded_def hex_decode_encode)
  then have "hok lctx s' r t'" using assms(3) t' u o by (cases x) (auto simp: SkipSave_def)
  then show ?thesis using st' t' by (simp add: blob_frame_def)
next
  case (Err e)
  then show ?thesis using assms by (auto simp: blob_frame_def)
next
  case (Panic p)
  then show ?thesis using assms by (auto simp: blob_frame_def)
qed

lemma step_cleanup:
  assumes "handler_step st do_req lctx (H_Cleanup resp b x w) s = (t', s')" and "srv_inv inv holds s"
    and "hok lctx s r (H_Cleanup resp b x w)"
  shows "srv_inv inv holds s' \<and> srv_le holds s s' \<and> hok lctx s' r t' \<and> hframe (Some b) (sv_blobs s) (pc_blob t') (sv_blobs s')"
proof -
  obtain e b1 v where cl: "Blob_Cleanup st b (sv_blobs s) = (e, b1, v)" by (metis prod_cases3)
  have t': "t' = H_Done (close_body resp (defer_err x e)) w" "s' = s\<lparr>sv_blobs := v\<rparr>" using assms(1) cl by simp_all
  have b: "bwf b" using assms(3) by simp
  note k = cleanup_keeps [OF srv_facts [OF assms(2), THEN conjunct1] b cl] and s = srv_world [OF assms(2), of v]
  have x: "x = Ok ()" if "close_body resp (defer_err x e) = Ok ()"
    using close_body_Ok [OF that] by (cases x) (auto simp: res_simps)
  have "hframe (Some b) (sv_blobs s) None v" using cleanup_frame [OF b _ _ _ cl] by (simp add: blob_frame_def)
  then show ?thesis using t' k s assms(3) x by (simp add: recorded_def)
qed

lemma handler_step_ok:
  assumes "handler_step st do_req lctx t s = (t', s')" and "srv_inv inv holds s" and "hok lctx s r t" and "\<not> is_Done t"
  shows "srv_inv inv holds s' \<and> srv_le holds s s' \<and> hok lctx s' r t' \<and> hframe (pc_blob t) (sv_blobs s) (pc_blob t') (sv_blobs s')"
proof (cases t)
  case (H_Start q w)
  then have "q = r" using assms(3) by simp
  then show ?thesis using step_start [of do_req lctx r w s t' s'] assms H_Start by simp
next
  case (H_Found bi w)
  show ?thesis using step_found [OF assms(1) [unfolded H_Found] assms(2) assms(3) [unfolded H_Found]] by (simp add: H_Found)
next
  case (H_Missing q w)
  show ?thesis using step_missing [OF assms(1) [unfolded H_Missing] assms(2) assms(3) [unfolded H_Missing]] by (simp add: H_Missing)
next
  case (H_Do u q w)
  show ?thesis using step_do [OF assms(1) [unfolded H_Do] assms(2) assms(3) [unfolded H_Do]] by (simp add: H_Do)
next
  case (H_Response u resp w)
  show ?thesis using step_response [OF assms(1) [unfolded H_Response] assms(2) assms(3) [unfolded H_Response]] by (simp add: H_Response)
next
  case (H_Copy u resp b cs w)
  show ?thesis using step_copy [OF assms(1) [unfolded H_Copy] assms(2) assms(3) [unfolded H_Copy]] by (simp add: H_Copy)
next
  case (H_Commit u resp b w)
  show ?thesis using step_commit [OF assms(1) [unfolded H_Commit] assms(2) assms(3) [unfolded H_Commit]] by (simp add: H_Commit)
next
  case (H_Record u resp b digest w)
  show ?thesis using step_record [OF assms(1) [unfolded H_Record] assms(2) assms(3) [unfolded H_Record]] by (simp add: H_Record)
next
  case (H_Cleanup resp b x w)
  show ?thesis using step_cleanup [OF assms(1) [unfolded H_Cleanup] assms(2) assms(3) [unfolded H_Cleanup]] by (simp add: H_Cleanup)
next
  case (H_Done x w)
  then show ?thesis using assms(4) by simp
qed

abbreviation "tinv \<equiv> threads_inv bwf alive pending indep holds inv"

lemma pc_blob_ok: "hok lctx s r t \<Longrightarrow> pc_blob t = Some b \<Longrightarrow> bwf b \<and> alive b (sv_blobs s)"
  by (cases t) auto

lemma threads_step_ok:
  assumes "threads_step st do_req lctx c c'" and "tinv lctx c"
  shows "tinv lctx c' \<and> srv_le holds (snd c) (snd c')"
  using assms
proof (induction rule: threads_step.induct)
  case (arrive ts s r fs)
  then show ?case by (auto simp: threads_inv_def intro: all_indep_snoc)
next
  case (act i ts r t s t' s')
  let ?hs = "map (\<lambda>(r, t). pc_blob t) ts"
  have inv: "srv_inv inv holds s" and ind: "all_indep indep ?hs"
    and oks: "\<And>j. j < length ts \<Longrightarrow> hok lctx s (fst (ts ! j)) (snd (ts ! j))"
    using act.prems nth_mem by (fastforce simp: threads_inv_def)+
  have "hok lctx s r t" using oks [OF act.hyps(1)] act.hyps(2) by simp
  note st = handler_step_ok [OF act.hyps(4) inv this act.hyps(3)]
  have own: "bwf c \<and> alive c (sv_blobs s)" if "j < length ?hs" "?hs ! j = Some c" for j c
    using pc_blob_ok [OF oks [of j]] that by (simp add: split_beta)
  have i: "i < length ?hs" using act.hyps(1) by simp
  have fr: "hframe (?hs ! i) (sv_blobs s) (pc_blob t') (sv_blobs s')" using st act.hyps(1,2) by simp
  note u = frame_update [OF ind i fr own]
  have "hok lctx s' (fst (ts[i := (r, t')] ! j)) (snd (ts[i := (r, t')] ! j))" if j: "j < length ts" for j
  proof (cases "j = i")
    case False
    then have "alive c (sv_blobs s') \<and> pending c (sv_blobs s') = pending c (sv_blobs s)" if "pc_blob (snd (ts ! j)) = Some c" for c
      using u(2) [where j = j and c = c] that j by (simp add: split_beta)
    then show ?thesis using handler_ok_stable [OF oks [OF j], of s'] st False by simp
  qed (use st act.hyps(1) in simp)
  then have "\<forall>(q, x) \<in> set (ts[i := (r, t')]). hok lctx s' q x"
    unfolding split_beta by (metis in_set_conv_nth length_list_update)
  moreover have "all_indep indep (map (\<lambda>(r, t). pc_blob t) (ts[i := (r, t')]))" using u(1) by (simp add: map_update)
  ultimately show ?case using st by (simp add: threads_inv_def)
qed

lemma serves_ok:
  assumes "(threads_step st do_req lctx)\<^sup>*\<^sup>* c c'" and "tinv lctx c"
  shows "tinv lctx c' \<and> srv_le holds (snd c) (snd c')"
  using assms
proof (induction rule: rtranclp_induct)
  case (step c1 c2)
  then have "tinv lctx c1" and le: "srv_le holds (snd c) (snd c1)" by auto
  then show ?case using threads_step_ok [OF step.hyps(2)] srv_le_trans [OF le] by auto
qed simp

lemma threads_inv_nil: "srv_inv inv holds s \<Longrightarrow> tinv lctx ([], s)"
  by (simp add: threads_inv_def)

lemma answered_recorded:
  assumes "(threads_step st do_req lctx)\<^sup>*\<^sup>* ([], s) (ts, s')" and "srv_inv inv holds s"
    and "(r, H_Done (Ok ()) w) \<in> set ts" and "rw_result w = (200, h, c)"
    and "\<not> mm_Match (DummyOK lctx) (url_Redacted (extractReqFromURL r))" and "keeps_entries s (extractReqFromURL r)"
  shows "recorded holds s' (extractReqFromURL r) c"
proof -
  note k = serves_ok [OF assms(1) threads_inv_nil [OF assms(2)], unfolded snd_conv]
  then have "options (sv_assets s') = options (sv_assets s)" by (simp add: srv_le_def fw_le_def)
  moreover have "rw_body w = c" using assms(4) by (auto simp: rw_result_def split: option.splits)
  moreover have "hok lctx s' r (H_Done (Ok ()) w)" using k assms(3) by (auto simp: threads_inv_def)
  ultimately show ?thesis using assms(4,5,6) by (simp add: SkipSave_def)
qed

end

section \<open>Where an entry comes from\<close>

text \<open>
  An entry that the request \<open>r\<close> gave the manifest: the mode fetches, no list excludes its URL, and what was recorded is
  the digest of the whole body of an answer with status 200 to the request that was forwarded for \<open>r\<close>, with the
  first values of headers to cache.
\<close>

definition fetched_entry :: "(request \<Rightarrow> 'n \<Rightarrow> response res \<times> 'n) \<Rightarrow> listenerCtx \<Rightarrow> MapFileOptions \<Rightarrow> request \<Rightarrow> string \<Rightarrow> BlobInfo \<Rightarrow> bool" where
  "fetched_entry do_req lctx opts r k bi \<longleftrightarrow> k = url_Redacted (extractReqFromURL r) \<and>
     FetchIfMissing lctx \<and> \<not> mm_Match (DummyOK lctx) k \<and> \<not> mm_Match (NoCache opts) k \<and>
     (\<exists>nr n resp n'. http_NewRequest (rq_Method r) (url_String (extractReqFromURL r)) (rq_Body r) = Ok nr \<and>
        do_req (nr\<lparr>rq_Header := hdr_add_all (rq_Header r) (rq_Header nr)\<rparr>) n = (Ok resp, n') \<and>
        StatusCode resp = 200 \<and> rd_err (rs_Body resp) = None \<and> Sha256 bi = hex_encode (sha256 (rd_content (rs_Body resp))) \<and>
        (\<forall>h v. gm_get (Headers bi) h = Some v \<longrightarrow> gm_flag (HeadersToCache lctx) h \<and> (\<exists>vs. (h, v # vs) \<in> set (rs_Header resp))))"

text \<open>What a handler knows of the answer that it is about to record.\<close>

definition outgoing :: "request \<Rightarrow> request \<Rightarrow> bool" where
  "outgoing r rq \<longleftrightarrow> (\<exists>nr. http_NewRequest (rq_Method r) (url_String (extractReqFromURL r)) (rq_Body r) = Ok nr \<and>
     rq = nr\<lparr>rq_Header := hdr_add_all (rq_Header r) (rq_Header nr)\<rparr>)"

definition fetching :: "listenerCtx \<Rightarrow> request \<Rightarrow> url \<Rightarrow> bool" where
  "fetching lctx r u \<longleftrightarrow> u = extractReqFromURL r \<and> FetchIfMissing lctx \<and> \<not> mm_Match (DummyOK lctx) (url_Redacted u)"

definition answer_to :: "(request \<Rightarrow> 'n \<Rightarrow> response res \<times> 'n) \<Rightarrow> request \<Rightarrow> response \<Rightarrow> bool" where
  "answer_to do_req r resp \<longleftrightarrow> (\<exists>rq n n'. outgoing r rq \<and> do_req rq n = (Ok resp, n'))"

definition saving :: "(request \<Rightarrow> 'n \<Rightarrow> response res \<times> 'n) \<Rightarrow> listenerCtx \<Rightarrow> MapFileOptions \<Rightarrow> request \<Rightarrow> url \<Rightarrow> response \<Rightarrow> bool" where
  "saving do_req lctx opts r u resp \<longleftrightarrow> fetching lctx r u \<and> answer_to do_req r resp \<and> StatusCode resp = 200 \<and>
     \<not> mm_Match (NoCache opts) (url_Redacted u)"

fun handler_origin :: "(request \<Rightarrow> 'n \<Rightarrow> response res \<times> 'n) \<Rightarrow> listenerCtx \<Rightarrow> MapFileOptions \<Rightarrow> request \<Rightarrow> 'b handler_pc \<Rightarrow> bool" where
  "handler_origin do_req lctx opts r (H_Missing q w) \<longleftrightarrow> \<not> mm_Match (DummyOK lctx) (url_Redacted (extractReqFromURL r))"
| "handler_origin do_req lctx opts r (H_Do u rq w) \<longleftrightarrow> fetching lctx r u \<and> outgoing r rq"
| "handler_origin do_req lctx opts r (H_Response u resp w) \<longleftrightarrow> fetching lctx r u \<and> answer_to do_req r resp"
| "handler_origin do_req lctx opts r (H_Copy u resp b cs w) \<longleftrightarrow> saving do_req lctx opts r u resp"
| "handler_origin do_req lctx opts r (H_Commit u resp b w) \<longleftrightarrow> saving do_req lctx opts r u resp \<and>
     rd_err (rs_Body resp) = None \<and> rw_body w = rd_content (rs_Body resp)"
| "handler_origin do_req lctx opts r (H_Record u resp b digest w) \<longleftrightarrow> saving do_req lctx opts r u resp \<and>
     rd_err (rs_Body resp) = None \<and> digest = sha256 (rd_content (rs_Body resp))"
| "handler_origin do_req lctx opts r t \<longleftrightarrow> True"

text \<open>What is cached of the headers is the first value of some of those to cache.\<close>

lemma filter_headers_origin:
  "filter_headers desired h rv = Ok out \<Longrightarrow> gm_get out k = Some v \<Longrightarrow>
     gm_get rv k = Some v \<or> gm_flag desired k \<and> (\<exists>vs. (k, v # vs) \<in> set h)"
proof (induction desired h rv rule: filter_headers.induct)
  case (2 desired k' vs hs rv)
  show ?case
  proof (cases "gm_flag desired k'")
    case True
    obtain x vs2 rv2 where v: "vs = x # vs2" and p: "gm_put k' x rv = Ok rv2" "filter_headers desired hs rv2 = Ok out"
      using 2(3) True by (auto split: list.splits res.splits)
    have "gm_get rv2 k = Some v \<or> gm_flag desired k \<and> (\<exists>vs. (k, v # vs) \<in> set hs)"
      by (rule 2(1) [OF True v p(1) p(2) 2(4)])
    then show ?thesis using True v by (auto simp: gm_get_put [OF p(1)] split: if_splits)
  next
    case False
    then show ?thesis using 2 by auto
  qed
qed simp

lemma filterHeaders_origin:
  "filterHeaders desired h = Ok out \<Longrightarrow> gm_get out k = Some v \<Longrightarrow> gm_flag desired k \<and> (\<exists>vs. (k, v # vs) \<in> set h)"
  using filter_headers_origin [of desired h gm_make out k v] by (auto simp: filterHeaders_def gomap_simps)

text \<open>An entry of the file after a call is one from before, one of the previous run, or the one that was added.\<close>

lemma file_origin:
  assumes "blobs_step f c f'" and "\<forall>fg. c \<noteq> CReset fg" and "gm_get (blobs f') k = Some bi"
  shows "gm_get (blobs f) k = Some bi \<or> gm_get (previousBlobs f) k = Some bi \<or>
    (\<exists>u. c = CAdd u bi \<and> k = url_Redacted u \<and> \<not> mm_Match (NoCache (options f)) k)"
  using assms by (induction rule: blobs_step.induct) (auto simp: gomap_simps split: if_splits)

lemma file_previous: "blobs_step f c f' \<Longrightarrow> \<forall>fg. c \<noteq> CReset fg \<Longrightarrow> previousBlobs f' = previousBlobs f"
  by (induction rule: blobs_step.induct) auto

definition srv_origin :: "(request \<Rightarrow> 'n \<Rightarrow> response res \<times> 'n) \<Rightarrow> listenerCtx \<Rightarrow> request \<Rightarrow> ('h, 'w, 'n) srv \<Rightarrow> ('h, 'w, 'n) srv \<Rightarrow> bool" where
  "srv_origin do_req lctx r s s' \<longleftrightarrow> previousBlobs (sv_assets s') = previousBlobs (sv_assets s) \<and>
     (\<forall>k bi. gm_get (blobs (sv_assets s')) k = Some bi \<longrightarrow> gm_get (blobs (sv_assets s)) k = Some bi \<or>
        gm_get (previousBlobs (sv_assets s)) k = Some bi \<or> fetched_entry do_req lctx (options (sv_assets s)) r k bi)"

lemma srv_origin_same: "sv_assets s' = sv_assets s \<Longrightarrow> srv_origin do_req lctx r s s'"
  by (simp add: srv_origin_def)

lemma saved_entry:
  assumes "saving do_req lctx opts r u resp" and "rd_err (rs_Body resp) = None"
    and "filterHeaders (HeadersToCache lctx) (rs_Header resp) = Ok hs"
  shows "fetched_entry do_req lctx opts r (url_Redacted u) \<lparr>Sha256 = hex_encode (sha256 (rd_content (rs_Body resp))), Headers = hs\<rparr>"
proof -
  obtain nr n n' where "http_NewRequest (rq_Method r) (url_String (extractReqFromURL r)) (rq_Body r) = Ok nr"
      and "do_req (nr\<lparr>rq_Header := hdr_add_all (rq_Header r) (rq_Header nr)\<rparr>) n = (Ok resp, n')"
    using assms(1) by (auto simp: saving_def answer_to_def outgoing_def)
  moreover have "\<forall>h v. gm_get hs h = Some v \<longrightarrow> gm_flag (HeadersToCache lctx) h \<and> (\<exists>vs. (h, v # vs) \<in> set (rs_Header resp))"
    using filterHeaders_origin [OF assms(3)] by blast
  ultimately show ?thesis
    using assms(1,2) unfolding fetched_entry_def
    by (intro conjI exI [of _ nr] exI [of _ n] exI [of _ resp] exI [of _ n']) (auto simp: saving_def fetching_def)
qed

text \<open>The invariant of all threads, relative to the manifest \<open>f0\<close> that they began with.\<close>

definition threads_origin :: "(request \<Rightarrow> 'n \<Rightarrow> response res \<times> 'n) \<Rightarrow> listenerCtx \<Rightarrow> 'h File \<Rightarrow> 'b threads \<times> ('h, 'w, 'n) srv \<Rightarrow> bool" where
  "threads_origin do_req lctx f0 c \<longleftrightarrow> options (sv_assets (snd c)) = options f0 \<and>
     previousBlobs (sv_assets (snd c)) = previousBlobs f0 \<and>
     (\<forall>(r, t) \<in> set (fst c). handler_origin do_req lctx (options f0) r t) \<and>
     (\<forall>k bi. gm_get (blobs (sv_assets (snd c))) k = Some bi \<longrightarrow> gm_get (blobs f0) k = Some bi \<or> gm_get (previousBlobs f0) k = Some bi \<or>
        (\<exists>r \<in> fst ` set (fst c). fetched_entry do_req lctx (options f0) r k bi))"

context blob_store_shared begin

lemma handler_step_origin:
  assumes "handler_step st do_req lctx t s = (t', s')" and "srv_inv inv holds s" and "hok lctx s r t" and "\<not> is_Done t"
    and "handler_origin do_req lctx (options (sv_assets s)) r t"
  shows "handler_origin do_req lctx (options (sv_assets s)) r t' \<and> srv_origin do_req lctx r s s'"
proof (cases t)
  case (H_Start q w)
  let ?u = "extractReqFromURL r"
  have q: "q = r" using assms(3) H_Start by simp
  obtain g f where g: "GetBlob ?u (sv_assets s) = (g, f)" by (metis surj_pair)
  have "srv_origin do_req lctx r s (s\<lparr>sv_assets := f\<rparr>)"
    using file_origin [OF GetBlob_step [OF g]] file_previous [OF GetBlob_step [OF g]] by (auto simp: srv_origin_def)
  then show ?thesis using assms(1) H_Start q g by (auto simp: Let_def srv_origin_same split: if_splits res.splits option.splits)
next
  case (H_Found bi w)
  then show ?thesis using assms(1) by (auto simp: srv_origin_same split: prod.splits)
next
  case (H_Missing q w)
  have q: "q = r" using assms(3) H_Missing by simp
  have s': "sv_assets s' = sv_assets s" using assms(1) H_Missing by (auto simp: Let_def split: if_splits res.splits)
  have "handler_origin do_req lctx (options (sv_assets s)) r t'"
    using assms(1,5) H_Missing q by (auto simp: Let_def forward_headers_def fetching_def outgoing_def split: if_splits res.splits)
  then show ?thesis using srv_origin_same [OF s'] by simp
next
  case (H_Do u q w)
  have s': "sv_assets s' = sv_assets s" using assms(1) H_Do by (auto split: res.splits prod.splits)
  have "handler_origin do_req lctx (options (sv_assets s)) r t'"
    using assms(1,5) H_Do unfolding answer_to_def by (auto simp: answer_to_def split: res.splits prod.splits) blast
  then show ?thesis using srv_origin_same [OF s'] by simp
next
  case (H_Response u resp w)
  have s': "sv_assets s' = sv_assets s" using assms(1) H_Response by (auto simp: Let_def split: if_splits res.splits prod.splits)
  have "handler_origin do_req lctx (options (sv_assets s)) r t'"
    using assms(1,5) H_Response by (auto simp: Let_def saving_def SkipSave_def split: if_splits res.splits prod.splits)
  then show ?thesis using srv_origin_same [OF s'] by simp
next
  case (H_Copy u resp b cs w)
  show ?thesis
  proof (cases cs)
    case Nil
    then show ?thesis using assms(1,3,5) H_Copy by (auto simp: srv_origin_same split: option.splits)
  next
    case (Cons c cs')
    obtain e w1 b1 v where c: "io_CopyTee tee_client (tee_blob st) [c] None (w, b, sv_blobs s) = (e, w1, b1, v)" by (metis prod_cases4)
    then show ?thesis using assms(1,5) H_Copy Cons
      by (auto simp: srv_origin_same simp del: io_CopyTee.simps split: option.splits)
  qed
next
  case (H_Commit u resp b w)
  obtain x b1 v where cm: "Blob_Commit st b (sv_blobs s) = (x, b1, v)" by (metis prod_cases3)
  have b: "bwf b" "pending b (sv_blobs s) = Some (rw_body w)" using assms(3) H_Commit by auto
  have fw: "fw_inv inv holds (sv_assets s) (sv_blobs s)" using assms(2) by (simp add: srv_inv_def)
  note k = commit_fw [OF fw b cm]
  show ?thesis using assms(1,5) H_Commit cm k by (cases x) (auto simp: srv_origin_same)
next
  case (H_Record u resp b digest w)
  show ?thesis
  proof (cases "filterHeaders (HeadersToCache lctx) (rs_Header resp)")
    case (Ok hs)
    let ?bi = "\<lparr>Sha256 = hex_encode digest, Headers = hs\<rparr>"
    obtain x f where a: "AddBlob u ?bi (sv_assets s) = (x, f)" by (metis surj_pair)
    have e: "fetched_entry do_req lctx (options (sv_assets s)) r (url_Redacted u) ?bi"
      using saved_entry [of do_req lctx "options (sv_assets s)" r u resp hs] assms(5) H_Record Ok by simp
    have "srv_origin do_req lctx r s (s\<lparr>sv_assets := f\<rparr>)"
      using file_origin [OF AddBlob_step [OF a]] file_previous [OF AddBlob_step [OF a]] e by (auto simp: srv_origin_def)
    then show ?thesis using assms(1) H_Record Ok a by auto
  qed (use assms(1) H_Record in \<open>auto simp: srv_origin_same\<close>)
next
  case (H_Cleanup resp b x w)
  then show ?thesis using assms(1) by (auto simp: srv_origin_same split: prod.splits)
next
  case (H_Done x w)
  then show ?thesis using assms(4) by simp
qed

lemma threads_origin_step:
  assumes "threads_step st do_req lctx c c'" and "tinv lctx c" and "threads_origin do_req lctx f0 c"
  shows "threads_origin do_req lctx f0 c'"
  using assms
proof (induction rule: threads_step.induct)
  case (arrive ts s r fs)
  then show ?case by (fastforce simp: threads_origin_def)
next
  case (act i ts r t s t' s')
  have m: "(r, t) \<in> set ts" using act.hyps(1,2) nth_mem by metis
  have inv: "srv_inv inv holds s" and ok: "hok lctx s r t" using act.prems(1) m by (auto simp: threads_inv_def)
  have o: "options (sv_assets s) = options f0" "previousBlobs (sv_assets s) = previousBlobs f0"
    and or: "handler_origin do_req lctx (options (sv_assets s)) r t" using act.prems(2) m by (auto simp: threads_origin_def)
  have le: "options (sv_assets s') = options (sv_assets s)"
    using handler_step_ok [OF act.hyps(4) inv ok act.hyps(3)] by (simp add: srv_le_def fw_le_def)
  note st = handler_step_origin [OF act.hyps(4) inv ok act.hyps(3) or]
  have fs: "fst ` set (ts[i := (r, t')]) = fst ` set ts"
  proof -
    have "map fst (ts[i := (r, t')]) = map fst ts" using act.hyps(1,2) by (simp add: map_update list_update_same_conv)
    then show ?thesis by (metis list.set_map)
  qed
  have "\<forall>(q, x) \<in> set (ts[i := (r, t')]). handler_origin do_req lctx (options f0) q x"
    using st o act.prems(2) set_update_subset_insert [of ts i "(r, t')"] by (auto simp: threads_origin_def)
  moreover have rin: "r \<in> fst ` set ts" using m by force
  have "gm_get (blobs f0) k = Some bi \<or> gm_get (previousBlobs f0) k = Some bi \<or>
      (\<exists>r \<in> fst ` set ts. fetched_entry do_req lctx (options f0) r k bi)"
    if "gm_get (blobs (sv_assets s')) k = Some bi" for k bi
  proof -
    have "gm_get (blobs (sv_assets s)) k = Some bi \<or> gm_get (previousBlobs f0) k = Some bi \<or> fetched_entry do_req lctx (options f0) r k bi"
      using st that unfolding srv_origin_def o by blast
    moreover have "gm_get (blobs f0) k = Some bi \<or> gm_get (previousBlobs f0) k = Some bi \<or>
        (\<exists>r \<in> fst ` set ts. fetched_entry do_req lctx (options f0) r k bi)" if "gm_get (blobs (sv_assets s)) k = Some bi"
      using act.prems(2) that unfolding threads_origin_def fst_conv snd_conv by blast
    ultimately show ?thesis using rin by blast
  qed
  ultimately show ?case using le o st fs by (simp add: threads_origin_def srv_origin_def)
qed

lemma threads_origin_all:
  assumes "(threads_step st do_req lctx)\<^sup>*\<^sup>* ([], s) (ts, s')" and "srv_inv inv holds s"
  shows "threads_origin do_req lctx (sv_assets s) (ts, s')"
proof -
  have "tinv lctx c \<and> threads_origin do_req lctx (sv_assets s) c" if "(threads_step st do_req lctx)\<^sup>*\<^sup>* ([], s) c" for c
    using that
  proof (induction rule: rtranclp_induct)
    case base
    show ?case using threads_inv_nil [OF assms(2)] by (simp add: threads_origin_def)
  next
    case (step c1 c2)
    then show ?case using threads_step_ok threads_origin_step by blast
  qed
  then show ?thesis using assms(1) by blast
qed

end

text \<open>A machine that runs alone for a while, among the others.\<close>

lemma threads_run_list:
  "handler_run st do_req lctx n t s = (t', s') \<Longrightarrow>
    (threads_step st do_req lctx)\<^sup>*\<^sup>* (ts @ (r, t) # us, s) (ts @ (r, t') # us, s')"
proof (induction n arbitrary: t s)
  case (Suc n)
  obtain t1 s1 where h: "handler_step st do_req lctx t s = (t1, s1)" by (metis surj_pair)
  have run: "handler_run st do_req lctx n t1 s1 = (t', s')" using Suc.prems h by simp
  show ?case
  proof (cases "is_Done t")
    case True
    then have "t1 = t \<and> s1 = s" using h by (cases t) auto
    then show ?thesis using Suc.IH [OF run] by simp
  next
    case False
    have "threads_step st do_req lctx (ts @ (r, t) # us, s) ((ts @ (r, t) # us)[length ts := (r, t1)], s1)"
      by (rule threads_step.act [OF _ _ False h]) simp_all
    then show ?thesis using Suc.IH [OF run] by (simp add: converse_rtranclp_into_rtranclp)
  qed
qed simp

section \<open>Properties\<close>

text \<open>
  C5. Requests side by side. Whatever requests arrive, whenever, and however their handlers interleave, in whatever mode,
  and whatever the network, the file system and the clients do, at every moment the directory store is
  content-addressed, the manifest is well-formed and each of its entries is backed by a blob; no blob
  disappears, and no entry changes in a manifest that does not allow to overwrite.
\<close>

theorem threads_keep_backed:
  assumes "srv_inv (dir_inv (ds_dir d)) (dir_holds (ds_dir d)) s" and "file_backed (dir_holds (ds_dir d) (sv_blobs s)) (sv_assets s)"
    and "(threads_step (dir_store d) do_req lctx)\<^sup>*\<^sup>* ([], s) (ts, s2)"
  shows "srv_inv (dir_inv (ds_dir d)) (dir_holds (ds_dir d)) s2 \<and>
    file_backed (dir_holds (ds_dir d) (sv_blobs s2)) (sv_assets s2) \<and>
    dom (dir_holds (ds_dir d) (sv_blobs s)) \<subseteq> dom (dir_holds (ds_dir d) (sv_blobs s2)) \<and>
    (\<not> AllowOverwrite (options (sv_assets s)) \<longrightarrow> gm_get (blobs (sv_assets s)) \<subseteq>\<^sub>m gm_get (blobs (sv_assets s2)))"
  using dss.serves_ok [OF assms(3) dss.threads_inv_nil [OF assms(1)]] assms(2)
  by (simp add: threads_inv_def srv_le_def fw_le_def)

text \<open>Two requests for the sample: the second one is answered while the first one has only missed.\<close>

abbreviation sample_missed :: "caf threads" where
  "sample_missed \<equiv> [(sample_request, H_Missing sample_request (rw_new []))]"

lemma sample_serves:
  "\<exists>w1 s1. (threads_step (dir_store sample_store) sample_net sample_build)\<^sup>*\<^sup>* ([], sample_srv)
      (sample_missed @ [(sample_request, H_Done (Ok ()) w1)], s1) \<and>
    rw_result w1 = (200, hdr_add_all (rs_Header sample_response) [], ''hello'')"
proof -
  let ?step = "threads_step (dir_store sample_store) sample_net sample_build" and ?r = sample_request
  have net: "sample_net (sample_outgoing\<lparr>rq_Header := hdr_add_all (rq_Header ?r) (rq_Header sample_outgoing)\<rparr>) (sv_net sample_srv)
      = (Ok sample_response, 1)" by (simp add: sample_net_def sample_srv_def)
  obtain w1 s1 where h: "handleMainServerRequest (dir_store sample_store) sample_net sample_build ?r (rw_new []) sample_srv = (Ok (), w1, s1)"
    and r: "rw_result w1 = (200, hdr_add_all (rs_Header sample_response) [], ''hello'')"
    using fetch_ready [of sample_store sample_srv sample_build ?r sample_outgoing sample_net sample_response 1,
        OF sample_inv sample_ready _ _ _ _ _ _ _ sample_new_request net]
    by (auto simp: sample_simps sample_response_simps)
  obtain f where "GetBlob sample_url (sv_assets sample_srv) = (Ok None, f)" using sample_get(1) by (metis prod.collapse)
  then have g: "GetBlob sample_url (sv_assets sample_srv) = (Ok None, sv_assets sample_srv)" using GetBlob_None by blast
  have "?step ([], sample_srv) ([(?r, H_Start ?r (rw_new []))], sample_srv)" using threads_step.arrive [of _ _ _ "[]"] by simp
  moreover have "?step ([(?r, H_Start ?r (rw_new []))], sample_srv) ([(?r, H_Start ?r (rw_new []))][0 := (?r, H_Missing ?r (rw_new []))], sample_srv)"
    by (rule threads_step.act [where t = "H_Start ?r (rw_new [])"]) (simp_all add: sample_extract g)
  moreover have "?step (sample_missed, sample_srv) (sample_missed @ [(?r, H_Start ?r (rw_new []))], sample_srv)" by (rule threads_step.arrive)
  ultimately have "?step\<^sup>*\<^sup>* ([], sample_srv) (sample_missed @ [(?r, H_Start ?r (rw_new []))], sample_srv)"
    by (simp add: rtranclp.rtrancl_into_rtrancl)
  moreover obtain n where "handler_run (dir_store sample_store) sample_net sample_build n (H_Start ?r (rw_new [])) sample_srv = (H_Done (Ok ()) w1, s1)"
    using handler_alone [OF h] by blast
  then have "?step\<^sup>*\<^sup>* (sample_missed @ [(?r, H_Start ?r (rw_new []))], sample_srv) (sample_missed @ [(?r, H_Done (Ok ()) w1)], s1)"
    by (rule threads_run_list)
  ultimately show ?thesis using r by (meson rtranclp_trans)
qed

lemma sample_backed: "file_backed (dir_holds (ds_dir sample_store) (sv_blobs sample_srv)) (sv_assets sample_srv)"
  by (simp add: file_backed_def sample_srv_def sample_file_def)

lemma threads_keep_backed_witness:
  "\<exists>w1 s1. (threads_step (dir_store sample_store) sample_net sample_build)\<^sup>*\<^sup>* ([], sample_srv)
      (sample_missed @ [(sample_request, H_Done (Ok ()) w1)], s1) \<and>
    file_backed (dir_holds [''blobs''] (sv_blobs s1)) (sv_assets s1)"
proof -
  obtain w1 s1 where s: "(threads_step (dir_store sample_store) sample_net sample_build)\<^sup>*\<^sup>* ([], sample_srv)
      (sample_missed @ [(sample_request, H_Done (Ok ()) w1)], s1)" using sample_serves by blast
  from threads_keep_backed [OF sample_inv sample_backed s] show ?thesis unfolding sample_dir using s by blast
qed

text \<open>
  C6. What clients got is what was recorded. For a manifest that does not allow to overwrite and a URL that neither
  the dummy nor the no-cache list matches: however the handlers of a build interleave, when one has answered a request
  with status 200 and without an error, the manifest has an entry for its URL, whose digest is that of the body that
  its client got, and the store holds a blob of that digest; and all clients that got such an answer for the same
  URL got contents of the same digest, also when they were fetched at the same time.
\<close>

theorem answers_recorded:
  assumes "srv_inv (dir_inv (ds_dir d)) (dir_holds (ds_dir d)) s" and "(threads_step (dir_store d) do_req lctx)\<^sup>*\<^sup>* ([], s) (ts, s2)"
    and "(r, H_Done (Ok ()) w) \<in> set ts" and "rw_result w = (200, h, c)"
    and "\<not> mm_Match (DummyOK lctx) (url_Redacted (extractReqFromURL r))"
    and "\<not> AllowOverwrite (options (sv_assets s))" and "\<not> SkipSave (extractReqFromURL r) (sv_assets s)"
  shows "(\<exists>bi c'. gm_get (blobs (sv_assets s2)) (url_Redacted (extractReqFromURL r)) = Some bi \<and>
      hex_decode (Sha256 bi) = Ok (sha256 c) \<and> dir_holds (ds_dir d) (sv_blobs s2) (sha256 c) = Some c' \<and> sha256 c' = sha256 c) \<and>
    (\<forall>r' w' h' c'. (r', H_Done (Ok ()) w') \<in> set ts \<and> extractReqFromURL r' = extractReqFromURL r \<and> rw_result w' = (200, h', c')
      \<longrightarrow> sha256 c' = sha256 c)"
proof -
  let ?u = "extractReqFromURL r" and ?holds = "dir_holds (ds_dir d)"
  have ke: "keeps_entries s ?u" using assms(6,7) by simp
  note rec = dss.answered_recorded [OF assms(2,1)]
  have r: "recorded ?holds s2 ?u c" using rec [OF assms(3,4,5) ke] .
  have ca: "content_addressed (?holds (sv_blobs s2))"
    using dss.serves_ok [OF assms(2) dss.threads_inv_nil [OF assms(1)]] by (simp add: threads_inv_def srv_inv_def fw_inv_def)
  have same: "sha256 c' = sha256 c"
    if "(r', H_Done (Ok ()) w') \<in> set ts" "extractReqFromURL r' = ?u" "rw_result w' = (200, h', c')" for r' w' h' c'
  proof -
    have "recorded ?holds s2 ?u c'" using rec [OF that(1,3)] that(2) assms(5) ke by simp
    then show ?thesis using r by (auto simp: recorded_def)
  qed
  obtain bi y where "gm_get (blobs (sv_assets s2)) (url_Redacted ?u) = Some bi" "hex_decode (Sha256 bi) = Ok (sha256 c)"
      and y: "?holds (sv_blobs s2) (sha256 c) = Some y"
    using r by (auto simp: recorded_def)
  moreover have "sha256 y = sha256 c" using content_addressedD [OF ca y] by simp
  ultimately show ?thesis using same by blast
qed

lemma answers_recorded_witness:
  "\<exists>w1 s1 bi. (threads_step (dir_store sample_store) sample_net sample_build)\<^sup>*\<^sup>* ([], sample_srv)
      (sample_missed @ [(sample_request, H_Done (Ok ()) w1)], s1) \<and>
    gm_get (blobs (sv_assets s1)) (url_Redacted sample_url) = Some bi \<and> hex_decode (Sha256 bi) = Ok (sha256 ''hello'')"
proof -
  obtain w1 s1 where s: "(threads_step (dir_store sample_store) sample_net sample_build)\<^sup>*\<^sup>* ([], sample_srv)
      (sample_missed @ [(sample_request, H_Done (Ok ()) w1)], s1)"
    and r: "rw_result w1 = (200, hdr_add_all (rs_Header sample_response) [], ''hello'')" using sample_serves by blast
  have "(sample_request, H_Done (Ok ()) w1) \<in> set (sample_missed @ [(sample_request, H_Done (Ok ()) w1)])" by simp
  from answers_recorded [OF sample_inv s this r] s show ?thesis using sample_get by (auto simp: sample_simps)
qed

text \<open>
  C7. Where the entries of a manifest come from, and what they are. However the handlers interleave and whatever fails,
  an entry of the manifest was there at the start, is one of the previous run under the same key, or was recorded for
  a request that arrived, in a mode that fetches, for a URL that neither the dummy nor the no-cache list matches. Then
  its digest is 64 characters long and that of the whole body of an answer with status 200 to the request that was
  forwarded for it, read without an error, and its headers are among those to cache, with their first values in this answer.
\<close>

theorem entries_fetched:
  assumes "srv_inv (dir_inv (ds_dir d)) (dir_holds (ds_dir d)) s" and "(threads_step (dir_store d) do_req lctx)\<^sup>*\<^sup>* ([], s) (ts, s2)"
    and "gm_get (blobs (sv_assets s2)) k = Some bi"
  shows "gm_get (blobs (sv_assets s)) k = Some bi \<or> gm_get (previousBlobs (sv_assets s)) k = Some bi \<or>
    (\<exists>r \<in> fst ` set ts. k = url_Redacted (extractReqFromURL r) \<and>
       FetchIfMissing lctx \<and> \<not> mm_Match (DummyOK lctx) k \<and> \<not> mm_Match (NoCache (options (sv_assets s))) k \<and> length (Sha256 bi) = 64 \<and>
       (\<exists>nr n resp n'. http_NewRequest (rq_Method r) (url_String (extractReqFromURL r)) (rq_Body r) = Ok nr \<and>
          do_req (nr\<lparr>rq_Header := hdr_add_all (rq_Header r) (rq_Header nr)\<rparr>) n = (Ok resp, n') \<and>
          StatusCode resp = 200 \<and> rd_err (rs_Body resp) = None \<and> Sha256 bi = hex_encode (sha256 (rd_content (rs_Body resp))) \<and>
          (\<forall>h v. gm_get (Headers bi) h = Some v \<longrightarrow> gm_flag (HeadersToCache lctx) h \<and> (\<exists>vs. (h, v # vs) \<in> set (rs_Header resp)))))"
proof -
  have len: "length (Sha256 bi) = 64" if "Sha256 bi = hex_encode (sha256 c)" for c
    using that by (simp add: length_hex_encode)
  have "threads_origin do_req lctx (sv_assets s) (ts, s2)" using dss.threads_origin_all [OF assms(2,1)] .
  then consider "gm_get (blobs (sv_assets s)) k = Some bi" | "gm_get (previousBlobs (sv_assets s)) k = Some bi"
    | r where "r \<in> fst ` set ts" "fetched_entry do_req lctx (options (sv_assets s)) r k bi"
    using assms(3) unfolding threads_origin_def fst_conv snd_conv by blast
  then show ?thesis
  proof cases
    case 3
    then show ?thesis using len unfolding fetched_entry_def by blast
  qed blast+
qed

text \<open>The sample request that was answered is recorded.\<close>

lemma sample_recorded:
  "\<exists>w1 s1 bi. (threads_step (dir_store sample_store) sample_net sample_build)\<^sup>*\<^sup>* ([], sample_srv)
      (sample_missed @ [(sample_request, H_Done (Ok ()) w1)], s1) \<and>
    gm_get (blobs (sv_assets s1)) (url_Redacted sample_url) = Some bi"
proof -
  obtain w1 s1 where s: "(threads_step (dir_store sample_store) sample_net sample_build)\<^sup>*\<^sup>* ([], sample_srv)
      (sample_missed @ [(sample_request, H_Done (Ok ()) w1)], s1)"
    and r: "rw_result w1 = (200, hdr_add_all (rs_Header sample_response) [], ''hello'')" using sample_serves by blast
  have "(sample_request, H_Done (Ok ()) w1) \<in> set (sample_missed @ [(sample_request, H_Done (Ok ()) w1)])" by simp
  from dss.answered_recorded [OF s sample_inv this r] s show ?thesis using sample_get by (auto simp: sample_simps recorded_def)
qed

lemma entries_fetched_witness:
  "\<exists>w1 s1 bi. (threads_step (dir_store sample_store) sample_net sample_build)\<^sup>*\<^sup>* ([], sample_srv)
      (sample_missed @ [(sample_request, H_Done (Ok ()) w1)], s1) \<and>
    gm_get (blobs (sv_assets s1)) (url_Redacted sample_url) = Some bi \<and>
    length (Sha256 bi) = 64 \<and> Sha256 bi = hex_encode (sha256 ''hello'') \<and> (\<forall>h v. gm_get (Headers bi) h = Some v \<longrightarrow> h = ''Content-Type'')"
proof -
  obtain w1 s1 bi where s: "(threads_step (dir_store sample_store) sample_net sample_build)\<^sup>*\<^sup>* ([], sample_srv)
      (sample_missed @ [(sample_request, H_Done (Ok ()) w1)], s1)" and e: "gm_get (blobs (sv_assets s1)) (url_Redacted sample_url) = Some bi"
    using sample_recorded by blast
  have "gm_get (blobs (sv_assets sample_srv)) (url_Redacted sample_url) = None" "previousBlobs (sv_assets sample_srv) = None"
    by (simp_all add: sample_srv_def sample_file_def gm_get_def gm_make_def)
  then have n: "gm_get (blobs (sv_assets sample_srv)) (url_Redacted sample_url) \<noteq> Some bi" "gm_get (previousBlobs (sv_assets sample_srv)) (url_Redacted sample_url) \<noteq> Some bi"
    by (simp_all add: gm_get_def)
  from entries_fetched [OF sample_inv s e] n obtain resp where l: "length (Sha256 bi) = 64" and b: "Sha256 bi = hex_encode (sha256 (rd_content (rs_Body resp)))"
    and n: "\<exists>q n n'. sample_net q n = (Ok resp, n')" and h: "\<forall>h v. gm_get (Headers bi) h = Some v \<longrightarrow> gm_flag (HeadersToCache sample_build) h"
    by blast
  have "resp = sample_response" using n by (auto simp: sample_net_def)
  moreover have "h = ''Content-Type''" if "gm_flag (HeadersToCache sample_build) h" for h
    using that by (auto simp: sample_build_def gm_flag_def gm_get_def split: if_splits)
  ultimately have "Sha256 bi = hex_encode (sha256 ''hello'')" and "\<forall>h v. gm_get (Headers bi) h = Some v \<longrightarrow> h = ''Content-Type''"
    using b h sample_response_simps(4) by auto
  then show ?thesis using s e l by blast
qed

end
