(* ===== verification/StoreLift.thy ===== *)
theory StoreLift
  imports Backend ServerThreads
begin

text \<open>
  The request handler does the same over a store and over the same store seen through a larger world (\<open>store_lift\<close>):
  what is proved of a directory store holds of the interface value of the commands. So does the contract for several
  blobs at a time.
\<close>

lemma io_Copy_sim:
  assumes "\<And>c s. wr' c (F s) = (case wr c s of (x, s1) \<Rightarrow> (x, F s1))"
  shows "io_Copy wr' cs e (F s) = (case io_Copy wr cs e s of (r, s1) \<Rightarrow> (r, F s1))"
  by (induction cs arbitrary: s) (auto simp: assms split: prod.splits option.splits)

lemma io_CopyTee_sim:
  assumes "\<And>c s. wr' c (F s) = (case wr c s of (x, s1) \<Rightarrow> (x, F s1))"
    and "\<And>c s. tee' c (F s) = (case tee c s of (x, s1) \<Rightarrow> (x, F s1))"
  shows "io_CopyTee wr' tee' cs e (F s) = (case io_CopyTee wr tee cs e s of (r, s1) \<Rightarrow> (r, F s1))"
proof (induction cs arbitrary: s)
  case (Cons c cs)
  obtain n er s1 where t: "tee c s = ((n, er), s1)" by (metis surj_pair)
  show ?case
    using Cons.IH t by (cases er) (auto simp: assms split: prod.splits option.splits)
qed simp

definition lift_srv :: "('w \<Rightarrow> 'v \<Rightarrow> 'v) \<Rightarrow> 'v \<Rightarrow> ('h, 'w, 'n) srv \<Rightarrow> ('h, 'v, 'n) srv" where
  "lift_srv upd v s =
     \<lparr>sv_assets = sv_assets s, sv_blobs = upd (sv_blobs s) v, sv_net = sv_net s, sv_missing = sv_missing s\<rparr>"

lemma lift_srv_simps [simp]:
  "sv_assets (lift_srv upd v s) = sv_assets s" "sv_blobs (lift_srv upd v s) = upd (sv_blobs s) v"
  "sv_net (lift_srv upd v s) = sv_net s" "sv_missing (lift_srv upd v s) = sv_missing s"
  "(lift_srv upd v s)\<lparr>sv_assets := f\<rparr> = lift_srv upd v (s\<lparr>sv_assets := f\<rparr>)"
  "(lift_srv upd v s)\<lparr>sv_blobs := upd w v\<rparr> = lift_srv upd v (s\<lparr>sv_blobs := w\<rparr>)"
  "(lift_srv upd v s)\<lparr>sv_net := n\<rparr> = lift_srv upd v (s\<lparr>sv_net := n\<rparr>)"
  "(lift_srv upd v s)\<lparr>sv_missing := k\<rparr> = lift_srv upd v (s\<lparr>sv_missing := k\<rparr>)"
  by (simp_all add: lift_srv_def)

context store_lift begin

lemmas lifts = lift_get lift_exists lift_put lift_write lift_commit lift_cleanup view_upd upd_upd

lemma blob_write_lift:
  "blob_write big p (emb (fst s), upd (snd s) v) = (case blob_write st p s of (x, s1) \<Rightarrow> (x, (emb (fst s1), upd (snd s1) v)))"
  by (auto simp: blob_write_def lifts split: prod.splits)

lemma copy_response_lift:
  "copy_response big body wr (emb b) (upd w v) =
     (case copy_response st body wr b w of (r, wr1, b1, w1) \<Rightarrow> (r, wr1, emb b1, upd w1 v))"
proof (cases wr)
  case None
  let ?F = "\<lambda>s. (emb (fst s), upd (snd s) v)"
  have "io_Copy (blob_write big) (rd_chunks body) (rd_err body) (emb b, upd w v) =
      (case io_Copy (blob_write st) (rd_chunks body) (rd_err body) (b, w) of (r, s1) \<Rightarrow> (r, ?F s1))"
    using io_Copy_sim [of "blob_write big" ?F "blob_write st" "rd_chunks body" "rd_err body" "(b, w)"] blob_write_lift by simp
  then show ?thesis using None by (auto simp: copy_response_def split: prod.splits)
next
  case (Some r0)
  let ?F = "\<lambda>s. (fst s :: rw, emb (fst (snd s)), upd (snd (snd s)) v)"
  have "tee_client c (?F s) = (case tee_client c s of (x, s1) \<Rightarrow> (x, ?F s1))" for c s
    by (auto simp: tee_client_def split: prod.splits)
  moreover have "tee_blob big c (?F s) = (case tee_blob st c s of (x, s1) \<Rightarrow> (x, ?F s1))" for c s
    using blob_write_lift [of c "snd s" v] by (auto simp: tee_blob_def split: prod.splits)
  ultimately have "io_CopyTee tee_client (tee_blob big) (rd_chunks body) (rd_err body) (r0, emb b, upd w v) =
      (case io_CopyTee tee_client (tee_blob st) (rd_chunks body) (rd_err body) (r0, b, w) of (r, s1) \<Rightarrow> (r, ?F s1))"
    using io_CopyTee_sim [of tee_client ?F tee_client "tee_blob big" "tee_blob st" "rd_chunks body" "rd_err body" "(r0, b, w)"] by simp
  then show ?thesis using Some by (auto simp: copy_response_def split: prod.splits)
qed

lemma store_response_lift:
  "store_response big u hs resp wr (emb b) f (upd w v) =
     (case store_response st u hs resp wr b f w of (r, wr1, b1, f1, w1) \<Rightarrow> (r, wr1, emb b1, f1, upd w1 v))"
proof -
  obtain x wr2 b2 w2 where c: "copy_response st (rs_Body resp) wr b w = (x, wr2, b2, w2)" by (metis surj_pair)
  obtain y b3 w3 where m: "Blob_Commit st b2 w2 = (y, b3, w3)" by (metis surj_pair)
  have m': "Blob_Commit big (emb b2) (upd w2 v) = (y, emb b3, upd w3 v)"
    by (simp add: lift_commit view_upd upd_upd m)
  note cl = copy_response_lift [of "rs_Body resp" wr b w v, unfolded c prod.case]
  show ?thesis
  proof (cases x)
    case x: (Ok u1)
    show ?thesis
    proof (cases y)
      case y: (Ok k)
      show ?thesis
        by (cases "filterHeaders hs (rs_Header resp)") (simp_all add: store_response_def cl c m m' x y split: prod.split)
    qed (simp_all add: store_response_def cl c m m' x)
  qed (simp_all add: store_response_def cl c)
qed

lemma handle_response_lift:
  "handle_response big u hs resp wr (lift_srv upd v s) =
     (case handle_response st u hs resp wr s of (r, wr1, s1) \<Rightarrow> (r, wr1, lift_srv upd v s1))"
proof -
  obtain x w1 where p: "Store_Put st (sv_blobs s) = (x, w1)" by (metis surj_pair)
  show ?thesis
  proof (cases x)
    case (Ok b)
    let ?wr = "map_option (\<lambda>r. rw_WriteHeader 200 (r\<lparr>rw_header := hdr_add_all (rs_Header resp) (rw_header r)\<rparr>)) wr"
    obtain r2 wr2 b2 f2 w2 where sr: "store_response st u hs resp ?wr b (sv_assets s) w1 = (r2, wr2, b2, f2, w2)"
      by (rule prod_cases5)
    obtain e b3 w3 where cl: "Blob_Cleanup st b2 w2 = (e, b3, w3)" by (metis surj_pair)
    have put: "Store_Put big (upd (sv_blobs s) v) = (Ok (emb b), upd w1 v)" by (simp add: lift_put view_upd upd_upd p Ok)
    have cl': "Blob_Cleanup big (emb b2) (upd w2 v) = (e, emb b3, upd w3 v)" by (simp add: lift_cleanup view_upd upd_upd cl)
    note sr' = store_response_lift [of u hs resp ?wr b "sv_assets s" w1 v, unfolded sr prod.case]
    show ?thesis
    proof (cases "SkipSave u (sv_assets s) \<or> StatusCode resp \<noteq> 200")
      case True
      then show ?thesis by (simp add: handle_response_def Let_def split: option.split prod.split)
    next
      case False
      then show ?thesis
        by (simp add: handle_response_def Let_def put p Ok sr sr' cl cl')
    qed
  next
    case (Err e)
    have "Store_Put big (upd (sv_blobs s) v) = (Err e, upd w1 v)" by (simp add: lift_put view_upd upd_upd p Err)
    then show ?thesis by (simp add: handle_response_def Let_def p Err split: option.split prod.split)
  next
    case (Panic e)
    have "Store_Put big (upd (sv_blobs s) v) = (Panic e, upd w1 v)" by (simp add: lift_put view_upd upd_upd p Panic)
    then show ?thesis by (simp add: handle_response_def Let_def p Panic split: option.split prod.split)
  qed
qed

lemma fetch_lift:
  "fetchAndSaveBlob big do_req meth body u hs pre wr (lift_srv upd v s) =
     (case fetchAndSaveBlob st do_req meth body u hs pre wr s of (r, wr1, s1) \<Rightarrow> (r, wr1, lift_srv upd v s1))"
  by (simp add: fetchAndSaveBlob_def handle_response_lift split: res.split prod.split option.split)

lemma serveFound_lift:
  "serveFoundBlob big bi r (upd w v) = (case serveFoundBlob st bi r w of (x, r1, w1) \<Rightarrow> (x, r1, upd w1 v))"
  by (simp add: serveFoundBlob_def lift_get view_upd upd_upd Let_def split: res.split prod.split)

lemma handle_lift:
  "handleMainServerRequest big do_req lctx rq w (lift_srv upd v s) =
     (case handleMainServerRequest st do_req lctx rq w s of (r, w1, s1) \<Rightarrow> (r, w1, lift_srv upd v s1))"
  by (simp add: handleMainServerRequest_def Let_def serveFound_lift fetch_lift split: res.split prod.split option.split)

lemma serve_all_lift:
  "serve_all big do_req lctx rs (lift_srv upd v s) = lift_srv upd v (serve_all st do_req lctx rs s)"
proof (induction rs arbitrary: s)
  case (Cons q rs)
  obtain rq fs where q: "q = (rq, fs)" by (metis surj_pair)
  obtain x w1 s1 where h: "handleMainServerRequest st do_req lctx rq (rw_new fs) s = (x, w1, s1)" by (metis prod_cases3)
  show ?case using Cons.IH [of s1] by (cases x) (simp_all add: q proxy_handler_def handle_lift h)
qed simp

end

section \<open>Several blobs at a time\<close>

locale shared_lift = store_lift st holds inv bwf pending big view upd emb prj + base: blob_store_shared st holds inv bwf pending alive indep
  for st :: "('w, 'b) Store" and holds and inv and bwf and pending and big :: "('v, 'c) Store" and view and upd and emb and prj
    and alive and indep

sublocale shared_lift \<subseteq> lifted: blob_store_shared big "\<lambda>v. holds (view v)" "\<lambda>v. inv (view v)"
    "\<lambda>c. \<exists>b. c = emb b \<and> bwf b" "\<lambda>c v. pending (prj c) (view v)" "\<lambda>c v. alive (prj c) (view v)" "\<lambda>b c. indep (prj b) (prj c)"
proof (unfold_locales, goal_cases)
  case (1 b c)
  then show ?case by (rule base.indep_sym)
next
  case (2 k w r w' c)
  then show ?case using base.get_frame by (auto simp: lift_get view_upd split: prod.splits)
next
  case (3 k w rx w' c)
  then show ?case using base.exists_frame by (auto simp: lift_exists view_upd split: prod.splits)
next
  case (4 w rp w' c)
  then show ?case using base.put_frame by (auto simp: lift_put view_upd split: prod.splits)
next
  case (5 w b w' c)
  obtain rp w1 where p: "Store_Put st (view w) = (rp, w1)" by (metis surj_pair)
  then obtain b0 where "rp = Ok b0" using 5 by (cases rp) (auto simp: lift_put)
  then show ?case using 5 p base.put_alive [of "view w" b0 w1] by (auto simp: lift_put view_upd prj_emb)
next
  case (6 b w p rw b' w')
  then obtain b0 where b: "b = emb b0" "bwf b0" by blast
  obtain r1 b1 w1 where c: "Blob_Write st b0 p (view w) = (r1, b1, w1)" by (metis surj_pair)
  have r: "b' = emb b1" "w' = upd w1 w" using 6(3) b(1) c by (simp_all add: lift_write)
  show ?case using 6(2) base.write_alive [OF b(2) _ c] by (simp add: r b(1) view_upd prj_emb)
next
  case (7 b c w p rw b' w')
  then obtain b0 c0 where b: "b = emb b0" "bwf b0" and c: "c = emb c0" "bwf c0" by blast
  obtain r1 b1 w1 where wr: "Blob_Write st b0 p (view w) = (r1, b1, w1)" by (metis surj_pair)
  have r: "b' = emb b1" "w' = upd w1 w" using 7(5) b(1) wr by (simp_all add: lift_write)
  show ?case using 7(3,4) base.write_frame [OF b(2) c(2) _ _ wr] by (simp add: r b(1) c(1) view_upd prj_emb)
next
  case (8 b w rc b' w')
  then obtain b0 where b: "b = emb b0" "bwf b0" by blast
  obtain r1 b1 w1 where c: "Blob_Commit st b0 (view w) = (r1, b1, w1)" by (metis surj_pair)
  have r: "b' = emb b1" "w' = upd w1 w" using 8(3) b(1) c by (simp_all add: lift_commit)
  show ?case using 8(2) base.commit_alive [OF b(2) _ c] by (simp add: r b(1) view_upd prj_emb)
next
  case (9 b c w rc b' w')
  then obtain b0 c0 where b: "b = emb b0" "bwf b0" and c: "c = emb c0" "bwf c0" by blast
  obtain r1 b1 w1 where wr: "Blob_Commit st b0 (view w) = (r1, b1, w1)" by (metis surj_pair)
  have r: "b' = emb b1" "w' = upd w1 w" using 9(5) b(1) wr by (simp_all add: lift_commit)
  show ?case using 9(3,4) base.commit_frame [OF b(2) c(2) _ _ wr] by (simp add: r b(1) c(1) view_upd prj_emb)
next
  case (10 b c w re b' w')
  then obtain b0 c0 where b: "b = emb b0" "bwf b0" and c: "c = emb c0" "bwf c0" by blast
  obtain r1 b1 w1 where wr: "Blob_Cleanup st b0 (view w) = (r1, b1, w1)" by (metis surj_pair)
  have r: "b' = emb b1" "w' = upd w1 w" using 10(5) b(1) wr by (simp_all add: lift_cleanup)
  show ?case using 10(3,4) base.cleanup_frame [OF b(2) c(2) _ _ wr] by (simp add: r b(1) c(1) view_upd prj_emb)
qed

interpretation fls: shared_lift "dir_store s" "dir_holds (ds_dir s)" "dir_inv (ds_dir s)" "caf_wf (ds_dir s)" caf_pending
    "any_store pl (FileStore s)" fst "\<lambda>w v. (w, snd v)" FileBlob un_FileBlob caf_alive caf_indep for s pl
  by unfold_locales

end
