(* ===== verification/CommandRuns.thy ===== *)
theory CommandRuns
  imports Commands StoreLift
begin

text \<open>
  Whole runs of the commands, from the files that one leaves to those that the next one opens.
\<close>

section \<open>The files of a manifest\<close>

text \<open>
  What opening and closing a manifest at \<open>p\<close> may change: its file and its lock file, while directories are at
  most removed and faults consumed.
\<close>

definition man_local :: "path \<Rightarrow> os \<Rightarrow> os \<Rightarrow> bool" where
  "man_local p w w' \<longleftrightarrow>
     (\<forall>q. q \<noteq> p \<and> q \<noteq> path_plus p ''.lock'' \<longrightarrow> fs_get w' q = fs_get w q) \<and>
     set (dirs w') \<subseteq> set (dirs w) \<and> set (faults w') \<subseteq> set (faults w)"

lemma man_local_refl [simp]: "man_local p w w"
  by (simp add: man_local_def)

lemma man_local_trans: "man_local p w1 w2 \<Longrightarrow> man_local p w2 w3 \<Longrightarrow> man_local p w1 w3"
  by (auto simp: man_local_def)

lemma man_localI: "env_le w w' \<Longrightarrow> (\<And>q. q \<noteq> p \<Longrightarrow> q \<noteq> path_plus p ''.lock'' \<Longrightarrow> fs_get w' q = fs_get w q) \<Longrightarrow> man_local p w w'"
  by (simp add: man_local_def env_le_def)

lemma load_local:
  assumes "load f w = (r, f', w')"
  shows "env_le w w' \<and> fs_get w' = fs_get w \<and> options f' = options f"
proof -
  obtain x w1 where r: "os_ReadFile (opt_Path (options f)) w = (x, w1)" by (metis surj_pair)
  then have "w' = w1 \<and> options f' = options f"
    using assms by (auto simp: load_def split: res.splits if_splits)
  then show ?thesis using os_ReadFile_env [OF r] os_ReadFile_same [OF r] by simp
qed

lemma NewMapFile_local:
  assumes "NewMapFile lk opts w = (r, w')" and "fslock_frames lk"
  shows "man_local (opt_Path opts) w w'"
proof (cases "Writable opts")
  case False
  then show ?thesis
    using assms(1) load_local [of "new_file opts" w]
    by (auto simp: NewMapFile_def split: res.splits prod.splits intro!: man_localI)
next
  case True
  let ?lp = "path_plus (opt_Path opts) ''.lock''"
  obtain h w1 where l: "fslock_Lock lk ?lp w = (h, w1)" by (metis surj_pair)
  have fr: "env_le w w1" "\<And>q. q \<noteq> ?lp \<Longrightarrow> fs_get w1 q = fs_get w q" using assms(2) l by (auto simp: fslock_frames_def)
  then have m: "man_local (opt_Path opts) w w1" by (auto intro: man_localI)
  show ?thesis
  proof (cases h)
    case (Ok x)
    obtain y f w2 where ld: "load (new_file opts\<lparr>lock := Some x, lockPath := ?lp\<rparr>) w1 = (y, f, w2)" by (metis prod_cases3)
    then have "man_local (opt_Path opts) w1 w2" using load_local [OF ld] by (auto intro: man_localI)
    moreover have "w' = w2" using assms(1) True l Ok ld by (auto simp: NewMapFile_def split: res.splits)
    ultimately show ?thesis using m man_local_trans by blast
  qed (use assms(1) True l m in \<open>auto simp: NewMapFile_def\<close>)
qed

lemma Close_local:
  assumes "Close lk f w = (r, f', w')" and "fslock_frames lk" and "lockPath f = path_plus (opt_Path (options f)) ''.lock''"
  shows "man_local (opt_Path (options f)) w w'"
proof (cases "Writable (options f)")
  case True
  let ?p = "opt_Path (options f)"
  obtain x f1 w1 where s: "save True f w = (x, f1, w1)" by (metis prod_cases3)
  have m1: "man_local ?p w w1 \<and> lockPath f1 = lockPath f"
    using s os_WriteFile_env [of ?p "json_MarshalIndent (blobs f)" w] os_WriteFile_frame [of ?p "json_MarshalIndent (blobs f)" w]
    by (auto simp: save_def split: option.splits prod.splits intro!: man_localI)
  show ?thesis
  proof (cases "lock f1")
    case None
    then show ?thesis using assms(1) True s m1 by (simp add: Close_def)
  next
    case (Some h)
    obtain e1 w2 where u: "fslock_Unlock lk h w1 = (e1, w2)" by (metis surj_pair)
    obtain e2 w3 where m: "os_Remove (lockPath f1) w2 = (e2, w3)" by (metis surj_pair)
    have "env_le w1 w2 \<and> fs_get w2 = fs_get w1" using assms(2) u by (auto simp: fslock_frames_def)
    then have "man_local ?p w1 w2" by (auto intro: man_localI)
    moreover have "man_local ?p w2 w3"
      using os_Remove_faults [OF m] os_Remove_frame [OF m] m1 assms(3) by (auto simp: man_local_def)
    moreover have "w' = w3" using assms(1) True s Some u m by (simp add: Close_def)
    ultimately show ?thesis using m1 man_local_trans by metis
  qed
qed (use assms(1) in \<open>simp add: Close_def\<close>)

text \<open>A directory store elsewhere does not notice, nor does the manifest notice the store.\<close>

lemma butlast_path_plus [simp]: "butlast (path_plus p x) = butlast p"
  by (simp add: path_plus_def butlast_append)

lemma man_local_dir:
  assumes "man_local p w w'" and "butlast p \<noteq> d"
  shows "(dir_inv d w \<longrightarrow> dir_inv d w') \<and> dir_holds d w' = dir_holds d w"
proof -
  have "d @ [hex_encode k] \<noteq> p \<and> d @ [hex_encode k] \<noteq> path_plus p ''.lock''" for k
    using assms(2) butlast_path_plus [of p "''.lock''"] by (metis butlast_snoc)
  then show ?thesis
    using assms(1) by (auto simp: man_local_def dir_inv_def dir_holds_def list_all_iff fun_eq_iff)
qed

lemma dir_inv_honest: "dir_inv d w \<Longrightarrow> honest w"
proof -
  have "fault_ok (FailAt n e) \<Longrightarrow> \<not> err_is e ErrNotExist" for n e by (cases e) (auto simp: fault_ok_def)
  then show "dir_inv d w \<Longrightarrow> honest w" unfolding dir_inv_def honest_def list_all_iff by blast
qed

lemma dir_local_at: "dir_local d w w' \<Longrightarrow> butlast p \<noteq> d \<Longrightarrow> fs_get w' p = fs_get w p"
  by (simp add: dir_local_def)

lemma clean_synced_at:
  "clean_synced w f \<Longrightarrow> fs_get w' (opt_Path (options f)) = fs_get w (opt_Path (options f)) \<Longrightarrow> clean_synced w' f"
  by (simp add: clean_synced_def on_disk_def)

section \<open>The store of the options\<close>

text \<open>
  What the code relies on of \<open>xdg.DataFile\<close>: it gives the same path for a name each time, creates no file, and of
  directories at most the parents of that path.
\<close>

definition gives_path :: "path \<Rightarrow> (os \<Rightarrow> string res \<times> os) \<Rightarrow> string \<Rightarrow> bool" where
  "gives_path cwd f q \<longleftrightarrow> (\<forall>w r w'. f w = (r, w') \<longrightarrow>
     fs_get w' = fs_get w \<and> set (faults w') \<subseteq> set (faults w) \<and>
     set (dirs w') \<subseteq> set (dirs w) \<union> set (prefixes_of (butlast (path_of cwd q))) \<and> (\<forall>x. r = Ok x \<longrightarrow> x = q))"

definition xdg_ok :: "'m platform \<Rightarrow> bool" where
  "xdg_ok pl \<longleftrightarrow> (\<forall>p. \<exists>q. gives_path (pl_cwd pl) (xdg_DataFile pl p) q)"

lemma gives_pathD:
  assumes "gives_path cwd f q" and "f w = (r, w')"
  shows "fs_get w' = fs_get w" "set (faults w') \<subseteq> set (faults w)"
    "set (dirs w') \<subseteq> set (dirs w) \<union> set (prefixes_of (butlast (path_of cwd q)))" "r = Ok x \<Longrightarrow> x = q"
  using assms by (auto simp: gives_path_def)

lemma prefixes_butlast: "d @ [x] \<notin> set (prefixes_of (butlast d))"
  using prefixes_of_length [of "d @ [x]" "butlast d"] by auto

lemma xdgIt_ok:
  assumes "xdg_ok pl"
  obtains q where "gives_path (pl_cwd pl) (xdgIt pl p) q"
proof (cases "has_prefix p xdg_home")
  case True
  obtain q where q: "gives_path (pl_cwd pl) (xdg_DataFile pl (drop (length xdg_home) p)) q"
    using assms unfolding xdg_ok_def by blast
  have "gives_path (pl_cwd pl) (xdgIt pl p) q"
    unfolding gives_path_def
  proof (intro allI impI)
    fix w r w' assume x: "xdgIt pl p w = (r, w')"
    obtain y w1 where y: "xdg_DataFile pl (drop (length xdg_home) p) w = (y, w1)" by (metis surj_pair)
    have "w' = w1 \<and> (\<forall>z. r = Ok z \<longrightarrow> y = Ok z)" using x y True by (cases y) (auto simp: xdgIt_def)
    then show "fs_get w' = fs_get w \<and> set (faults w') \<subseteq> set (faults w) \<and>
       set (dirs w') \<subseteq> set (dirs w) \<union> set (prefixes_of (butlast (path_of (pl_cwd pl) q))) \<and> (\<forall>x. r = Ok x \<longrightarrow> x = q)"
      using gives_pathD [OF q y] by blast
  qed
  then show thesis by (rule that)
next
  case False
  then have "gives_path (pl_cwd pl) (xdgIt pl p) p" by (simp add: gives_path_def xdgIt_def)
  then show thesis by (rule that)
qed

lemma MakeBlobStore_file:
  assumes "MakeBlobStore pl co wr w = (Ok (FileStore d), w')"
  shows "BlobsBackend co = ''filesystem'' \<and> (\<exists>x. xdgIt pl (BlobsDir co) w = (Ok x, w') \<and> d = NewDirectoryStore (path_of (pl_cwd pl) x) wr)"
proof -
  have "map_res BucketStore y \<noteq> Ok (FileStore d)" for y by (cases y) auto
  then show ?thesis using assms by (auto simp: MakeBlobStore_def split: if_splits res.splits prod.splits)
qed

lemma MakeBlobStore_files:
  assumes "MakeBlobStore pl co wr w = (r, w')" and "xdg_ok pl"
  shows "fs_get w' = fs_get w"
proof -
  obtain q where "gives_path (pl_cwd pl) (xdgIt pl (BlobsDir co)) q" using xdgIt_ok [OF assms(2)] .
  note g = gives_pathD(1) [OF this]
  show ?thesis using assms(1) by (auto simp: MakeBlobStore_def split: if_splits res.splits prod.splits dest!: g)
qed

lemma MakeBlobStore_inv:
  assumes "MakeBlobStore pl co wr w = (Ok (FileStore d), w')" and "xdg_ok pl"
  shows "ds_writable d = wr \<and> (dir_inv (ds_dir d) w \<longrightarrow> dir_inv (ds_dir d) w')"
proof -
  obtain q where q: "gives_path (pl_cwd pl) (xdgIt pl (BlobsDir co)) q" using xdgIt_ok [OF assms(2)] .
  obtain x where x: "xdgIt pl (BlobsDir co) w = (Ok x, w')" "d = NewDirectoryStore (path_of (pl_cwd pl) x) wr"
    using MakeBlobStore_file [OF assms(1)] by blast
  have "x = q" by (rule gives_pathD(4) [OF q x(1)]) simp
  then have d: "ds_dir d = path_of (pl_cwd pl) q" "ds_writable d = wr" using x(2) by (simp_all add: NewDirectoryStore_def)
  show ?thesis
    using gives_pathD(2,3) [OF q x(1)] prefixes_butlast [of "ds_dir d"] unfolding d dir_inv_def list_all_iff by blast
qed

lemma MakeBlobStore_same:
  assumes "MakeBlobStore pl co wr w = (Ok (FileStore d), w')" and "MakeBlobStore pl co wr2 w2 = (Ok bs, w3)" and "xdg_ok pl"
  shows "bs = FileStore (NewDirectoryStore (ds_dir d) wr2)"
proof -
  obtain q where q: "gives_path (pl_cwd pl) (xdgIt pl (BlobsDir co)) q" using xdgIt_ok [OF assms(3)] .
  obtain x where x: "BlobsBackend co = ''filesystem''" "xdgIt pl (BlobsDir co) w = (Ok x, w')"
      "d = NewDirectoryStore (path_of (pl_cwd pl) x) wr"
    using MakeBlobStore_file [OF assms(1)] by blast
  obtain y where y: "xdgIt pl (BlobsDir co) w2 = (Ok y, w3)" "bs = FileStore (NewDirectoryStore (path_of (pl_cwd pl) y) wr2)"
    using assms(2) x(1) by (auto simp: MakeBlobStore_def split: res.splits prod.splits)
  have "x = q" by (rule gives_pathD(4) [OF q x(2)]) simp
  moreover have "y = q" by (rule gives_pathD(4) [OF q y(1)]) simp
  ultimately show ?thesis using x(3) y(2) by (simp add: NewDirectoryStore_def)
qed

section \<open>A build and what opens its files\<close>

abbreviation manifest_path :: "'m platform \<Rightarrow> ManifestOptions \<Rightarrow> path" where
  "manifest_path pl mo \<equiv> path_of (pl_cwd pl) (ManifestFile mo)"

lemma build_opened:
  assumes "build_open pl lk bc w0 = (Ok (bl, FileStore d), Some f0, w1)" and "fslock_frames lk" and "xdg_ok pl"
    and "dir_inv (ds_dir d) w0" and "butlast (manifest_path pl (bc_Manifest bc)) \<noteq> ds_dir d"
  shows "bl = \<lparr>FetchIfMissing = True, FailIfMissing = False, DummyOK = None, HeadersToCache = CacheHeaderMap (bc_Fetch bc)\<rparr> \<and>
    (\<exists>wa. MakeBlobStore pl (mo_Cache (bc_Manifest bc)) True w0 = (Ok (FileStore d), wa)) \<and>
    opt_Path (options f0) = manifest_path pl (bc_Manifest bc) \<and> Writable (options f0) \<and> \<not> AllowOverwrite (options f0) \<and>
    lockPath f0 = path_plus (manifest_path pl (bc_Manifest bc)) ''.lock'' \<and> file_wf f0 \<and> clean_synced w1 f0 \<and>
    dir_inv (ds_dir d) w1 \<and> dir_holds (ds_dir d) w1 = dir_holds (ds_dir d) w0"
proof -
  let ?P = "manifest_path pl (bc_Manifest bc)"
  obtain wa nc mf u where o: "MakeBlobStore pl (mo_Cache (bc_Manifest bc)) True w0 = (Ok (FileStore d), wa)"
      "NewMapFile lk \<lparr>opt_Path = ?P, Writable = True, AllowOverwrite = False, NoCache = Some nc\<rparr> wa = (Ok mf, w1)"
      "Reset (ForceRefresh bc) mf = (Ok u, f0)"
      "bl = \<lparr>FetchIfMissing = True, FailIfMissing = False, DummyOK = None, HeadersToCache = CacheHeaderMap (bc_Fetch bc)\<rparr>"
    using assms(1) by (auto simp: build_open_def MakeManifestFile_def split: res.splits prod.splits)
  have f0: "f0 = run_calls [CReset (ForceRefresh bc)] mf" using o(3) by (simp add: run_calls_def)
  note n = NewMapFile_Ok [OF o(2) assms(2)]
  have d: "dir_inv (ds_dir d) wa" "dir_holds (ds_dir d) wa = dir_holds (ds_dir d) w0"
    using MakeBlobStore_inv [OF o(1) assms(3)] MakeBlobStore_files [OF o(1) assms(3)] assms(4) by (simp_all add: dir_holds_def fun_eq_iff)
  have "dir_inv (ds_dir d) w1 \<and> dir_holds (ds_dir d) w1 = dir_holds (ds_dir d) wa"
    using man_local_dir [OF NewMapFile_local [OF o(2) assms(2)]] d(1) assms(5) by simp
  moreover have "file_wf f0" using f0 n run_calls_wf [of mf "[CReset (ForceRefresh bc)]"] by simp
  moreover have "clean_synced w1 f0" using f0 n run_calls_clean [of w1 mf] by simp
  ultimately show ?thesis using o n d(2) f0 by auto
qed

lemma session_closed:
  assumes "close_deferred lk (sv_assets s) (Ok ()) (fst (sv_blobs s)) = (Ok (), w3)" and "fslock_frames lk"
    and "file_run f0 (sv_assets s)" and "fs_get (fst (sv_blobs s)) p = fs_get w1 p"
    and "opt_Path (options f0) = p" and "Writable (options f0)" and "lockPath f0 = path_plus p ''.lock''"
    and "file_wf f0" and "clean_synced w1 f0" and "butlast p \<noteq> d"
    and "dir_inv d (fst (sv_blobs s))"
  shows "(\<exists>mm. on_disk mm p w3 \<and> manifest_digests (blobs (sv_assets s)) mm \<and>
      (manifest_plain (blobs (sv_assets s)) \<longrightarrow> manifest_same (blobs (sv_assets s)) mm)) \<and>
    dir_inv d w3 \<and> dir_holds d w3 = dir_holds d (fst (sv_blobs s))"
proof -
  note f = file_run_facts [OF assms(3)]
  have cs: "clean_synced (fst (sv_blobs s)) (sv_assets s)"
    using f assms(4,5,9) clean_synced_at [of w1 "sv_assets s" "fst (sv_blobs s)"] by simp
  obtain f' where c: "Close lk (sv_assets s) (fst (sv_blobs s)) = (Ok (), f', w3)"
    using assms(1) by (auto simp: close_deferred_def split: res.splits prod.splits)
  have "(\<exists>mm. on_disk mm p w3 \<and> manifest_digests (blobs (sv_assets s)) mm \<and>
      (manifest_plain (blobs (sv_assets s)) \<longrightarrow> manifest_same (blobs (sv_assets s)) mm))"
    using Close_Ok [OF c] f assms cs by auto
  moreover have "man_local p (fst (sv_blobs s)) w3"
    using Close_local [OF c assms(2)] f assms(5,7) by simp
  ultimately show ?thesis using man_local_dir assms(10,11) by blast
qed

lemma file_loc_at: "file_loc d v v' \<Longrightarrow> butlast p \<noteq> d \<Longrightarrow> fs_get (fst v') p = fs_get (fst v) p"
  by (simp add: file_loc_def dir_local_def)

lemma offline_opened:
  assumes "offline_open pl lk oc w3 = (Ok (ol, bs), Some f4, w4)" and "fslock_frames lk" and "xdg_ok pl"
    and "MakeBlobStore pl (mo_Cache (oc_Manifest oc)) wr w0 = (Ok (FileStore d), wa)"
    and "on_disk mm (manifest_path pl (oc_Manifest oc)) w3"
    and "dir_inv (ds_dir d) w3" and "butlast (manifest_path pl (oc_Manifest oc)) \<noteq> ds_dir d"
  shows "bs = FileStore (NewDirectoryStore (ds_dir d) False) \<and> blobs f4 = mm \<and> previousBlobs f4 = None \<and>
    (\<forall>u. \<not> SkipSave u f4) \<and> \<not> FetchIfMissing ol \<and> manifest_wf mm \<and>
    dir_inv (ds_dir d) w4 \<and> dir_holds (ds_dir d) w4 = dir_holds (ds_dir d) w3"
proof -
  let ?P = "manifest_path pl (oc_Manifest oc)"
  let ?o = "\<lambda>nc. \<lparr>opt_Path = ?P, Writable = False, AllowOverwrite = False, NoCache = Some nc\<rparr>"
  obtain wb nc where o: "MakeBlobStore pl (mo_Cache (oc_Manifest oc)) False w3 = (Ok bs, wb)"
      "NewMultiRegexMatcher (regexp_Compile pl) [] = Ok nc" "NewMapFile lk (?o nc) wb = (Ok f4, w4)" "\<not> FetchIfMissing ol"
    using assms(1) by (auto simp: offline_open_def MakeManifestFile_def mc_none_def split: res.splits prod.splits)
  have bs: "bs = FileStore (NewDirectoryStore (ds_dir d) False)" by (rule MakeBlobStore_same [OF assms(4) o(1) assms(3)])
  then have dd: "dir_inv (ds_dir d) wb" "fs_get wb = fs_get w3"
    using MakeBlobStore_inv [of pl _ False w3 "NewDirectoryStore (ds_dir d) False" wb] MakeBlobStore_files [OF o(1) assms(3)] o(1) assms(3,6)
    by (auto simp: NewDirectoryStore_def)
  then have odb: "on_disk mm ?P wb" using assms(5) by (simp add: on_disk_def)
  have nc: "nc = \<lparr>mm_regexes = []\<rparr>" using o(2) by (simp add: NewMultiRegexMatcher_def)
  obtain u where ld: "load (new_file (?o nc)) wb = (Ok u, f4, w4)"
    using o(3) by (auto simp: NewMapFile_def split: res.splits prod.splits)
  note l = load_Ok [OF ld]
  have "fs_get wb ?P \<noteq> None" using odb by (auto simp: on_disk_def)
  then have "on_disk (blobs f4) ?P wb" using l dir_inv_honest [OF dd(1)] by (auto simp: new_file_def)
  then have b: "blobs f4 = mm" using on_disk_unique odb by blast
  have sk: "\<not> SkipSave u f4" for u using l nc by (simp add: SkipSave_def mm_Match_def new_file_def)
  have "dir_inv (ds_dir d) w4 \<and> dir_holds (ds_dir d) w4 = dir_holds (ds_dir d) wb"
    using man_local_dir [OF NewMapFile_local [OF o(3) assms(2)]] dd(1) assms(7) by simp
  then show ?thesis using bs b l sk o(4) dd(2) by (simp add: new_file_def dir_holds_def fun_eq_iff)
qed

text \<open>Without faults, and with options that can be read, it opens.\<close>

lemma offline_opens:
  assumes "on_disk mm (manifest_path pl (oc_Manifest oc)) w3" and "faults w3 = []" and "xdg_ok pl"
    and "MakeBlobStore pl (mo_Cache (oc_Manifest oc)) wr w0 = (Ok (FileStore d), wa)"
    and "is_Ok (fst (MakeBlobStore pl (mo_Cache (oc_Manifest oc)) False w3))"
    and "NewMultiRegexMatcher (regexp_Compile pl) (oc_DummyOK oc) = Ok dm"
  shows "\<exists>bs f4 w4. offline_open pl lk oc w3 =
    (Ok (\<lparr>FetchIfMissing = False, FailIfMissing = True, DummyOK = Some dm, HeadersToCache = None\<rparr>, bs), Some f4, w4) \<and> faults w4 = []"
proof -
  let ?P = "manifest_path pl (oc_Manifest oc)"
  obtain bs wb where mk: "MakeBlobStore pl (mo_Cache (oc_Manifest oc)) False w3 = (Ok bs, wb)"
    using assms(5) by (cases "MakeBlobStore pl (mo_Cache (oc_Manifest oc)) False w3") (auto elim: is_OkE)
  have wb: "fs_get wb = fs_get w3" by (rule MakeBlobStore_files [OF mk assms(3)])
  obtain y where y: "xdgIt pl (BlobsDir (mo_Cache (oc_Manifest oc))) w3 = (Ok y, wb)"
    using MakeBlobStore_file [of pl _ False w3 "NewDirectoryStore (ds_dir d) False" wb] MakeBlobStore_same [OF assms(4) mk assms(3)] mk by auto
  obtain q where q: "gives_path (pl_cwd pl) (xdgIt pl (BlobsDir (mo_Cache (oc_Manifest oc)))) q" using xdgIt_ok [OF assms(3)] .
  have fb: "faults wb = []" using gives_pathD(2) [OF q y] assms(2) by simp
  obtain bb where bb: "fs_get w3 ?P = Some bb" "json_Unmarshal bb gm_make = Ok mm" using assms(1) by (auto simp: on_disk_def)
  have r: "os_ReadFile ?P wb = (Ok bb, wb)" using bb(1) wb fb by (simp add: os_ReadFile_def pop_fault_def)
  have "\<exists>f4. MakeManifestFile pl lk (oc_Manifest oc) mc_none wb = (Ok f4, wb)"
    using bb(2) r by (auto simp: MakeManifestFile_def mc_none_def NewMultiRegexMatcher_def NewMapFile_def load_def new_file_def split: option.splits)
  then show ?thesis using mk assms(6) fb by (auto simp: offline_open_def)
qed

section \<open>A concrete build\<close>

definition plain_platform :: "unit platform" where
  "plain_platform = \<lparr>pl_cwd = [], pl_temp = [''tmp''], xdg_DataFile = (\<lambda>p w. (Ok (''/home/'' @ p), w)),
     regexp_Compile = (\<lambda>s. Ok Eps), DefaultClient_Do = (\<lambda>q m. (Err (OsError ''no network''), m)), client_reads = (\<lambda>q m. 0),
     s3_LoadDefaultConfig = Err (OsError ''no configuration'')\<rparr>"

definition plain_options :: ManifestOptions where
  "plain_options = \<lparr>mo_Cache = \<lparr>BlobsBackend = ''filesystem'', BlobsRegistry = [], BlobsDir = ''/blobs'', BlobsBucket = [],
     BlobsPrefix = []\<rparr>, ManifestFile = ''./assets.json''\<rparr>"

definition plain_build :: BuildCommand where
  "plain_build = \<lparr>bc_Manifest = plain_options, bc_Fetch = \<lparr>fo_NoCache = [], CacheHeader = [''content-type'']\<rparr>, ForceRefresh = False\<rparr>"

definition plain_offline :: OfflineCommand where
  "plain_offline = \<lparr>oc_Manifest = plain_options, oc_DummyOK = []\<rparr>"

definition work_os :: os where
  "work_os = \<lparr>files = [], dirs = [], faults = []\<rparr>"


definition plain_lctx :: listenerCtx where
  "plain_lctx = \<lparr>FetchIfMissing = True, FailIfMissing = False, DummyOK = None, HeadersToCache = Some [(''Content-Type'', True)]\<rparr>"

definition plain_file :: "path File" where
  "plain_file = \<lparr>options = \<lparr>opt_Path = [''assets.json''], Writable = True, AllowOverwrite = False, NoCache = Some \<lparr>mm_regexes = []\<rparr>\<rparr>,
     blobs = Some [], previousBlobs = Some [], dirty = True, lock = Some [''assets.json.lock''], lockPath = [''assets.json.lock'']\<rparr>"

definition locked_os :: os where
  "locked_os = \<lparr>files = [([''assets.json.lock''], [])], dirs = [], faults = []\<rparr>"

lemma plain_build_open:
  "build_open plain_platform plain_fslock plain_build work_os = (Ok (plain_lctx, FileStore sample_store), Some plain_file, locked_os)"
proof -
  have "NewMapFile plain_fslock (options plain_file) work_os = (Ok (plain_file\<lparr>previousBlobs := None\<rparr>), locked_os)"
    and "CacheHeaderMap (bc_Fetch plain_build) = HeadersToCache plain_lctx"
    and "path_of [] ''./assets.json'' = [''assets.json'']" and "path_of [] ''/blobs'' = [''blobs'']" and "\<not> has_prefix ''/blobs'' xdg_home"
    by code_simp+
  then show ?thesis
    by (simp add: build_open_def plain_build_def plain_options_def plain_platform_def plain_lctx_def MakeBlobStore_def xdgIt_def
        MakeManifestFile_def NewMultiRegexMatcher_def plain_file_def Reset_def gm_len_def sample_store_def)
qed

lemma Close_ready:
  assumes "Writable (options f)" and "lock f = Some h" and "faults w = []" and "fs_get w (lockPath f) \<noteq> None"
    and "lockPath f \<noteq> opt_Path (options f)" and "\<not> dir_exists w (opt_Path (options f))" and "dir_exists w (butlast (opt_Path (options f)))"
  shows "\<exists>f' w'. Close plain_fslock f w = (Ok (), f', w') \<and> faults w' = []"
  using assms
  by (auto simp: Close_def save_def save_check_def os_WriteFile_def pop_fault_def plain_fslock_def os_Remove_def fs_simps
      dir_exists_def split: if_splits)

lemma ascii_hex: "ascii (hex_encode b)"
proof -
  have "chr_nat c < 128" if "c \<in> set (hex_encode b)" for c
    using hex_encode_chars [OF that] by (auto simp: unhex_def Let_def split: if_splits)
  then show ?thesis by (simp add: ascii_def list_all_iff)
qed


abbreviation "plain_small \<equiv> \<lparr>sv_assets = plain_file, sv_blobs = locked_os, sv_net = 0, sv_missing = 0\<rparr> :: (path, os, nat) srv"
abbreviation "plain_srv \<equiv> \<lparr>sv_assets = plain_file, sv_blobs = (locked_os, ()), sv_net = 0, sv_missing = 0\<rparr> :: (path, os \<times> unit, nat) srv"
abbreviation "plain_big \<equiv> any_store plain_platform (FileStore sample_store)"
abbreviation "hello_key \<equiv> sha256 ''hello''"
abbreviation "hello_file \<equiv> plain_file\<lparr>blobs := Some [(url_Redacted sample_url,
  \<lparr>Sha256 = hex_encode hello_key, Headers = Some [(''Content-Type'', ''text/plain'')]\<rparr>)]\<rparr>"

lemma plain_file_facts: "GetBlob sample_url plain_file = (Ok None, plain_file)" "\<not> SkipSave sample_url plain_file"
  by code_simp+

text \<open>The build fetches the sample response and records it.\<close>

lemma plain_fetched:
  "\<exists>wr1 z1. handleMainServerRequest (dir_store sample_store) sample_net plain_lctx sample_request (rw_new []) plain_small = (Ok (), wr1, z1) \<and>
    rw_result wr1 = (200, hdr_add_all (rs_Header sample_response) [], ''hello'') \<and>
    dir_holds (ds_dir sample_store) (sv_blobs z1) hello_key = Some ''hello'' \<and> dir_ready (ds_dir sample_store) (sv_blobs z1) \<and>
    sv_assets z1 = hello_file"
proof -
  have inv: "srv_inv (dir_inv (ds_dir sample_store)) (dir_holds (ds_dir sample_store)) plain_small"
    by (simp add: srv_inv_def fw_inv_def dir_inv_def locked_os_def file_wf_def plain_file_def manifest_wf_def gm_wf_def content_addressed_def
        dir_holds_def fs_get_def sample_dir)
  have rd: "dir_ready (ds_dir sample_store) (sv_blobs plain_small)"
    by (simp add: dir_ready_def dir_inv_def locked_os_def sample_dir prefixes_of_def fs_get_def)
  have net: "sample_net (sample_outgoing\<lparr>rq_Header := hdr_add_all (rq_Header sample_request) (rq_Header sample_outgoing)\<rparr>) (sv_net plain_small)
      = (Ok sample_response, 1)" by (simp add: sample_net_def)
  have pf: "Writable (options plain_file)" "blobs plain_file \<noteq> None" "FetchIfMissing plain_lctx" "DummyOK plain_lctx = None"
    by (simp_all add: plain_file_def plain_lctx_def)
  obtain wr1 z1 al where h: "handleMainServerRequest (dir_store sample_store) sample_net plain_lctx sample_request (rw_new []) plain_small = (Ok (), wr1, z1)"
    and r1: "rw_result wr1 = (200, hdr_add_all (rs_Header sample_response) [], ''hello'')"
    and st: "dir_holds (ds_dir sample_store) (sv_blobs z1) hello_key = Some ''hello''" "dir_ready (ds_dir sample_store) (sv_blobs z1)"
    and al: "filterHeaders (HeadersToCache plain_lctx) (rs_Header sample_response) = Ok (Some al)"
      "sv_assets z1 = snd (AddBlob sample_url \<lparr>Sha256 = hex_encode hello_key, Headers = Some al\<rparr> plain_file)"
    using fetch_ready [of sample_store plain_small plain_lctx sample_request sample_outgoing sample_net sample_response 1,
        OF inv rd _ _ _ _ _ _ _ sample_new_request net] plain_file_facts pf
    by (auto simp: sample_simps sample_response_simps)
  have "filterHeaders (HeadersToCache plain_lctx) (rs_Header sample_response) = Ok (Some [(''Content-Type'', ''text/plain'')])" by code_simp
  then have al': "al = [(''Content-Type'', ''text/plain'')]" using al(1) by simp
  then have "sv_assets z1 = hello_file"
    using plain_file_facts(2) by (simp add: al(2) AddBlob_def SkipSave_def internalAddBlob_def plain_file_def gm_get_def gm_put_def)
  then show ?thesis using h r1 st by blast
qed

text \<open>It closes, and what it leaves can be opened again.\<close>

lemma plain_closed:
  "\<exists>wr1 s1 w3 mm. handleMainServerRequest plain_big sample_net plain_lctx sample_request (rw_new []) plain_srv = (Ok (), wr1, s1) \<and>
    rw_result wr1 = (200, hdr_add_all (rs_Header sample_response) [], ''hello'') \<and>
    manifest_plain (blobs (sv_assets s1)) \<and> close_deferred plain_fslock (sv_assets s1) (Ok ()) (fst (sv_blobs s1)) = (Ok (), w3) \<and>
    on_disk mm [''assets.json''] w3 \<and> map_option Sha256 (gm_get mm (url_Redacted sample_url)) = Some (hex_encode hello_key) \<and>
    faults w3 = [] \<and> dir_ready (ds_dir sample_store) w3 \<and> dir_holds (ds_dir sample_store) w3 hello_key = Some ''hello''"
proof -
  let ?up = "lift_srv (\<lambda>w v. (w, snd v)) (locked_os, ())"
  have up: "?up plain_small = plain_srv" by (simp add: lift_srv_def)
  obtain wr1 z1 where h: "handleMainServerRequest (dir_store sample_store) sample_net plain_lctx sample_request (rw_new []) plain_small = (Ok (), wr1, z1)"
    and r1: "rw_result wr1 = (200, hdr_add_all (rs_Header sample_response) [], ''hello'')"
    and st: "dir_holds (ds_dir sample_store) (sv_blobs z1) hello_key = Some ''hello''" "dir_ready (ds_dir sample_store) (sv_blobs z1)"
    and f1: "sv_assets z1 = hello_file"
    using plain_fetched by blast
  define s1 where "s1 = ?up z1"
  have H: "handleMainServerRequest plain_big sample_net plain_lctx sample_request (rw_new []) plain_srv = (Ok (), wr1, s1)"
    using fl.handle_lift [of plain_platform sample_store sample_net plain_lctx sample_request "rw_new []" "(locked_os, ())" plain_small]
    unfolding h prod.case up s1_def .
  have s1: "sv_assets s1 = sv_assets z1" "fst (sv_blobs s1) = sv_blobs z1" by (simp_all add: s1_def)
  have as: "ascii (url_Redacted sample_url)" "ascii ''Content-Type''" "ascii ''text/plain''" by code_simp+
  have plain: "manifest_plain (blobs (sv_assets s1))"
    using as by (simp add: s1 f1 manifest_plain_def gm_entries_def blob_plain_def ascii_valid ascii_hex)
  have loc: "dir_local (ds_dir sample_store) locked_os (sv_blobs z1)"
    using dl.handle_loc [OF h] by simp
  have lk: "fs_get (sv_blobs z1) [''assets.json.lock''] = Some []"
    using dir_local_at [OF loc, of "[''assets.json.lock'']"] by (simp add: sample_dir locked_os_def fs_get_def)
  have nd: "\<not> dir_exists (sv_blobs z1) [''assets.json'']"
    using loc by (auto simp: dir_local_def dir_exists_def locked_os_def sample_dir prefixes_of_def)
  obtain f' w3 where c: "Close plain_fslock (sv_assets z1) (sv_blobs z1) = (Ok (), f', w3)" "faults w3 = []"
    using Close_ready [of "sv_assets z1" "[''assets.json.lock'']" "sv_blobs z1"] st(2) lk nd f1
    by (auto simp: plain_file_def dir_ready_def dir_exists_def)
  then have cd: "close_deferred plain_fslock (sv_assets s1) (Ok ()) (fst (sv_blobs s1)) = (Ok (), w3)"
    by (simp add: close_deferred_def s1)
  have run: "file_run plain_file (sv_assets s1)" using handle_run [OF H] by simp
  have floc: "file_loc (ds_dir sample_store) (locked_os, ()) (sv_blobs s1)" using fll.handle_loc [OF H] by simp
  have kept: "fs_get (fst (sv_blobs s1)) [''assets.json''] = fs_get locked_os [''assets.json'']"
    using file_loc_at [OF floc, of "[''assets.json'']"] by (simp add: sample_dir)
  have cs: "clean_synced locked_os plain_file" by (simp add: clean_synced_def plain_file_def)
  have wf: "file_wf plain_file" by (simp add: file_wf_def plain_file_def manifest_wf_def gm_wf_def)
  have lp: "path_plus [''assets.json''] ''.lock'' = [''assets.json.lock'']" by code_simp
  have i1: "dir_inv (ds_dir sample_store) (fst (sv_blobs s1))" using st(2) by (simp add: s1 dir_ready_def)
  have closed: "(\<exists>mm. on_disk mm [''assets.json''] w3 \<and> manifest_digests (blobs (sv_assets s1)) mm \<and>
        (manifest_plain (blobs (sv_assets s1)) \<longrightarrow> manifest_same (blobs (sv_assets s1)) mm)) \<and>
      dir_inv (ds_dir sample_store) w3 \<and> dir_holds (ds_dir sample_store) w3 = dir_holds (ds_dir sample_store) (fst (sv_blobs s1))"
    by (rule session_closed [OF cd plain_fslock_frames run kept _ _ _ wf cs _ i1]) (simp_all add: plain_file_def lp sample_dir)
  then obtain mm where mm: "on_disk mm [''assets.json''] w3" "manifest_same (blobs (sv_assets s1)) mm" using plain by blast
  have "rel_option blobEquals (gm_get (blobs (sv_assets s1)) (url_Redacted sample_url)) (gm_get mm (url_Redacted sample_url))"
    using mm(2) by (simp add: manifest_same_def)
  then obtain bi where bi: "gm_get mm (url_Redacted sample_url) = Some bi" "Sha256 bi = hex_encode hello_key"
    by (auto simp: s1 f1 gm_get_def option_rel_Some1 blobEquals_def)
  moreover have "man_local [''assets.json''] (sv_blobs z1) w3"
    using Close_local [OF c(1) plain_fslock_frames] by (simp add: f1 plain_file_def lp)
  then have "dir_ready (ds_dir sample_store) w3"
    using c(2) closed st(2) by (auto simp: dir_ready_def man_local_def lp sample_dir prefixes_of_def)
  ultimately show ?thesis using H r1 plain cd mm(1) c(2) closed st(1) s1(2) by auto
qed

section \<open>What a build leaves for an offline run\<close>

text \<open>
  The entry of a request that was fetched and answered with status 200 is in the manifest file, its blob is in the
  directory, and its headers are those that the client got.
\<close>

lemma build_left:
  assumes "fslock_frames lk" and "xdg_ok pl" and "net_headers_ok do1"
    and "build_open pl lk bc w0 = (Ok (bl, FileStore d), Some f0, w1)"
    and "dir_inv (ds_dir d) w0" and "content_addressed (dir_holds (ds_dir d) w0)"
    and "butlast (manifest_path pl (bc_Manifest bc)) \<noteq> ds_dir d"
    and "s = serve_all (any_store pl (FileStore d)) do1 bl rs1 \<lparr>sv_assets = f0, sv_blobs = (w1, m), sv_net = n, sv_missing = 0\<rparr>"
    and "handleMainServerRequest (any_store pl (FileStore d)) do1 bl rq (rw_new fs) s = (Ok x, wr1, s1)"
    and "fst (GetBlob (extractReqFromURL rq) (sv_assets s)) = Ok None" and "\<not> SkipSave (extractReqFromURL rq) (sv_assets s)"
    and "rw_result wr1 = (200, h1, c1)"
    and "s2 = serve_all (any_store pl (FileStore d)) do1 bl rs2 s1" and "manifest_plain (blobs (sv_assets s2))"
    and "close_deferred lk (sv_assets s2) (Ok ()) (fst (sv_blobs s2)) = (Ok (), w3)"
  shows "\<exists>mm bi wa. MakeBlobStore pl (mo_Cache (bc_Manifest bc)) True w0 = (Ok (FileStore d), wa) \<and>
    on_disk mm (manifest_path pl (bc_Manifest bc)) w3 \<and> dir_inv (ds_dir d) w3 \<and> content_addressed (dir_holds (ds_dir d) w3) \<and>
    dir_holds (ds_dir d) w3 (sha256 c1) \<noteq> None \<and>
    gm_get mm (url_Redacted (extractReqFromURL rq)) = Some bi \<and> hex_decode (Sha256 bi) = Ok (sha256 c1) \<and>
    (\<forall>k. CanonicalMIMEHeaderKey k = k \<and> gm_flag (HeadersToCache bl) k \<longrightarrow>
       hdr_Get (fold (\<lambda>(k, v) h. hdr_Set k v h) (gm_entries (Headers bi)) []) k = hdr_Get h1 k)"
proof -
  let ?d = "ds_dir d"
  let ?s0 = "\<lparr>sv_assets = f0, sv_blobs = (w1, m), sv_net = n, sv_missing = 0\<rparr>"
  note b = build_opened [OF assms(4,1,2,5,7)]
  then have i0: "srv_inv (\<lambda>v. dir_inv ?d (fst v)) (\<lambda>v. dir_holds ?d (fst v)) ?s0" using assms(6) by (simp add: srv_inv_def fw_inv_def)
  have i: "srv_inv (\<lambda>v. dir_inv ?d (fst v)) (\<lambda>v. dir_holds ?d (fst v)) s" using fl.lifted.serve_all_keeps [OF i0, of pl do1 bl rs1] assms(8) by simp
  have i1: "srv_inv (\<lambda>v. dir_inv ?d (fst v)) (\<lambda>v. dir_holds ?d (fst v)) s1" using fl.lifted.handle_keeps [OF assms(9) i] by simp
  have i2: "srv_inv (\<lambda>v. dir_inv ?d (fst v)) (\<lambda>v. dir_holds ?d (fst v)) s2" using fl.lifted.serve_all_keeps [OF i1, of pl do1 bl rs2] assms(13) by simp
  have fr: "file_run f0 (sv_assets s)" "file_run f0 (sv_assets s2)"
    using serve_all_run [of ?s0 "any_store pl (FileStore d)" do1 bl rs1] handle_run [OF assms(9)]
      serve_all_run [of s1 "any_store pl (FileStore d)" do1 bl rs2] assms(8,13) file_run_trans by (simp, metis srv.select_convs(1))
  have "file_loc ?d (w1, m) (sv_blobs s)" "file_loc ?d (sv_blobs s) (sv_blobs s1)" "file_loc ?d (sv_blobs s1) (sv_blobs s2)"
    using fll.serve_all_loc [of d ?s0 pl do1 bl rs1] fll.handle_loc [OF assms(9)] fll.serve_all_loc [of d s1 pl do1 bl rs2] assms(8,13) by simp_all
  then have "file_loc ?d (w1, m) (sv_blobs s2)" using fll.loc_trans by metis
  from file_loc_at [OF this assms(7)]
  have kept: "fs_get (fst (sv_blobs s2)) (manifest_path pl (bc_Manifest bc)) = fs_get w1 (manifest_path pl (bc_Manifest bc))" by simp
  have cl: "(\<exists>mm. on_disk mm (manifest_path pl (bc_Manifest bc)) w3 \<and> manifest_digests (blobs (sv_assets s2)) mm \<and>
        (manifest_plain (blobs (sv_assets s2)) \<longrightarrow> manifest_same (blobs (sv_assets s2)) mm)) \<and>
      dir_inv ?d w3 \<and> dir_holds ?d w3 = dir_holds ?d (fst (sv_blobs s2))"
    by (rule session_closed [OF assms(15,1) fr(2) kept]) (use b assms(7) i2 in \<open>auto simp: srv_inv_def fw_inv_def\<close>)
  then obtain mm where mm: "on_disk mm (manifest_path pl (bc_Manifest bc)) w3" "manifest_same (blobs (sv_assets s2)) mm" using assms(14) by blast
  have wf: "manifest_wf mm" using mm(1) unmarshal_wf by (auto simp: on_disk_def)
  have no: "\<not> AllowOverwrite (options (sv_assets s))" using file_run_facts [OF fr(1)] b by simp
  have "fw_inv (\<lambda>v. dir_inv ?d (fst v)) (\<lambda>v. dir_holds ?d (fst v)) (sv_assets s2) (sv_blobs s2) \<and> dir_holds ?d (fst (sv_blobs s2)) (sha256 c1) \<noteq> None \<and>
    (\<exists>bi. gm_get mm (url_Redacted (extractReqFromURL rq)) = Some bi \<and> hex_decode (Sha256 bi) = Ok (sha256 c1) \<and>
      (\<forall>k. CanonicalMIMEHeaderKey k = k \<and> gm_flag (HeadersToCache bl) k \<longrightarrow>
        hdr_Get (fold (\<lambda>(k, v) h. hdr_Set k v h) (gm_entries (Headers bi)) []) k = hdr_Get h1 k))"
    using fl.lifted.recorded [OF i no assms(9) _ _ assms(10,11,12,3), of do1 bl rs2 mm] b mm(2) wf assms(13) by auto
  then show ?thesis using b mm(1) cl by (auto simp: fw_inv_def)
qed

text \<open>What an offline server over such files has before each request, whatever was asked before.\<close>

lemma offline_served:
  assumes "offline_open pl lk oc w3 = (Ok (ol, bs), Some f4, w4)" and "fslock_frames lk" and "xdg_ok pl"
    and "MakeBlobStore pl (mo_Cache (oc_Manifest oc)) wr w0 = (Ok (FileStore d), wa)"
    and "on_disk mm (manifest_path pl (oc_Manifest oc)) w3" and "dir_inv (ds_dir d) w3" and "content_addressed (dir_holds (ds_dir d) w3)"
    and "butlast (manifest_path pl (oc_Manifest oc)) \<noteq> ds_dir d"
    and "t = serve_all (any_store pl bs) do2 ol rs4 \<lparr>sv_assets = f4, sv_blobs = (w4, m2), sv_net = n2, sv_missing = 0\<rparr>"
  shows "bs = FileStore (NewDirectoryStore (ds_dir d) False) \<and> blobs (sv_assets t) = mm \<and> (\<forall>u. \<not> SkipSave u (sv_assets t)) \<and> sv_net t = n2 \<and>
    dir_holds (ds_dir d) (fst (sv_blobs t)) = dir_holds (ds_dir d) w3 \<and> dir_inv (ds_dir d) (fst (sv_blobs t)) \<and>
    set (faults (fst (sv_blobs t))) \<subseteq> set (faults w4)"
proof -
  let ?o = "NewDirectoryStore (ds_dir d) False"
  have o: "bs = FileStore ?o \<and> blobs f4 = mm \<and> previousBlobs f4 = None \<and> (\<forall>u. \<not> SkipSave u f4) \<and> \<not> FetchIfMissing ol \<and>
      manifest_wf mm \<and> dir_inv (ds_dir d) w4 \<and> dir_holds (ds_dir d) w4 = dir_holds (ds_dir d) w3"
    by (rule offline_opened [OF assms(1-6,8)])
  let ?beg = "\<lparr>sv_assets = f4, sv_blobs = (w4, m2), sv_net = n2, sv_missing = 0\<rparr>"
  have dd: "ds_dir ?o = ds_dir d" by (simp add: NewDirectoryStore_def)
  have t: "t = serve_all (any_store pl (FileStore ?o)) do2 ol rs4 ?beg" using assms(9) o by simp
  have t0: "srv_inv (\<lambda>v. dir_inv (ds_dir ?o) (fst v)) (\<lambda>v. dir_holds (ds_dir ?o) (fst v)) ?beg"
    using o assms(7) by (simp add: dd srv_inv_def fw_inv_def file_wf_def)
  have "sv_net t = n2 \<and> sv_assets t = f4 \<and> dir_holds (ds_dir d) (fst (sv_blobs t)) = dir_holds (ds_dir d) w4"
    using fl.lifted.offline_all [of ol ?beg ?o pl do2 rs4] o t by (simp add: dd)
  moreover have "dir_inv (ds_dir d) (fst (sv_blobs t))"
    using fl.lifted.serve_all_keeps [OF t0, of pl do2 ol rs4] t by (simp add: dd srv_inv_def fw_inv_def)
  moreover have "file_loc (ds_dir ?o) (w4, m2) (sv_blobs t)" using fll.serve_all_loc [of ?o ?beg pl do2 ol rs4] t by simp
  then have "set (faults (fst (sv_blobs t))) \<subseteq> set (faults w4)" by (simp add: file_loc_def dir_local_def)
  ultimately show ?thesis using o by simp
qed

section \<open>Properties\<close>

text \<open>
  C2. A build and an offline run, from disk to disk. A URL that a build fetched and answered with status 200, in
  the midst of any other requests and failures, is answered by a later offline command on the same options: when
  neither the file system nor the client fails, its dummy list compiles and does not match the URL, and its blob
  directory can be found, the command opens what the build left on disk, and after any other requests it answers each
  request for this URL with status 200, a body of the same SHA-256 digest and the same values of the headers
  to cache, and without the network. Between the two there is only what the build left in the manifest file when it
  closed without error, and in the blob directory.
\<close>

theorem build_then_offline:
  assumes "fslock_frames lk" and "xdg_ok pl" and "net_headers_ok do1"
    and "build_open pl lk bc w0 = (Ok (bl, FileStore d), Some f0, w1)" and "oc_Manifest oc = bc_Manifest bc"
    and "dir_inv (ds_dir d) w0" and "content_addressed (dir_holds (ds_dir d) w0)"
    and "butlast (manifest_path pl (bc_Manifest bc)) \<noteq> ds_dir d"
    and "s = serve_all (any_store pl (FileStore d)) do1 bl rs1 \<lparr>sv_assets = f0, sv_blobs = (w1, m), sv_net = n, sv_missing = 0\<rparr>"
    and "handleMainServerRequest (any_store pl (FileStore d)) do1 bl rq (rw_new fs) s = (Ok x, wr1, s1)"
    and "fst (GetBlob (extractReqFromURL rq) (sv_assets s)) = Ok None" and "\<not> SkipSave (extractReqFromURL rq) (sv_assets s)"
    and "rw_result wr1 = (200, h1, c1)"
    and "s2 = serve_all (any_store pl (FileStore d)) do1 bl rs2 s1" and "manifest_plain (blobs (sv_assets s2))"
    and "close_deferred lk (sv_assets s2) (Ok ()) (fst (sv_blobs s2)) = (Ok (), w3)"
    and "faults w3 = []" and "is_Ok (fst (MakeBlobStore pl (mo_Cache (oc_Manifest oc)) False w3))"
    and "NewMultiRegexMatcher (regexp_Compile pl) (oc_DummyOK oc) = Ok dm" and "\<not> mm_Match (Some dm) (url_Redacted (extractReqFromURL rq))"
  shows "\<exists>ol bs f4 w4. offline_open pl lk oc w3 = (Ok (ol, bs), Some f4, w4) \<and>
    (\<forall>rs4 do2 n2 m2 rq2. extractReqFromURL rq2 = extractReqFromURL rq \<longrightarrow>
       (\<exists>wr5 s5 h3 c3.
          handleMainServerRequest (any_store pl bs) do2 ol rq2 (rw_new [])
            (serve_all (any_store pl bs) do2 ol rs4 \<lparr>sv_assets = f4, sv_blobs = (w4, m2), sv_net = n2, sv_missing = 0\<rparr>) = (Ok (), wr5, s5) \<and>
          sv_net s5 = n2 \<and> rw_result wr5 = (200, h3, c3) \<and> sha256 c3 = sha256 c1 \<and>
          (\<forall>k. CanonicalMIMEHeaderKey k = k \<and> gm_flag (HeadersToCache bl) k \<longrightarrow> hdr_Get h3 k = hdr_Get h1 k)))"
proof -
  let ?u = "extractReqFromURL rq" and ?o = "NewDirectoryStore (ds_dir d) False"
  obtain mm bi wa where wa: "MakeBlobStore pl (mo_Cache (oc_Manifest oc)) True w0 = (Ok (FileStore d), wa)"
    and mm: "on_disk mm (manifest_path pl (oc_Manifest oc)) w3" and dw: "dir_inv (ds_dir d) w3" "content_addressed (dir_holds (ds_dir d) w3)"
    and c: "dir_holds (ds_dir d) w3 (sha256 c1) \<noteq> None"
    and bi: "gm_get mm (url_Redacted ?u) = Some bi" "hex_decode (Sha256 bi) = Ok (sha256 c1)"
      "\<forall>k. CanonicalMIMEHeaderKey k = k \<and> gm_flag (HeadersToCache bl) k \<longrightarrow>
         hdr_Get (fold (\<lambda>(k, v) h. hdr_Set k v h) (gm_entries (Headers bi)) []) k = hdr_Get h1 k"
    using build_left [OF assms(1-4,6-16)] unfolding assms(5) by blast
  obtain c3 where c3: "dir_holds (ds_dir d) w3 (sha256 c1) = Some c3" using c by blast
  have dg: "sha256 c3 = sha256 c1" using content_addressedD [OF dw(2) c3] by simp
  let ?ol = "\<lparr>FetchIfMissing = False, FailIfMissing = True, DummyOK = Some dm, HeadersToCache = None\<rparr>"
  obtain bs f4 w4 where op: "offline_open pl lk oc w3 = (Ok (?ol, bs), Some f4, w4)" and f4: "faults w4 = []"
    using offline_opens [OF mm assms(17,2) wa assms(18,19), of lk] by blast
  have ans: "\<exists>wr5 s5 h3 c3. handleMainServerRequest (any_store pl bs) do2 ?ol rq2 (rw_new [])
      (serve_all (any_store pl bs) do2 ?ol rs4 \<lparr>sv_assets = f4, sv_blobs = (w4, m2), sv_net = n2, sv_missing = 0\<rparr>) = (Ok (), wr5, s5) \<and>
      sv_net s5 = n2 \<and> rw_result wr5 = (200, h3, c3) \<and> sha256 c3 = sha256 c1 \<and>
      (\<forall>k. CanonicalMIMEHeaderKey k = k \<and> gm_flag (HeadersToCache bl) k \<longrightarrow> hdr_Get h3 k = hdr_Get h1 k)"
    if u: "extractReqFromURL rq2 = ?u" for rs4 do2 n2 m2 rq2
  proof -
    define t where "t = serve_all (any_store pl bs) do2 ?ol rs4 \<lparr>sv_assets = f4, sv_blobs = (w4, m2), sv_net = n2, sv_missing = 0\<rparr>"
    note o = offline_served [OF op assms(1,2) wa mm dw _ t_def]
    have P: "butlast (manifest_path pl (oc_Manifest oc)) \<noteq> ds_dir d" using assms(5,8) by simp
    let ?y = "\<lparr>sv_assets = sv_assets t, sv_blobs = fst (sv_blobs t), sv_net = n2, sv_missing = sv_missing t\<rparr>"
    have up: "lift_srv (\<lambda>w v. (w, snd v)) (sv_blobs t) ?y = t" using o [OF P] by (simp add: lift_srv_def)
    have "faults (fst (sv_blobs t)) = []" using o [OF P] f4 by simp
    moreover have "dir_holds (ds_dir ?o) (fst (sv_blobs t)) (sha256 c1) = Some c3" using o [OF P] c3 by (simp add: NewDirectoryStore_def)
    ultimately obtain wr5 where sv: "serveFoundBlob (dir_store ?o) bi (rw_new []) (fst (sv_blobs t)) = (Ok (), wr5, fst (sv_blobs t))"
      and r: "rw_result wr5 = (200, fold (\<lambda>(k, v) h. hdr_Set k v h) (gm_entries (Headers bi)) [], c3)"
      using serve_nofault bi(2) by blast
    have "GetBlob ?u (sv_assets t) = (Ok (Some bi), sv_assets t)" using o [OF P] bi(1) by (simp add: GetBlob_def SkipSave_def)
    then have h: "handleMainServerRequest (dir_store ?o) do2 ?ol rq2 (rw_new []) ?y = (Ok (), wr5, ?y)"
      using sv u assms(20) by (simp add: handleMainServerRequest_def)
    have "handleMainServerRequest (any_store pl bs) do2 ?ol rq2 (rw_new []) t = (Ok (), wr5, t)"
      using fl.handle_lift [of pl ?o do2 ?ol rq2 "rw_new []" "sv_blobs t" ?y] o [OF P] unfolding h prod.case up by simp
    moreover have "sv_net t = n2" using o [OF P] by simp
    ultimately show ?thesis using r dg bi(3) unfolding t_def [symmetric] by blast
  qed
  show ?thesis
    by (rule exI [of _ ?ol], rule exI [of _ bs], rule exI [of _ f4], rule exI [of _ w4], rule conjI, rule op, intro allI impI, rule ans)
qed



text \<open>The same build: its manifest and its directory are opened, and the request is answered, also when it is asked a second time.\<close>

lemma build_then_offline_witness:
  "\<exists>wr1 s1 w3 ol bs f4 w4.
     build_open plain_platform plain_fslock plain_build work_os = (Ok (plain_lctx, FileStore sample_store), Some plain_file, locked_os) \<and>
     handleMainServerRequest (any_store plain_platform (FileStore sample_store)) sample_net plain_lctx sample_request (rw_new [])
       \<lparr>sv_assets = plain_file, sv_blobs = (locked_os, ()), sv_net = 0, sv_missing = 0\<rparr> = (Ok (), wr1, s1) \<and>
     close_deferred plain_fslock (sv_assets s1) (Ok ()) (fst (sv_blobs s1)) = (Ok (), w3) \<and>
     offline_open plain_platform plain_fslock plain_offline w3 = (Ok (ol, bs), Some f4, w4) \<and>
     (\<forall>rs4. \<exists>wr5 s5 h3 c3.
       handleMainServerRequest (any_store plain_platform bs) sample_net ol sample_request (rw_new [])
         (serve_all (any_store plain_platform bs) sample_net ol rs4 \<lparr>sv_assets = f4, sv_blobs = (w4, ()), sv_net = 7, sv_missing = 0\<rparr>)
           = (Ok (), wr5, s5) \<and>
       sv_net s5 = 7 \<and> rw_result wr5 = (200, h3, c3) \<and> sha256 c3 = sha256 ''hello'')"
proof -
  obtain wr1 s1 w3 where H: "handleMainServerRequest plain_big sample_net plain_lctx sample_request (rw_new []) plain_srv = (Ok (), wr1, s1)"
    and r1: "rw_result wr1 = (200, hdr_add_all (rs_Header sample_response) [], ''hello'')" and plain: "manifest_plain (blobs (sv_assets s1))"
    and cd: "close_deferred plain_fslock (sv_assets s1) (Ok ()) (fst (sv_blobs s1)) = (Ok (), w3)" and w3: "faults w3 = []"
    using plain_closed by blast
  have xdg: "xdg_ok plain_platform" unfolding xdg_ok_def gives_path_def by (auto simp: plain_platform_def)
  have nh: "net_headers_ok sample_net" using sample_hdr_ok by (auto simp: net_headers_ok_def sample_net_def)
  have same: "oc_Manifest plain_offline = bc_Manifest plain_build" by (simp add: plain_offline_def plain_build_def)
  have P: "manifest_path plain_platform (bc_Manifest plain_build) = [''assets.json'']" by code_simp
  have d0: "dir_inv (ds_dir sample_store) work_os" "content_addressed (dir_holds (ds_dir sample_store) work_os)"
    by (simp_all add: dir_inv_def work_os_def content_addressed_def dir_holds_def fs_get_def)
  have Z: "plain_srv = serve_all plain_big sample_net plain_lctx [] plain_srv" and S: "s1 = serve_all plain_big sample_net plain_lctx [] s1" by simp_all
  have nx: "\<not> has_prefix ''/blobs'' xdg_home" by code_simp
  have mk: "is_Ok (fst (MakeBlobStore plain_platform (mo_Cache (oc_Manifest plain_offline)) False w3))"
    using nx by (simp add: MakeBlobStore_def plain_offline_def plain_options_def xdgIt_def)
  have dm: "NewMultiRegexMatcher (regexp_Compile plain_platform) (oc_DummyOK plain_offline) = Ok \<lparr>mm_regexes = []\<rparr>"
    by (simp add: plain_offline_def NewMultiRegexMatcher_def)
  have g: "fst (GetBlob (extractReqFromURL sample_request) (sv_assets plain_srv)) = Ok None"
      "\<not> SkipSave (extractReqFromURL sample_request) (sv_assets plain_srv)"
    using plain_file_facts by (simp_all add: sample_extract)
  have nm: "\<not> mm_Match (Some \<lparr>mm_regexes = []\<rparr>) (url_Redacted (extractReqFromURL sample_request))" by (simp add: mm_Match_def)
  have np: "butlast (manifest_path plain_platform (bc_Manifest plain_build)) \<noteq> ds_dir sample_store" by (simp add: P sample_dir)
  from build_then_offline [OF plain_fslock_frames xdg nh plain_build_open same d0 np Z H g r1 S plain cd w3 mk dm nm]
  obtain ol bs f4 w4 where op: "offline_open plain_platform plain_fslock plain_offline w3 = (Ok (ol, bs), Some f4, w4)"
    and ans: "\<forall>rs4 do2 n2 m2 rq2. extractReqFromURL rq2 = extractReqFromURL sample_request \<longrightarrow>
       (\<exists>wr5 s5 h3 c3.
          handleMainServerRequest (any_store plain_platform bs) do2 ol rq2 (rw_new [])
            (serve_all (any_store plain_platform bs) do2 ol rs4
              (\<lparr>sv_assets = f4, sv_blobs = (w4, m2), sv_net = n2, sv_missing = 0\<rparr> :: (path, os \<times> unit, nat) srv)) = (Ok (), wr5, s5) \<and>
          sv_net s5 = n2 \<and> rw_result wr5 = (200, h3, c3) \<and> sha256 c3 = sha256 ''hello'' \<and>
          (\<forall>k. CanonicalMIMEHeaderKey k = k \<and> gm_flag (HeadersToCache plain_lctx) k \<longrightarrow>
             hdr_Get h3 k = hdr_Get (hdr_add_all (rs_Header sample_response) []) k))"
    by (elim exE conjE) (rule that, assumption)
  have again: "\<exists>wr5 s5 h3 c3.
       handleMainServerRequest (any_store plain_platform bs) sample_net ol sample_request (rw_new [])
         (serve_all (any_store plain_platform bs) sample_net ol rs4 \<lparr>sv_assets = f4, sv_blobs = (w4, ()), sv_net = 7, sv_missing = 0\<rparr>)
           = (Ok (), wr5, s5) \<and>
       sv_net s5 = 7 \<and> rw_result wr5 = (200, h3, c3) \<and> sha256 c3 = sha256 ''hello''" for rs4
    using ans [THEN spec, of rs4, THEN spec, of sample_net, THEN spec, of 7, THEN spec, of "()", THEN spec, THEN mp, OF refl]
    by (elim exE conjE) (intro exI conjI; assumption)
  show ?thesis
    by (rule exI [of _ wr1], rule exI [of _ s1], rule exI [of _ w3], rule exI [of _ ol], rule exI [of _ bs], rule exI [of _ f4], rule exI [of _ w4])
      (intro conjI plain_build_open H cd op allI again)
qed

end
