(* ===== verification/CommandChecks.thy ===== *)
theory CommandChecks
  imports CommandRuns
begin

text \<open>
  What \<open>verify\<close> and \<open>offline\<close> do not do: commands that only read leave the manifest file alone, and \<open>verify --repair\<close>
  alone cannot store what it fetches.
\<close>

section \<open>Stores that are not writable\<close>

lemma fetch_unwritable:
  assumes "\<And>w. \<not> is_Ok (fst (Store_Put st w))" and "net_status_ok do_req" and "\<not> SkipSave u (sv_assets s)"
  shows "\<not> is_Ok (fst (fetchAndSaveBlob st do_req meth body u hs pre wr s))"
proof -
  have "\<not> is_Ok (fst (handle_response st u hs resp wr t))" if "StatusCode resp = 200" "\<not> SkipSave u (sv_assets t)" for resp t
  proof -
    obtain x w1 where p: "Store_Put st (sv_blobs t) = (x, w1)" by (metis surj_pair)
    then have "\<not> is_Ok x" using assms(1) [of "sv_blobs t"] by simp
    then show ?thesis using that p by (cases x) (auto simp: handle_response_def Let_def)
  qed
  then have h: "handle_response st u hs resp wr (s\<lparr>sv_net := n\<rparr>) = (r, wr1, s1) \<Longrightarrow> StatusCode resp = 200 \<Longrightarrow> \<not> is_Ok r"
    for resp n r wr1 s1 using assms(3) by (metis fst_conv srv.select_convs(1) srv.surjective srv.update_convs(3))
  have d: "is_Ok (defer_err r e) \<Longrightarrow> is_Ok r" for r :: "unit res" and e by (cases r; cases e) auto
  show ?thesis
    using assms(2) by (auto simp: fetchAndSaveBlob_def net_status_ok_def split: res.splits prod.splits option.splits dest!: h d)
qed

lemma handle_missing_unwritable:
  assumes "\<And>w. \<not> is_Ok (fst (Store_Put st w))" and "net_status_ok do_req"
    and "\<not> v_FailIfMissing vctx" and "v_FetchIfMissing vctx" and "(u, v) \<in> set ms" and "\<not> SkipSave u (sv_assets s)"
  shows "\<not> is_Ok (fst (handle_missing st do_req mappend vctx ms rv s))"
  using assms(5,6)
proof (induction ms arbitrary: rv s)
  case (Cons kv ms)
  obtain k b where kv: "kv = (k, b)" by (metis surj_pair)
  obtain x wr s2 where f: "fetchAndSaveBlob st do_req ''GET'' [] k (v_HeadersToCache vctx) None None s = (x, wr, s2)"
    by (metis prod_cases3)
  show ?case
  proof (cases x)
    case (Ok y)
    then have "k \<noteq> u"
      using fetch_unwritable [where st = st and u = k and s = s, OF assms(1,2)] f Cons.prems(2) by (metis fst_conv is_Ok.simps(1))
    then have "(u, v) \<in> set ms" using Cons.prems(1) kv by auto
    moreover have "\<not> SkipSave u (sv_assets s2)"
      using file_run_facts [OF fetch_run [OF f]] Cons.prems(2) by (simp add: SkipSave_def)
    ultimately show ?thesis using Cons.IH [of s2] assms(3,4) kv f Ok by simp
  qed (use assms(3,4) kv f in auto)
qed simp

context blob_store begin

lemma validate_unwritable:
  assumes "\<And>w. \<not> is_Ok (fst (Store_Put st w))" and "net_status_ok do_req"
    and "\<not> v_FailIfMissing vctx" and "v_FetchIfMissing vctx" and "v_ValidateSHA256 vctx" and "inv (sv_blobs s)"
    and "(k, v) \<in> set (gm_entries (blobs (sv_assets s)))" and "hex_decode (Sha256 v) = Ok h" and "holds (sv_blobs s) h = None"
    and "\<forall>u. url_Parse k = Ok u \<longrightarrow> \<not> SkipSave u (sv_assets s)"
  shows "\<not> is_Ok (fst (doValidate st do_req mappend vctx s))"
proof -
  let ?es = "gm_entries (blobs (sv_assets s))" and ?v0 = "\<lparr>vs_missing = [], vs_wrong = [], vs_world = sv_blobs s\<rparr>"
  obtain y vs where fe: "for_each (validate_entry st vctx) ?es ?v0 = (y, vs)" by (metis surj_pair)
  obtain x s1 where hm: "handle_missing st do_req mappend vctx (vs_missing vs) None (s\<lparr>sv_blobs := vs_world vs\<rparr>) = (x, s1)"
    by (metis surj_pair)
  have iv: "inv (vs_world ?v0)" using assms(6) by simp
  show ?thesis
  proof (cases "is_Ok y \<and> vs_wrong vs = []")
    case True
    then obtain z where z: "for_each (validate_entry st vctx) ?es ?v0 = (Ok z, vs)" using fe by (cases y) auto
    then obtain u where u: "url_Parse k = Ok u" "(u, v) \<in> set (vs_missing vs)"
      using for_each_covered [OF z iv assms(5) _ assms(7)] True assms(8,9) by auto
    have "\<not> is_Ok (fst (handle_missing st do_req mappend vctx (vs_missing vs) None (s\<lparr>sv_blobs := vs_world vs\<rparr>)))"
      by (rule handle_missing_unwritable [OF assms(1-4) u(2)]) (use assms(10) u(1) in simp)
    then show ?thesis using fe hm True by (cases y; cases x) (auto simp: doValidate_def ForEach_def)
  next
    case False
    have "vs_wrong vs \<noteq> [] \<Longrightarrow> report_wrong mappend (vs_wrong vs) rv \<noteq> None" for rv by (simp add: report_wrong_None)
    moreover have "e \<noteq> None \<Longrightarrow> \<not> is_Ok (of_err e)" for e by (cases e) auto
    ultimately show ?thesis
      using fe hm False by (cases y; cases x) (simp_all add: doValidate_def ForEach_def)
  qed
qed

end

section \<open>Opening for reading\<close>

lemma NewMapFile_readonly:
  assumes "NewMapFile lk opts w = (r, w')" and "\<not> Writable opts"
  shows "fs_get w' = fs_get w \<and> (\<forall>f. r = Ok f \<longrightarrow> options f = opts)"
  using assms load_local [of "new_file opts" w]
  by (auto simp: NewMapFile_def new_file_def split: res.splits prod.splits)

lemma MakeManifestFile_readonly:
  "MakeManifestFile pl lk mo opts w = (r, w') \<Longrightarrow> \<not> mc_Writable opts \<Longrightarrow>
    fs_get w' = fs_get w \<and> (\<forall>f. r = Ok f \<longrightarrow> \<not> Writable (options f))"
  by (auto simp: MakeManifestFile_def split: res.splits dest!: NewMapFile_readonly)

lemma close_readonly: "\<not> Writable (options f) \<Longrightarrow> close_deferred lk f r w = (r, w)"
  by (simp add: close_deferred_def Close_def)

text \<open>A command that opens for reading and runs something that keeps the files at \<open>Q\<close> keeps them.\<close>

lemma run_readonly:
  assumes "run_command lk (x, f, w1) body m n = (r, (w', m'), n')"
    and "\<forall>g. f = Some g \<longrightarrow> \<not> Writable (options g)"
    and "\<And>y g s r1 s1. x = Ok y \<Longrightarrow> f = Some g \<Longrightarrow> s = \<lparr>sv_assets = g, sv_blobs = (w1, m), sv_net = n, sv_missing = 0\<rparr> \<Longrightarrow>
       body y s = (r1, s1) \<Longrightarrow> options (sv_assets s1) = options g \<and> (\<forall>q. Q q \<longrightarrow> fs_get (fst (sv_blobs s1)) q = fs_get w1 q)"
    and "Q q"
  shows "fs_get w' q = fs_get w1 q"
proof (cases f)
  case None
  then show ?thesis using assms(1) by (cases x) (auto simp: run_command_def)
next
  case (Some g)
  show ?thesis
  proof (cases x)
    case (Ok y)
    obtain r1 s1 where b: "body y \<lparr>sv_assets = g, sv_blobs = (w1, m), sv_net = n, sv_missing = 0\<rparr> = (r1, s1)" by (metis surj_pair)
    note k = assms(3) [OF Ok Some refl b]
    then have "close_deferred lk (sv_assets s1) r1 (fst (sv_blobs s1)) = (r1, fst (sv_blobs s1))"
      using assms(2) Some by (simp add: close_readonly)
    then have "w' = fst (sv_blobs s1)" using assms(1) Ok Some b by (simp add: run_command_def)
    then show ?thesis using k assms(4) by simp
  qed (use assms(1,2) Some in \<open>auto simp: run_command_def close_readonly\<close>)
qed

text \<open>The files that the store of the options does not touch: all but those of a directory store, and not for a bucket.\<close>

definition store_spares :: "'m platform \<Rightarrow> CacheOptions \<Rightarrow> path \<Rightarrow> bool" where
  "store_spares pl co q \<longleftrightarrow> BlobsBackend co \<noteq> ''s3'' \<and>
     (\<forall>wr w d w'. MakeBlobStore pl co wr w = (Ok (FileStore d), w') \<longrightarrow> ds_dir d \<noteq> butlast q)"

lemma MakeBlobStore_kinds: "MakeBlobStore pl co wr w = (Ok s, w') \<Longrightarrow> BlobsBackend co \<noteq> ''s3'' \<Longrightarrow> (\<exists>d. s = FileStore d) \<or> (\<exists>r. s = RegStore r)"
  by (auto simp: MakeBlobStore_def split: if_splits res.splits prod.splits)

lemma spared:
  assumes "MakeBlobStore pl co wr w = (Ok bs, w1)" and "store_spares pl co q"
  shows "fs_get (fst (sv_blobs (serve_all (any_store pl bs) do_req lctx rs s))) q = fs_get (fst (sv_blobs s)) q"
    and "doValidate (any_store pl bs) do_req mappend vctx s = (r, s1) \<Longrightarrow> fs_get (fst (sv_blobs s1)) q = fs_get (fst (sv_blobs s)) q"
proof -
  have "(\<exists>d. bs = FileStore d \<and> ds_dir d \<noteq> butlast q) \<or> (\<exists>r. bs = RegStore r)"
    using MakeBlobStore_kinds [OF assms(1)] assms unfolding store_spares_def by metis
  then show "fs_get (fst (sv_blobs (serve_all (any_store pl bs) do_req lctx rs s))) q = fs_get (fst (sv_blobs s)) q"
    using fll.serve_all_loc [where s = s] rgl.serve_all_loc [where s = s] by (fastforce simp: file_loc_def dir_local_def)
  assume v: "doValidate (any_store pl bs) do_req mappend vctx s = (r, s1)"
  from \<open>(\<exists>d. bs = FileStore d \<and> ds_dir d \<noteq> butlast q) \<or> (\<exists>r. bs = RegStore r)\<close>
  show "fs_get (fst (sv_blobs s1)) q = fs_get (fst (sv_blobs s)) q"
    using fll.doValidate_loc [of pl _ do_req mappend vctx s r s1] rgl.doValidate_loc [of pl _ do_req mappend vctx s r s1] v
    by (fastforce simp: file_loc_def dir_local_def)
qed

section \<open>A concrete manifest with a missing blob\<close>

definition missing_os :: os where
  "missing_os = \<lparr>files = [([''assets.json''], ''{ \"https://example.com/a\": { \"Sha256\": \"ab12\", \"Headers\": {} } }'')], dirs = [], faults = []\<rparr>"

definition plain_verify :: "bool \<Rightarrow> VerifyCommand" where
  "plain_verify repair = \<lparr>vc_Manifest = plain_options, vc_Fetch = \<lparr>fo_NoCache = [], CacheHeader = []\<rparr>, Fetch = False, Repair = repair\<rparr>"

definition missing_file :: "path File" where
  "missing_file = \<lparr>options = \<lparr>opt_Path = [''assets.json''], Writable = True, AllowOverwrite = True, NoCache = Some \<lparr>mm_regexes = []\<rparr>\<rparr>,
     blobs = Some [(''https://example.com/a'', \<lparr>Sha256 = ''ab12'', Headers = Some []\<rparr>)], previousBlobs = None, dirty = False,
     lock = Some [''assets.json.lock''], lockPath = [''assets.json.lock'']\<rparr>"

definition missing_ctx :: validateCtx where
  "missing_ctx = \<lparr>v_HeadersToCache = Some [], v_FailIfMissing = False, v_FetchIfMissing = True, v_RepairIfWrong = True, v_ValidateSHA256 = True\<rparr>"

lemma plain_paths: "path_of [] ''./assets.json'' = [''assets.json'']" "path_of [] ''/blobs'' = [''blobs'']" "\<not> has_prefix ''/blobs'' xdg_home"
  by code_simp+

lemma plain_verify_open:
  "verify_open plain_platform plain_fslock (plain_verify True) missing_os =
    (Ok (missing_ctx, FileStore (NewDirectoryStore [''blobs''] False)), Some missing_file, fs_put [''assets.json.lock''] [] missing_os)"
proof -
  have "NewMapFile plain_fslock (options missing_file) missing_os = (Ok missing_file, fs_put [''assets.json.lock''] [] missing_os)"
    by code_simp
  then show ?thesis
    by (simp add: verify_open_def plain_verify_def plain_options_def plain_platform_def MakeBlobStore_def xdgIt_def plain_paths
        MakeManifestFile_def NewMultiRegexMatcher_def missing_file_def missing_ctx_def CacheHeaderMap_def gm_make_def)
qed

lemma plain_xdg: "xdg_ok plain_platform"
  unfolding xdg_ok_def gives_path_def by (auto simp: plain_platform_def)

lemma plain_spares: "butlast q \<noteq> [''blobs''] \<Longrightarrow> store_spares plain_platform (mo_Cache plain_options) q"
  by (auto simp: store_spares_def plain_options_def MakeBlobStore_def xdgIt_def plain_paths plain_platform_def NewDirectoryStore_def)

section \<open>Properties\<close>

text \<open>
  C35. \<open>verify\<close> without \<open>--repair\<close> and \<open>offline\<close> leave the manifest file and its lock file as they are, whatever
  they fetch or serve and whatever fails, provided that these files are not in the blob directory itself.
\<close>

theorem readonly_commands:
  assumes "xdg_ok pl" and "\<not> Repair vc" and "store_spares pl (mo_Cache (vc_Manifest vc)) q" and "store_spares pl (mo_Cache (oc_Manifest oc)) q"
    and "verify_Execute pl lk do1 mappend vc (w, m) n = (r, (w1, m1), n1)"
    and "offline_Execute pl lk oc (\<lambda>(lctx, bs) s. (res, serve_all (any_store pl bs) do2 lctx rs s)) (w, m) n = (r2, (w2, m2), n2)"
  shows "fs_get w1 q = fs_get w q \<and> fs_get w2 q = fs_get w q"
proof
  obtain x f w0 where o: "verify_open pl lk vc w = (x, f, w0)" by (metis prod_cases3)
  have f0: "fs_get w0 = fs_get w" "\<forall>g. f = Some g \<longrightarrow> \<not> Writable (options g)"
    using o assms(1,2)
    by (auto simp: verify_open_def split: res.splits prod.splits dest!: MakeManifestFile_readonly MakeBlobStore_files)
  have s: "\<exists>wa wb. MakeBlobStore pl (mo_Cache (vc_Manifest vc)) (Fetch vc) wa = (Ok bs, wb)" if "x = Ok (vctx, bs)" for vctx bs
    using o that by (auto simp: verify_open_def split: res.splits prod.splits)
  have run: "run_command lk (x, f, w0) (\<lambda>(vctx, bs). doValidate (any_store pl bs) do1 mappend vctx) m n = (r, (w1, m1), n1)"
    using assms(5) o by (simp add: verify_Execute_def)
  have "options (sv_assets s1) = options g \<and> (\<forall>p. p = q \<longrightarrow> fs_get (fst (sv_blobs s1)) p = fs_get w0 p)"
    if y: "x = Ok y" and t: "t = \<lparr>sv_assets = g, sv_blobs = (w0, m), sv_net = n, sv_missing = 0\<rparr>"
      and v: "(case y of (vctx, bs) \<Rightarrow> doValidate (any_store pl bs) do1 mappend vctx) t = (r1, s1)" for y g t r1 s1
  proof -
    obtain vctx bs where y2: "y = (vctx, bs)" by (metis surj_pair)
    then have v2: "doValidate (any_store pl bs) do1 mappend vctx t = (r1, s1)" using v by simp
    obtain wa wb where "MakeBlobStore pl (mo_Cache (vc_Manifest vc)) (Fetch vc) wa = (Ok bs, wb)" using s y y2 by blast
    from spared(2) [OF this assms(3) v2] file_run_facts [OF doValidate_run [OF v2]] show ?thesis by (simp add: t)
  qed
  then have "fs_get w1 q = fs_get w0 q" by (rule run_readonly [OF run f0(2), where Q = "\<lambda>p. p = q"]) auto
  then show "fs_get w1 q = fs_get w q" using f0(1) by simp
next
  obtain x f w0 where o: "offline_open pl lk oc w = (x, f, w0)" by (metis prod_cases3)
  have f0: "fs_get w0 = fs_get w" "\<forall>g. f = Some g \<longrightarrow> \<not> Writable (options g)"
    using o assms(1)
    by (auto simp: offline_open_def mc_none_def split: res.splits prod.splits dest!: MakeManifestFile_readonly MakeBlobStore_files)
  have s: "\<exists>wa wb. MakeBlobStore pl (mo_Cache (oc_Manifest oc)) False wa = (Ok bs, wb)" if "x = Ok (lctx, bs)" for lctx bs
    using o that by (auto simp: offline_open_def split: res.splits prod.splits)
  have run: "run_command lk (x, f, w0) (\<lambda>(lctx, bs) s. (res, serve_all (any_store pl bs) do2 lctx rs s)) m n = (r2, (w2, m2), n2)"
    using assms(6) o by (simp add: offline_Execute_def)
  have "options (sv_assets s1) = options g \<and> (\<forall>p. p = q \<longrightarrow> fs_get (fst (sv_blobs s1)) p = fs_get w0 p)"
    if y: "x = Ok y" and t: "t = \<lparr>sv_assets = g, sv_blobs = (w0, m), sv_net = n, sv_missing = 0\<rparr>"
      and v: "(case y of (lctx, bs) \<Rightarrow> \<lambda>s. (res, serve_all (any_store pl bs) do2 lctx rs s)) t = (r1, s1)" for y g t r1 s1
  proof -
    obtain lctx bs where y2: "y = (lctx, bs)" by (metis surj_pair)
    then have s1: "s1 = serve_all (any_store pl bs) do2 lctx rs t" using v by simp
    obtain wa wb where "MakeBlobStore pl (mo_Cache (oc_Manifest oc)) False wa = (Ok bs, wb)" using s y y2 by blast
    from spared(1) [OF this assms(4), of do2 lctx rs t] file_run_facts [OF serve_all_run [of t "any_store pl bs" do2 lctx rs]]
    show ?thesis by (simp add: t s1)
  qed
  then have "fs_get w2 q = fs_get w0 q" by (rule run_readonly [OF run f0(2), where Q = "\<lambda>p. p = q"]) auto
  then show "fs_get w2 q = fs_get w q" using f0(1) by simp
qed

lemma readonly_commands_witness:
  "(\<exists>r w1 m1 n1. verify_Execute plain_platform plain_fslock sample_net (\<lambda>rv e. e) (plain_verify False) (missing_os, ()) 0 = (r, (w1, m1), n1) \<and>
      fs_get w1 [''assets.json''] = fs_get missing_os [''assets.json'']) \<and>
   (\<exists>r2 w2 m2 n2. offline_Execute plain_platform plain_fslock plain_offline
        (\<lambda>(lctx, bs) s. (Ok (), serve_all (any_store plain_platform bs) sample_net lctx [(sample_request, [])] s)) (missing_os, ()) 0
        = (r2, (w2, m2), n2) \<and>
      fs_get w2 [''assets.json''] = fs_get missing_os [''assets.json''])"
proof -
  obtain r w1 m1 n1 where v: "verify_Execute plain_platform plain_fslock sample_net (\<lambda>rv e. e) (plain_verify False) (missing_os, ()) 0
      = (r, (w1, m1), n1)" by (metis surj_pair)
  obtain r2 w2 m2 n2 where o: "offline_Execute plain_platform plain_fslock plain_offline
      (\<lambda>(lctx, bs) s. (Ok (), serve_all (any_store plain_platform bs) sample_net lctx [(sample_request, [])] s)) (missing_os, ()) 0
      = (r2, (w2, m2), n2)" by (metis surj_pair)
  have sp: "store_spares plain_platform (mo_Cache plain_options) [''assets.json'']" by (rule plain_spares) simp
  have "fs_get w1 [''assets.json''] = fs_get missing_os [''assets.json''] \<and> fs_get w2 [''assets.json''] = fs_get missing_os [''assets.json'']"
    by (rule readonly_commands [OF plain_xdg _ _ _ v o]) (use sp in \<open>simp_all add: plain_verify_def plain_offline_def\<close>)
  then show ?thesis using v o by blast
qed

text \<open>
  C37. \<open>verify --repair\<close> without \<open>--fetch\<close> cannot repair. It opens a directory store that is not writable, so when the
  blob of an entry is missing and the network answers with status 200, the command fails.
\<close>

theorem repair_alone_fails:
  assumes "verify_open pl lk vc w = (Ok (vctx, FileStore d), Some mf, w1)" and "Repair vc" and "\<not> Fetch vc"
    and "xdg_ok pl" and "dir_inv (ds_dir d) w1" and "net_status_ok do_req"
    and "(k, v) \<in> set (gm_entries (blobs mf))" and "hex_decode (Sha256 v) = Ok h" and "dir_holds (ds_dir d) w1 h = None"
    and "\<forall>u. url_Parse k = Ok u \<longrightarrow> \<not> SkipSave u mf"
  shows "\<not> is_Ok (fst (verify_Execute pl lk do_req mappend vc (w, m) n))"
proof -
  obtain wa wb where o: "MakeBlobStore pl (mo_Cache (vc_Manifest vc)) (Fetch vc) wa = (Ok (FileStore d), wb)"
      "v_FetchIfMissing vctx" "\<not> v_FailIfMissing vctx" "v_ValidateSHA256 vctx"
    using assms(1,2) by (auto simp: verify_open_def split: res.splits prod.splits)
  have "\<not> ds_writable d" using MakeBlobStore_inv [OF o(1) assms(4)] assms(3) by simp
  then have uw: "\<not> is_Ok (fst (Store_Put (any_store pl (FileStore d)) x))" for x
    by (auto simp: any_lift_simps ds_Put_def split: prod.splits)
  let ?s = "\<lparr>sv_assets = mf, sv_blobs = (w1, m), sv_net = n, sv_missing = 0\<rparr>"
  have v: "\<not> is_Ok (fst (doValidate (any_store pl (FileStore d)) do_req mappend vctx ?s))"
    by (rule fl.lifted.validate_unwritable [OF uw assms(6) o(3,2,4) _ _ assms(8)]) (use assms(5,7,9,10) in simp_all)
  obtain r s1 where "doValidate (any_store pl (FileStore d)) do_req mappend vctx ?s = (r, s1)" by (metis surj_pair)
  then show ?thesis
    using v assms(1)
    by (cases r) (auto simp: verify_Execute_def run_command_def close_deferred_def split: res.splits prod.splits)
qed

lemma repair_alone_fails_witness:
  "\<not> is_Ok (fst (verify_Execute plain_platform plain_fslock sample_net (\<lambda>rv e. e) (plain_verify True) (missing_os, ()) 0))"
proof -
  have h: "hex_decode (Sha256 \<lparr>Sha256 = ''ab12'', Headers = Some []\<rparr>) = Ok [char_of (171 :: nat), char_of (18 :: nat)]" by code_simp
  have n: "net_status_ok sample_net" by (auto simp: net_status_ok_def sample_net_def sample_response_def)
  have e: "(''https://example.com/a'', \<lparr>Sha256 = ''ab12'', Headers = Some []\<rparr>) \<in> set (gm_entries (blobs missing_file))"
    by (simp add: missing_file_def gm_entries_def)
  show ?thesis
    by (rule repair_alone_fails [OF plain_verify_open _ _ plain_xdg _ n e h])
      (simp_all add: plain_verify_def NewDirectoryStore_def dir_inv_def dir_holds_def missing_os_def fs_put_def fs_get_def SkipSave_def
        missing_file_def mm_Match_def)
qed

end
