(* ===== verification/RegistryServer.thy ===== *)
theory RegistryServer
  imports RegistryStore Listener
begin

text \<open>
  A registry with two endpoints for blobs and uploads that does what the distribution specification asks for,
  as an executable function on requests: the proof that the assumptions of \<open>oci_registry\<close> can be met, and the
  instance on which the properties of the registry store are evaluated.
\<close>

record registry =
  rv_blobs :: "(bytes \<times> bytes) list"
  rv_uploads :: "(string \<times> bytes) list"
  rv_next :: nat

definition rv_base :: string where
  "rv_base = ''https://r.example/v2/x/''"

definition rv_loc :: "nat \<Rightarrow> string" where
  "rv_loc i = ''https://r.example/up?n='' @ replicate i (CHR ''0'')"

definition rv_reply :: "nat \<Rightarrow> header \<Rightarrow> bytes \<Rightarrow> response" where
  "rv_reply code h body = \<lparr>StatusCode = code, rs_Header = h, rs_Body = open_reader body Pass Pass\<rparr>"

definition rv_patch :: "request \<Rightarrow> string \<Rightarrow> registry \<Rightarrow> response \<times> registry" where
  "rv_patch q s n =
     (case map_of (rv_uploads n) s of
        None \<Rightarrow> (rv_reply 404 [] [], n)
      | Some c \<Rightarrow>
          (if hdr_Get (rq_Header q) ''Content-Range'' \<noteq>
             ''bytes '' @ nat_string (length c) @ ''-'' @ nat_string (length c + length (rq_Body q) - 1) @ ''/*''
           then (rv_reply 416 [] [], n)
           else (rv_reply 202 [(''Location'', [rv_loc (rv_next n)])] [],
             n\<lparr>rv_uploads := (rv_loc (rv_next n), c @ rq_Body q) # AList.delete s (rv_uploads n), rv_next := Suc (rv_next n)\<rparr>)))"

definition rv_put :: "string \<Rightarrow> registry \<Rightarrow> response \<times> registry" where
  "rv_put s n =
     (case find (\<lambda>(l, c). digest_url l (sha256 c) = s) (rv_uploads n) of
        None \<Rightarrow> (rv_reply 400 [] [], n)
      | Some (l, c) \<Rightarrow> (rv_reply 201 [] [],
          n\<lparr>rv_blobs := AList.update (sha256 c) c (rv_blobs n), rv_uploads := AList.delete l (rv_uploads n)\<rparr>))"

definition rv_do :: "request \<Rightarrow> registry \<Rightarrow> response res \<times> registry" where
  "rv_do q n =
     (let s = url_String (rq_URL q); m = rq_Method q in
      if m = ''GET'' \<or> m = ''HEAD'' then
        (case find (\<lambda>(k, c). blob_url rv_base k = s) (rv_blobs n) of
           None \<Rightarrow> (Ok (rv_reply 404 [] []), n)
         | Some (k, c) \<Rightarrow> (Ok (rv_reply 200 [] (if m = ''HEAD'' then [] else c)), n))
      else if m = ''POST'' \<and> s = rv_base @ ''blobs/uploads/'' then
        (Ok (rv_reply 202 [(''Location'', [rv_loc (rv_next n)])] []),
         n\<lparr>rv_uploads := (rv_loc (rv_next n), []) # rv_uploads n, rv_next := Suc (rv_next n)\<rparr>)
      else if m = ''PATCH'' then (case rv_patch q s n of (r, n1) \<Rightarrow> (Ok r, n1))
      else if m = ''PUT'' then (case rv_put s n of (r, n1) \<Rightarrow> (Ok r, n1))
      else if m = ''DELETE'' then
        (Ok (rv_reply (if map_of (rv_uploads n) s = None then 404 else 204) [] []),
         n\<lparr>rv_uploads := AList.delete s (rv_uploads n)\<rparr>)
      else (Ok (rv_reply 405 [] []), n))"

definition rv_read :: "request \<Rightarrow> registry \<Rightarrow> nat" where
  "rv_read q n = length (rq_Body q)"

text \<open>The locations in use are those given out, each once.\<close>

definition rv_inv :: "registry \<Rightarrow> bool" where
  "rv_inv n \<longleftrightarrow> distinct (map fst (rv_uploads n)) \<and> (\<forall>l \<in> fst ` set (rv_uploads n). \<exists>i < rv_next n. l = rv_loc i)"

abbreviation "rv_blobs_of n \<equiv> map_of (rv_blobs n)"
abbreviation "rv_upload_of n \<equiv> map_of (rv_uploads n)"

section \<open>The URLs of the registry\<close>

definition rv_url :: "string \<Rightarrow> string \<Rightarrow> url" where
  "rv_url p q = url_zero\<lparr>Scheme := ''https'', Host := ''r.example'', Path := p, RawQuery := q\<rparr>"

definition path_plain :: "string \<Rightarrow> bool" where
  "path_plain p \<longleftrightarrow> list_all (\<lambda>c. \<not> should_escape c EncPath) p"

lemma escape_plain: "path_plain p \<Longrightarrow> url_escape EncPath p = p"
  by (induction p) (auto simp: path_plain_def)

lemma rv_url_plain: "has_prefix p ''/'' \<Longrightarrow> query_ok q \<Longrightarrow> url_plain (rv_url p q)"
proof -
  assume a: "has_prefix p ''/''" "query_ok q"
  have "host_ok ''r.example''"
    unfolding host_ok_def
    by (rule exI [of _ "''r.example''"], rule exI [of _ "[]"]) (simp add: host_char_def is_alnum_def)
  then show ?thesis using a by (simp add: url_plain_def rv_url_def url_zero_def)
qed

lemma rv_url_String:
  "has_prefix p ''/'' \<Longrightarrow> query_ok q \<Longrightarrow> path_plain p \<Longrightarrow>
    url_String (rv_url p q) = ''https://r.example'' @ p @ (if q = [] then [] else CHR ''?'' # q)"
  using plain_String(1) [OF rv_url_plain] escape_plain by (simp add: rv_url_def url_zero_def)

lemma rv_request:
  assumes "has_prefix p ''/''" and "query_ok q" and "path_plain p" and "s = url_String (rv_url p q)"
    and "list_all is_token_char m" and "m \<noteq> []"
  shows "\<exists>r. http_NewRequest m s b = Ok r \<and> url_String (rq_URL r) = s \<and> rq_Method r = m \<and> rq_Body r = b \<and> rq_Header r = []"
proof -
  have pl: "url_plain (rv_url p q)" by (rule rv_url_plain [OF assms(1,2)])
  have "url_Parse s = Ok (rv_url p q)" using plain_roundtrip [OF pl] plain_String(2) [OF pl] assms(4) by simp
  moreover have "removeEmptyPort (Host (rv_url p q)) = Host (rv_url p q)"
  proof -
    have "removeEmptyPort ''r.example'' = ''r.example''" by code_simp
    then show ?thesis by (simp add: rv_url_def)
  qed
  ultimately show ?thesis using assms(4-6) by (simp add: http_NewRequest_def Let_def)
qed

lemma hex_plain: "path_plain (hex_encode k)" and hex_query: "query_ok (hex_encode k)"
proof -
  have "is_alnum c" if "unhex c \<noteq> None" for c
    using that by (auto simp: unhex_def is_alnum_def Let_def split: if_splits)
  then have a: "c \<in> set (hex_encode k) \<Longrightarrow> is_alnum c" for c using hex_encode_chars by blast
  then show "path_plain (hex_encode k)" by (auto simp: path_plain_def list_all_iff should_escape_def)
  show "query_ok (hex_encode k)" using a alnum_facts by (fastforce simp: query_ok_def list_all_iff)
qed

lemma path_plain_append: "path_plain (a @ b) \<longleftrightarrow> path_plain a \<and> path_plain b"
  by (simp add: path_plain_def)

lemma query_ok_append: "query_ok (a @ b) \<longleftrightarrow> query_ok a \<and> query_ok b"
  by (simp add: query_ok_def)

lemma rv_strings:
  "path_plain ''/v2/x/blobs/sha256:''" "path_plain ''/v2/x/blobs/uploads/''" "path_plain ''/up''"
  "query_ok ''n=''" "query_ok ''&digest=sha256:''" "query_ok []" "query_ok (replicate i (CHR ''0''))"
proof -
  show "path_plain ''/v2/x/blobs/sha256:''" "path_plain ''/v2/x/blobs/uploads/''" "path_plain ''/up''"
    "query_ok ''n=''" "query_ok ''&digest=sha256:''" "query_ok []" by code_simp+
  have "\<not> is_ctl (CHR ''0'')" by code_simp
  then show "query_ok (replicate i (CHR ''0''))" by (simp add: query_ok_def list_all_iff)
qed

lemma blob_request:
  assumes "list_all is_token_char m" and "m \<noteq> []"
  shows "\<exists>r. http_NewRequest m (blob_url rv_base k) b = Ok r \<and> url_String (rq_URL r) = blob_url rv_base k \<and> rq_Method r = m
    \<and> rq_Body r = b \<and> rq_Header r = []"
proof -
  let ?p = "''/v2/x/blobs/sha256:'' @ hex_encode k"
  have pp: "path_plain ?p" using rv_strings(1) hex_plain path_plain_append by blast
  have "blob_url rv_base k = url_String (rv_url ?p [])"
    using rv_url_String [OF _ rv_strings(6) pp] by (simp add: blob_url_def rv_base_def)
  from rv_request [OF _ rv_strings(6) pp this assms] show ?thesis by simp
qed

lemma post_request:
  "\<exists>r. http_NewRequest ''POST'' (rv_base @ ''blobs/uploads/'') b = Ok r \<and> url_String (rq_URL r) = rv_base @ ''blobs/uploads/''
    \<and> rq_Method r = ''POST'' \<and> rq_Body r = b \<and> rq_Header r = []"
proof -
  have "rv_base @ ''blobs/uploads/'' = url_String (rv_url ''/v2/x/blobs/uploads/'' [])"
    using rv_url_String [OF _ rv_strings(6,2)] by (simp add: rv_base_def)
  moreover have "list_all is_token_char ''POST''" by code_simp
  ultimately show ?thesis using rv_request [OF _ rv_strings(6,2)] by simp
qed

lemma query_request:
  assumes "query_ok x" and "list_all is_token_char m" and "m \<noteq> []" and "s = rv_loc i @ x"
  shows "\<exists>r. http_NewRequest m s b = Ok r \<and> url_String (rq_URL r) = s \<and> rq_Method r = m \<and> rq_Body r = b \<and> rq_Header r = []"
proof -
  let ?q = "''n='' @ replicate i (CHR ''0'') @ x"
  have q: "query_ok ?q" using rv_strings(4,7) assms(1) query_ok_append by blast
  have "s = url_String (rv_url ''/up'' ?q)"
    using rv_url_String [OF _ q rv_strings(3)] assms(4) by (simp add: rv_loc_def)
  from rv_request [OF _ q rv_strings(3) this assms(2,3)] show ?thesis by simp
qed

section \<open>The server meets the assumptions\<close>

lemma NewRequest_fields:
  "http_NewRequest m u b = Ok q \<Longrightarrow> m \<noteq> [] \<Longrightarrow> rq_Method q = m \<and> rq_Body q = b \<and> rq_Header q = []"
  by (auto simp: http_NewRequest_def Let_def split: res.splits if_splits)

lemma find_blob:
  "find (\<lambda>(k', c). blob_url base k' = blob_url base k) bl = map_option (\<lambda>c. (k, c)) (map_of bl k)"
  by (induction bl) (auto simp: blob_url_def)

lemma rv_loc_inject [simp]: "rv_loc i = rv_loc j \<longleftrightarrow> i = j"
  by (simp add: rv_loc_def replicate_eq_replicate)

lemma digest_url_loc: "str_cut (CHR ''&'') (digest_url (rv_loc i) k) = (rv_loc i, Some (''digest=sha256:'' @ hex_encode k))"
proof -
  have "CHR ''&'' \<notin> set (rv_loc i)" by (simp add: rv_loc_def)
  from str_cut_append [OF this] show ?thesis by (simp add: digest_url_def)
qed

lemma digest_url_inject: "digest_url (rv_loc i) k = digest_url (rv_loc j) k' \<longleftrightarrow> i = j \<and> k = k'"
proof
  assume "digest_url (rv_loc i) k = digest_url (rv_loc j) k'"
  then have "(rv_loc i, Some (''digest=sha256:'' @ hex_encode k)) = (rv_loc j, Some (''digest=sha256:'' @ hex_encode k'))"
    using digest_url_loc by metis
  then show "i = j \<and> k = k'" by simp
qed simp

lemma rv_uploads_new:
  "rv_inv n \<Longrightarrow> rv_inv (n\<lparr>rv_uploads := (rv_loc (rv_next n), c) # AList.delete s (rv_uploads n), rv_next := Suc (rv_next n)\<rparr>)"
  "rv_inv n \<Longrightarrow> rv_inv (n\<lparr>rv_uploads := (rv_loc (rv_next n), c) # rv_uploads n, rv_next := Suc (rv_next n)\<rparr>)"
  "rv_inv n \<Longrightarrow> rv_inv (n\<lparr>rv_uploads := AList.delete s (rv_uploads n)\<rparr>)"
  "rv_inv n \<Longrightarrow> rv_inv (n\<lparr>rv_blobs := b\<rparr>)"
proof -
  assume i: "rv_inv n"
  have sub: "fst ` set (AList.delete s (rv_uploads n)) \<subseteq> fst ` set (rv_uploads n)" by (rule dom_delete_subset)
  have new: "rv_loc (rv_next n) \<notin> fst ` set (rv_uploads n)"
  proof
    assume "rv_loc (rv_next n) \<in> fst ` set (rv_uploads n)"
    then obtain j where "j < rv_next n" "rv_loc (rv_next n) = rv_loc j" using i by (auto simp: rv_inv_def)
    then show False by simp
  qed
  have ex: "\<exists>j < Suc (rv_next n). l = rv_loc j" if "l \<in> fst ` set (rv_uploads n)" for l
    using i that unfolding rv_inv_def by (meson less_Suc_eq)
  have old: "\<exists>j < rv_next n. a = rv_loc j" if "(a, b) \<in> set (AList.delete s (rv_uploads n))" for a b
  proof -
    have "a \<in> fst ` set (rv_uploads n)" using sub that by force
    then show ?thesis using i unfolding rv_inv_def by blast
  qed
  have exd: "\<exists>j < Suc (rv_next n). a = rv_loc j" if "(a, b) \<in> set (AList.delete s (rv_uploads n))" for a b
    using ex [of a] sub that by force
  show "rv_inv (n\<lparr>rv_uploads := (rv_loc (rv_next n), c) # AList.delete s (rv_uploads n), rv_next := Suc (rv_next n)\<rparr>)"
    using i sub new exd by (auto simp: rv_inv_def distinct_delete)
  show "rv_inv (n\<lparr>rv_uploads := (rv_loc (rv_next n), c) # rv_uploads n, rv_next := Suc (rv_next n)\<rparr>)"
    using i new ex by (auto simp: rv_inv_def)
  show "rv_inv (n\<lparr>rv_uploads := AList.delete s (rv_uploads n)\<rparr>)"
    using i old by (auto simp: rv_inv_def distinct_delete)
  show "rv_inv (n\<lparr>rv_blobs := b\<rparr>)" using i by (simp add: rv_inv_def)
qed

lemma rv_get_head:
  assumes "m = ''GET'' \<or> m = ''HEAD''"
  shows "client_request rv_do m (blob_url rv_base k) [] [] n =
    (Ok (case rv_blobs_of n k of None \<Rightarrow> rv_reply 404 [] [] | Some c \<Rightarrow> rv_reply 200 [] (if m = ''HEAD'' then [] else c)), n)"
proof -
  have "list_all is_token_char ''GET''" "list_all is_token_char ''HEAD''" by code_simp+
  then have t: "list_all is_token_char m" "m \<noteq> []" using assms by auto
  obtain r where r: "http_NewRequest m (blob_url rv_base k) [] = Ok r" "url_String (rq_URL r) = blob_url rv_base k" "rq_Method r = m"
      "rq_Header r = []"
    using blob_request [OF t] by metis
  show ?thesis
    using r assms by (simp add: client_request_def rv_do_def find_blob split: option.split)
qed

lemma rv_patch_cases:
  assumes "rv_patch q s n = (r, n1)" and "rv_inv n"
  shows "rv_inv n1 \<and> rv_blobs n1 = rv_blobs n \<and>
    (StatusCode r = 202 \<longrightarrow> (\<exists>c. rv_upload_of n s = Some c \<and>
       rv_upload_of n1 (hdr_Get (rs_Header r) ''Location'') = Some (c @ rq_Body q)))"
proof -
  have "hdr_Get [(''Location'', [l])] ''Location'' = l" for l by code_simp
  then show ?thesis
    using assms rv_uploads_new by (auto simp: rv_patch_def rv_reply_def split: option.splits if_splits)
qed

lemma rv_put_cases:
  assumes "rv_put (digest_url l k) n = (r, n1)" and "rv_inv n" and "rv_upload_of n l = Some c"
  shows "rv_inv n1 \<and> (StatusCode r = 201 \<longrightarrow> k = sha256 c \<and> rv_blobs_of n1 = (rv_blobs_of n)(k \<mapsto> c)) \<and>
    (StatusCode r \<noteq> 201 \<longrightarrow> n1 = n)"
proof (cases "find (\<lambda>(l', c'). digest_url l' (sha256 c') = digest_url l k) (rv_uploads n)")
  case None
  then show ?thesis using assms by (auto simp: rv_put_def rv_reply_def)
next
  case (Some lc)
  then obtain l' c' where lc: "lc = (l', c')" by (metis surj_pair)
  have f: "(l', c') \<in> set (rv_uploads n)" "digest_url l' (sha256 c') = digest_url l k"
    using Some lc by (auto simp: find_Some_iff in_set_conv_nth)
  obtain i where i: "l = rv_loc i" using assms(2,3) map_of_SomeD [OF assms(3)] by (force simp: rv_inv_def)
  obtain j where j: "l' = rv_loc j" using assms(2) f(1) by (force simp: rv_inv_def)
  have eq: "l' = l" "sha256 c' = k" using f(2) i j digest_url_inject by auto
  have "rv_upload_of n l' = Some c'" using assms(2) f(1) by (simp add: rv_inv_def)
  then have "c' = c" using eq(1) assms(3) by simp
  then have n1: "n1 = (n\<lparr>rv_uploads := AList.delete l (rv_uploads n)\<rparr>)\<lparr>rv_blobs := AList.update k c (rv_blobs n)\<rparr>"
    and r: "StatusCode r = 201"
    using assms(1) Some lc eq by (auto simp: rv_put_def rv_reply_def)
  have "rv_inv n1" unfolding n1 by (intro rv_uploads_new(3,4) assms(2))
  then show ?thesis using n1 r eq \<open>c' = c\<close> by (simp add: update_conv')
qed

lemma rv_do_inv: "rv_do q n = (r, n') \<Longrightarrow> rv_inv n \<Longrightarrow> rq_Method q \<noteq> ''PUT'' \<Longrightarrow> rv_inv n' \<and> rv_blobs n' = rv_blobs n"
  by (auto simp: rv_do_def Let_def split: if_splits option.splits prod.splits intro: rv_uploads_new dest: rv_patch_cases)

interpretation rv: oci_registry rv_do rv_read rv_base "\<lambda>n. rv_blobs_of n" "\<lambda>n. rv_upload_of n" rv_inv
proof (unfold_locales, goal_cases)
  case (1 q n p n')
  show ?case by (simp add: rv_do_def Let_def split: option.split prod.split)
next
  case (2 n k r n')
  then show ?case
    using rv_get_head [of "''HEAD''" k n] by (auto simp: client_Head_def rv_reply_def split: option.splits)
next
  case (3 n k r n')
  then show ?case
    using rv_get_head [of "''GET''" k n] by (auto simp: client_Get_def rv_reply_def split: option.splits)
next
  case (4 n r n')
  obtain q where q: "http_NewRequest ''POST'' (rv_base @ ''blobs/uploads/'') [] = Ok q" "url_String (rq_URL q) = rv_base @ ''blobs/uploads/''"
      "rq_Method q = ''POST''" using post_request by metis
  have "hdr_Get [(''Location'', [l])] ''Location'' = l" for l by code_simp
  then show ?case
    using 4 q rv_uploads_new(2)
    by (auto simp: client_Post_def client_request_def rv_do_def rv_reply_def)
next
  case (5 n loc bb q off r n')
  have m: "rq_Method q = ''PATCH''" "rq_Body q = bb" "rq_Header q = []" using NewRequest_fields [OF 5(2)] by auto
  let ?q = "q\<lparr>rq_Header := patch_headers off bb (rq_Header q)\<rparr>"
  have b: "rv_inv n' \<and> rv_blobs n' = rv_blobs n" using rv_do_inv [OF 5(3,1)] m by simp
  have "rv_upload_of n' (hdr_Get (rs_Header resp) ''Location'') = Some (c @ bb)"
    if "r = Ok resp" and "StatusCode resp = 202" and "rv_upload_of n loc = Some c" for resp c
  proof -
    obtain i where i: "loc = rv_loc i @ []" using 5(1) map_of_SomeD [OF \<open>rv_upload_of n loc = Some c\<close>] by (force simp: rv_inv_def)
    have "list_all is_token_char ''PATCH''" by code_simp
    from query_request [OF rv_strings(6) this _ i, of bb] have u: "url_String (rq_URL q) = loc" using 5(2) by simp
    obtain r2 n2 where p: "rv_patch ?q loc n = (r2, n2)" by (metis surj_pair)
    have "r2 = resp" "n2 = n'" using 5(3) that(1) m u p by (auto simp: rv_do_def)
    then show ?thesis using rv_patch_cases [OF p 5(1)] that(2) m \<open>rv_upload_of n loc = Some c\<close> by simp
  qed
  then show ?case using b m by (simp add: rv_read_def)
next
  case (6 n loc c k hs r n')
  obtain i where i: "loc = rv_loc i" using 6(1) map_of_SomeD [OF 6(2)] by (force simp: rv_inv_def)
  have q: "query_ok (''&digest=sha256:'' @ hex_encode k)" using rv_strings(5) hex_query query_ok_append by blast
  have t: "list_all is_token_char ''PUT''" by code_simp
  have "digest_url loc k = rv_loc i @ ''&digest=sha256:'' @ hex_encode k" using i by (simp add: digest_url_def)
  from query_request [OF q t _ this] obtain rq where rq: "http_NewRequest ''PUT'' (digest_url loc k) [] = Ok rq"
      "url_String (rq_URL rq) = digest_url loc k" "rq_Method rq = ''PUT''" by (metis list.distinct(1))
  obtain r2 n2 where p: "rv_put (digest_url loc k) n = (r2, n2)" by (metis surj_pair)
  have "r = Ok r2" "n' = n2" using 6(3) rq p by (auto simp: client_request_def rv_do_def)
  then show ?case using rv_put_cases [OF p 6(1,2)] by (cases "StatusCode r2 = 201") auto
next
  case (7 n loc r n')
  show ?case
  proof (cases "http_NewRequest ''DELETE'' loc []")
    case (Ok q)
    then have "rq_Method q = ''DELETE''" "rq_Header q = []" using NewRequest_fields [OF Ok] by auto
    then have "rv_inv n' \<and> rv_blobs n' = rv_blobs n" using rv_do_inv [of "q\<lparr>rq_Header := []\<rparr>" n r n'] 7 Ok by (simp add: client_request_def)
    then show ?thesis by simp
  qed (use 7 in \<open>auto simp: client_request_def\<close>)
qed

section \<open>The reference registry does not fail\<close>

abbreviation "rv_store \<equiv> NewRegistryStore rv_base True"

lemma rv_store_base [simp]: "rv_store = \<lparr>rg_base = rv_base, rg_writable = True\<rparr>"
proof -
  have "has_suffix rv_base ''/''" by code_simp
  then show ?thesis by (simp add: NewRegistryStore_def)
qed

lemma loc_header [simp]: "hdr_Get [(''Location'', [l])] ''Location'' = l"
  by code_simp

lemma rv_loc_nonempty [simp]: "rv_loc i \<noteq> []"
  by (simp add: rv_loc_def)

lemma rv_Put:
  "reg_Put rv_do rv_store n = (Ok (newPutAddressableBlob (rv_loc (rv_next n))),
    n\<lparr>rv_uploads := (rv_loc (rv_next n), []) # rv_uploads n, rv_next := Suc (rv_next n)\<rparr>)"
proof -
  obtain q where q: "http_NewRequest ''POST'' (rv_base @ ''blobs/uploads/'') [] = Ok q" "url_String (rq_URL q) = rv_base @ ''blobs/uploads/''"
      "rq_Method q = ''POST''" using post_request by metis
  then show ?thesis
    by (simp add: reg_Put_def client_Post_def client_request_def rv_do_def rv_reply_def open_reader_def)
qed

lemma rv_Write:
  assumes "bu_url b = rv_loc i" and "bu_pending rv_upload_of b n = Some d" and "p \<noteq> []"
  shows "bu_Write rv_do rv_read b p n = ((length p, None),
    b\<lparr>bu_digest := Some (d @ p), bu_url := rv_loc (rv_next n), bu_bw := length d + length p\<rparr>,
    n\<lparr>rv_uploads := (rv_loc (rv_next n), d @ p) # AList.delete (rv_loc i) (rv_uploads n), rv_next := Suc (rv_next n)\<rparr>)"
proof -
  have u: "rv_upload_of n (rv_loc i) = Some d" "bu_digest b = Some d" "bu_bw b = length d"
    using assms(1,2) by (auto simp: bu_pending_Some)
  have "list_all is_token_char ''PATCH''" by code_simp
  from query_request [OF rv_strings(6) this, of "rv_loc i" i p] obtain q where
    q: "http_NewRequest ''PATCH'' (rv_loc i) p = Ok q" "url_String (rq_URL q) = rv_loc i" "rq_Method q = ''PATCH''" "rq_Body q = p"
      "rq_Header q = []" by auto
  have "hdr_Get (patch_headers (length d) p []) ''Content-Range'' =
      ''bytes '' @ nat_string (length d) @ ''-'' @ nat_string (length d + length p - 1) @ ''/*''"
  proof -
    have "CanonicalMIMEHeaderKey ''Content-Range'' = ''Content-Range''" by code_simp
    then show ?thesis by (simp add: patch_headers_def content_range_def hdr_Get_def hdr_Set_def hdr_values_def update_conv')
  qed
  then show ?thesis
    using assms(1,3) u q by (simp add: bu_Write_def Let_def rv_do_def rv_patch_def rv_reply_def rv_read_def)
qed

lemma rv_Commit:
  assumes "bu_url b = rv_loc i" and "bu_pending rv_upload_of b n = Some d" and "rv_inv n"
  shows "\<exists>b' n'. bu_Commit rv_do b n = (Ok (sha256 d), b', n') \<and> rv_blobs_of n' (sha256 d) = Some d"
proof -
  have u: "rv_upload_of n (rv_loc i) = Some d" "bu_digest b = Some d" using assms(1,2) by (auto simp: bu_pending_Some)
  have q: "query_ok (''&digest=sha256:'' @ hex_encode (sha256 d))" using rv_strings(5) hex_query query_ok_append by blast
  have t: "list_all is_token_char ''PUT''" by code_simp
  have s: "digest_url (rv_loc i) (sha256 d) = rv_loc i @ ''&digest=sha256:'' @ hex_encode (sha256 d)" by (simp add: digest_url_def)
  from query_request [OF q t _ s] obtain rq where rq: "http_NewRequest ''PUT'' (digest_url (rv_loc i) (sha256 d)) [] = Ok rq"
      "url_String (rq_URL rq) = digest_url (rv_loc i) (sha256 d)" "rq_Method rq = ''PUT''" by (metis list.distinct(1))
  obtain r2 n2 where p: "rv_put (digest_url (rv_loc i) (sha256 d)) n = (r2, n2)" by (metis surj_pair)
  have "StatusCode r2 = 201"
  proof -
    have "(rv_loc i, d) \<in> set (rv_uploads n)" using u(1) by (rule map_of_SomeD)
    then have "find (\<lambda>(l, c). digest_url l (sha256 c) = digest_url (rv_loc i) (sha256 d)) (rv_uploads n) \<noteq> None"
      by (auto simp: find_None_iff)
    then show ?thesis using p by (auto simp: rv_put_def rv_reply_def)
  qed
  then show ?thesis
    using rv_put_cases [OF p assms(3) u(1)] p rq u(2) assms(1) by (simp add: bu_Commit_def client_request_def rv_do_def)
qed

section \<open>Properties\<close>

text \<open>
  C15. A blob written to a registry is read back. With any registry that keeps to the distribution
  specification, when \<open>Put\<close>, a copy of any chunks and \<open>Commit\<close> succeed, the key is the SHA-256 digest of the
  whole content, the registry holds this content under it and has no other change, and a \<open>Get\<close> of the key
  that is read to its end returns it.
\<close>

theorem registry_roundtrip:
  assumes "oci_registry do_req body_read base blobs_of upload_of ninv" and "ninv n" and "s = \<lparr>rg_base = base, rg_writable = True\<rparr>"
    and "reg_Put do_req s n = (Ok b, n1)"
    and "io_Copy (blob_write (reg_store do_req body_read s)) cs e (b, n1) = (None, (b2, n2))"
    and "bu_Commit do_req b2 n2 = (Ok k, b3, n3)"
  shows "k = sha256 (concat cs) \<and> blobs_of n3 = (blobs_of n)(k \<mapsto> concat cs) \<and>
    (\<forall>rd n4. reg_Get do_req s k n3 = (Ok rd, n4) \<and> rd_err rd = None \<longrightarrow> rd_content rd = concat cs)"
proof -
  have bs: "blob_store (reg_store do_req body_read s) blobs_of ninv (\<lambda>b. True) (bu_pending upload_of)"
    using oci_registry.reg_contract [OF assms(1), of True] assms(3) by (simp add: blob_store_notfound_def)
  have p: "ninv n1" "blobs_of n1 = blobs_of n" "bu_pending upload_of b n1 = Some []"
    using blob_store.put_keeps [OF bs assms(2), of "Ok b" n1] blob_store.put_fresh [OF bs assms(2), of b n1] assms(4) by auto
  have c: "ninv n2" "blobs_of n2 = blobs_of n1" "bu_pending upload_of b2 n2 = Some (concat cs)"
    using blob_store.copy_into_blob [OF bs p(1) _ p(3) assms(5)] by auto
  have k: "k = sha256 (concat cs) \<and> blobs_of n3 = (blobs_of n2)(k \<mapsto> concat cs) \<and> ninv n3"
    using blob_store.commit_Ok [OF bs c(1) _ c(3), of k b3 n3] assms(6) by simp
  have "rd_content rd = concat cs" if "reg_Get do_req s k n3 = (Ok rd, n4)" and "rd_err rd = None" for rd n4
    using blob_store.get_content [OF bs, of n3 k rd n4] that k by simp
  then show ?thesis using k c p by auto
qed

definition rv_empty :: registry where
  "rv_empty = \<lparr>rv_blobs = [], rv_uploads = [], rv_next = 0\<rparr>"

lemma registry_roundtrip_witness:
  "\<exists>n3 b3 b2 n2 n1. bu_Commit rv_do b2 n2 = (Ok (sha256 ''hello''), b3, n3) \<and> rv_blobs_of n3 (sha256 ''hello'') = Some ''hello'' \<and>
    io_Copy (blob_write (reg_store rv_do rv_read rv_store)) [''hello''] None (newPutAddressableBlob (rv_loc 0), n1) = (None, (b2, n2))"
proof -
  let ?b = "newPutAddressableBlob (rv_loc 0)"
  let ?n1 = "rv_empty\<lparr>rv_uploads := [(rv_loc 0, [])], rv_next := 1\<rparr>"
  have i0: "rv_inv rv_empty" by (simp add: rv_inv_def rv_empty_def)
  have put: "reg_Put rv_do rv_store rv_empty = (Ok ?b, ?n1)" using rv_Put [of rv_empty] by (simp add: rv_empty_def)
  have "bu_pending rv_upload_of ?b ?n1 = Some []" by (simp add: bu_pending_def newPutAddressableBlob_def)
  from rv_Write [OF _ this, of 0 "''hello''"] obtain b2 n2 where
    w: "bu_Write rv_do rv_read ?b ''hello'' ?n1 = ((5, None), b2, n2)" and u: "bu_url b2 = rv_loc 1"
    by (auto simp: newPutAddressableBlob_def rv_empty_def)
  have cp: "io_Copy (blob_write (reg_store rv_do rv_read rv_store)) [''hello''] None (?b, ?n1) = (None, (b2, n2))"
    using w by (simp add: blob_write_def)
  have i1: "rv_inv ?n1" using rv_uploads_new(2) [OF i0, of "[]"] by (simp add: rv_empty_def)
  have "rv_inv n2" "bu_pending rv_upload_of b2 n2 = Some ''hello''"
    using rv.write_keep [OF i1 w] rv.write_accept [OF i1 _ w] by (auto simp: bu_pending_def newPutAddressableBlob_def)
  then obtain b3 n3 where cm: "bu_Commit rv_do b2 n2 = (Ok (sha256 ''hello''), b3, n3)" using rv_Commit [OF u] by blast
  have "rv_blobs_of n3 (sha256 ''hello'') = Some ''hello''"
    using registry_roundtrip [OF rv.oci_registry_axioms i0 rv_store_base put cp cm] by simp
  then show ?thesis using cm cp by blast
qed

text \<open>
  C24. The proxy over a registry. Whatever requests arrive and whatever fails, a server whose blobs are in a
  registry that keeps to the specification leaves it content-addressed, and every entry of the manifest backed
  by a blob in the registry.
\<close>

theorem registry_server_backed:
  assumes "oci_registry do_req body_read base blobs_of upload_of ninv" and "srv_inv ninv blobs_of s"
    and "file_backed (blobs_of (sv_blobs s)) (sv_assets s)"
    and "s2 = serve_all (reg_store do_req body_read \<lparr>rg_base = base, rg_writable = wr\<rparr>) do_net lctx rs s"
  shows "srv_inv ninv blobs_of s2 \<and> file_backed (blobs_of (sv_blobs s2)) (sv_assets s2) \<and>
    dom (blobs_of (sv_blobs s)) \<subseteq> dom (blobs_of (sv_blobs s2))"
proof -
  have bs: "blob_store (reg_store do_req body_read \<lparr>rg_base = base, rg_writable = wr\<rparr>) blobs_of ninv (\<lambda>b. True) (bu_pending upload_of)"
    using oci_registry.reg_contract [OF assms(1), of wr] by (simp add: blob_store_notfound_def)
  show ?thesis
    using blob_store.serve_all_keeps [OF bs assms(2), of do_net lctx rs] assms(3,4) by (simp add: srv_le_def fw_le_def)
qed

text \<open>A network that records the requests, and the ranges that the parts of an upload have to carry.\<close>

definition recording :: "(request \<Rightarrow> 'n \<Rightarrow> response res \<times> 'n) \<Rightarrow> request \<Rightarrow> 'n \<times> request list \<Rightarrow> response res \<times> 'n \<times> request list" where
  "recording do_req q = (\<lambda>(n, log). case do_req q n of (r, n1) \<Rightarrow> (r, n1, log @ [q]))"

fun part_ranges :: "nat \<Rightarrow> bytes list \<Rightarrow> string list" where
  "part_ranges off [] = []"
| "part_ranges off (c # cs) = content_range off (length c) # part_ranges (off + length c) cs"

definition range_of :: "request \<Rightarrow> string" where
  "range_of q = hdr_Get (rq_Header q) ''Content-Range''"

lemma range_of_patch: "range_of (q\<lparr>rq_Header := patch_headers off bb h\<rparr>) = content_range off (length bb)"
proof -
  have "CanonicalMIMEHeaderKey ''Content-Range'' = ''Content-Range''" by code_simp
  then show ?thesis by (simp add: range_of_def patch_headers_def hdr_Get_def hdr_Set_def hdr_values_def update_conv')
qed

lemma part_ranges_nth:
  "i < length ps \<Longrightarrow> part_ranges off ps ! i =
     ''bytes '' @ nat_string (off + length (concat (take i ps))) @ ''-'' @ nat_string (off + length (concat (take (Suc i) ps)) - 1) @ ''/*''"
proof (induction ps arbitrary: off i)
  case (Cons c cs)
  then show ?case by (cases i) (simp_all add: content_range_def add.assoc)
qed simp

lemma part_ranges_length [simp]: "length (part_ranges off ps) = length ps"
  by (induction ps arbitrary: off) simp_all

lemma part_ranges_append: "part_ranges off (a @ b) = part_ranges off a @ part_ranges (off + length (concat a)) b"
  by (induction a arbitrary: off) (simp_all add: add.assoc)

lemma bu_Write_recorded:
  assumes "bu_Write (recording do_req) (\<lambda>q n. body_read q (fst n)) b p (n, log) = ((m, None), b1, n1, log1)"
  shows "p = [] \<and> b1 = b \<and> log1 = log \<or>
    p \<noteq> [] \<and> bu_bw b1 = bu_bw b + length p \<and> (\<exists>q. log1 = log @ [q] \<and> rq_Method q = ''PATCH'' \<and> rq_Body q = p \<and>
      range_of q = content_range (bu_bw b) (length p))"
proof (cases "p = []")
  case True
  then show ?thesis using assms by (simp add: bu_Write_def)
next
  case False
  obtain q where q: "http_NewRequest ''PATCH'' (bu_url b) p = Ok q" using assms False by (auto simp: bu_Write_def split: res.splits)
  then show ?thesis
    using assms False NewRequest_fields [OF q] range_of_patch [where off = "bu_bw b" and bb = p and q = q]
    by (auto simp: bu_Write_def recording_def Let_def split: prod.splits res.splits if_splits)
qed

text \<open>
  C33. The parts of an upload are consecutive. Whatever the network, when chunks were written to a new blob
  without error, the requests sent were one PATCH for each chunk that is not empty, with the chunk as its body and
  the range of its bytes within the content: from the number of bytes before it to one less than the number of bytes
  up to its end. The offset is the number of bytes written.
\<close>

theorem upload_ranges:
  assumes "io_Copy (blob_write (reg_store (recording do_req) (\<lambda>q n. body_read q (fst n)) s)) cs e
      (newPutAddressableBlob loc, (n, [])) = (None, (b, (n1, log)))"
  shows "map rq_Body log = filter (\<lambda>c. c \<noteq> []) cs \<and>
    (\<forall>i<length log. rq_Method (log ! i) = ''PATCH'' \<and>
       hdr_Get (rq_Header (log ! i)) ''Content-Range'' =
         ''bytes '' @ nat_string (length (concat (map rq_Body (take i log)))) @ ''-'' @
           nat_string (length (concat (map rq_Body (take (Suc i) log))) - 1) @ ''/*'') \<and>
    bu_bw b = length (concat cs)"
proof -
  let ?w = "blob_write (reg_store (recording do_req) (\<lambda>q n. body_read q (fst n)) s)"
  have "map rq_Body log = map rq_Body l0 @ filter (\<lambda>c. c \<noteq> []) cs \<and>
      map range_of log = map range_of l0 @ part_ranges (bu_bw b0) (filter (\<lambda>c. c \<noteq> []) cs) \<and>
      (list_all (\<lambda>q. rq_Method q = ''PATCH'') l0 \<longrightarrow> list_all (\<lambda>q. rq_Method q = ''PATCH'') log) \<and>
      bu_bw b = bu_bw b0 + length (concat cs)"
    if "io_Copy ?w cs e (b0, (n0, l0)) = (None, (b, (n1, log)))" for b0 n0 l0
    using that
  proof (induction cs arbitrary: b0 n0 l0)
    case (Cons c cs)
    then obtain b2 n2 l2 where w: "bu_Write (recording do_req) (\<lambda>q n. body_read q (fst n)) b0 c (n0, l0) = ((length c, None), b2, n2, l2)"
      and r: "io_Copy ?w cs e (b2, (n2, l2)) = (None, (b, (n1, log)))"
      using Cons.prems by (auto simp: blob_write_def [of _ c] split: prod.splits option.splits if_splits)
    from Cons.IH [OF r] bu_Write_recorded [OF w] show ?case by (auto simp: add.assoc)
  qed simp
  from this [OF assms] have l: "map rq_Body log = filter (\<lambda>c. c \<noteq> []) cs" "list_all (\<lambda>q. rq_Method q = ''PATCH'') log"
      "map range_of log = part_ranges 0 (map rq_Body log)" "bu_bw b = length (concat cs)"
    by (simp_all add: newPutAddressableBlob_def)
  have "rq_Method (log ! i) = ''PATCH'' \<and> range_of (log ! i) = ''bytes '' @ nat_string (length (concat (map rq_Body (take i log)))) @ ''-'' @
      nat_string (length (concat (map rq_Body (take (Suc i) log))) - 1) @ ''/*''" if "i < length log" for i
  proof -
    have "range_of (log ! i) = part_ranges 0 (map rq_Body log) ! i" using that by (simp add: l(3) [symmetric])
    then show ?thesis using that part_ranges_nth [of i "map rq_Body log" 0] l(2) by (simp add: take_map list_all_length)
  qed
  then show ?thesis using l(1,4) unfolding range_of_def by simp
qed

definition accepting :: "request \<Rightarrow> nat \<Rightarrow> response res \<times> nat" where
  "accepting q n = (Ok (rv_reply 202 [(''Location'', [''http://r/up''])] []), n + 1)"

lemma upload_ranges_witness:
  "\<exists>b n1 log. io_Copy (blob_write (reg_store (recording accepting) (\<lambda>q n. length (rq_Body q)) rv_store)) [''hello'', [], ''ab''] None
      (newPutAddressableBlob ''http://r/up'', (0, [])) = (None, (b, (n1, log))) \<and>
    map rq_Body log = [''hello'', ''ab''] \<and>
    map (\<lambda>q. hdr_Get (rq_Header q) ''Content-Range'') log = [''bytes 0-4/*'', ''bytes 5-6/*''] \<and> bu_bw b = 7"
proof -
  let ?c = "io_Copy (blob_write (reg_store (recording accepting) (\<lambda>q n. length (rq_Body q)) rv_store)) [''hello'', [], ''ab''] None
      (newPutAddressableBlob ''http://r/up'', (0, []))"
  have "fst ?c = None" by code_simp
  then obtain b n1 log where c: "?c = (None, (b, (n1, log)))" by (metis prod.collapse)
  note u = upload_ranges [of accepting "\<lambda>q n. length (rq_Body q)", OF c]
  have l: "map rq_Body log = [''hello'', ''ab'']" using u by simp
  then obtain q1 q2 where log: "log = [q1, q2]" "rq_Body q1 = ''hello''" "rq_Body q2 = ''ab''" by auto
  have n: "nat_string 0 = ''0''" "nat_string 4 = ''4''" "nat_string 5 = ''5''" "nat_string 6 = ''6''" by code_simp+
  have "hdr_Get (rq_Header q1) ''Content-Range'' = ''bytes 0-4/*''" "hdr_Get (rq_Header q2) ''Content-Range'' = ''bytes 5-6/*''"
    using u [THEN conjunct2, THEN conjunct1, rule_format, of 0] u [THEN conjunct2, THEN conjunct1, rule_format, of 1] log n by (simp_all add: numeral_eq_Suc)
  moreover have "bu_bw b = 7" using u by simp
  ultimately show ?thesis using c l log(1) by auto
qed

definition rv_srv :: "(path, registry, nat) srv" where
  "rv_srv = \<lparr>sv_assets = sample_file, sv_blobs = rv_empty, sv_net = 0, sv_missing = 0\<rparr>"

lemma registry_server_backed_witness:
  "file_backed (rv_blobs_of (sv_blobs (serve_all (reg_store rv_do rv_read rv_store) sample_net sample_build [(sample_request, [])] rv_srv)))
    (sv_assets (serve_all (reg_store rv_do rv_read rv_store) sample_net sample_build [(sample_request, [])] rv_srv))"
proof -
  have "srv_inv rv_inv (\<lambda>n. rv_blobs_of n) rv_srv"
    using sample_inv by (simp add: srv_inv_def fw_inv_def rv_srv_def sample_srv_def rv_inv_def rv_empty_def content_addressed_def)
  moreover have "file_backed (rv_blobs_of (sv_blobs rv_srv)) (sv_assets rv_srv)"
    by (simp add: file_backed_def rv_srv_def sample_file_def)
  ultimately show ?thesis using registry_server_backed [OF rv.oci_registry_axioms _ _ refl] rv_store_base by metis
qed

end
