(* ===== verification/RegistryAuth.thy ===== *)
theory RegistryAuth
  imports Http Regexp GoJson "HOL-Library.Word"
begin

text \<open>
  The transport that authenticates against registries (internal/registryauthclient/
  wrapping_registry_auth_client.go). A GET of a blob or a manifest is sent with a token that is cached for the
  registry and repository of its URL; without one, the request is sent as it is, and a Bearer challenge in the
  answer is met by asking the realm for a token, which is cached, and by sending the request again.

  The wrapped transport (\<open>upstream\<close>), the clock and the parser of the \<open>Www-Authenticate\<close> header, a package
  outside of the repository, are parameters. Times are nanoseconds. Requests are handled one after another.
\<close>

section \<open>The client\<close>

record cachedToken =
  ct_Token :: string
  ct_TTL :: int

record Client =
  tokens :: "(string, cachedToken) gomap"

record tokenResp =
  tr_Token :: string
  tr_ExpiresIn :: "64 word"

definition NewClient :: Client where
  "NewClient = \<lparr>tokens = gm_make\<rparr>"

text \<open>\<open>^(https?://.*/v2/)([^/]+/[^/]+)/(blobs|manifests)/.*$\<close>\<close>

definition dockerRegistryRegex :: rx where
  "dockerRegistryRegex =
     Seq BeginText
     (Seq (Group 1 (Seq (rx_str ''http'') (Seq (rx_opt (Chr CHR ''s'')) (Seq (rx_str ''://'') (Seq (Star AnyChar) (rx_str ''/v2/''))))))
     (Seq (Group 2 (Seq (rx_plus (NotIn [CHR ''/''])) (Seq (Chr CHR ''/'') (rx_plus (NotIn [CHR ''/''])))))
     (Seq (Chr CHR ''/'')
     (Seq (Group 3 (Alt (rx_str ''blobs'') (rx_str ''manifests'')))
     (Seq (Chr CHR ''/'') (Seq (Star AnyChar) EndText))))))"

text \<open>The key of a request in the map of tokens; \<open>None\<close> for one that is passed on untouched.\<close>

definition auth_key :: "request \<Rightarrow> string option" where
  "auth_key r =
     (if rq_Method r \<noteq> ''GET'' then None
      else
        (case FindStringSubmatch 3 dockerRegistryRegex (url_String (rq_URL r)) of
           Some [_, reg, repo, _] \<Rightarrow> Some (reg @ repo)
         | _ \<Rightarrow> None))"

text \<open>The cached token of a key; one whose time is over is deleted.\<close>

definition lookup_token :: "('n \<Rightarrow> int \<times> 'n) \<Rightarrow> string \<Rightarrow> Client \<Rightarrow> 'n \<Rightarrow> string option \<times> Client \<times> 'n" where
  "lookup_token time_Now key c n =
     (case time_Now n of
        (t, n1) \<Rightarrow>
          (case gm_get (tokens c) key of
             None \<Rightarrow> (None, c\<lparr>tokens := gm_delete key (tokens c)\<rparr>, n1)
           | Some v \<Rightarrow>
               if ct_TTL v < t then (None, c\<lparr>tokens := gm_delete key (tokens c)\<rparr>, n1)
               else (Some (ct_Token v), c, n1)))"

definition with_token :: "string \<Rightarrow> request \<Rightarrow> request" where
  "with_token t r = r\<lparr>rq_Header := hdr_Set ''Authorization'' (''Bearer '' @ t) (rq_Header r)\<rparr>"

section \<open>The challenge and the token\<close>

record authSettings =
  AuthType :: string
  Params :: "(string, string) gomap"

text \<open>Realm, service and scope of an answer that asks for a Bearer token.\<close>

definition challenge :: "(string \<Rightarrow> authSettings) \<Rightarrow> response \<Rightarrow> (string \<times> string \<times> string) option" where
  "challenge www_Parse resp =
     (if StatusCode resp \<noteq> 401 then None
      else
        (let s = www_Parse (hdr_Get (rs_Header resp) ''Www-Authenticate'') in
         if AuthType s \<noteq> ''Bearer'' then None
         else
           (case gm_get (Params s) ''realm'' of
              None \<Rightarrow> None
            | Some realm \<Rightarrow>
                (case gm_get (Params s) ''service'' of
                   None \<Rightarrow> None
                 | Some service \<Rightarrow>
                     (case gm_get (Params s) ''scope'' of
                        None \<Rightarrow> None
                      | Some scope \<Rightarrow> Some (realm, service, scope))))))"

text \<open>\<open>url.Values{...}.Encode\<close> sorts by key.\<close>

definition token_url :: "string \<times> string \<times> string \<Rightarrow> string" where
  "token_url = (\<lambda>(realm, service, scope).
     realm @ ''?'' @ ''scope='' @ url_escape EncQueryComponent scope @ ''&service='' @ url_escape EncQueryComponent service)"

definition dec_token_field :: "string \<times> json \<Rightarrow> tokenResp \<Rightarrow> tokenResp res" where
  "dec_token_field kv tr =
     (if fold_name (fst kv) = ''TOKEN'' then
        (case dec_string (snd kv) (tr_Token tr) of
           Ok s \<Rightarrow> Ok (tr\<lparr>tr_Token := s\<rparr>) | Err e \<Rightarrow> Err e | Panic p \<Rightarrow> Panic p)
      else if fold_name (fst kv) = ''EXPIRES_IN'' then
        (case dec_int (snd kv) (sint (tr_ExpiresIn tr)) of
           Ok i \<Rightarrow> Ok (tr\<lparr>tr_ExpiresIn := word_of_int i\<rparr>) | Err e \<Rightarrow> Err e | Panic p \<Rightarrow> Panic p)
      else Ok tr)"

fun dec_token :: "json \<Rightarrow> tokenResp res" where
  "dec_token JNull = Ok \<lparr>tr_Token = [], tr_ExpiresIn = 0\<rparr>"
| "dec_token (JObj ms) = res_fold dec_token_field ms \<lparr>tr_Token = [], tr_ExpiresIn = 0\<rparr>"
| "dec_token _ = Err UnmarshalTypeError"

text \<open>\<open>json.NewDecoder(resp.Body).Decode(&tr)\<close> reads one value, whatever follows it.\<close>

definition decode_token :: "reader \<Rightarrow> tokenResp res" where
  "decode_token body =
     (case json_value 0 (rd_content body) of
        None \<Rightarrow> Err (case rd_err body of Some e \<Rightarrow> e | None \<Rightarrow> Errorf ''unexpected EOF'' [])
      | Some (j, _) \<Rightarrow> dec_token j)"

text \<open>\<open>time.Second * time.Duration(tr.ExpiresIn-10)\<close>, in 64 bits.\<close>

definition token_duration :: "64 word \<Rightarrow> 64 word" where
  "token_duration e = 1000000000 * (e - 10)"

definition save_token :: "('n \<Rightarrow> int \<times> 'n) \<Rightarrow> string \<Rightarrow> tokenResp \<Rightarrow> Client \<Rightarrow> 'n \<Rightarrow> Client res \<times> 'n" where
  "save_token time_Now key tr c n =
     (case time_Now n of
        (t, n1) \<Rightarrow>
          (map_res (\<lambda>m. c\<lparr>tokens := m\<rparr>)
             (gm_put key \<lparr>ct_Token = tr_Token tr, ct_TTL = t + sint (token_duration (tr_ExpiresIn tr))\<rparr> (tokens c)), n1))"

section \<open>RoundTrip\<close>

text \<open>Meeting a challenge: asking the realm for a token.\<close>

definition fetch_token :: "(request \<Rightarrow> 'n \<Rightarrow> response res \<times> 'n) \<Rightarrow> response \<Rightarrow> string \<times> string \<times> string \<Rightarrow> 'n \<Rightarrow> tokenResp res \<times> 'n" where
  "fetch_token upstream resp ch n =
     (case rd_close (rs_Body resp) of
        Some e \<Rightarrow> (Err (wrap (''error closing response that we'' @ [CHR 0x27] @ ''re ignoring'') e), n)
      | None \<Rightarrow>
          (case http_NewRequest ''GET'' (token_url ch) [] of
             Err e \<Rightarrow> (Err (wrap ''error making GET request'' e), n)
           | Panic p \<Rightarrow> (Panic p, n)
           | Ok ar \<Rightarrow>
               (case upstream ar n of
                  (Err e, n1) \<Rightarrow> (Err (wrap ''error making upstream RT'' e), n1)
                | (Panic p, n1) \<Rightarrow> (Panic p, n1)
                | (Ok resp2, n1) \<Rightarrow>
                    (case decode_token (rs_Body resp2) of
                       Err e \<Rightarrow> (Err (wrap ''error getting token'' e), n1)
                     | Panic p \<Rightarrow> (Panic p, n1)
                     | Ok tr \<Rightarrow>
                         if tr_Token tr = [] then (Err (Errorf ''error got blank token'' []), n1) else (Ok tr, n1)))))"

definition RoundTrip :: "(request \<Rightarrow> 'n \<Rightarrow> response res \<times> 'n) \<Rightarrow> (string \<Rightarrow> authSettings) \<Rightarrow> ('n \<Rightarrow> int \<times> 'n) \<Rightarrow>
    Client \<Rightarrow> request \<Rightarrow> 'n \<Rightarrow> response res \<times> Client \<times> 'n" where
  "RoundTrip upstream www_Parse time_Now c r n =
     (case auth_key r of
        None \<Rightarrow> (case upstream r n of (a, n1) \<Rightarrow> (a, c, n1))
      | Some key \<Rightarrow>
          (case lookup_token time_Now key c n of
             (Some tok, c1, n1) \<Rightarrow> (case upstream (with_token tok r) n1 of (a, n2) \<Rightarrow> (a, c1, n2))
           | (None, c1, n1) \<Rightarrow>
               (case upstream r n1 of
                  (Ok resp, n2) \<Rightarrow>
                    (case challenge www_Parse resp of
                       None \<Rightarrow> (Ok resp, c1, n2)
                     | Some ch \<Rightarrow>
                         (case fetch_token upstream resp ch n2 of
                            (Err e, n3) \<Rightarrow> (Err e, c1, n3)
                          | (Panic p, n3) \<Rightarrow> (Panic p, c1, n3)
                          | (Ok tr, n3) \<Rightarrow>
                              (case save_token time_Now key tr c1 n3 of
                                 (Err e, n4) \<Rightarrow> (Err e, c1, n4)
                               | (Panic p, n4) \<Rightarrow> (Panic p, c1, n4)
                               | (Ok c2, n4) \<Rightarrow>
                                   (case http_NewRequest ''GET'' (url_String (rq_URL r)) [] of
                                      Err e \<Rightarrow> (Err (wrap ''error making final request'' e), c2, n4)
                                    | Panic p \<Rightarrow> (Panic p, c2, n4)
                                    | Ok fr \<Rightarrow>
                                        (case upstream (with_token (tr_Token tr) fr) n4 of (a, n5) \<Rightarrow> (a, c2, n5))))))
                | (a, n2) \<Rightarrow> (a, c1, n2))))"

fun round_trips :: "(request \<Rightarrow> 'n \<Rightarrow> response res \<times> 'n) \<Rightarrow> (string \<Rightarrow> authSettings) \<Rightarrow> ('n \<Rightarrow> int \<times> 'n) \<Rightarrow>
    request list \<Rightarrow> Client \<times> 'n \<Rightarrow> Client \<times> 'n" where
  "round_trips upstream www_Parse time_Now [] s = s"
| "round_trips upstream www_Parse time_Now (r # rs) (c, n) =
     round_trips upstream www_Parse time_Now rs (snd (RoundTrip upstream www_Parse time_Now c r n))"

section \<open>What is sent\<close>

text \<open>
  The requests that reach the wrapped transport and their answers, in order. A token is granted for a key by two
  consecutive exchanges: the challenge to a request with this key, and the answer of its realm.
\<close>

type_synonym exchange = "request \<times> response res"

definition logged :: "(request \<Rightarrow> 'n \<Rightarrow> response res \<times> 'n) \<Rightarrow> request \<Rightarrow> 'n \<times> exchange list \<Rightarrow> response res \<times> 'n \<times> exchange list" where
  "logged upstream q = (\<lambda>(n, l). case upstream q n of (a, n1) \<Rightarrow> (a, n1, l @ [(q, a)]))"

definition clocked :: "('n \<Rightarrow> int \<times> 'n) \<Rightarrow> 'n \<times> exchange list \<Rightarrow> int \<times> 'n \<times> exchange list" where
  "clocked time_Now = (\<lambda>(n, l). case time_Now n of (t, n1) \<Rightarrow> (t, n1, l))"

definition granted :: "(string \<Rightarrow> authSettings) \<Rightarrow> exchange list \<Rightarrow> string \<Rightarrow> string \<Rightarrow> bool" where
  "granted www_Parse l k t \<longleftrightarrow>
     (\<exists>l1 q1 a1 ch q2 a2 l2 x. l = l1 @ (q1, Ok a1) # (q2, Ok a2) # l2 \<and> auth_key q1 = Some k \<and>
        challenge www_Parse a1 = Some ch \<and> http_NewRequest ''GET'' (token_url ch) [] = Ok q2 \<and>
        decode_token (rs_Body a2) = Ok x \<and> tr_Token x = t \<and> t \<noteq> [])"

definition auth_values :: "request \<Rightarrow> string list" where
  "auth_values q = hdr_values (rq_Header q) ''Authorization''"

text \<open>The request \<open>q\<close> that carries the token \<open>t\<close> for the request \<open>r\<close>: the same one, or a new GET of its URL.\<close>

definition sent_for :: "request \<Rightarrow> string \<Rightarrow> string \<Rightarrow> request \<Rightarrow> bool" where
  "sent_for r k t q \<longleftrightarrow> auth_key r = Some k \<and>
     (q = with_token t r \<or> (\<exists>fr. http_NewRequest ''GET'' (url_String (rq_URL r)) [] = Ok fr \<and> q = with_token t fr))"

definition justified :: "(string \<Rightarrow> authSettings) \<Rightarrow> request set \<Rightarrow> exchange list \<Rightarrow> request \<Rightarrow> bool" where
  "justified www_Parse R l q \<longleftrightarrow> (\<exists>r\<in>R. \<exists>k t. sent_for r k t q \<and> granted www_Parse l k t)"

definition log_ok :: "(string \<Rightarrow> authSettings) \<Rightarrow> request set \<Rightarrow> exchange list \<Rightarrow> bool" where
  "log_ok www_Parse R l \<longleftrightarrow>
     (\<forall>l1 q a l2. l = l1 @ (q, a) # l2 \<and> auth_values q \<noteq> [] \<longrightarrow> justified www_Parse R l1 q)"

definition cache_ok :: "(string \<Rightarrow> authSettings) \<Rightarrow> Client \<Rightarrow> exchange list \<Rightarrow> bool" where
  "cache_ok www_Parse c l \<longleftrightarrow> (\<forall>k ct. gm_get (tokens c) k = Some ct \<longrightarrow> granted www_Parse l k (ct_Token ct))"

lemma granted_append: "granted www_Parse l k t \<Longrightarrow> granted www_Parse (l @ m) k t"
  unfolding granted_def by (metis append.assoc append_Cons)

lemma cache_ok_append: "cache_ok www_Parse c l \<Longrightarrow> cache_ok www_Parse c (l @ m)"
  by (auto simp: cache_ok_def granted_append)

lemma log_ok_snoc:
  "log_ok www_Parse R (l @ [(q, a)]) \<longleftrightarrow>
     log_ok www_Parse R l \<and> (auth_values q \<noteq> [] \<longrightarrow> justified www_Parse R l q)"
proof -
  have "l @ [x] = l1 @ y # l2 \<longleftrightarrow> (l2 = [] \<and> l = l1 \<and> x = y) \<or> (\<exists>m. l2 = m @ [x] \<and> l = l1 @ y # m)" for x y :: exchange and l1 l2
    by (cases l2 rule: rev_cases) auto
  then show ?thesis unfolding log_ok_def by (simp add: ex_disj_distrib) blast
qed

lemma auth_header [simp]: "CanonicalMIMEHeaderKey ''Authorization'' = ''Authorization''"
  by code_simp

lemma with_token_auth [simp]: "auth_values (with_token t r) = [''Bearer '' @ t]"
  by (simp add: auth_values_def with_token_def hdr_Set_def hdr_values_def update_conv')

lemma NewRequest_auth: "http_NewRequest m u b = Ok q \<Longrightarrow> auth_values q = []"
  by (auto simp: http_NewRequest_def auth_values_def hdr_values_def Let_def split: if_splits res.splits)

lemma lookup_ok:
  assumes "lookup_token (clocked time_Now) key c (n, l) = (x, c', n', l')" and "cache_ok www_Parse c l"
  shows "l' = l \<and> cache_ok www_Parse c' l \<and> (\<forall>tok. x = Some tok \<longrightarrow> granted www_Parse l key tok)"
  using assms
  by (auto simp: lookup_token_def clocked_def cache_ok_def gomap_simps split: prod.splits option.splits if_splits)

lemma save_ok:
  assumes "save_token (clocked time_Now) key tr c (n, l) = (x, n', l')" and "cache_ok www_Parse c l"
    and "granted www_Parse l key (tr_Token tr)"
  shows "l' = l \<and> (\<forall>c'. x = Ok c' \<longrightarrow> cache_ok www_Parse c' l)"
proof (intro conjI allI impI)
  show "l' = l" using assms(1) by (auto simp: save_token_def clocked_def split: prod.splits)
next
  fix c' assume "x = Ok c'"
  then obtain m ct where "gm_put key ct (tokens c) = Ok m" and "c' = c\<lparr>tokens := m\<rparr>" and "ct_Token ct = tr_Token tr"
    using assms(1) by (cases "gm_put key \<lparr>ct_Token = tr_Token tr,
        ct_TTL = fst (time_Now n) + sint (token_duration (tr_ExpiresIn tr))\<rparr> (tokens c)")
      (auto simp: save_token_def clocked_def split: prod.splits)
  then show "cache_ok www_Parse c' l" using assms(2,3) by (auto simp: cache_ok_def gomap_simps)
qed

lemma fetch_log:
  assumes "fetch_token (logged upstream) resp ch (n, l) = (x, n', l')"
  shows "l' = l \<or> (\<exists>q2 y. http_NewRequest ''GET'' (token_url ch) [] = Ok q2 \<and> l' = l @ [(q2, y)])"
    and "x = Ok tr \<Longrightarrow> \<exists>q2 a2. http_NewRequest ''GET'' (token_url ch) [] = Ok q2 \<and> l' = l @ [(q2, Ok a2)] \<and>
      decode_token (rs_Body a2) = Ok tr \<and> tr_Token tr \<noteq> []"
  using assms by (auto simp: fetch_token_def logged_def split: option.splits res.splits prod.splits if_splits)

lemma logged_snoc: "logged upstream q (n, l) = (a, n', l') \<Longrightarrow> l' = l @ [(q, a)]"
  by (auto simp: logged_def split: prod.splits)

lemma RoundTrip_log:
  assumes run: "RoundTrip (logged upstream) www_Parse (clocked time_Now) c r (n, l) = (a, c', n', l')"
    and r: "r \<in> R" "auth_values r = []" and ok: "cache_ok www_Parse c l" "log_ok www_Parse R l"
  shows "cache_ok www_Parse c' l' \<and> log_ok www_Parse R l'"
proof (cases "auth_key r")
  case None
  then show ?thesis using assms
    by (auto simp: RoundTrip_def log_ok_snoc cache_ok_append split: prod.splits dest!: logged_snoc)
next
  case key: (Some key)
  obtain x c1 n1 l1 where lk: "lookup_token (clocked time_Now) key c (n, l) = (x, c1, n1, l1)" by (rule prod_cases4)
  have k: "l1 = l" "cache_ok www_Parse c1 l" "\<And>tok. x = Some tok \<Longrightarrow> granted www_Parse l key tok"
    using lookup_ok [OF lk ok(1)] by auto
  show ?thesis
  proof (cases x)
    case (Some tok)
    then have "justified www_Parse R l (with_token tok r)"
      using k(3) key r(1) unfolding justified_def sent_for_def by blast
    then show ?thesis using run k(1,2) ok(2) lk Some
      by (auto simp: RoundTrip_def key log_ok_snoc cache_ok_append split: prod.splits dest!: logged_snoc)
  next
    case None
    obtain b n2 l2 where up: "logged upstream r (n1, l) = (b, n2, l2)" by (rule prod_cases3)
    have l2: "l2 = l @ [(r, b)]" using logged_snoc [OF up] .
    then have 2: "cache_ok www_Parse c1 l2" "log_ok www_Parse R l2" using k r(2) ok(2) by (simp_all add: cache_ok_append log_ok_snoc)
    show ?thesis
    proof (cases "\<exists>resp ch. b = Ok resp \<and> challenge www_Parse resp = Some ch")
      case False
      then have "c' = c1 \<and> l' = l2" using run by (auto simp: RoundTrip_def key lk None k(1) up split: res.splits option.splits)
      then show ?thesis using 2 by simp
    next
      case True
      then obtain resp ch where b: "b = Ok resp" and ch: "challenge www_Parse resp = Some ch" by blast
      obtain y n3 l3 where f: "fetch_token (logged upstream) resp ch (n2, l2) = (y, n3, l3)" by (rule prod_cases3)
      have 3: "cache_ok www_Parse c1 l3" "log_ok www_Parse R l3"
        using fetch_log(1) [OF f] 2 NewRequest_auth by (auto simp: cache_ok_append log_ok_snoc)
      note steps = RoundTrip_def key lk None k(1) up b ch f
      show ?thesis
      proof (cases y)
        case y: (Ok tr)
        then obtain q2 a2 where "http_NewRequest ''GET'' (token_url ch) [] = Ok q2" and "l3 = l @ (r, Ok resp) # (q2, Ok a2) # []"
          and "decode_token (rs_Body a2) = Ok tr" and "tr_Token tr \<noteq> []"
          using fetch_log(2) [OF f y] l2 b by auto
        then have g: "granted www_Parse l3 key (tr_Token tr)" using ch key unfolding granted_def by blast
        obtain z n4 l4 where sv: "save_token (clocked time_Now) key tr c1 (n3, l3) = (z, n4, l4)" by (rule prod_cases3)
        note s = save_ok [OF sv 3(1) g]
        show ?thesis
        proof (cases "\<exists>c2 fr. z = Ok c2 \<and> http_NewRequest ''GET'' (url_String (rq_URL r)) [] = Ok fr")
          case True
          then obtain c2 fr where z: "z = Ok c2" and fr: "http_NewRequest ''GET'' (url_String (rq_URL r)) [] = Ok fr" by blast
          then have "justified www_Parse R l3 (with_token (tr_Token tr) fr)"
            using g key r(1) unfolding justified_def sent_for_def by blast
          then show ?thesis using run s z 3(2)
            by (auto simp: steps y sv fr log_ok_snoc cache_ok_append split: prod.splits dest!: logged_snoc)
        next
          case False
          then have "l' = l4 \<and> (c' = c1 \<or> z = Ok c')" using run by (auto simp: steps y sv split: res.splits)
          then show ?thesis using s 3 by auto
        qed
      qed (use run 3 in \<open>auto simp: steps\<close>)
    qed
  qed
qed

lemma round_trips_log:
  assumes "round_trips (logged upstream) www_Parse (clocked time_Now) rs (c, n, l) = (c', n', l')"
    and "set rs \<subseteq> R" and "\<forall>r\<in>set rs. auth_values r = []" and "cache_ok www_Parse c l" and "log_ok www_Parse R l"
  shows "log_ok www_Parse R l'"
  using assms
proof (induction rs arbitrary: c n l)
  case (Cons r rs)
  obtain a c1 n1 l1 where rt: "RoundTrip (logged upstream) www_Parse (clocked time_Now) c r (n, l) = (a, c1, n1, l1)"
    by (rule prod_cases4)
  from RoundTrip_log [OF rt _ _ Cons.prems(4,5)] Cons.prems(2,3)
  have "cache_ok www_Parse c1 l1 \<and> log_ok www_Parse R l1" by simp
  then show ?case using Cons.IH Cons.prems(1-3) rt by simp
qed simp

section \<open>The repository of a request\<close>

text \<open>
  A GET of a blob or a manifest of the repository \<open>org/name\<close> at the registry whose URL, up to and with the version,
  is \<open>reg\<close>. The URL is split here as a text, without the expression that the code matches it with.
\<close>

definition for_repository :: "string \<Rightarrow> string \<Rightarrow> string \<Rightarrow> request \<Rightarrow> bool" where
  "for_repository reg org name r \<longleftrightarrow> rq_Method r = ''GET'' \<and>
     (\<exists>m. reg = ''http://'' @ m @ ''/v2/'' \<or> reg = ''https://'' @ m @ ''/v2/'') \<and>
     org \<noteq> [] \<and> name \<noteq> [] \<and> CHR ''/'' \<notin> set org \<and> CHR ''/'' \<notin> set name \<and>
     (\<exists>rest. url_String (rq_URL r) = reg @ org @ ''/'' @ name @ ''/blobs/'' @ rest \<or>
        url_String (rq_URL r) = reg @ org @ ''/'' @ name @ ''/manifests/'' @ rest)"

lemma rx_url_slice:
  assumes "(i, j) \<in> rx_rel t (Seq (rx_str ''http'') (Seq (rx_opt (Chr CHR ''s'')) (Seq (rx_str ''://'') (Seq (Star AnyChar) (rx_str ''/v2/'')))))"
  shows "\<exists>m. text_slice t i j = ''http://'' @ m @ ''/v2/'' \<or> text_slice t i j = ''https://'' @ m @ ''/v2/''"
proof -
  obtain m1 where 1: "(i, m1) \<in> rx_rel t (rx_str ''http'')" "text_slice t i j = text_slice t i m1 @ text_slice t m1 j"
    and a: "(m1, j) \<in> rx_rel t (Seq (rx_opt (Chr CHR ''s'')) (Seq (rx_str ''://'') (Seq (Star AnyChar) (rx_str ''/v2/''))))"
    using assms by (rule rx_rel_Seq_slice)
  obtain m2 where 2: "(m1, m2) \<in> rx_rel t (rx_opt (Chr CHR ''s''))" "text_slice t m1 j = text_slice t m1 m2 @ text_slice t m2 j"
    and b: "(m2, j) \<in> rx_rel t (Seq (rx_str ''://'') (Seq (Star AnyChar) (rx_str ''/v2/'')))"
    using a by (rule rx_rel_Seq_slice)
  obtain m3 where 3: "(m2, m3) \<in> rx_rel t (rx_str ''://'')" "text_slice t m2 j = text_slice t m2 m3 @ text_slice t m3 j"
    and c: "(m3, j) \<in> rx_rel t (Seq (Star AnyChar) (rx_str ''/v2/''))"
    using b by (rule rx_rel_Seq_slice)
  obtain m4 where 4: "(m4, j) \<in> rx_rel t (rx_str ''/v2/'')" "text_slice t m3 j = text_slice t m3 m4 @ text_slice t m4 j"
    using c by (rule rx_rel_Seq_slice)
  have "text_slice t m1 m2 = [] \<or> text_slice t m1 m2 = ''s''"
  proof (cases "(m1, m2) \<in> rx_rel t (Chr CHR ''s'')")
    case False
    then have "m2 = m1" using 2(1) by (auto simp: rx_opt_def)
    then show ?thesis by (simp add: text_slice_def)
  qed (simp add: rx_rel_chr_slice)
  then show ?thesis
    using 1(2) 2(2) 3(2) 4(2) rx_rel_str_slice [OF 1(1)] rx_rel_str_slice [OF 3(1)] rx_rel_str_slice [OF 4(1)] by auto
qed

lemma rx_repo_slice:
  assumes "(i, j) \<in> rx_rel t (Seq (rx_plus (NotIn [CHR ''/''])) (Seq (Chr CHR ''/'') (rx_plus (NotIn [CHR ''/'']))))"
  shows "\<exists>org name. text_slice t i j = org @ ''/'' @ name \<and> org \<noteq> [] \<and> name \<noteq> [] \<and> CHR ''/'' \<notin> set org \<and> CHR ''/'' \<notin> set name"
proof -
  obtain m1 where 1: "(i, m1) \<in> rx_rel t (rx_plus (NotIn [CHR ''/'']))" "text_slice t i j = text_slice t i m1 @ text_slice t m1 j"
    and a: "(m1, j) \<in> rx_rel t (Seq (Chr CHR ''/'') (rx_plus (NotIn [CHR ''/''])))"
    using assms by (rule rx_rel_Seq_slice)
  obtain m2 where 2: "(m1, m2) \<in> rx_rel t (Chr CHR ''/'')" "text_slice t m1 j = text_slice t m1 m2 @ text_slice t m2 j"
    and b: "(m2, j) \<in> rx_rel t (rx_plus (NotIn [CHR ''/'']))"
    using a by (rule rx_rel_Seq_slice)
  have "text_slice t i j = text_slice t i m1 @ ''/'' @ text_slice t m2 j" using 1(2) 2(2) rx_rel_chr_slice [OF 2(1)] by simp
  moreover have "text_slice t i m1 \<noteq> []" "CHR ''/'' \<notin> set (text_slice t i m1)" using rx_rel_NotIn_plus [OF 1(1)] by auto
  moreover have "text_slice t m2 j \<noteq> []" "CHR ''/'' \<notin> set (text_slice t m2 j)" using rx_rel_NotIn_plus [OF b] by auto
  ultimately show ?thesis by blast
qed

text \<open>The key of a request is made of its registry and repository, and tells them.\<close>

lemma auth_key_repository:
  assumes "auth_key r = Some k"
  shows "\<exists>reg org name. k = reg @ org @ ''/'' @ name \<and> for_repository reg org name r"
proof -
  define t where "t = url_String (rq_URL r)"
  obtain w reg repo kind where get: "rq_Method r = ''GET''" and k: "k = reg @ repo"
    and f: "FindStringSubmatch 3 dockerRegistryRegex t = Some [w, reg, repo, kind]"
    using assms by (auto simp: auth_key_def t_def split: if_splits option.splits list.splits)
  obtain i j cs where i: "i \<le> length t" and m: "(j, cs) \<in> set (rx_match t dockerRegistryRegex i [])"
    and ms: "[w, reg, repo, kind] = text_slice t i j # map (\<lambda>g. case map_of cs g of None \<Rightarrow> [] | Some s \<Rightarrow> s) [1..<Suc 3]"
    using f by (rule FindStringSubmatch_Some)
  let ?g1 = "Seq (rx_str ''http'') (Seq (rx_opt (Chr CHR ''s'')) (Seq (rx_str ''://'') (Seq (Star AnyChar) (rx_str ''/v2/''))))"
  let ?g2 = "Seq (rx_plus (NotIn [CHR ''/''])) (Seq (Chr CHR ''/'') (rx_plus (NotIn [CHR ''/''])))"
  let ?g3 = "Alt (rx_str ''blobs'') (rx_str ''manifests'')"
  let ?s = "Chr CHR ''/''"
  have pl: "rx_plain ?g1" "rx_plain ?g2" "rx_plain ?g3" "rx_plain ?s" by (simp_all add: rx_opt_def rx_plus_def del: rx_str.simps)
  obtain m0 c0 where "(m0, c0) \<in> set (rx_match t BeginText i [])"
    and r0: "(j, cs) \<in> set (rx_match t (Seq (Group 1 ?g1) (Seq (Group 2 ?g2) (Seq ?s (Seq (Group 3 ?g3) (Seq ?s (Seq (Star AnyChar) EndText)))))) m0 c0)"
    using m unfolding dockerRegistryRegex_def rx_match_Seq_mem [of _ _ _ BeginText] by blast
  from this(1) have 0: "m0 = 0" "c0 = []" by (simp_all split: if_splits)
  obtain m1 c1 where r1: "(j, cs) \<in> set (rx_match t (Seq (Group 2 ?g2) (Seq ?s (Seq (Group 3 ?g3) (Seq ?s (Seq (Star AnyChar) EndText))))) m1 c1)"
    and e1: "(m1, c1) \<in> set (rx_match t (Group 1 ?g1) 0 [])"
    using iffD1 [OF rx_match_Seq_mem r0 [unfolded 0]] by blast
  note 1 = rx_match_Group_mem [OF pl(1) le0 e1]
  have b1: "m1 \<le> length t" using rx_rel_bounds [OF 1 [THEN conjunct2]] ..
  obtain m2 c2 where r2: "(j, cs) \<in> set (rx_match t (Seq ?s (Seq (Group 3 ?g3) (Seq ?s (Seq (Star AnyChar) EndText)))) m2 c2)"
    and e2: "(m2, c2) \<in> set (rx_match t (Group 2 ?g2) m1 c1)"
    using iffD1 [OF rx_match_Seq_mem r1] by blast
  note 2 = rx_match_Group_mem [OF pl(2) b1 e2]
  note b2 = rx_rel_bounds [OF 2 [THEN conjunct2]]
  obtain m3 c3 where r3: "(j, cs) \<in> set (rx_match t (Seq (Group 3 ?g3) (Seq ?s (Seq (Star AnyChar) EndText))) m3 c3)"
    and e3: "(m3, c3) \<in> set (rx_match t ?s m2 c2)"
    using iffD1 [OF rx_match_Seq_mem r2] by blast
  note 3 = rx_match_plain_mem [OF pl(4) b2 [THEN conjunct2] e3]
  note b3 = rx_rel_bounds [OF 3 [THEN conjunct2]]
  obtain m4 c4 where r4: "(j, cs) \<in> set (rx_match t (Seq ?s (Seq (Star AnyChar) EndText)) m4 c4)"
    and e4: "(m4, c4) \<in> set (rx_match t (Group 3 ?g3) m3 c3)"
    using iffD1 [OF rx_match_Seq_mem r3] by blast
  note 4 = rx_match_Group_mem [OF pl(3) b3 [THEN conjunct2] e4]
  note b4 = rx_rel_bounds [OF 4 [THEN conjunct2]]
  obtain m5 c5 where r5: "(j, cs) \<in> set (rx_match t (Seq (Star AnyChar) EndText) m5 c5)"
    and e5: "(m5, c5) \<in> set (rx_match t ?s m4 c4)"
    using iffD1 [OF rx_match_Seq_mem r4] by blast
  note 5 = rx_match_plain_mem [OF pl(4) b4 [THEN conjunct2] e5]
  note b5 = rx_rel_bounds [OF 5 [THEN conjunct2]]
  have "cs = c5" by (rule rx_match_plain [OF _ r5]) simp
  then have regs: "reg = text_slice t 0 m1" "repo = text_slice t m1 m2" using ms 5 [THEN conjunct1] 4 [THEN conjunct1] 3 [THEN conjunct1] 2 [THEN conjunct1] 1 [THEN conjunct1] by (simp_all add: upt_rec [of _ 4] numeral_eq_Suc)
  have "t = text_slice t 0 (length t)" by (simp add: text_slice_whole)
  also have "\<dots> = text_slice t 0 m1 @ text_slice t m1 m2 @ text_slice t m2 m3 @ text_slice t m3 m4 @ text_slice t m4 m5 @ text_slice t m5 (length t)"
    using b1 b2 b3 b4 b5 by (simp add: text_slice_append)
  finally have split: "t = reg @ repo @ ''/'' @ text_slice t m3 m4 @ ''/'' @ text_slice t m5 (length t)"
    unfolding regs rx_rel_chr_slice [OF 3 [THEN conjunct2]] rx_rel_chr_slice [OF 5 [THEN conjunct2]] .
  have kind: "text_slice t m3 m4 = ''blobs'' \<or> text_slice t m3 m4 = ''manifests''"
    using 4 [THEN conjunct2] rx_rel_str_slice [of m3 m4 t] by (auto simp del: rx_str.simps)
  obtain org name where repo: "repo = org @ ''/'' @ name" "org \<noteq> []" "name \<noteq> []" "CHR ''/'' \<notin> set org" "CHR ''/'' \<notin> set name"
    using rx_repo_slice [OF 2 [THEN conjunct2]] regs(2) by auto
  have "\<exists>m. reg = ''http://'' @ m @ ''/v2/'' \<or> reg = ''https://'' @ m @ ''/v2/''" using rx_url_slice [OF 1 [THEN conjunct2]] regs(1) by simp
  moreover have "\<exists>rest. t = reg @ org @ ''/'' @ name @ ''/blobs/'' @ rest \<or> t = reg @ org @ ''/'' @ name @ ''/manifests/'' @ rest"
    using split kind repo(1) by (intro exI [of _ "text_slice t m5 (length t)"]) auto
  ultimately have "for_repository reg org name r" using get repo(2-5) unfolding for_repository_def t_def by blast
  then show ?thesis using k repo(1) by blast
qed

lemma split_last_unique:
  "xs @ c # ys = xs' @ c # ys' \<Longrightarrow> c \<notin> set ys \<Longrightarrow> c \<notin> set ys' \<Longrightarrow> xs = xs' \<and> ys = ys'"
proof (induction xs arbitrary: xs')
  case Nil
  then show ?case by (cases xs') auto
next
  case (Cons x xs)
  then show ?case by (cases xs') auto
qed

lemma repository_slash:
  assumes "for_repository reg org name r"
  shows "\<exists>p. reg = p @ ''/''"
proof -
  obtain m where "reg = (''http://'' @ m @ ''/v2'') @ ''/'' \<or> reg = (''https://'' @ m @ ''/v2'') @ ''/''"
    using assms by (auto simp: for_repository_def)
  then show ?thesis by blast
qed

lemma same_repository:
  assumes "reg @ org @ ''/'' @ name = reg' @ org' @ ''/'' @ name'"
    and "for_repository reg org name r" and "for_repository reg' org' name' r'"
  shows "reg = reg' \<and> org = org' \<and> name = name'"
proof -
  have n: "reg @ org = reg' @ org' \<and> name = name'"
    using split_last_unique [of "reg @ org" "CHR ''/''" name "reg' @ org'" name'] assms by (simp add: for_repository_def)
  obtain p p' where p: "reg = p @ ''/''" "reg' = p' @ ''/''"
    using repository_slash [OF assms(2)] repository_slash [OF assms(3)] by blast
  then have "p = p' \<and> org = org'" using split_last_unique [of p "CHR ''/''" org p' org'] n assms(2,3) by (simp add: for_repository_def)
  then show ?thesis using n p by simp
qed

text \<open>What grants a token for the key of a request is a challenge to a request for the same repository.\<close>

lemma granted_repository:
  assumes "granted www_Parse l k t" and "auth_key r = Some k"
  shows "\<exists>reg org name m1 q1 a1 q2 a2 m2 x s realm service scope.
    l = m1 @ (q1, Ok a1) # (q2, Ok a2) # m2 \<and> for_repository reg org name r \<and> for_repository reg org name q1 \<and>
    StatusCode a1 = 401 \<and> s = www_Parse (hdr_Get (rs_Header a1) ''Www-Authenticate'') \<and> AuthType s = ''Bearer'' \<and>
    gm_get (Params s) ''realm'' = Some realm \<and> gm_get (Params s) ''service'' = Some service \<and> gm_get (Params s) ''scope'' = Some scope \<and>
    http_NewRequest ''GET'' (realm @ ''?scope='' @ url_escape EncQueryComponent scope @ ''&service='' @
      url_escape EncQueryComponent service) [] = Ok q2 \<and>
    decode_token (rs_Body a2) = Ok x \<and> tr_Token x = t \<and> t \<noteq> []"
proof -
  obtain m1 q1 a1 ch q2 a2 m2 x where g: "l = m1 @ (q1, Ok a1) # (q2, Ok a2) # m2" "auth_key q1 = Some k"
      "challenge www_Parse a1 = Some ch" "http_NewRequest ''GET'' (token_url ch) [] = Ok q2" "decode_token (rs_Body a2) = Ok x"
      "tr_Token x = t" "t \<noteq> []"
    using assms(1) unfolding granted_def by blast
  obtain reg org name where 1: "k = reg @ org @ ''/'' @ name" "for_repository reg org name q1"
    using auth_key_repository [OF g(2)] by blast
  obtain reg' org' name' where 2: "k = reg' @ org' @ ''/'' @ name'" "for_repository reg' org' name' r"
    using auth_key_repository [OF assms(2)] by blast
  have "for_repository reg org name r" using same_repository [OF _ 1(2) 2(2)] 1(1) 2 by simp
  moreover obtain realm service scope where ch: "ch = (realm, service, scope)" by (rule prod_cases3)
  moreover from ch g(3) have "StatusCode a1 = 401" "AuthType (www_Parse (hdr_Get (rs_Header a1) ''Www-Authenticate'')) = ''Bearer''"
      "gm_get (Params (www_Parse (hdr_Get (rs_Header a1) ''Www-Authenticate''))) ''realm'' = Some realm"
      "gm_get (Params (www_Parse (hdr_Get (rs_Header a1) ''Www-Authenticate''))) ''service'' = Some service"
      "gm_get (Params (www_Parse (hdr_Get (rs_Header a1) ''Www-Authenticate''))) ''scope'' = Some scope"
    by (auto simp: challenge_def Let_def split: if_splits option.splits)
  moreover from ch g(4) have "http_NewRequest ''GET'' (realm @ ''?scope='' @ url_escape EncQueryComponent scope @ ''&service='' @
      url_escape EncQueryComponent service) [] = Ok q2" by (simp add: token_url_def)
  ultimately show ?thesis using g(1,5,6,7) 1(2) by blast
qed

section \<open>The life of a token\<close>

lemma sint_of_int_64: "- (2 ^ 63) \<le> x \<Longrightarrow> x < 2 ^ 63 \<Longrightarrow> sint (word_of_int x :: 64 word) = x"
  by (simp add: sint_sbintrunc' signed_take_bit_int_eq_self)

lemma token_duration_int: "token_duration e = word_of_int (1000000000 * (sint e - 10))"
  by (simp add: token_duration_def)

lemma token_duration_exact:
  "- 9223372026 \<le> sint e \<Longrightarrow> sint e \<le> 9223372046 \<Longrightarrow> sint (token_duration e) = 1000000000 * (sint e - 10)"
  unfolding token_duration_int by (rule sint_of_int_64) simp_all

lemma token_duration_overflow:
  assumes "9223372046 < sint e" and "sint e \<le> 18446744083"
  shows "sint (token_duration e) < 0"
proof -
  have "(word_of_int (1000000000 * (sint e - 10)) :: 64 word) = word_of_int (1000000000 * (sint e - 10) - 2 ^ 64)"
    by (simp add: word_of_int_2p_len [where 'a = 64, simplified])
  moreover have "sint (word_of_int (1000000000 * (sint e - 10) - 2 ^ 64) :: 64 word) = 1000000000 * (sint e - 10) - 2 ^ 64"
    by (rule sint_of_int_64) (use assms in simp_all)
  ultimately have "sint (token_duration e) = 1000000000 * (sint e - 10) - 2 ^ 64" unfolding token_duration_int by (simp only:)
  then show ?thesis using assms by simp
qed

section \<open>Properties\<close>

text \<open>
  C20. A token stays with its repository. Whatever requests without an authorisation of their own are made, and
  whatever is answered, a request that reaches the registry with an authorisation is one of them, or a new GET of
  its URL, and carries a token that was granted before to a request for the same registry and repository: that
  request is on record with the 401 and the Bearer challenge it met, and right after it the request to the realm of
  the challenge, with its scope and service, whose answer holds the token. No token request carries one. The
  repository of a request is read off the text of its URL.
\<close>

theorem token_scope:
  assumes "\<forall>r\<in>set rs. auth_values r = []"
    and "round_trips (logged upstream) www_Parse (clocked time_Now) rs (NewClient, n, []) = (c, n', l)"
    and "l = l1 @ (q, a) # l2" and "auth_values q \<noteq> []"
  shows "\<exists>r\<in>set rs. \<exists>t reg org name m1 q1 a1 q2 a2 m2 x s realm service scope.
    (q = with_token t r \<or> (\<exists>fr. http_NewRequest ''GET'' (url_String (rq_URL r)) [] = Ok fr \<and> q = with_token t fr)) \<and>
    auth_values q = [''Bearer '' @ t] \<and>
    l1 = m1 @ (q1, Ok a1) # (q2, Ok a2) # m2 \<and> for_repository reg org name r \<and> for_repository reg org name q1 \<and>
    StatusCode a1 = 401 \<and> s = www_Parse (hdr_Get (rs_Header a1) ''Www-Authenticate'') \<and> AuthType s = ''Bearer'' \<and>
    gm_get (Params s) ''realm'' = Some realm \<and> gm_get (Params s) ''service'' = Some service \<and> gm_get (Params s) ''scope'' = Some scope \<and>
    http_NewRequest ''GET'' (realm @ ''?scope='' @ url_escape EncQueryComponent scope @ ''&service='' @
      url_escape EncQueryComponent service) [] = Ok q2 \<and>
    decode_token (rs_Body a2) = Ok x \<and> tr_Token x = t \<and> t \<noteq> []"
proof -
  have "cache_ok www_Parse NewClient []" by (simp add: cache_ok_def NewClient_def)
  moreover have "log_ok www_Parse (set rs) []" by (simp add: log_ok_def)
  ultimately have "log_ok www_Parse (set rs) l" using round_trips_log [OF assms(2) subset_refl assms(1)] by simp
  then obtain r k t where r: "r \<in> set rs" "sent_for r k t q" "granted www_Parse l1 k t"
    using assms(3,4) unfolding log_ok_def justified_def by blast
  then have "auth_key r = Some k" "auth_values q = [''Bearer '' @ t]" by (auto simp: sent_for_def)
  then show ?thesis using r granted_repository [OF r(3), of r] unfolding sent_for_def by blast
qed

text \<open>
  C31. The life of a token. After a token was saved, a later request for the same key is sent with it, and with
  nothing else, exactly when the clock has not passed the time of the answer plus the duration computed in 64 bits;
  otherwise it is handled as if there was no token. The duration is ten seconds less than the answer's
  \<open>expires_in\<close> up to 9223372046 seconds; beyond that (up to twice as much) the product overflows to a negative
  value, so that the token is not used at all, like one with less than ten seconds.
\<close>

theorem token_lifetime:
  assumes "auth_key r = Some k" and "save_token time_Now k tr c n = (Ok c1, n1)" and "time_Now n2 = (t2, n3)"
  shows "RoundTrip upstream www_Parse time_Now c1 r n2 =
      (if t2 \<le> fst (time_Now n) + sint (token_duration (tr_ExpiresIn tr))
       then (case upstream (with_token (tr_Token tr) r) n3 of (a, n4) \<Rightarrow> (a, c1, n4))
       else RoundTrip upstream www_Parse time_Now (c1\<lparr>tokens := gm_delete k (tokens c1)\<rparr>) r n2) \<and>
    (- 9223372026 \<le> sint (tr_ExpiresIn tr) \<and> sint (tr_ExpiresIn tr) \<le> 9223372046 \<longrightarrow>
      sint (token_duration (tr_ExpiresIn tr)) = 1000000000 * (sint (tr_ExpiresIn tr) - 10)) \<and>
    (9223372046 < sint (tr_ExpiresIn tr) \<and> sint (tr_ExpiresIn tr) \<le> 18446744083 \<longrightarrow>
      sint (token_duration (tr_ExpiresIn tr)) < 0)"
proof -
  have "gm_get (tokens c1) k = Some \<lparr>ct_Token = tr_Token tr, ct_TTL = fst (time_Now n) + sint (token_duration (tr_ExpiresIn tr))\<rparr>"
    using assms(2) by (cases "tokens c") (auto simp: save_token_def gm_get_def gm_put_def update_conv' split: prod.splits)
  moreover have "gm_delete k (gm_delete k m) = gm_delete k m" for m :: "(string, cachedToken) gomap"
    by (cases m) (simp_all add: gm_delete_def delete_conv' AList.delete_idem)
  ultimately have "RoundTrip upstream www_Parse time_Now c1 r n2 =
      (if t2 \<le> fst (time_Now n) + sint (token_duration (tr_ExpiresIn tr))
       then (case upstream (with_token (tr_Token tr) r) n3 of (a, n4) \<Rightarrow> (a, c1, n4))
       else RoundTrip upstream www_Parse time_Now (c1\<lparr>tokens := gm_delete k (tokens c1)\<rparr>) r n2)"
    using assms(1,3) by (simp add: RoundTrip_def lookup_token_def gomap_simps)
  then show ?thesis by (simp add: token_duration_exact token_duration_overflow)
qed

section \<open>A sample registry\<close>

definition sample_parse :: "string \<Rightarrow> authSettings" where
  "sample_parse s = \<lparr>AuthType = takeWhile (\<lambda>c. c \<noteq> CHR '' '') s,
     Params = Some [(''realm'', ''https://a/t''), (''service'', ''r''), (''scope'', ''p'')]\<rparr>"

definition sample_answer :: "nat \<Rightarrow> string \<Rightarrow> response" where
  "sample_answer code body = \<lparr>StatusCode = code, rs_Header = [(''Www-Authenticate'', [''Bearer x''])],
     rs_Body = \<lparr>rd_chunks = [body], rd_err = None, rd_close = None\<rparr>\<rparr>"

definition sample_token :: string where
  "sample_token = ''{'' @ json_quote ''token'' @ '':'' @ json_quote ''x'' @ '','' @ json_quote ''expires_in'' @ '':60}''"

text \<open>The state is the clock, which every reading advances.\<close>

definition sample_up :: "request \<Rightarrow> int \<Rightarrow> response res \<times> int" where
  "sample_up q n =
     (Ok (if Host (rq_URL q) = ''a'' then sample_answer 200 sample_token
          else if auth_values q = [''Bearer x''] then sample_answer 200 ''data''
          else sample_answer 401 []), n)"

definition sample_now :: "int \<Rightarrow> int \<times> int" where
  "sample_now n = (n, n + 1)"

definition sample_get :: request where
  "sample_get = \<lparr>rq_Method = ''GET'', rq_URL = url_zero\<lparr>Scheme := ''https'', Host := ''h'', Path := ''/v2/o/n/blobs/d''\<rparr>,
     rq_Host = ''h'', rq_TLS = False, rq_Header = [], rq_Body = []\<rparr>"

lemma registry_sample_key: "auth_key sample_get = Some ''https://h/v2/o/n''"
  by code_simp

definition sample_other :: request where
  "sample_other = sample_get\<lparr>rq_URL := url_zero\<lparr>Scheme := ''https'', Host := ''h'', Path := ''/v2/o/m/manifests/t''\<rparr>\<rparr>"

text \<open>The token of one repository is asked for once and used twice; another repository of the same registry has its own.\<close>

lemma sample_run:
  "map (\<lambda>(q, a). (url_String (rq_URL q), auth_values q))
     (snd (snd (round_trips (logged sample_up) sample_parse (clocked sample_now) [sample_get, sample_other, sample_get] (NewClient, 0, [])))) =
   [(''https://h/v2/o/n/blobs/d'', []), (''https://a/t?scope=p&service=r'', []), (''https://h/v2/o/n/blobs/d'', [''Bearer x'']),
    (''https://h/v2/o/m/manifests/t'', []), (''https://a/t?scope=p&service=r'', []), (''https://h/v2/o/m/manifests/t'', [''Bearer x'']),
    (''https://h/v2/o/n/blobs/d'', [''Bearer x''])]"
  by code_simp

text \<open>The last request carries a token that was granted to a request for a repository that is its own.\<close>

lemma token_scope_witness:
  "\<exists>l1 q a. snd (snd (round_trips (logged sample_up) sample_parse (clocked sample_now) [sample_get, sample_other, sample_get] (NewClient, 0, [])))
      = l1 @ [(q, a)] \<and> length l1 = 6 \<and> url_String (rq_URL q) = ''https://h/v2/o/n/blobs/d'' \<and>
    (\<exists>r\<in>{sample_get, sample_other}. \<exists>t reg org name q1 a1. auth_values q = [''Bearer '' @ t] \<and>
       (q1, Ok a1) \<in> set l1 \<and> StatusCode a1 = 401 \<and> for_repository reg org name r \<and> for_repository reg org name q1)"
proof -
  let ?rs = "[sample_get, sample_other, sample_get]"
  obtain c n l where run: "round_trips (logged sample_up) sample_parse (clocked sample_now) ?rs (NewClient, 0, []) = (c, n, l)"
    by (rule prod_cases3)
  then have m: "map (\<lambda>(q, a). (url_String (rq_URL q), auth_values q)) l =
     [(''https://h/v2/o/n/blobs/d'', []), (''https://a/t?scope=p&service=r'', []), (''https://h/v2/o/n/blobs/d'', [''Bearer x'']),
      (''https://h/v2/o/m/manifests/t'', []), (''https://a/t?scope=p&service=r'', []), (''https://h/v2/o/m/manifests/t'', [''Bearer x'']),
      (''https://h/v2/o/n/blobs/d'', [''Bearer x''])]"
    using sample_run by simp
  then obtain l1 q a where l: "l = l1 @ (q, a) # []" "length l1 = 6" and q: "auth_values q \<noteq> []" "url_String (rq_URL q) = ''https://h/v2/o/n/blobs/d''"
    by (cases l rule: rev_cases) (auto dest: map_eq_imp_length_eq)
  have r: "\<forall>r\<in>set ?rs. auth_values r = []" by (simp add: sample_get_def sample_other_def auth_values_def hdr_values_def)
  have "\<exists>r\<in>{sample_get, sample_other}. \<exists>t reg org name q1 a1. auth_values q = [''Bearer '' @ t] \<and>
       (q1, Ok a1) \<in> set l1 \<and> StatusCode a1 = 401 \<and> for_repository reg org name r \<and> for_repository reg org name q1"
    using token_scope [OF r run l(1) q(1)] by fastforce
  then show ?thesis using run l q(2) by (intro exI [of _ l1] exI [of _ q] exI [of _ a]) simp
qed

definition sample_client :: Client where
  "sample_client = \<lparr>tokens = Some [(''https://h/v2/o/n'', \<lparr>ct_Token = ''x'', ct_TTL = 50000000000\<rparr>)]\<rparr>"

lemma token_lifetime_witness:
  "save_token sample_now ''https://h/v2/o/n'' \<lparr>tr_Token = ''x'', tr_ExpiresIn = 60\<rparr> NewClient 0 = (Ok sample_client, 1) \<and>
   RoundTrip sample_up sample_parse sample_now sample_client sample_get 50000000000 =
     (Ok (sample_answer 200 ''data''), sample_client, 50000000001)"
proof
  show s: "save_token sample_now ''https://h/v2/o/n'' \<lparr>tr_Token = ''x'', tr_ExpiresIn = 60\<rparr> NewClient 0 = (Ok sample_client, 1)"
    by code_simp
  have n: "sample_now 50000000000 = (50000000000, 50000000001)" by (simp add: sample_now_def)
  have "50000000000 \<le> fst (sample_now 0) + sint (token_duration 60)" by (simp add: sample_now_def token_duration_def)
  with token_lifetime [OF registry_sample_key s n, of sample_up sample_parse]
  have "RoundTrip sample_up sample_parse sample_now sample_client sample_get 50000000000 =
      (case sample_up (with_token ''x'' sample_get) 50000000001 of (a, n4) \<Rightarrow> (a, sample_client, n4))"
    by simp
  moreover have "sample_up (with_token ''x'' sample_get) 50000000001 = (Ok (sample_answer 200 ''data''), 50000000001)"
    by (simp add: sample_up_def) (simp add: with_token_def sample_get_def)
  ultimately show "RoundTrip sample_up sample_parse sample_now sample_client sample_get 50000000000 =
     (Ok (sample_answer 200 ''data''), sample_client, 50000000001)" by simp
qed

end
