(* ===== verification/DownloadImage.thy ===== *)
theory DownloadImage
  imports RegistryAuth RegistryServer
begin

text \<open>
  The program that downloads an image through the proxy (cmd/download-image/download_image_main.go): the names of
  images and the URLs made of them, the choice of the platform, and the sequence of requests for one image.

  The types of the OCI image specification come from another module: what is read of an index and of a manifest are
  records here, and decoding their JSON text is the parameter \<open>oci_json\<close>. \<open>http.Client.Do\<close> is a parameter too.
\<close>

section \<open>Names and URLs\<close>

record ImageName =
  in_Host :: string
  in_Org :: string
  in_Name :: string
  in_Tag :: string

definition ToManifestURL :: "ImageName \<Rightarrow> string" where
  "ToManifestURL i = ''https://'' @ in_Host i @ ''/v2/'' @ in_Org i @ ''/'' @ in_Name i @ ''/manifests/'' @ in_Tag i"

definition ToManifestUrlWithKey :: "ImageName \<Rightarrow> bytes \<Rightarrow> string" where
  "ToManifestUrlWithKey i key =
     ''https://'' @ in_Host i @ ''/v2/'' @ in_Org i @ ''/'' @ in_Name i @ ''/manifests/sha256:'' @ hex_encode key"

definition ToManifestUrlWithDigest :: "ImageName \<Rightarrow> string \<Rightarrow> string" where
  "ToManifestUrlWithDigest i d = ''https://'' @ in_Host i @ ''/v2/'' @ in_Org i @ ''/'' @ in_Name i @ ''/manifests/'' @ d"

definition ToBlobUrlWithDigest :: "ImageName \<Rightarrow> string \<Rightarrow> string" where
  "ToBlobUrlWithDigest i d = ''https://'' @ in_Host i @ ''/v2/'' @ in_Org i @ ''/'' @ in_Name i @ ''/blobs/'' @ d"

definition NewImageName :: "string \<Rightarrow> ImageName res" where
  "NewImageName ref =
     (let unexpected = Errorf (''unexpected name format: '' @ ref) [];
          parts = (case str_split CHR ''/'' ref of
             [a] \<Rightarrow> Some (''docker.io'', ''library'', a)
           | [a, b] \<Rightarrow> Some (''docker.io'', a, b)
           | [a, b, c] \<Rightarrow> Some (a, b, c)
           | _ \<Rightarrow> None)
      in
      (case parts of
         None \<Rightarrow> Err unexpected
       | Some (host, org, img) \<Rightarrow>
           (let named = (case str_split CHR '':'' img of
                [a] \<Rightarrow> Some (a, ''latest'')
              | [a, b] \<Rightarrow> Some (a, b)
              | _ \<Rightarrow> None)
            in
            (case named of
               None \<Rightarrow> Err unexpected
             | Some (name, tag) \<Rightarrow>
                 Ok \<lparr>in_Host = (if host = ''docker.io'' then ''registry-1.docker.io'' else host),
                     in_Org = org, in_Name = name, in_Tag = tag\<rparr>))))"

section \<open>The choice of the platform\<close>

record Platform =
  pf_OS :: string
  pf_Architecture :: string
  pf_Variant :: string

record Descriptor =
  de_Digest :: string
  de_Platform :: "Platform option"

text \<open>\<open>runtime.GOOS\<close> and \<open>runtime.GOARCH\<close>\<close>

record goruntime =
  GOOS :: string
  GOARCH :: string

definition compatible :: "goruntime \<Rightarrow> Descriptor \<Rightarrow> bool" where
  "compatible rt m =
     (let wantVariant = (if GOARCH rt = ''arm'' then ''v7'' else []) in
      case de_Platform m of
        None \<Rightarrow> False
      | Some p \<Rightarrow>
          \<not> (pf_OS p \<noteq> GOOS rt \<or> pf_Architecture p \<noteq> GOARCH rt) \<and>
          \<not> (wantVariant \<noteq> [] \<and> pf_Variant p \<noteq> [] \<and> pf_Variant p \<noteq> wantVariant))"

fun chooseInstance :: "goruntime \<Rightarrow> Descriptor list \<Rightarrow> string res" where
  "chooseInstance rt [] = Err (Errorf (''no image found for '' @ GOOS rt @ ''/'' @ GOARCH rt) [])"
| "chooseInstance rt (m # ms) = (if compatible rt m then Ok (de_Digest m) else chooseInstance rt ms)"

section \<open>Downloading\<close>

record imageManifest =
  Config_Digest :: string
  Layers :: "string list"

record oci_json =
  index_Unmarshal :: "bytes \<Rightarrow> Descriptor list res"
  manifest_Unmarshal :: "bytes \<Rightarrow> imageManifest res"

text \<open>A copy to \<open>io.Discard\<close> fails only where reading fails; the error of the deferred \<open>Close\<close> is dropped.\<close>

definition pullBlob :: "(request \<Rightarrow> 'n \<Rightarrow> response res \<times> 'n) \<Rightarrow> string \<Rightarrow> 'n \<Rightarrow> unit res \<times> 'n" where
  "pullBlob do_req url n =
     (case client_Get do_req url n of
        (Err e, n1) \<Rightarrow> (Err (wrap ''error in GET'' e), n1)
      | (Panic p, n1) \<Rightarrow> (Panic p, n1)
      | (Ok resp, n1) \<Rightarrow> (of_err (rd_err (rs_Body resp)), n1))"

definition pullManifest :: "(request \<Rightarrow> 'n \<Rightarrow> response res \<times> 'n) \<Rightarrow> string \<Rightarrow> 'n \<Rightarrow> (bytes \<times> string) res \<times> 'n" where
  "pullManifest do_req url n =
     (case client_Get do_req url n of
        (Err e, n1) \<Rightarrow> (Err (wrap ''error in GET'' e), n1)
      | (Panic p, n1) \<Rightarrow> (Panic p, n1)
      | (Ok resp, n1) \<Rightarrow>
          (case rd_err (rs_Body resp) of
             Some e \<Rightarrow> (Err e, n1)
           | None \<Rightarrow> (Ok (rd_content (rs_Body resp), hdr_Get (rs_Header resp) ''Content-Type''), n1)))"

fun pull_layers :: "(request \<Rightarrow> 'n \<Rightarrow> response res \<times> 'n) \<Rightarrow> ImageName \<Rightarrow> string list \<Rightarrow> 'n \<Rightarrow> unit res \<times> 'n" where
  "pull_layers do_req img [] n = (Ok (), n)"
| "pull_layers do_req img (d # ds) n =
     (case pullBlob do_req (ToBlobUrlWithDigest img d) n of
        (Err e, n1) \<Rightarrow> (Err (wrap ''error pulling layer'' e), n1)
      | (Panic p, n1) \<Rightarrow> (Panic p, n1)
      | (Ok _, n1) \<Rightarrow> pull_layers do_req img ds n1)"

text \<open>The part of \<open>downloadImage\<close> after the manifest of the platform was read.\<close>

definition pull_contents :: "(request \<Rightarrow> 'n \<Rightarrow> response res \<times> 'n) \<Rightarrow> oci_json \<Rightarrow> ImageName \<Rightarrow> bytes \<Rightarrow> 'n \<Rightarrow> unit res \<times> 'n" where
  "pull_contents do_req oci img mbytes n =
     (case manifest_Unmarshal oci mbytes of
        Err e \<Rightarrow> (Err (wrap (''can'' @ [CHR 0x27] @ ''t parse platform manifest'') e), n)
      | Panic p \<Rightarrow> (Panic p, n)
      | Ok m \<Rightarrow>
          (case pullBlob do_req (ToBlobUrlWithDigest img (Config_Digest m)) n of
             (Err e, n1) \<Rightarrow> (Err (wrap ''error pulling config'' e), n1)
           | (Panic p, n1) \<Rightarrow> (Panic p, n1)
           | (Ok _, n1) \<Rightarrow> pull_layers do_req img (Layers m) n1))"

definition downloadImage :: "(request \<Rightarrow> 'n \<Rightarrow> response res \<times> 'n) \<Rightarrow> oci_json \<Rightarrow> goruntime \<Rightarrow> string \<Rightarrow> 'n \<Rightarrow> unit res \<times> 'n" where
  "downloadImage do_req oci rt name n =
     (case NewImageName name of
        Err e \<Rightarrow> (Err (wrap ''error parsing name'' e), n)
      | Panic p \<Rightarrow> (Panic p, n)
      | Ok img \<Rightarrow>
          (case pullManifest do_req (ToManifestURL img) n of
             (Err e, n1) \<Rightarrow> (Err (wrap ''error pulling manifest by tag'' e), n1)
           | (Panic p, n1) \<Rightarrow> (Panic p, n1)
           | (Ok (mByTag, _), n1) \<Rightarrow>
               (case pullManifest do_req (ToManifestUrlWithKey img (sha256 mByTag)) n1 of
                  (Err e, n2) \<Rightarrow> (Err (wrap ''error pulling manifest by tag'' e), n2)
                | (Panic p, n2) \<Rightarrow> (Panic p, n2)
                | (Ok (mBySha, _), n2) \<Rightarrow>
                    (if mByTag \<noteq> mBySha then (Err (Errorf (''that'' @ [CHR 0x27] @ ''s weird, manifest changed!'') []), n2)
                     else
                       (case index_Unmarshal oci mBySha of
                          Err e \<Rightarrow> (Err (wrap ''error parsing manifest list'' e), n2)
                        | Panic p \<Rightarrow> (Panic p, n2)
                        | Ok manifests \<Rightarrow>
                            (case chooseInstance rt manifests of
                               Err e \<Rightarrow> (Err (wrap ''error choosing operating system digest'' e), n2)
                             | Panic p \<Rightarrow> (Panic p, n2)
                             | Ok ourDigest \<Rightarrow>
                                 (case pullManifest do_req (ToManifestUrlWithDigest img ourDigest) n2 of
                                    (Err e, n3) \<Rightarrow> (Err (wrap (''can'' @ [CHR 0x27] @ ''t pull actual platform manifest'') e), n3)
                                  | (Panic p, n3) \<Rightarrow> (Panic p, n3)
                                  | (Ok (mbytes, _), n3) \<Rightarrow> pull_contents do_req oci img mbytes n3)))))))"

section \<open>The program\<close>

text \<open>
  The loop of \<open>main\<close> over the command line; the program ends with status 1 when there was an error (\<open>logrus.Fatalf\<close>).
  \<open>multierror.Append\<close> is the parameter \<open>mappend\<close>.
\<close>

fun download_images :: "(request \<Rightarrow> 'n \<Rightarrow> response res \<times> 'n) \<Rightarrow> oci_json \<Rightarrow> goruntime \<Rightarrow> (err option \<Rightarrow> err \<Rightarrow> err) \<Rightarrow>
    string list \<Rightarrow> err option \<Rightarrow> 'n \<Rightarrow> unit res \<times> 'n" where
  "download_images do_req oci rt mappend [] rv n = (of_err rv, n)"
| "download_images do_req oci rt mappend (i # is) rv n =
     (case downloadImage do_req oci rt i n of
        (Ok _, n1) \<Rightarrow> download_images do_req oci rt mappend is rv n1
      | (Err e, n1) \<Rightarrow> download_images do_req oci rt mappend is (Some (mappend rv e)) n1
      | (Panic p, n1) \<Rightarrow> (Panic p, n1))"

definition auth_transport :: "(request \<Rightarrow> 'n \<Rightarrow> response res \<times> 'n) \<Rightarrow> (string \<Rightarrow> authSettings) \<Rightarrow> ('n \<Rightarrow> int \<times> 'n) \<Rightarrow>
    request \<Rightarrow> Client \<times> 'n \<Rightarrow> response res \<times> Client \<times> 'n" where
  "auth_transport upstream www_Parse time_Now r = (\<lambda>(c, n). RoundTrip upstream www_Parse time_Now c r n)"

definition download_main :: "((request \<Rightarrow> Client \<times> 'n \<Rightarrow> response res \<times> Client \<times> 'n) \<Rightarrow> request \<Rightarrow> Client \<times> 'n \<Rightarrow> response res \<times> Client \<times> 'n) \<Rightarrow>
    (request \<Rightarrow> 'n \<Rightarrow> response res \<times> 'n) \<Rightarrow> (string \<Rightarrow> authSettings) \<Rightarrow> ('n \<Rightarrow> int \<times> 'n) \<Rightarrow> oci_json \<Rightarrow> goruntime \<Rightarrow>
    (err option \<Rightarrow> err \<Rightarrow> err) \<Rightarrow> string list \<Rightarrow> 'n \<Rightarrow> nat \<times> 'n" where
  "download_main client_Do DefaultTransport www_Parse time_Now oci rt mappend args n =
     (case download_images (client_Do (auth_transport DefaultTransport www_Parse time_Now)) oci rt mappend args None (NewClient, n) of
        (Ok _, (c, n1)) \<Rightarrow> (0, n1)
      | (Err e, (c, n1)) \<Rightarrow> (1, n1)
      | (Panic p, (c, n1)) \<Rightarrow> (2, n1))"

section \<open>What a download requests\<close>

text \<open>An exchange that is a GET of the URL, answered with a body that was read to its end.\<close>

definition answered :: "string \<Rightarrow> bytes \<Rightarrow> exchange \<Rightarrow> bool" where
  "answered u b x \<longleftrightarrow> http_NewRequest ''GET'' u [] = Ok (fst x) \<and>
     (\<exists>resp. snd x = Ok resp \<and> rd_err (rs_Body resp) = None \<and> rd_content (rs_Body resp) = b)"

lemma client_Get_logged:
  "client_Get (logged do_req) u (n, l) = (Ok resp, n', l') \<Longrightarrow>
    \<exists>q. http_NewRequest ''GET'' u [] = Ok q \<and> l' = l @ [(q, Ok resp)]"
  by (auto simp: client_Get_def client_request_def logged_def split: res.splits prod.splits)

lemma pullManifest_logged:
  assumes "pullManifest (logged do_req) u (n, l) = (Ok (b, t), n', l')"
  shows "\<exists>x. answered u b x \<and> l' = l @ [x]"
  using assms
  by (auto simp: pullManifest_def answered_def split: prod.splits res.splits option.splits dest!: client_Get_logged)

lemma pullBlob_logged:
  assumes "pullBlob (logged do_req) u (n, l) = (Ok v, n', l')"
  shows "\<exists>x b. answered u b x \<and> l' = l @ [x]"
  using assms
  by (auto simp: pullBlob_def answered_def res_simps split: prod.splits res.splits dest!: client_Get_logged)

lemma pull_layers_logged:
  assumes "pull_layers (logged do_req) img ds (n, l) = (Ok v, n', l')"
  shows "\<exists>xs. list_all2 (\<lambda>d x. \<exists>b. answered (ToBlobUrlWithDigest img d) b x) ds xs \<and> l' = l @ xs"
  using assms
proof (induction ds arbitrary: n l)
  case (Cons d ds)
  then obtain n1 l1 where p: "pullBlob (logged do_req) (ToBlobUrlWithDigest img d) (n, l) = (Ok (), n1, l1)"
    and r: "pull_layers (logged do_req) img ds (n1, l1) = (Ok v, n', l')"
    by (auto split: prod.splits res.splits)
  from pullBlob_logged [OF p] obtain x b where "answered (ToBlobUrlWithDigest img d) b x" "l1 = l @ [x]" by blast
  moreover from Cons.IH [OF r] obtain xs where
    "list_all2 (\<lambda>d x. \<exists>b. answered (ToBlobUrlWithDigest img d) b x) ds xs" "l' = l1 @ xs" by blast
  ultimately show ?case by (intro exI [of _ "x # xs"]) auto
qed simp

lemma chooseInstance_first:
  "chooseInstance rt ms = Ok g \<longleftrightarrow>
     (\<exists>pre d post. ms = pre @ d # post \<and> g = de_Digest d \<and> compatible rt d \<and> (\<forall>x\<in>set pre. \<not> compatible rt x))"
proof (induction ms)
  case (Cons m ms)
  have "(\<exists>pre d post. m # ms = pre @ d # post \<and> P pre d) \<longleftrightarrow> P [] m \<or> (\<exists>pre d post. ms = pre @ d # post \<and> P (m # pre) d)" for P
    by (auto simp: Cons_eq_append_conv)
  note split = this [of "\<lambda>pre d. g = de_Digest d \<and> compatible rt d \<and> (\<forall>x\<in>set pre. \<not> compatible rt x)"]
  show ?case unfolding split using Cons.IH by auto
qed simp

text \<open>The exchanges of a complete download of the image \<open>img\<close>, in order.\<close>

definition complete_download :: "oci_json \<Rightarrow> goruntime \<Rightarrow> ImageName \<Rightarrow> exchange list \<Rightarrow> bool" where
  "complete_download oci rt img l \<longleftrightarrow>
     (\<exists>x1 x2 x3 x4 xs idx ms pre d post mbytes m cfg.
        l = x1 # x2 # x3 # x4 # xs \<and>
        answered (ToManifestURL img) idx x1 \<and> answered (ToManifestUrlWithKey img (sha256 idx)) idx x2 \<and>
        index_Unmarshal oci idx = Ok ms \<and> ms = pre @ d # post \<and> compatible rt d \<and> (\<forall>x\<in>set pre. \<not> compatible rt x) \<and>
        answered (ToManifestUrlWithDigest img (de_Digest d)) mbytes x3 \<and> manifest_Unmarshal oci mbytes = Ok m \<and>
        answered (ToBlobUrlWithDigest img (Config_Digest m)) cfg x4 \<and>
        list_all2 (\<lambda>g x. \<exists>b. answered (ToBlobUrlWithDigest img g) b x) (Layers m) xs)"

section \<open>Properties\<close>

text \<open>
  C21. A download is complete. When \<open>downloadImage\<close> returns without an error, it has requested, in this order and
  nothing else, the index by its tag, the index by its digest with the same content, the manifest of the first
  compatible platform, the configuration and each layer of that manifest, and has read every answer to its end.
\<close>

theorem download_complete:
  assumes "downloadImage (logged do_req) oci rt name (n, l) = (Ok (), n', l')"
  shows "\<exists>img xs. NewImageName name = Ok img \<and> complete_download oci rt img xs \<and> l' = l @ xs"
proof -
  from assms obtain img idx t1 n1 l1 t2 n2 l2 ms g mb t3 n3 l3 where i: "NewImageName name = Ok img"
    and m1: "pullManifest (logged do_req) (ToManifestURL img) (n, l) = (Ok (idx, t1), n1, l1)"
    and m2: "pullManifest (logged do_req) (ToManifestUrlWithKey img (sha256 idx)) (n1, l1) = (Ok (idx, t2), n2, l2)"
    and ms: "index_Unmarshal oci idx = Ok ms" and g: "chooseInstance rt ms = Ok g"
    and m3: "pullManifest (logged do_req) (ToManifestUrlWithDigest img g) (n2, l2) = (Ok (mb, t3), n3, l3)"
    and c: "pull_contents (logged do_req) oci img mb (n3, l3) = (Ok (), n', l')"
    by (auto simp: downloadImage_def split: res.splits prod.splits if_splits)
  from c obtain m n4 l4 where m: "manifest_Unmarshal oci mb = Ok m"
    and b: "pullBlob (logged do_req) (ToBlobUrlWithDigest img (Config_Digest m)) (n3, l3) = (Ok (), n4, l4)"
    and ls: "pull_layers (logged do_req) img (Layers m) (n4, l4) = (Ok (), n', l')"
    by (auto simp: pull_contents_def split: res.splits prod.splits)
  obtain x1 x2 x3 x4 cfg xs where "answered (ToManifestURL img) idx x1" "l1 = l @ [x1]"
    "answered (ToManifestUrlWithKey img (sha256 idx)) idx x2" "l2 = l1 @ [x2]"
    "answered (ToManifestUrlWithDigest img g) mb x3" "l3 = l2 @ [x3]"
    "answered (ToBlobUrlWithDigest img (Config_Digest m)) cfg x4" "l4 = l3 @ [x4]"
    "list_all2 (\<lambda>g x. \<exists>b. answered (ToBlobUrlWithDigest img g) b x) (Layers m) xs" "l' = l4 @ xs"
    using pullManifest_logged [OF m1] pullManifest_logged [OF m2] pullManifest_logged [OF m3] pullBlob_logged [OF b]
      pull_layers_logged [OF ls] by blast
  moreover from g obtain pre d post where "ms = pre @ d # post" "g = de_Digest d" "compatible rt d" "\<forall>x\<in>set pre. \<not> compatible rt x"
    unfolding chooseInstance_first by blast
  ultimately have "complete_download oci rt img (x1 # x2 # x3 # x4 # xs) \<and> l' = l @ x1 # x2 # x3 # x4 # xs"
    using ms m unfolding complete_download_def by simp blast
  then show ?thesis using i by blast
qed

definition restatus :: "(nat \<Rightarrow> nat) \<Rightarrow> (request \<Rightarrow> 'n \<Rightarrow> response res \<times> 'n) \<Rightarrow> request \<Rightarrow> 'n \<Rightarrow> response res \<times> 'n" where
  "restatus f do_req q n =
     (case do_req q n of
        (Ok resp, n1) \<Rightarrow> (Ok (resp\<lparr>StatusCode := f (StatusCode resp)\<rparr>), n1)
      | r \<Rightarrow> r)"

lemma pull_restatus:
  "pullManifest (restatus f do_req) = pullManifest do_req" "pullBlob (restatus f do_req) = pullBlob do_req"
  by (auto simp: fun_eq_iff pullManifest_def pullBlob_def client_Get_def client_request_def restatus_def
      split: res.splits prod.splits option.splits)

lemma layers_restatus: "pull_layers (restatus f do_req) = pull_layers do_req"
proof (intro ext)
  show "pull_layers (restatus f do_req) img ds n = pull_layers do_req img ds n" for img ds n
    by (induction ds arbitrary: n) (auto simp: pull_restatus split: res.splits prod.splits)
qed

lemma contents_restatus: "pull_contents (restatus f do_req) = pull_contents do_req"
  unfolding pull_contents_def pull_restatus layers_restatus ..

text \<open>
  The status of an answer is not looked at. Whatever status codes the answers have, a download does the same and
  returns the same result; so the body of an error answer is taken for the index, for a manifest, and for a blob.
\<close>

theorem download_ignores_status:
  "downloadImage (restatus f do_req) oci rt name n = downloadImage do_req oci rt name n"
  unfolding downloadImage_def pull_restatus contents_restatus ..

section \<open>A sample image\<close>

definition sample_oci :: oci_json where
  "sample_oci = \<lparr>
     index_Unmarshal = (\<lambda>b. Ok [\<lparr>de_Digest = ''dx'', de_Platform = None\<rparr>,
        \<lparr>de_Digest = b, de_Platform = Some \<lparr>pf_OS = ''linux'', pf_Architecture = ''arm64'', pf_Variant = ''v8''\<rparr>\<rparr>]),
     manifest_Unmarshal = (\<lambda>b. Ok \<lparr>Config_Digest = b, Layers = [b, ''d2'']\<rparr>)\<rparr>"

definition sample_do :: "request \<Rightarrow> nat \<Rightarrow> response res \<times> nat" where
  "sample_do q n = (Ok (sample_answer 200 ''d1''), n + 1)"

definition sample_rt :: goruntime where
  "sample_rt = \<lparr>GOOS = ''linux'', GOARCH = ''arm64''\<rparr>"

definition get_of :: "string \<Rightarrow> request" where
  "get_of u = (case http_NewRequest ''GET'' u [] of Ok q \<Rightarrow> q | _ \<Rightarrow> undefined)"

lemma sample_Get:
  assumes "path_plain p" and "has_prefix p ''/''"
  shows "client_Get (logged sample_do) (''https://r.example'' @ p) (n, l) =
    (Ok (sample_answer 200 ''d1''), n + 1, l @ [(get_of (''https://r.example'' @ p), Ok (sample_answer 200 ''d1''))])"
proof -
  have "''https://r.example'' @ p = url_String (rv_url p [])" and "list_all is_token_char ''GET''"
    using rv_url_String [OF assms(2) rv_strings(6) assms(1)] by simp code_simp
  with rv_request [OF assms(2) rv_strings(6) assms(1), of "''https://r.example'' @ p" "''GET''" "[]"]
  obtain q where "http_NewRequest ''GET'' (''https://r.example'' @ p) [] = Ok q" by auto
  then show ?thesis by (simp add: client_Get_def client_request_def logged_def sample_do_def get_of_def)
qed

lemma download_complete_witness:
  "\<exists>img xs. NewImageName ''r.example/a/b:c'' = Ok img \<and> complete_download sample_oci sample_rt img xs"
proof -
  define ans where "ans = sample_answer 200 ''d1''"
  let ?img = "\<lparr>in_Host = ''r.example'', in_Org = ''a'', in_Name = ''b'', in_Tag = ''c''\<rparr>"
  have img: "NewImageName ''r.example/a/b:c'' = Ok ?img" by code_simp
  have pp: "path_plain ''/v2/a/b/manifests/c''" "path_plain ''/v2/a/b/manifests/d1''" "path_plain ''/v2/a/b/blobs/d1''"
    "path_plain ''/v2/a/b/blobs/d2''" "path_plain ''/v2/a/b/manifests/sha256:''" by code_simp+
  have k: "path_plain (''/v2/a/b/manifests/sha256:'' @ hex_encode (sha256 ''d1''))"
    using pp(5) hex_plain by (simp only: path_plain_append)
  note gets = pp(1-4) [THEN sample_Get, simplified, folded ans_def] sample_Get [OF k, simplified, folded ans_def]
  have a: "rd_err (rs_Body ans) = None" "rd_content (rs_Body ans) = ''d1''" by (simp_all add: ans_def sample_answer_def rd_content_def)
  obtain n l where "downloadImage (logged sample_do) sample_oci sample_rt ''r.example/a/b:c'' (0, []) = (Ok (), n, l)"
    by (simp add: downloadImage_def img pullManifest_def pullBlob_def pull_contents_def ToManifestURL_def ToManifestUrlWithKey_def
        ToManifestUrlWithDigest_def ToBlobUrlWithDigest_def gets a sample_oci_def compatible_def sample_rt_def)
  from download_complete [OF this] show ?thesis by auto
qed

end
