(* ===== verification/InFlight.thy ===== *)
theory InFlight
  imports CommandRuns
begin

text \<open>
  Requests in flight when the command closes its manifest. The handler sends the whole answer to its client before it
  commits the blob and records it, and nobody waits for it: a client that has its answer may end, and with it the
  subprocess and the session, before the record is made.
\<close>

section \<open>Up to the commit\<close>

lemma copied_run:
  assumes "io_CopyTee tee_client (tee_blob st) cs None (w, b, sv_blobs s) = (None, w1, b1, v)" and "rd_err (rs_Body resp) = None"
  shows "handler_run st do_req lctx (Suc (length cs)) (H_Copy u resp b cs w) s = (H_Commit u resp b1 w1, s\<lparr>sv_blobs := v\<rparr>)"
  using assms(1)
proof (induction cs arbitrary: w b s)
  case Nil
  then show ?case using assms(2) by auto
next
  case (Cons c cs)
  obtain e w2 b2 v2 where t: "io_CopyTee tee_client (tee_blob st) [c] None (w, b, sv_blobs s) = (e, w2, b2, v2)" by (metis prod_cases4)
  have "e = None" and cp: "io_CopyTee tee_client (tee_blob st) cs None (w2, b2, v2) = (None, w1, b1, v)"
    using Cons.prems io_CopyTee_Cons [of tee_client "tee_blob st" c cs None "(w, b, sv_blobs s)"] t by (auto split: option.splits)
  then have "handler_step st do_req lctx (H_Copy u resp b (c # cs) w) s = (H_Copy u resp b2 cs w2, s\<lparr>sv_blobs := v2\<rparr>)"
    using t by (simp del: io_CopyTee.simps)
  then show ?case using Cons.IH [of w2 b2 "s\<lparr>sv_blobs := v2\<rparr>"] cp by (simp del: io_CopyTee.simps)
qed

text \<open>When nothing fails, the handler gets to the commit, its client has the whole answer, and nothing is recorded.\<close>

lemma ready_to_commit:
  assumes "dir_ready (ds_dir d) (sv_blobs s)" and "ds_writable d"
    and "\<not> mm_Match (DummyOK lctx) (url_Redacted (extractReqFromURL rq))" and "FetchIfMissing lctx"
    and "fst (GetBlob (extractReqFromURL rq) (sv_assets s)) = Ok None" and "\<not> SkipSave (extractReqFromURL rq) (sv_assets s)"
    and "http_NewRequest (rq_Method rq) (url_String (extractReqFromURL rq)) (rq_Body rq) = Ok nr"
    and "do_req (nr\<lparr>rq_Header := hdr_add_all (rq_Header rq) (rq_Header nr)\<rparr>) (sv_net s) = (Ok resp, n)"
    and "StatusCode resp = 200" and "rd_err (rs_Body resp) = None"
  shows "\<exists>j b w v k. handler_run (dir_store d) do_req lctx j (H_Start rq (rw_new [])) s
      = (H_Commit (extractReqFromURL rq) resp b w, s\<lparr>sv_missing := k, sv_net := n, sv_blobs := v\<rparr>) \<and>
    rw_result w = (200, hdr_add_all (rs_Header resp) [], rd_content (rs_Body resp)) \<and>
    caf_wf (ds_dir d) b \<and> caf_pending b v = Some (rd_content (rs_Body resp)) \<and> dir_ready (ds_dir d) v \<and> dir_local (ds_dir d) (sv_blobs s) v"
proof -
  let ?u = "extractReqFromURL rq" and ?run = "handler_run (dir_store d) do_req lctx"
  let ?w0 = "rw_WriteHeader 200 ((rw_new [])\<lparr>rw_header := hdr_add_all (rs_Header resp) []\<rparr>)"
  let ?c0 = "NewContentAddressableFile (ds_resolve d)"
  let ?s1 = "s\<lparr>sv_missing := sv_missing s + 1, sv_net := n\<rparr>"
  obtain f where "GetBlob ?u (sv_assets s) = (Ok None, f)" using assms(5) by (metis prod.collapse)
  then have g: "GetBlob ?u (sv_assets s) = (Ok None, sv_assets s)" using GetBlob_None by blast
  have w0: "rw_faults ?w0 = []" by (simp add: rw_WriteHeader_def rw_new_def)
  have wf: "caf_wf (ds_dir d) ?c0" by (simp add: ds_resolve_eq caf_wf_new)
  obtain w1 b1 v where cp: "io_CopyTee tee_client (tee_blob (dir_store d)) (rd_chunks (rs_Body resp)) None (?w0, ?c0, sv_blobs s)
      = (None, w1, b1, v)" and rd: "dir_ready (ds_dir d) v"
    using ready_tee_copy [OF wf caf_pending_new assms(1) w0] by blast
  then have cr: "copy_response (dir_store d) (rs_Body resp) (Some ?w0) ?c0 (sv_blobs s) = (Ok (), Some w1, b1, v)"
    using assms(10) by (simp add: copy_response_def)
  have i: "dir_inv (ds_dir d) (sv_blobs s)" using assms(1) by (simp add: dir_ready_def)
  have "rw_sent ?w0 = Some (200, hdr_add_all (rs_Header resp) [])" "rw_body ?w0 = []" by (simp_all add: rw_WriteHeader_def)
  then have w1: "rw_result w1 = (200, hdr_add_all (rs_Header resp) [], rd_content (rs_Body resp))"
    using ds.copy_response_Ok [OF cr i wf] by (simp add: rw_result_def)
  have b1: "caf_wf (ds_dir d) b1" "caf_pending b1 v = Some (rd_content (rs_Body resp))"
    using ds.copy_response_keeps [OF cr i wf] ds.copy_response_Ok [OF cr i wf] by simp_all
  have "?run (Suc (Suc (Suc (Suc m)))) (H_Start rq (rw_new [])) s = ?run m (H_Copy ?u resp ?c0 (rd_chunks (rs_Body resp)) ?w0) ?s1" for m
    using assms(2-4,6-9) g by (simp add: forward_headers_def Let_def ds_Put_def SkipSave_def)
  moreover have "?run (Suc (length (rd_chunks (rs_Body resp)))) (H_Copy ?u resp ?c0 (rd_chunks (rs_Body resp)) ?w0) ?s1
      = (H_Commit ?u resp b1 w1, ?s1\<lparr>sv_blobs := v\<rparr>)"
    by (rule copied_run) (use cp assms(10) in simp_all)
  ultimately have "\<exists>j. ?run j (H_Start rq (rw_new [])) s = (H_Commit ?u resp b1 w1, ?s1\<lparr>sv_blobs := v\<rparr>)" by metis
  then show ?thesis using w1 b1 rd dl.copy_response_loc [OF cr wf] by blast
qed

text \<open>From there to the end.\<close>

lemma commit_to_end:
  assumes "caf_wf (ds_dir d) b" and "caf_pending b (sv_blobs s) = Some x" and "dir_ready (ds_dir d) (sv_blobs s)"
    and "Writable (options (sv_assets s))" and "blobs (sv_assets s) \<noteq> None" and "gm_get (blobs (sv_assets s)) (url_Redacted u) = None"
    and "hdr_ok (rs_Header resp)" and "rd_close (rs_Body resp) = None"
  shows "\<exists>s2. handler_run (dir_store d) do_req lctx 3 (H_Commit u resp b w) s = (H_Done (Ok ()) w, s2) \<and>
    dir_local (ds_dir d) (sv_blobs s) (sv_blobs s2)"
proof -
  obtain b1 v where cm: "caf_Commit b (sv_blobs s) = (Ok (sha256 x), b1, v)" using ready_Commit [OF assms(1-3)] by blast
  obtain al where al: "filterHeaders (HeadersToCache lctx) (rs_Header resp) = Ok (Some al)" using filterHeaders_total [OF assms(7)] by blast
  obtain f where ad: "AddBlob u \<lparr>Sha256 = hex_encode (sha256 x), Headers = Some al\<rparr> (sv_assets s) = (Ok (), f)"
    using AddBlob_succeeds [OF assms(4-6)] by blast
  have cl: "caf_Cleanup b1 v = (None, b1\<lparr>caf_mw := False, caf_dg := None\<rparr>, v)"
    using caf_Commit_done [OF cm] by (simp add: caf_Cleanup_def)
  have "handler_run (dir_store d) do_req lctx (Suc (Suc (Suc 0))) (H_Commit u resp b w) s
      = (H_Done (Ok ()) w, s\<lparr>sv_blobs := v, sv_assets := f\<rparr>)"
    using cm al ad cl assms(8) by (simp add: close_body_def)
  then show ?thesis using caf_Commit_local [OF cm assms(1)] by (simp add: numeral_3_eq_3)
qed

lemma Close_blobs: "Close lk f w = (r, f', w') \<Longrightarrow> blobs f' = blobs f \<and> options f' = options f"
  by (auto simp: Close_def save_def split: if_splits option.splits prod.splits)

section \<open>Properties\<close>

text \<open>
  C38. Answered and not recorded. When nothing fails, there is a moment at which the client of a new request has its
  whole answer, with status 200, while the manifest is still as before. If its program ends then and the command
  closes the manifest, without an error, the manifest on the disk has no entry for the URL; the handler may go on and
  succeed, and the manifest on the disk stays as it is.
\<close>

theorem answered_not_recorded:
  assumes "dir_ready (ds_dir d) (sv_blobs s)" and "ds_writable d"
    and "\<not> mm_Match (DummyOK lctx) (url_Redacted (extractReqFromURL rq))" and "FetchIfMissing lctx"
    and "fst (GetBlob (extractReqFromURL rq) (sv_assets s)) = Ok None" and "\<not> SkipSave (extractReqFromURL rq) (sv_assets s)"
    and "http_NewRequest (rq_Method rq) (url_String (extractReqFromURL rq)) (rq_Body rq) = Ok nr"
    and "do_req (nr\<lparr>rq_Header := hdr_add_all (rq_Header rq) (rq_Header nr)\<rparr>) (sv_net s) = (Ok resp, n)"
    and "StatusCode resp = 200" and "hdr_ok (rs_Header resp)" and "rd_err (rs_Body resp) = None" and "rd_close (rs_Body resp) = None"
    and "Writable (options (sv_assets s))" and "blobs (sv_assets s) \<noteq> None" and "p = opt_Path (options (sv_assets s))"
    and "lockPath (sv_assets s) = path_plus p ''.lock''" and "butlast p \<noteq> ds_dir d"
    and "file_wf (sv_assets s)" and "clean_synced (sv_blobs s) (sv_assets s)" and "manifest_plain (blobs (sv_assets s))" and "fslock_frames lk"
  shows "\<exists>b w s1. (threads_step (dir_store d) do_req lctx)\<^sup>*\<^sup>* ([], s) ([(rq, H_Commit (extractReqFromURL rq) resp b w)], s1) \<and>
    rw_result w = (200, hdr_add_all (rs_Header resp) [], rd_content (rs_Body resp)) \<and> sv_assets s1 = sv_assets s \<and>
    dir_ready (ds_dir d) (sv_blobs s1) \<and> dir_local (ds_dir d) (sv_blobs s) (sv_blobs s1) \<and>
    (\<forall>f v. Close lk (sv_assets s1) (sv_blobs s1) = (Ok (), f, v) \<longrightarrow>
       (\<exists>mm. on_disk mm p v \<and> gm_get mm (url_Redacted (extractReqFromURL rq)) = None) \<and>
       (dir_ready (ds_dir d) v \<longrightarrow>
          (\<exists>s2. (threads_step (dir_store d) do_req lctx)\<^sup>*\<^sup>*
              ([(rq, H_Commit (extractReqFromURL rq) resp b w)], s1\<lparr>sv_assets := f, sv_blobs := v\<rparr>) ([(rq, H_Done (Ok ()) w)], s2) \<and>
            fs_get (sv_blobs s2) p = fs_get v p)))"
proof -
  let ?u = "extractReqFromURL rq" and ?step = "threads_step (dir_store d) do_req lctx"
  obtain j b w v k where run: "handler_run (dir_store d) do_req lctx j (H_Start rq (rw_new [])) s
      = (H_Commit ?u resp b w, s\<lparr>sv_missing := k, sv_net := n, sv_blobs := v\<rparr>)" (is "_ = (?t, ?s1)")
    and w: "rw_result w = (200, hdr_add_all (rs_Header resp) [], rd_content (rs_Body resp))"
    and b: "caf_wf (ds_dir d) b" "caf_pending b v = Some (rd_content (rs_Body resp))"
    and v: "dir_ready (ds_dir d) v" "dir_local (ds_dir d) (sv_blobs s) v"
    using ready_to_commit [of d s lctx rq nr do_req resp n, OF assms(1-9,11)] by blast
  have none: "gm_get (blobs (sv_assets s)) (url_Redacted ?u) = None"
    using assms(5,6) GetBlob_None [of ?u "sv_assets s"] by (metis prod.collapse)
  have "?step ([], s) ([(rq, H_Start rq (rw_new []))], s)" using threads_step.arrive [of _ _ _ "[]"] by simp
  then have reach: "?step\<^sup>*\<^sup>* ([], s) ([(rq, ?t)], ?s1)"
    using threads_run_list [OF run, of "[]" rq "[]"] by (simp add: converse_rtranclp_into_rtranclp)
  have after: "(\<exists>mm. on_disk mm p v2 \<and> gm_get mm (url_Redacted ?u) = None) \<and>
      (dir_ready (ds_dir d) v2 \<longrightarrow> (\<exists>s2. ?step\<^sup>*\<^sup>* ([(rq, ?t)], ?s1\<lparr>sv_assets := f, sv_blobs := v2\<rparr>) ([(rq, H_Done (Ok ()) w)], s2) \<and>
         fs_get (sv_blobs s2) p = fs_get v2 p))"
    if c: "Close lk (sv_assets s) v = (Ok (), f, v2)" for f v2
  proof -
    have "fs_get v p = fs_get (sv_blobs s) p" using v(2) assms(17) by (simp add: dir_local_def)
    then have "clean_synced v (sv_assets s)" using assms(15,19) clean_synced_at [of "sv_blobs s" "sv_assets s" v] by simp
    then obtain mm where mm: "on_disk mm p v2" "manifest_same (blobs (sv_assets s)) mm"
      using Close_Ok [OF c assms(13,21) _ assms(18)] assms(15,16,20) by auto
    then have "rel_option blobEquals None (gm_get mm (url_Redacted ?u))" unfolding manifest_same_def by (metis none)
    then have "gm_get mm (url_Redacted ?u) = None" by simp
    moreover have "\<exists>s2. ?step\<^sup>*\<^sup>* ([(rq, ?t)], ?s1\<lparr>sv_assets := f, sv_blobs := v2\<rparr>) ([(rq, H_Done (Ok ()) w)], s2) \<and>
        fs_get (sv_blobs s2) p = fs_get v2 p" if rd: "dir_ready (ds_dir d) v2"
    proof -
      have loc: "man_local p v v2" using Close_local [OF c assms(21)] assms(15,16) by simp
      have "fs_get v2 q = fs_get v q" if "butlast q = ds_dir d" for q
        using loc that assms(17) butlast_path_plus [of p "''.lock''"] unfolding man_local_def by metis
      then have "caf_pending b v2 = caf_pending b v"
        using b(1) by (auto simp: caf_pending_def caf_wf_def split: option.splits)
      then obtain s2 where "handler_run (dir_store d) do_req lctx 3 ?t (?s1\<lparr>sv_assets := f, sv_blobs := v2\<rparr>) = (H_Done (Ok ()) w, s2)"
          and l: "dir_local (ds_dir d) v2 (sv_blobs s2)"
        using commit_to_end [of d b "?s1\<lparr>sv_assets := f, sv_blobs := v2\<rparr>" "rd_content (rs_Body resp)" ?u resp do_req lctx w]
          b rd assms(10,12,13,14) none Close_blobs [OF c] by auto
      from threads_run_list [OF this(1), of "[]" rq "[]"] show ?thesis using l assms(17) by (auto simp: dir_local_def)
    qed
    ultimately show ?thesis using mm(1) by blast
  qed
  show ?thesis
    by (rule exI [of _ b], rule exI [of _ w], rule exI [of _ ?s1]) (use reach w v after in simp)
qed

text \<open>It happens to the sample, with a manifest that closes without an error.\<close>

lemma answered_not_recorded_witness:
  "\<exists>b w s1 f v mm. (threads_step (dir_store sample_store) sample_net plain_lctx)\<^sup>*\<^sup>* ([], plain_small)
      ([(sample_request, H_Commit sample_url sample_response b w)], s1) \<and>
    rw_result w = (200, hdr_add_all (rs_Header sample_response) [], ''hello'') \<and>
    Close plain_fslock (sv_assets s1) (sv_blobs s1) = (Ok (), f, v) \<and>
    on_disk mm [''assets.json''] v \<and> gm_get mm (url_Redacted sample_url) = None"
proof -
  have rd: "dir_ready (ds_dir sample_store) (sv_blobs plain_small)"
    by (simp add: dir_ready_def dir_inv_def locked_os_def sample_dir prefixes_of_def fs_get_def)
  have net: "sample_net (sample_outgoing\<lparr>rq_Header := hdr_add_all (rq_Header sample_request) (rq_Header sample_outgoing)\<rparr>) (sv_net plain_small)
      = (Ok sample_response, 1)" by (simp add: sample_net_def)
  have lp: "lockPath (sv_assets plain_small) = path_plus [''assets.json''] ''.lock''" by code_simp
  have pf: "\<not> mm_Match (DummyOK plain_lctx) (url_Redacted (extractReqFromURL sample_request))" "FetchIfMissing plain_lctx"
      "fst (GetBlob (extractReqFromURL sample_request) (sv_assets plain_small)) = Ok None"
      "\<not> SkipSave (extractReqFromURL sample_request) (sv_assets plain_small)"
      "Writable (options (sv_assets plain_small))" "blobs (sv_assets plain_small) \<noteq> None"
      "[''assets.json''] = opt_Path (options (sv_assets plain_small))"
    using plain_file_facts by (simp_all add: sample_extract) (simp_all add: plain_file_def plain_lctx_def)
  have wf: "file_wf (sv_assets plain_small)" "clean_synced (sv_blobs plain_small) (sv_assets plain_small)"
      "manifest_plain (blobs (sv_assets plain_small))" "butlast [''assets.json''] \<noteq> ds_dir sample_store"
    by (simp_all add: file_wf_def plain_file_def manifest_wf_def gm_wf_def clean_synced_def manifest_plain_def sample_dir)
  have R: "\<exists>b w s1. (threads_step (dir_store sample_store) sample_net plain_lctx)\<^sup>*\<^sup>* ([], plain_small)
      ([(sample_request, H_Commit sample_url sample_response b w)], s1) \<and>
    rw_result w = (200, hdr_add_all (rs_Header sample_response) [], ''hello'') \<and> sv_assets s1 = sv_assets plain_small \<and>
    dir_ready (ds_dir sample_store) (sv_blobs s1) \<and> dir_local (ds_dir sample_store) (sv_blobs plain_small) (sv_blobs s1) \<and>
    (\<forall>f v. Close plain_fslock (sv_assets s1) (sv_blobs s1) = (Ok (), f, v) \<longrightarrow>
       (\<exists>mm. on_disk mm [''assets.json''] v \<and> gm_get mm (url_Redacted sample_url) = None))"
    using answered_not_recorded [where d=sample_store and s=plain_small and lctx=plain_lctx and rq=sample_request and
        nr=sample_outgoing and do_req=sample_net and resp=sample_response and n=1 and p="[''assets.json'']" and lk=plain_fslock,
      OF rd sample_dir(2) pf(1-4) sample_new_request net sample_response_simps(1) sample_hdr_ok
      sample_response_simps(2,3) pf(5-7) lp wf(4,1-3) plain_fslock_frames] unfolding sample_extract sample_response_simps by meson
  then obtain b w s1 where r: "(threads_step (dir_store sample_store) sample_net plain_lctx)\<^sup>*\<^sup>* ([], plain_small)
      ([(sample_request, H_Commit sample_url sample_response b w)], s1)"
    and w: "rw_result w = (200, hdr_add_all (rs_Header sample_response) [], ''hello'')" and f1: "sv_assets s1 = sv_assets plain_small"
    and v1: "dir_ready (ds_dir sample_store) (sv_blobs s1)" and loc: "dir_local (ds_dir sample_store) (sv_blobs plain_small) (sv_blobs s1)"
    and after: "\<forall>f v. Close plain_fslock (sv_assets s1) (sv_blobs s1) = (Ok (), f, v) \<longrightarrow>
       (\<exists>mm. on_disk mm [''assets.json''] v \<and> gm_get mm (url_Redacted sample_url) = None)"
    by blast
  have lk: "fs_get (sv_blobs s1) [''assets.json.lock''] = Some []"
    using dir_local_at [OF loc, of "[''assets.json.lock'']"] by (simp add: sample_dir locked_os_def fs_get_def)
  have nd: "\<not> dir_exists (sv_blobs s1) [''assets.json'']"
    using loc by (auto simp: dir_local_def dir_exists_def locked_os_def sample_dir prefixes_of_def)
  obtain f v where "Close plain_fslock (sv_assets s1) (sv_blobs s1) = (Ok (), f, v)"
    using Close_ready [of "sv_assets s1" "[''assets.json.lock'']" "sv_blobs s1"] v1 lk nd f1
    by (auto simp: plain_file_def dir_ready_def dir_exists_def)
  with r w after show ?thesis by blast
qed

end
