(* ===== verification/App.thy ===== *)
theory App
  imports Backend
begin

text \<open>
  The frame of the program (internal/app): the flags common to all commands, what happens around a command, the
  temporary directory and the subprocess of a session.

  The parser of the command line (go-flags), the levels of the logger (logrus), the gathered metrics (prometheus) and
  the processes that are started are parameters.
\<close>

section \<open>Common flags\<close>

record FlagsCommon =
  DirToChangeTo :: string
  Verbose :: bool
  GithubOutputPath :: string

record 'l logrus =
  ParseLevel :: "string \<Rightarrow> 'l res"
  InfoLevel :: 'l
  DebugLevel :: 'l

text \<open>What the program sets for itself: the level of its log and its working directory.\<close>

record 'l process =
  log_level :: 'l
  proc_cwd :: path

definition os_Chdir :: "path \<Rightarrow> os \<Rightarrow> err option \<times> os" where
  "os_Chdir p w =
     (case pop_fault w of
        (FailAt n e, w1) \<Rightarrow> (Some e, w1)
      | (Pass, w1) \<Rightarrow> (if dir_exists w1 p then (None, w1) else (Some ErrNotExist, w1)))"

text \<open>\<open>lls\<close> is the value of the environment variable LOG_LEVEL.\<close>

definition Apply :: "'l logrus \<Rightarrow> string option \<Rightarrow> FlagsCommon \<Rightarrow> 'l process \<times> os \<Rightarrow> unit res \<times> 'l process \<times> os" where
  "Apply lr lls fc = (\<lambda>(p, w).
     case (case lls of None \<Rightarrow> Ok (InfoLevel lr) | Some s \<Rightarrow> ParseLevel lr s) of
       Err e \<Rightarrow> (Err (wrap ''bad log level'' e), p, w)
     | Panic x \<Rightarrow> (Panic x, p, w)
     | Ok ll \<Rightarrow>
         (let p1 = p\<lparr>log_level := (if Verbose fc then DebugLevel lr else ll)\<rparr> in
          if DirToChangeTo fc \<noteq> ''.'' then
            (let d = path_of (proc_cwd p1) (DirToChangeTo fc) in
             case os_Chdir d w of
               (Some e, w1) \<Rightarrow> (Err e, p1, w1)
             | (None, w1) \<Rightarrow> (Ok (), p1\<lparr>proc_cwd := d\<rparr>, w1))
          else (Ok (), p1, w)))"

text \<open>
  The gathered metrics: a family has a name and a type, which may be missing (the type only matters as being a
  counter), and its metrics a number of labels and the value of the counter.
\<close>

record metric =
  label_count :: nat
  counter_value :: "nat option"

record metric_family =
  fam_Name :: "string option"
  fam_Counter :: "bool option"
  fam_Metric :: "metric list"

definition os_OpenAppend :: "path \<Rightarrow> os \<Rightarrow> file_h res \<times> os" where
  "os_OpenAppend p w =
     (case pop_fault w of
        (FailAt n e, w1) \<Rightarrow> (Err e, w1)
      | (Pass, w1) \<Rightarrow>
          (if dir_exists w1 p then (Err (OsError ''is a directory''), w1)
           else if fs_get w1 p \<noteq> None then (Ok \<lparr>h_name = p, h_closed = False\<rparr>, w1)
           else if dir_exists w1 (butlast p) then (Ok \<lparr>h_name = p, h_closed = False\<rparr>, fs_put p [] w1)
           else (Err ErrNotExist, w1)))"

definition metric_lines :: "metric_family \<Rightarrow> string list" where
  "metric_lines m =
     (case fam_Name m of
        None \<Rightarrow> []
      | Some name \<Rightarrow>
          (if has_prefix name ''htvend_'' \<and> fam_Counter m = Some True
           then concat (map (\<lambda>mm. if label_count mm = 0
             then (case counter_value mm of None \<Rightarrow> [] | Some v \<Rightarrow> [name @ ''='' @ nat_string v @ [CHR 0x0A]]) else []) (fam_Metric m))
           else []))"

fun write_lines :: "file_h \<Rightarrow> string list \<Rightarrow> os \<Rightarrow> unit res \<times> os" where
  "write_lines h [] w = (Ok (), w)"
| "write_lines h (l # ls) w =
     (case os_Write h l w of
        ((n, Some e), w1) \<Rightarrow> (Err (wrap ''error writing simple metric out'' e), w1)
      | ((n, None), w1) \<Rightarrow> write_lines h ls w1)"

definition OnShutdown :: "path \<Rightarrow> metric_family list res \<Rightarrow> FlagsCommon \<Rightarrow> os \<Rightarrow> unit res \<times> os" where
  "OnShutdown cwd gathered fc w =
     (if GithubOutputPath fc = [] then (Ok (), w)
      else
        (case os_OpenAppend (path_of cwd (GithubOutputPath fc)) w of
           (Err e, w1) \<Rightarrow> (Err (wrap ''error opening file to write simple metrics to'' e), w1)
         | (Panic p, w1) \<Rightarrow> (Panic p, w1)
         | (Ok fp, w1) \<Rightarrow>
             (case (case gathered of
                 Err e \<Rightarrow> (Err (wrap ''error gathering metrics'' e), w1)
               | Panic p \<Rightarrow> (Panic p, w1)
               | Ok metrics \<Rightarrow> write_lines fp (concat (map metric_lines metrics)) w1) of
                (ret, w2) \<Rightarrow> (case os_Close fp w2 of (e, fp1, w3) \<Rightarrow> (defer_err ret e, w3)))))"

section \<open>Running a command\<close>

text \<open>A deferred function literal that returns an error itself, which is kept when there is no other.\<close>

fun defer_res :: "'a res \<Rightarrow> unit res \<Rightarrow> 'a res" where
  "defer_res r (Panic p) = Panic p"
| "defer_res r (Err e) = defer_err r (Some e)"
| "defer_res r (Ok _) = r"

definition command_handler :: "('s \<Rightarrow> unit res \<times> 's) \<Rightarrow> ('s \<Rightarrow> unit res \<times> 's) \<Rightarrow> ('s \<Rightarrow> unit res \<times> 's) option \<Rightarrow> 's \<Rightarrow> unit res \<times> 's" where
  "command_handler globalInit globalShutdown command s =
     (case globalInit s of
        (Ok _, s1) \<Rightarrow>
          (case (case command of None \<Rightarrow> (Ok (), s1) | Some c \<Rightarrow> c s1) of
             (ret, s2) \<Rightarrow> (case globalShutdown s2 of (d, s3) \<Rightarrow> (defer_res ret d, s3)))
      | r \<Rightarrow> r)"

text \<open>What the parser makes of the command line: the help text, an error, or a call of the handler.\<close>

datatype 'c parsed = WroteHelp | BadFlags err | Command 'c

text \<open>The status with which the program ends: \<open>logrus.Fatalf\<close> is 1, a panic 2.\<close>

definition RunWithFlags :: "('s \<Rightarrow> unit res \<times> 's) \<Rightarrow> ('s \<Rightarrow> unit res \<times> 's) \<Rightarrow> ('s \<Rightarrow> unit res \<times> 's) option parsed \<Rightarrow> 's \<Rightarrow> nat \<times> 's" where
  "RunWithFlags globalInit globalShutdown pr s =
     (case pr of
        WroteHelp \<Rightarrow> (0, s)
      | BadFlags e \<Rightarrow> (1, s)
      | Command c \<Rightarrow>
          (case command_handler globalInit globalShutdown c s of
             (Ok _, s1) \<Rightarrow> (0, s1)
           | (Err e, s1) \<Rightarrow> (1, s1)
           | (Panic p, s1) \<Rightarrow> (2, s1)))"

section \<open>The subprocess\<close>

record SubprocessOptions =
  Process :: string
  Args :: "string list"

text \<open>
  The process to start, its arguments and the variables to add to the environment; \<open>shell\<close> is the value of the
  environment variable SHELL, empty when it is not set.
\<close>

definition subprocess_cmd :: "string \<Rightarrow> string \<Rightarrow> SubprocessOptions \<Rightarrow> string list \<Rightarrow> (string \<times> string list \<times> string list) res" where
  "subprocess_cmd shell prompt opts extraEnv =
     (if Process opts = [] then
        (if shell = [] then Err (Errorf ''no args specified, and unable to find SHELL envariable to default to'' [])
         else if has_suffix shell ''bash''
         then Ok (shell, [''--norc''], extraEnv @ [''PS1=('' @ prompt @ '') '' @ [CHR 0x5C] @ ''$ ''])
         else Ok (shell, [], extraEnv))
      else Ok (Process opts, Args opts, extraEnv))"

definition RunSubprocess :: "(string \<Rightarrow> string list \<Rightarrow> string list \<Rightarrow> 's \<Rightarrow> err option \<times> 's) \<Rightarrow> string list \<Rightarrow> string \<Rightarrow> string \<Rightarrow>
    SubprocessOptions \<Rightarrow> string list \<Rightarrow> 's \<Rightarrow> unit res \<times> 's" where
  "RunSubprocess cmd_Run environ shell prompt opts extraEnv s =
     (case subprocess_cmd shell prompt opts extraEnv of
        Ok (p, args, extra) \<Rightarrow> (case cmd_Run p args (environ @ extra) s of (e, s1) \<Rightarrow> (of_err e, s1))
      | Err e \<Rightarrow> (Err e, s)
      | Panic x \<Rightarrow> (Panic x, s))"

text \<open>The variables that a process sees: the last definition of a name counts.\<close>

fun env_lookup :: "string list \<Rightarrow> string \<Rightarrow> string option" where
  "env_lookup [] k = None"
| "env_lookup (v # vs) k =
     (case env_lookup vs k of
        Some x \<Rightarrow> Some x
      | None \<Rightarrow> (case str_cut CHR ''='' v of (n, Some x) \<Rightarrow> if n = k then Some x else None | _ \<Rightarrow> None))"

section \<open>The temporary directory\<close>

text \<open>\<open>os.MkdirTemp("", "htvend")\<close>: a new directory in the directory for temporary files, under the first free name.\<close>

definition tmp_dir_name :: "nat \<Rightarrow> string" where
  "tmp_dir_name n = ''htvend'' @ replicate n (CHR ''0'')"

definition fresh_dir :: "os \<Rightarrow> path \<Rightarrow> path" where
  "fresh_dir w d =
     (case find (\<lambda>n. d @ [tmp_dir_name n] \<notin> set (used_names w)) [0..<Suc (length (used_names w))] of
        Some n \<Rightarrow> d @ [tmp_dir_name n]
      | None \<Rightarrow> d @ [tmp_dir_name 0])"

definition os_MkdirTemp :: "path \<Rightarrow> os \<Rightarrow> path res \<times> os" where
  "os_MkdirTemp d w =
     (case pop_fault w of
        (FailAt n e, w1) \<Rightarrow> (Err e, w1)
      | (Pass, w1) \<Rightarrow>
          (if dir_exists w1 d then (Ok (fresh_dir w1 d), w1\<lparr>dirs := dirs w1 @ [fresh_dir w1 d]\<rparr>)
           else (Err ErrNotExist, w1)))"

text \<open>
  \<open>deleteDir\<close>: the walk gives the function a nil entry when the root itself cannot be looked at, of which \<open>IsDir\<close>
  panics. The permissions that the walk repairs are not part of the model.
\<close>

definition deleteDir :: "path \<Rightarrow> os \<Rightarrow> unit res \<times> os" where
  "deleteDir d w =
     (case os_Stat d w of
        (Some e, w1) \<Rightarrow> (Panic ''invalid memory address or nil pointer dereference'', w1)
      | (None, w1) \<Rightarrow> (case os_RemoveAll d w1 of (e, w2) \<Rightarrow> (of_err e, w2)))"

definition WithTempDir :: "path \<Rightarrow> (path \<Rightarrow> os \<times> 'v \<Rightarrow> unit res \<times> os \<times> 'v) \<Rightarrow> os \<times> 'v \<Rightarrow> unit res \<times> os \<times> 'v" where
  "WithTempDir tmp f = (\<lambda>(w, v).
     case os_MkdirTemp tmp w of
       (Err e, w1) \<Rightarrow> (Err (wrap ''error creating temp dir'' e), w1, v)
     | (Panic p, w1) \<Rightarrow> (Panic p, w1, v)
     | (Ok td, w1) \<Rightarrow>
         (case f td (w1, v) of
            (ret, w2, v2) \<Rightarrow> (case deleteDir td w2 of (d, w3) \<Rightarrow> (defer_res ret d, w3, v2))))"

section \<open>Facts\<close>

lemma fresh_dir_unused: "fresh_dir w d \<notin> set (used_names w)"
proof -
  have "inj tmp_dir_name" by (simp add: inj_on_def tmp_dir_name_def replicate_eq_replicate)
  from fresh_name_found [OF this, of d "used_names w"] show ?thesis by (auto simp: fresh_dir_def)
qed

lemma fresh_dir_nonempty: "fresh_dir w d \<noteq> []"
  by (simp add: fresh_dir_def split: option.splits)

lemma MkdirTemp_Ok:
  assumes "os_MkdirTemp tmp w = (Ok td, w1)"
  shows "td \<noteq> [] \<and> td \<notin> set (used_names w) \<and> dir_exists w1 td \<and> fs_get w1 = fs_get w \<and> butlast td = tmp"
proof -
  obtain f w0 where p: "pop_fault w = (f, w0)" by fastforce
  have n: "used_names w0 = used_names w" and g: "fs_get w0 = fs_get w" using pop_fault_same [OF p] by (simp_all add: used_names_def)
  have "f = Pass" and "td = fresh_dir w0 tmp" and "w1 = w0\<lparr>dirs := dirs w0 @ [td]\<rparr>"
    using assms p by (auto simp: os_MkdirTemp_def split: fault.splits if_splits)
  then show ?thesis using fresh_dir_unused [of w0 tmp] fresh_dir_nonempty [of w0 tmp] n g
    by (auto simp: dir_exists_def fs_simps fresh_dir_def split: option.splits)
qed

lemma deleteDir_Ok:
  assumes "deleteDir d w = (Ok u, w')"
  shows "\<forall>p \<in> set (used_names w'). \<not> below d p"
  using assms
  by (auto simp: deleteDir_def os_RemoveAll_def used_names_def res_simps split: prod.splits option.splits fault.splits)

lemma deleteDir_gone:
  assumes "\<not> dir_exists w d" and "fs_get w d = None"
  shows "is_Panic (fst (deleteDir d w))"
proof -
  obtain f w0 where p: "pop_fault w = (f, w0)" by fastforce
  then show ?thesis using assms pop_fault_same [OF p] by (auto simp: deleteDir_def os_Stat_def split: fault.splits)
qed

lemma defer_res_Ok: "defer_res r d = Ok x \<longleftrightarrow> r = Ok x \<and> is_Ok d"
  by (cases d; cases r) auto

end
