(* ===== verification/ServerKeys.thy ===== *)
theory ServerKeys
  imports Backend
begin

text \<open>
  The keys of the proxy server (\<open>readKeyCert\<close>, \<open>generateKeyCert\<close>, \<open>newSelfSignedServer\<close> and \<open>makeCertFor\<close> in
  internal/proxyserver/http_proxy.go): a certification authority, read from two files or made for the run, and
  saved to the files when these are missing; with it a certificate for every name that a client asks for.

  The cryptography, the random source and the clock are a record of parameters, whose state is \<open>'r\<close>. PEM encoding
  is modelled.
\<close>

section \<open>PEM\<close>

definition base64_char :: "nat \<Rightarrow> char" where
  "base64_char n =
     (if n < 26 then char_of (65 + n) else if n < 52 then char_of (71 + n) else if n < 62 then char_of (n - 4)
      else if n = 62 then CHR ''+'' else CHR ''/'')"

fun base64 :: "bytes \<Rightarrow> string" where
  "base64 [] = []"
| "base64 [a] = [base64_char (of_char a div 4), base64_char (of_char a mod 4 * 16), CHR ''='', CHR ''='']"
| "base64 [a, b] = [base64_char (of_char a div 4), base64_char (of_char a mod 4 * 16 + of_char b div 16),
     base64_char (of_char b mod 16 * 4), CHR ''='']"
| "base64 (a # b # c # s) = base64_char (of_char a div 4) # base64_char (of_char a mod 4 * 16 + of_char b div 16) #
     base64_char (of_char b mod 16 * 4 + of_char c div 64) # base64_char (of_char c mod 64) # base64 s"

function pem_lines :: "string \<Rightarrow> string" where
  "pem_lines s = (if s = [] then [] else take 64 s @ CHR 0x0A # pem_lines (drop 64 s))"
  by pat_completeness auto
termination
  by (relation "measure length") auto

declare pem_lines.simps [simp del]

text \<open>\<open>pem.Encode\<close> of a block without headers; writing to a buffer does not fail.\<close>

definition pem_Encode :: "string \<Rightarrow> bytes \<Rightarrow> bytes" where
  "pem_Encode ty b =
     ''-----BEGIN '' @ ty @ ''-----'' @ CHR 0x0A # pem_lines (base64 b) @ ''-----END '' @ ty @ ''-----'' @ [CHR 0x0A]"

section \<open>Certificates\<close>

datatype key_usage = CertSign | DigitalSignature | KeyEncipherment

record certificate =
  SerialNumber :: int
  CommonName :: string
  NotBefore :: int
  NotAfter :: int
  IsCA :: bool
  KeyUsage :: "key_usage list"
  ServerAuth :: bool
  IPAddresses :: "bytes list"
  DNSNames :: "string list"
  BasicConstraintsValid :: bool

text \<open>
  \<open>CreateCertificate\<close> takes the template, the parent (\<open>None\<close>: the template itself), the public and the signing key.
\<close>

record ('k, 'p, 'c, 'r) crypto =
  X509KeyPair :: "bytes \<Rightarrow> bytes \<Rightarrow> ('k \<times> 'c option) res"
  GenerateKey :: "'r \<Rightarrow> 'k res \<times> 'r"
  rsa_PublicKey :: "'k \<Rightarrow> 'p"
  CreateCertificate :: "certificate \<Rightarrow> 'c option \<Rightarrow> 'p \<Rightarrow> 'k \<Rightarrow> 'r \<Rightarrow> bytes res \<times> 'r"
  ParseCertificate :: "bytes \<Rightarrow> 'c res"
  cert_Raw :: "'c \<Rightarrow> bytes"
  Signer_Public :: "'k \<Rightarrow> 'p option"
  MarshalPKCS8 :: "'k \<Rightarrow> bytes res"
  crypto_Now :: "'r \<Rightarrow> int \<times> 'r"
  AddYears :: "int \<Rightarrow> nat \<Rightarrow> int"
  ParseIP :: "string \<Rightarrow> bytes option"

section \<open>Reading and generating\<close>

text \<open>Files by the names of the configuration; the empty name is no file.\<close>

definition name_ReadFile :: "path \<Rightarrow> string \<Rightarrow> os \<Rightarrow> bytes res \<times> os" where
  "name_ReadFile cwd s w = (if s = [] then (Err ErrNotExist, w) else os_ReadFile (path_of cwd s) w)"

definition name_WriteFile :: "path \<Rightarrow> string \<Rightarrow> bytes \<Rightarrow> os \<Rightarrow> err option \<times> os" where
  "name_WriteFile cwd s b w = (if s = [] then (Some ErrNotExist, w) else os_WriteFile (path_of cwd s) b w)"

definition name_MkdirAll :: "path \<Rightarrow> string \<Rightarrow> os \<Rightarrow> err option \<times> os" where
  "name_MkdirAll cwd s w = os_MkdirAll (if s = [] then cwd else butlast (path_of cwd s)) w"

text \<open>\<open>tls.LoadX509KeyPair\<close> reads the certificate first.\<close>

definition LoadX509KeyPair :: "('k, 'p, 'c, 'r) crypto \<Rightarrow> path \<Rightarrow> string \<Rightarrow> string \<Rightarrow> os \<Rightarrow> ('k \<times> 'c option) res \<times> os" where
  "LoadX509KeyPair cr cwd certPath keyPath w =
     (case name_ReadFile cwd certPath w of
        (Ok cb, w1) \<Rightarrow>
          (case name_ReadFile cwd keyPath w1 of
             (Ok kb, w2) \<Rightarrow> (X509KeyPair cr cb kb, w2)
           | (Err e, w2) \<Rightarrow> (Err e, w2)
           | (Panic p, w2) \<Rightarrow> (Panic p, w2))
      | (Err e, w1) \<Rightarrow> (Err e, w1)
      | (Panic p, w1) \<Rightarrow> (Panic p, w1))"

definition readKeyCert :: "('k, 'p, 'c, 'r) crypto \<Rightarrow> path \<Rightarrow> string \<Rightarrow> string \<Rightarrow> os \<Rightarrow> ('k \<times> 'c) res \<times> os" where
  "readKeyCert cr cwd keyPath certPath w =
     (case LoadX509KeyPair cr cwd certPath keyPath w of
        (Err e, w1) \<Rightarrow> (Err (wrap ''error loading cert or key file'' e), w1)
      | (Panic p, w1) \<Rightarrow> (Panic p, w1)
      | (Ok (k, None), w1) \<Rightarrow>
          (Err (Errorf ''leaf cert is nil after a successful parse - are you using old Go version?'' []), w1)
      | (Ok (k, Some leaf), w1) \<Rightarrow> (Ok (k, leaf), w1))"

definition generateKeyCert :: "('k, 'p, 'c, 'r) crypto \<Rightarrow> 'r \<Rightarrow> ('k \<times> 'c) res \<times> 'r" where
  "generateKeyCert cr r =
     (let (t1, r1) = crypto_Now cr r; (t2, r2) = crypto_Now cr r1;
          caTemplate = \<lparr>SerialNumber = 1, CommonName = ''htvend'', NotBefore = t1, NotAfter = AddYears cr t2 10, IsCA = True,
            KeyUsage = [CertSign], ServerAuth = False, IPAddresses = [], DNSNames = [], BasicConstraintsValid = True\<rparr>
      in
      (case GenerateKey cr r2 of
         (Err e, r3) \<Rightarrow> (Err (wrap ''err generating priv key'' e), r3)
       | (Panic p, r3) \<Rightarrow> (Panic p, r3)
       | (Ok k, r3) \<Rightarrow>
           (case CreateCertificate cr caTemplate None (rsa_PublicKey cr k) k r3 of
              (Err e, r4) \<Rightarrow> (Err (wrap ''err signing cert'' e), r4)
            | (Panic p, r4) \<Rightarrow> (Panic p, r4)
            | (Ok b, r4) \<Rightarrow>
                (case ParseCertificate cr b of
                   Err e \<Rightarrow> (Err (wrap ''err parsing cert'' e), r4)
                 | Panic p \<Rightarrow> (Panic p, r4)
                 | Ok ca \<Rightarrow> (Ok (k, ca), r4)))))"

section \<open>The server\<close>

record ProxyServerConfig =
  HttpListenAddr :: string
  HttpsListenAddr :: string
  TlsCertPath :: string
  TlsKeyPath :: string
  TlsGenerateIfMissing :: bool

record ('k, 'p, 'c) httpServer =
  listenAddr :: string
  caPrivKey :: 'k
  caPubKey :: 'p
  caCert :: 'c
  caPEM :: bytes
  tlsAddr :: string

text \<open>The key and the certificate to use, and whether they must be saved.\<close>

definition obtain_keys :: "('k, 'p, 'c, 'r) crypto \<Rightarrow> path \<Rightarrow> ProxyServerConfig \<Rightarrow> os \<times> 'r \<Rightarrow> ('k \<times> 'c \<times> bool) res \<times> os \<times> 'r" where
  "obtain_keys cr cwd cfg = (\<lambda>(w, r).
     if TlsCertPath cfg = [] \<and> TlsKeyPath cfg = [] then
       (case generateKeyCert cr r of
          (Err e, r1) \<Rightarrow> (Err (wrap ''error generating key pair'' e), w, r1)
        | (Panic p, r1) \<Rightarrow> (Panic p, w, r1)
        | (Ok (k, c), r1) \<Rightarrow> (Ok (k, c, False), w, r1))
     else
       (case readKeyCert cr cwd (TlsKeyPath cfg) (TlsCertPath cfg) w of
          (Ok (k, c), w1) \<Rightarrow> (Ok (k, c, False), w1, r)
        | (Panic p, w1) \<Rightarrow> (Panic p, w1, r)
        | (Err e, w1) \<Rightarrow>
            (if err_is e ErrNotExist \<and> TlsGenerateIfMissing cfg then
               (case generateKeyCert cr r of
                  (Err e, r1) \<Rightarrow> (Err (wrap ''error generating key pair'' e), w1, r1)
                | (Panic p, r1) \<Rightarrow> (Panic p, w1, r1)
                | (Ok (k, c), r1) \<Rightarrow> (Ok (k, c, True), w1, r1))
             else (Err (wrap ''error reading key pair'' e), w1, r))))"

definition save_keys :: "('k, 'p, 'c, 'r) crypto \<Rightarrow> path \<Rightarrow> ProxyServerConfig \<Rightarrow> 'k \<Rightarrow> bytes \<Rightarrow> os \<Rightarrow> unit res \<times> os" where
  "save_keys cr cwd cfg k pem w =
     (case MarshalPKCS8 cr k of
        Err e \<Rightarrow> (Err (wrap ''error marshalling private key'' e), w)
      | Panic p \<Rightarrow> (Panic p, w)
      | Ok pkb \<Rightarrow>
          (case name_MkdirAll cwd (TlsKeyPath cfg) w of
             (Some e, w1) \<Rightarrow> (Err (wrap ''error creating dir for key'' e), w1)
           | (None, w1) \<Rightarrow>
               (case name_WriteFile cwd (TlsKeyPath cfg) (pem_Encode ''PRIVATE KEY'' pkb) w1 of
                  (Some e, w2) \<Rightarrow> (Err (wrap ''error writing CA key file'' e), w2)
                | (None, w2) \<Rightarrow>
                    (case name_MkdirAll cwd (TlsCertPath cfg) w2 of
                       (Some e, w3) \<Rightarrow> (Err (wrap ''error creating dir for cert'' e), w3)
                     | (None, w3) \<Rightarrow>
                         (case name_WriteFile cwd (TlsCertPath cfg) pem w3 of
                            (e, w4) \<Rightarrow> (of_err (wrap_opt ''error writing CA cert file'' e), w4))))))"

definition newSelfSignedServer :: "('k, 'p, 'c, 'r) crypto \<Rightarrow> path \<Rightarrow> ProxyServerConfig \<Rightarrow> os \<times> 'r \<Rightarrow>
    ('k, 'p, 'c) httpServer res \<times> os \<times> 'r" where
  "newSelfSignedServer cr cwd cfg s =
     (case obtain_keys cr cwd cfg s of
        (Err e, s1) \<Rightarrow> (Err e, s1)
      | (Panic p, s1) \<Rightarrow> (Panic p, s1)
      | (Ok (k, c, mustSaveOut), w1, r1) \<Rightarrow>
          (let pem = pem_Encode ''CERTIFICATE'' (cert_Raw cr c) in
           case Signer_Public cr k of
             None \<Rightarrow> (Err (Errorf ''private key does not implement Signer!'' []), w1, r1)
           | Some pub \<Rightarrow>
               (let rv = \<lparr>listenAddr = HttpListenAddr cfg, caPrivKey = k, caPubKey = pub, caCert = c, caPEM = pem, tlsAddr = []\<rparr> in
                if mustSaveOut then
                  (case save_keys cr cwd cfg k pem w1 of
                     (Err e, w2) \<Rightarrow> (Err e, w2, r1)
                   | (Panic p, w2) \<Rightarrow> (Panic p, w2, r1)
                   | (Ok _, w2) \<Rightarrow> (Ok rv, w2, r1))
                else (Ok rv, w1, r1))))"

text \<open>The certificate that the TLS server presents for a name: the leaf, its signed form and the key.\<close>

definition makeCertFor :: "('k, 'p, 'c, 'r) crypto \<Rightarrow> ('k, 'p, 'c) httpServer \<Rightarrow> string \<Rightarrow> 'r \<Rightarrow> (bytes \<times> 'k \<times> certificate) res \<times> 'r" where
  "makeCertFor cr s ServerName r =
     (let (t1, r1) = crypto_Now cr r; (t2, r2) = crypto_Now cr r1;
          leaf = \<lparr>SerialNumber = 2, CommonName = ServerName, NotBefore = t1, NotAfter = AddYears cr t2 1, IsCA = False,
            KeyUsage = [DigitalSignature, KeyEncipherment], ServerAuth = True,
            IPAddresses = (case ParseIP cr ServerName of Some ip \<Rightarrow> [ip] | None \<Rightarrow> []),
            DNSNames = (case ParseIP cr ServerName of Some ip \<Rightarrow> [] | None \<Rightarrow> [ServerName]),
            BasicConstraintsValid = True\<rparr>
      in
      (case CreateCertificate cr leaf (Some (caCert s)) (caPubKey s) (caPrivKey s) r2 of
         (Err e, r3) \<Rightarrow> (Err (wrap ''err signing cert'' e), r3)
       | (Panic p, r3) \<Rightarrow> (Panic p, r3)
       | (Ok b, r3) \<Rightarrow> (Ok (b, caPrivKey s, leaf), r3)))"

section \<open>The files of the keys\<close>

lemma name_ReadFile_Ok:
  "name_ReadFile cwd s w = (Ok b, w') \<Longrightarrow> s \<noteq> [] \<and> fs_get w (path_of cwd s) = Some b \<and> fs_get w' = fs_get w"
  by (auto simp: name_ReadFile_def os_ReadFile_def split: if_splits prod.splits fault.splits option.splits
      dest: pop_fault_same)

lemma name_ReadFile_keeps: "name_ReadFile cwd s w = (x, w') \<Longrightarrow> fs_get w' = fs_get w"
  by (auto simp: name_ReadFile_def os_ReadFile_def split: if_splits prod.splits fault.splits option.splits
      dest: pop_fault_same)

lemma name_ReadFile_ready:
  "faults w = [] \<Longrightarrow> s \<noteq> [] \<Longrightarrow> fs_get w (path_of cwd s) = Some b \<Longrightarrow> name_ReadFile cwd s w = (Ok b, w)"
  by (simp add: name_ReadFile_def os_ReadFile_def)

lemma name_MkdirAll_keeps: "name_MkdirAll cwd s w = (e, w') \<Longrightarrow> fs_get w' = fs_get w"
  by (auto simp: name_MkdirAll_def os_MkdirAll_def fs_simps split: if_splits prod.splits fault.splits dest: pop_fault_same)

lemma name_WriteFile_None:
  "name_WriteFile cwd s b w = (None, w') \<Longrightarrow> s \<noteq> [] \<and> fs_get w' = (fs_get w)(path_of cwd s \<mapsto> b)"
  by (auto simp: name_WriteFile_def os_WriteFile_def fs_simps split: if_splits prod.splits fault.splits nat.splits
      dest: pop_fault_same)

lemma save_keys_Ok:
  assumes "save_keys cr cwd cfg k pem w = (Ok u, w')" and "path_of cwd (TlsKeyPath cfg) \<noteq> path_of cwd (TlsCertPath cfg)"
  shows "\<exists>pkb. MarshalPKCS8 cr k = Ok pkb \<and> fs_get w' (path_of cwd (TlsKeyPath cfg)) = Some (pem_Encode ''PRIVATE KEY'' pkb) \<and>
    fs_get w' (path_of cwd (TlsCertPath cfg)) = Some pem \<and> TlsKeyPath cfg \<noteq> [] \<and> TlsCertPath cfg \<noteq> []"
  using assms
  by (auto simp: save_keys_def res_simps split: prod.splits res.splits option.splits
      dest!: name_MkdirAll_keeps name_WriteFile_None)

lemma LoadX509KeyPair_Ok:
  "LoadX509KeyPair cr cwd cp kp w = (Ok x, w') \<longleftrightarrow>
     (\<exists>cb kb w1. name_ReadFile cwd cp w = (Ok cb, w1) \<and> name_ReadFile cwd kp w1 = (Ok kb, w') \<and> X509KeyPair cr cb kb = Ok x)"
  by (auto simp: LoadX509KeyPair_def split: prod.splits res.splits)

lemma readKeyCert_Ok:
  "readKeyCert cr cwd kp cp w = (Ok (k, c), w') \<longleftrightarrow> LoadX509KeyPair cr cwd cp kp w = (Ok (k, Some c), w')"
  by (auto simp: readKeyCert_def split: prod.splits res.splits option.splits)

lemma readKeyCert_ready:
  assumes "faults w = []" and "kp \<noteq> []" and "cp \<noteq> []" and "fs_get w (path_of cwd cp) = Some cb"
    and "fs_get w (path_of cwd kp) = Some kb" and "X509KeyPair cr cb kb = Ok (k, Some c)"
  shows "readKeyCert cr cwd kp cp w = (Ok (k, c), w)"
  unfolding readKeyCert_Ok LoadX509KeyPair_Ok using assms name_ReadFile_ready by blast

lemma obtain_keys_cases:
  assumes "obtain_keys cr cwd cfg (w, r) = (Ok (k, c, m), w', r')"
    and "TlsCertPath cfg \<noteq> [] \<or> TlsKeyPath cfg \<noteq> []"
  shows "(\<not> m \<and> readKeyCert cr cwd (TlsKeyPath cfg) (TlsCertPath cfg) w = (Ok (k, c), w')) \<or>
    (m \<and> generateKeyCert cr r = (Ok (k, c), r') \<and> (\<exists>e. readKeyCert cr cwd (TlsKeyPath cfg) (TlsCertPath cfg) w = (Err e, w')))"
  using assms by (auto simp: obtain_keys_def split: if_splits prod.splits res.splits)

text \<open>
  What the model relies on: a key pair in PEM form as the program writes it is parsed to the key and the certificate
  that it was made from (crypto/tls, \<open>X509KeyPair\<close>).
\<close>

definition key_pairs_parse :: "('k, 'p, 'c, 'r) crypto \<Rightarrow> bool" where
  "key_pairs_parse cr \<longleftrightarrow>
     (\<forall>r k c r' pkb. generateKeyCert cr r = (Ok (k, c), r') \<and> MarshalPKCS8 cr k = Ok pkb \<longrightarrow>
        X509KeyPair cr (pem_Encode ''CERTIFICATE'' (cert_Raw cr c)) (pem_Encode ''PRIVATE KEY'' pkb) = Ok (k, Some c))"

text \<open>
  C29. The authority persists. When a server was made with names for its two files, whether their content was read
  or they were missing and generated, a later server made from the files as they are then has the same key, the same
  certificate and the same PEM text, and neither generates nor writes anything.
\<close>

theorem ca_persists:
  assumes "key_pairs_parse cr" and "path_of cwd (TlsKeyPath cfg) \<noteq> path_of cwd (TlsCertPath cfg)"
    and "TlsKeyPath cfg \<noteq> []" and "TlsCertPath cfg \<noteq> []"
    and "newSelfSignedServer cr cwd cfg (w, r) = (Ok s, w1, r1)" and "faults w2 = []"
    and "fs_get w2 (path_of cwd (TlsKeyPath cfg)) = fs_get w1 (path_of cwd (TlsKeyPath cfg))"
    and "fs_get w2 (path_of cwd (TlsCertPath cfg)) = fs_get w1 (path_of cwd (TlsCertPath cfg))"
  shows "newSelfSignedServer cr cwd cfg (w2, r2) = (Ok s, w2, r2)"
proof -
  let ?kp = "path_of cwd (TlsKeyPath cfg)" and ?cp = "path_of cwd (TlsCertPath cfg)"
  from assms(5) obtain k c m v r0 where ob: "obtain_keys cr cwd cfg (w, r) = (Ok (k, c, m), v, r0)"
    by (auto simp: newSelfSignedServer_def split: prod.splits res.splits)
  let ?pem = "pem_Encode ''CERTIFICATE'' (cert_Raw cr c)"
  from assms(5) ob obtain pub where pub: "Signer_Public cr k = Some pub"
    and s: "s = \<lparr>listenAddr = HttpListenAddr cfg, caPrivKey = k, caPubKey = pub, caCert = c, caPEM = ?pem, tlsAddr = []\<rparr>"
    and sv: "if m then \<exists>u. save_keys cr cwd cfg k ?pem v = (Ok u, w1) else w1 = v"
    by (auto simp: newSelfSignedServer_def Let_def split: prod.splits res.splits option.splits if_splits)
  have files: "\<exists>cb kb. fs_get w1 ?cp = Some cb \<and> fs_get w1 ?kp = Some kb \<and> X509KeyPair cr cb kb = Ok (k, Some c)"
  proof (cases m)
    case True
    then have "generateKeyCert cr r = (Ok (k, c), r0)" using obtain_keys_cases [OF ob] assms(4) by blast
    moreover obtain u where "save_keys cr cwd cfg k ?pem v = (Ok u, w1)" using sv True by auto
    ultimately show ?thesis using save_keys_Ok [of cr cwd cfg k ?pem v u w1] assms(1,2) unfolding key_pairs_parse_def by blast
  next
    case False
    then have "readKeyCert cr cwd (TlsKeyPath cfg) (TlsCertPath cfg) w = (Ok (k, c), v)" and "w1 = v"
      using obtain_keys_cases [OF ob] assms(4) sv by auto
    then show ?thesis unfolding readKeyCert_Ok LoadX509KeyPair_Ok by (auto dest!: name_ReadFile_Ok)
  qed
  from files have "readKeyCert cr cwd (TlsKeyPath cfg) (TlsCertPath cfg) w2 = (Ok (k, c), w2)"
    using readKeyCert_ready [OF assms(6,3,4)] assms(7,8) by auto
  then have "obtain_keys cr cwd cfg (w2, r2) = (Ok (k, c, False), w2, r2)" using assms(4) by (simp add: obtain_keys_def)
  then show ?thesis by (simp add: newSelfSignedServer_def pub s Let_def)
qed

definition sample_crypto :: "(nat, nat, string, nat) crypto" where
  "sample_crypto = \<lparr>
     X509KeyPair = (\<lambda>cb kb. if cb = pem_Encode ''CERTIFICATE'' ''cert'' \<and> kb = pem_Encode ''PRIVATE KEY'' ''key'' then Ok (0, Some ''cert'')
       else Err (Errorf ''no key pair'' [])),
     GenerateKey = (\<lambda>r. (Ok 0, r + 1)), rsa_PublicKey = (\<lambda>k. k), CreateCertificate = (\<lambda>t p pub k r. (Ok ''cert'', r)),
     ParseCertificate = Ok, cert_Raw = (\<lambda>c. c), Signer_Public = Some, MarshalPKCS8 = (\<lambda>k. Ok ''key''),
     crypto_Now = (\<lambda>r. (0, r)), AddYears = (\<lambda>t y. t + int y), ParseIP = (\<lambda>s. None)\<rparr>"

definition sample_config :: ProxyServerConfig where
  "sample_config = \<lparr>HttpListenAddr = ''127.0.0.1:0'', HttpsListenAddr = ''127.0.0.1:0'', TlsCertPath = ''ca/cert.pem'',
     TlsKeyPath = ''ca/key.pem'', TlsGenerateIfMissing = True\<rparr>"

lemma ca_persists_witness:
  "\<exists>s w1. newSelfSignedServer sample_crypto [] sample_config (empty_os, 0) = (Ok s, w1, 1) \<and>
     newSelfSignedServer sample_crypto [] sample_config (w1, 7) = (Ok s, w1, 7)"
proof -
  have kp: "key_pairs_parse sample_crypto"
    by (simp add: key_pairs_parse_def sample_crypto_def generateKeyCert_def)
  let ?r = "newSelfSignedServer sample_crypto [] sample_config (empty_os, 0)"
  have "is_Ok (fst ?r) \<and> faults (fst (snd ?r)) = [] \<and> snd (snd ?r) = 1" by code_simp
  then obtain s w1 where r: "?r = (Ok s, w1, 1)" and f: "faults w1 = []" by (cases ?r) (auto elim!: is_Ok.elims)
  have "path_of [] (TlsKeyPath sample_config) \<noteq> path_of [] (TlsCertPath sample_config)" "TlsKeyPath sample_config \<noteq> []"
    "TlsCertPath sample_config \<noteq> []" by code_simp+
  from ca_persists [OF kp this r f refl refl] r show ?thesis by blast
qed

text \<open>A key without its certificate is replaced: generating because one file is missing writes both.\<close>

theorem lone_key_replaced:
  assumes "path_of cwd (TlsKeyPath cfg) \<noteq> path_of cwd (TlsCertPath cfg)" and "TlsKeyPath cfg \<noteq> []"
    and "newSelfSignedServer cr cwd cfg (w, r) = (Ok s, w1, r1)" and "fs_get w (path_of cwd (TlsCertPath cfg)) = None"
  shows "\<exists>pkb. generateKeyCert cr r = (Ok (caPrivKey s, caCert s), r1) \<and> MarshalPKCS8 cr (caPrivKey s) = Ok pkb \<and>
    fs_get w1 (path_of cwd (TlsKeyPath cfg)) = Some (pem_Encode ''PRIVATE KEY'' pkb)"
proof -
  from assms(3) obtain k c m v r0 where ob: "obtain_keys cr cwd cfg (w, r) = (Ok (k, c, m), v, r0)"
    by (auto simp: newSelfSignedServer_def split: prod.splits res.splits)
  have "readKeyCert cr cwd (TlsKeyPath cfg) (TlsCertPath cfg) w \<noteq> (Ok (k, c), v)"
    unfolding readKeyCert_Ok LoadX509KeyPair_Ok using assms(4) by (auto dest!: name_ReadFile_Ok)
  then have m: "m" and g: "generateKeyCert cr r = (Ok (k, c), r0)" using obtain_keys_cases [OF ob] assms(2) by blast+
  from assms(3) ob m have "caPrivKey s = k" "caCert s = c" "r1 = r0"
    and "\<exists>u. save_keys cr cwd cfg k (pem_Encode ''CERTIFICATE'' (cert_Raw cr c)) v = (Ok u, w1)"
    by (auto simp: newSelfSignedServer_def Let_def split: prod.splits res.splits option.splits if_splits)
  then show ?thesis using save_keys_Ok [OF _ assms(1)] g by metis
qed

end
