(* ===== verification/Environment.thy ===== *)
theory Environment
  imports App ServerKeys
begin

text \<open>
  The environment that a session gives to its subprocess (\<open>stdProxyVarsAppender\<close>, \<open>sslCertFileAppender\<close>,
  \<open>tmpDirsAppender\<close> and \<open>jksKeystoreAppender\<close> in htvend/environment_*.go): variables that point to the proxy, to
  the certificate of its authority in two formats, and to temporary directories.

  Encoding a PKCS #12 trust store (go-pkcs12) and decoding PEM are parameters.
\<close>

section \<open>Options and context\<close>

record ListenerOptions =
  lo_Subprocess :: SubprocessOptions
  ListenAddr :: string
  TlsListenAddr :: string
  Daemon :: bool
  TlsCertPem :: string
  TlsKeyPem :: string
  lo_TlsGenerateIfMissing :: bool
  TmpDirs :: "string list"
  CertFileEnvVars :: "string list"
  JksKeyStoreVars :: "string list"
  HttpProxyEnvVars :: "string list"
  NoProxyEnvVars :: "string list"

record envCtx =
  TempDir :: path
  ProxyAddr :: string
  CAPem :: bytes
  Options :: ListenerOptions
  EnvOverrides :: "string list"

text \<open>The text of an absolute path, and \<open>filepath.Join\<close> of one with a name.\<close>

definition path_text :: "path \<Rightarrow> string" where
  "path_text p = (if p = [] then ''/'' else concat (map (\<lambda>c. ''/'' @ c) p))"

definition path_join :: "path \<Rightarrow> string \<Rightarrow> path" where
  "path_join p s = path_walk p (str_split CHR ''/'' s)"

definition env_set :: "string list \<Rightarrow> string \<Rightarrow> envCtx \<Rightarrow> envCtx" where
  "env_set vars x e = e\<lparr>EnvOverrides := EnvOverrides e @ map (\<lambda>v. v @ ''='' @ x) vars\<rparr>"

section \<open>The appenders\<close>

definition stdProxyVarsAppender :: "envCtx \<times> os \<Rightarrow> unit res \<times> envCtx \<times> os" where
  "stdProxyVarsAppender = (\<lambda>(e, w).
     (Ok (), env_set (NoProxyEnvVars (Options e)) [] (env_set (HttpProxyEnvVars (Options e)) (''http://'' @ ProxyAddr e) e), w))"

definition sslCertFileAppender :: "envCtx \<times> os \<Rightarrow> unit res \<times> envCtx \<times> os" where
  "sslCertFileAppender = (\<lambda>(e, w).
     if CertFileEnvVars (Options e) \<noteq> [] then
       (if TlsCertPem (Options e) = [] then
          (let p = path_join (TempDir e) ''cacerts.pem'' in
           case os_WriteFile p (CAPem e) w of
             (Some er, w1) \<Rightarrow> (Err (wrap ''error writing CA PEM file'' er), e, w1)
           | (None, w1) \<Rightarrow> (Ok (), env_set (CertFileEnvVars (Options e)) (path_text p) e, w1))
        else (Ok (), env_set (CertFileEnvVars (Options e)) (TlsCertPem (Options e)) e, w))
     else (Ok (), e, w))"

fun make_tmp_dirs :: "string list \<Rightarrow> envCtx \<times> os \<Rightarrow> unit res \<times> envCtx \<times> os" where
  "make_tmp_dirs [] (e, w) = (Ok (), e, w)"
| "make_tmp_dirs (td # tds) (e, w) =
     (case os_Mkdir (path_join (TempDir e) td) w of
        (Some er, w1) \<Rightarrow> (Err (wrap ''error creating temp dir'' er), e, w1)
      | (None, w1) \<Rightarrow> make_tmp_dirs tds (env_set [td] (path_text (path_join (TempDir e) td)) e, w1))"

definition tmpDirsAppender :: "envCtx \<times> os \<Rightarrow> unit res \<times> envCtx \<times> os" where
  "tmpDirsAppender = (\<lambda>(e, w). make_tmp_dirs (TmpDirs (Options e)) (e, w))"

text \<open>
  The trust store of the certificates of a PEM text. \<open>pem.Decode\<close> gives the type and the bytes of the next block
  and the text after it, which is shorter (the comparison always holds; it makes the recursion end by itself).
\<close>

record 'c stores =
  pem_Decode :: "bytes \<Rightarrow> ((string \<times> bytes) \<times> bytes) option"
  store_ParseCertificate :: "bytes \<Rightarrow> 'c res"
  EncodeTrustStoreEntries :: "('c \<times> string) list \<Rightarrow> bytes res"

function pem_entries :: "'c stores \<Rightarrow> nat \<Rightarrow> bytes \<Rightarrow> ('c \<times> string) list res" where
  "pem_entries st i caPem =
     (case pem_Decode st caPem of
        None \<Rightarrow> Ok []
      | Some ((ty, b), rest) \<Rightarrow>
          (if length rest < length caPem then
             (if ty \<noteq> ''CERTIFICATE'' then pem_entries st (Suc i) rest
              else
                (case store_ParseCertificate st b of
                   Err e \<Rightarrow> Err (wrap ''error parsing cert'' e)
                 | Panic p \<Rightarrow> Panic p
                 | Ok cert \<Rightarrow> map_res (\<lambda>es. (cert, ''cert'' @ nat_string i) # es) (pem_entries st (Suc i) rest)))
           else Ok []))"
  by pat_completeness auto
termination
  by (relation "measure (\<lambda>(st, i, p). length p)") auto

declare pem_entries.simps [simp del]

definition pemToJks :: "'c stores \<Rightarrow> bytes \<Rightarrow> bytes res" where
  "pemToJks st pem =
     (case pem_entries st 0 pem of
        Err e \<Rightarrow> Err e
      | Panic p \<Rightarrow> Panic p
      | Ok entries \<Rightarrow> wrap_res ''error encoding JKS'' (EncodeTrustStoreEntries st entries))"

definition jksKeystoreAppender :: "'c stores \<Rightarrow> envCtx \<times> os \<Rightarrow> unit res \<times> envCtx \<times> os" where
  "jksKeystoreAppender st = (\<lambda>(e, w).
     if JksKeyStoreVars (Options e) \<noteq> [] then
       (case pemToJks st (CAPem e) of
          Err er \<Rightarrow> (Err (wrap ''error converting PEM to JKS file'' er), e, w)
        | Panic p \<Rightarrow> (Panic p, e, w)
        | Ok jks \<Rightarrow>
            (let p = path_join (TempDir e) ''cacerts.jks'' in
             case os_WriteFile p jks w of
               (Some er, w1) \<Rightarrow> (Err (wrap ''error writing CA PEM file'' er), e, w1)
             | (None, w1) \<Rightarrow> (Ok (), env_set (JksKeyStoreVars (Options e)) (path_text p) e, w1)))
     else (Ok (), e, w))"

text \<open>The loop over the appenders.\<close>

fun run_appenders :: "(envCtx \<times> os \<Rightarrow> unit res \<times> envCtx \<times> os) list \<Rightarrow> envCtx \<times> os \<Rightarrow> unit res \<times> envCtx \<times> os" where
  "run_appenders [] s = (Ok (), s)"
| "run_appenders (f # fs) s =
     (case f s of
        (Ok _, s1) \<Rightarrow> run_appenders fs s1
      | (Err e, s1) \<Rightarrow> (Err (wrap ''error modifying env'' e), s1)
      | (Panic p, s1) \<Rightarrow> (Panic p, s1))"

definition session_env :: "'c stores \<Rightarrow> ListenerOptions \<Rightarrow> string \<Rightarrow> bytes \<Rightarrow> path \<Rightarrow> os \<Rightarrow> unit res \<times> envCtx \<times> os" where
  "session_env st opts addr pem tempDir w =
     run_appenders [stdProxyVarsAppender, sslCertFileAppender, tmpDirsAppender, jksKeystoreAppender st]
       (\<lparr>TempDir = tempDir, ProxyAddr = addr, CAPem = pem, Options = opts, EnvOverrides = []\<rparr>, w)"

section \<open>What the subprocess finds\<close>

lemma env_set_simps [simp]:
  "TempDir (env_set vs x e) = TempDir e" "ProxyAddr (env_set vs x e) = ProxyAddr e" "CAPem (env_set vs x e) = CAPem e"
  "Options (env_set vs x e) = Options e"
  "EnvOverrides (env_set vs x e) = EnvOverrides e @ map (\<lambda>v. v @ ''='' @ x) vs"
  by (simp_all add: env_set_def)

lemma os_Mkdir_None:
  "os_Mkdir p w = (None, w') \<Longrightarrow> fs_get w' = fs_get w \<and> (\<forall>q. dir_exists w' q \<longleftrightarrow> dir_exists w q \<or> q = p)"
  by (auto simp: os_Mkdir_def fs_simps dir_exists_def split: if_splits prod.splits fault.splits dest: pop_fault_same)

lemma os_WriteFile_None:
  "os_WriteFile p b w = (None, w') \<Longrightarrow> fs_get w' = (fs_get w)(p \<mapsto> b) \<and> (\<forall>q. dir_exists w' q \<longleftrightarrow> dir_exists w q)"
  by (auto simp: os_WriteFile_def fs_simps split: if_splits prod.splits fault.splits nat.splits dest: pop_fault_same)

lemma make_tmp_dirs_Ok:
  assumes "make_tmp_dirs tds (e, w) = (Ok u, e', w')"
  shows "TempDir e' = TempDir e \<and> Options e' = Options e \<and> CAPem e' = CAPem e \<and> ProxyAddr e' = ProxyAddr e \<and>
    EnvOverrides e' = EnvOverrides e @ map (\<lambda>td. td @ ''='' @ path_text (path_join (TempDir e) td)) tds \<and>
    fs_get w' = fs_get w \<and> (\<forall>q. dir_exists w' q \<longleftrightarrow> dir_exists w q \<or> q \<in> path_join (TempDir e) ` set tds)"
  using assms
proof (induction tds arbitrary: e w)
  case (Cons td tds)
  then obtain w1 where m: "os_Mkdir (path_join (TempDir e) td) w = (None, w1)"
    and r: "make_tmp_dirs tds (env_set [td] (path_text (path_join (TempDir e) td)) e, w1) = (Ok u, e', w')"
    by (auto split: prod.splits option.splits)
  from Cons.IH [OF r] os_Mkdir_None [OF m] show ?case by auto
qed simp

lemma join_plain: "path_join p ''cacerts.pem'' = p @ [''cacerts.pem'']" "path_join p ''cacerts.jks'' = p @ [''cacerts.jks'']"
  by (simp_all add: path_join_def)

text \<open>
  C32. The environment of a session. When the appenders succeed, the variables are those of the options in order,
  with the address of the proxy, the file of the authority (the configured one, or a new one with the PEM text), one
  new directory each, and the trust store of the PEM text; and these files and directories exist.
\<close>

theorem session_env_complete:
  assumes "session_env st opts addr pem td w = (Ok (), e, w')"
  shows "EnvOverrides e =
      map (\<lambda>v. v @ ''=http://'' @ addr) (HttpProxyEnvVars opts) @ map (\<lambda>v. v @ ''='') (NoProxyEnvVars opts) @
      map (\<lambda>v. v @ ''='' @ (if TlsCertPem opts = [] then path_text (td @ [''cacerts.pem'']) else TlsCertPem opts)) (CertFileEnvVars opts) @
      map (\<lambda>t. t @ ''='' @ path_text (path_join td t)) (TmpDirs opts) @
      map (\<lambda>v. v @ ''='' @ path_text (td @ [''cacerts.jks''])) (JksKeyStoreVars opts) \<and>
    (CertFileEnvVars opts \<noteq> [] \<and> TlsCertPem opts = [] \<longrightarrow> fs_get w' (td @ [''cacerts.pem'']) = Some pem) \<and>
    (JksKeyStoreVars opts \<noteq> [] \<longrightarrow> (\<exists>jks. pemToJks st pem = Ok jks \<and> fs_get w' (td @ [''cacerts.jks'']) = Some jks)) \<and>
    (\<forall>t \<in> set (TmpDirs opts). dir_exists w' (path_join td t))"
proof -
  let ?e0 = "\<lparr>TempDir = td, ProxyAddr = addr, CAPem = pem, Options = opts, EnvOverrides = []\<rparr>"
  define e1 where "e1 = env_set (NoProxyEnvVars opts) [] (env_set (HttpProxyEnvVars opts) (''http://'' @ addr) ?e0)"
  have e1: "TempDir e1 = td" "CAPem e1 = pem" "Options e1 = opts"
    "EnvOverrides e1 = map (\<lambda>v. v @ ''=http://'' @ addr) (HttpProxyEnvVars opts) @ map (\<lambda>v. v @ ''='') (NoProxyEnvVars opts)"
    by (simp_all add: e1_def)
  obtain e2 w2 e3 w3 where a2: "sslCertFileAppender (e1, w) = (Ok (), e2, w2)" and a3: "tmpDirsAppender (e2, w2) = (Ok (), e3, w3)"
    and a4: "jksKeystoreAppender st (e3, w3) = (Ok (), e, w')"
    using assms by (auto simp: session_env_def stdProxyVarsAppender_def e1_def split: prod.splits res.splits)
  have 2: "TempDir e2 = td \<and> CAPem e2 = pem \<and> Options e2 = opts \<and> EnvOverrides e2 = EnvOverrides e1 @
      map (\<lambda>v. v @ ''='' @ (if TlsCertPem opts = [] then path_text (td @ [''cacerts.pem'']) else TlsCertPem opts)) (CertFileEnvVars opts) \<and>
      (CertFileEnvVars opts \<noteq> [] \<and> TlsCertPem opts = [] \<longrightarrow> fs_get w2 (td @ [''cacerts.pem'']) = Some pem)"
    using a2 e1 by (auto simp: sslCertFileAppender_def Let_def join_plain split: if_splits prod.splits option.splits dest!: os_WriteFile_None)
  have 3: "TempDir e3 = td \<and> CAPem e3 = pem \<and> Options e3 = opts \<and>
      EnvOverrides e3 = EnvOverrides e2 @ map (\<lambda>t. t @ ''='' @ path_text (path_join td t)) (TmpDirs opts) \<and> fs_get w3 = fs_get w2 \<and>
      (\<forall>t \<in> set (TmpDirs opts). dir_exists w3 (path_join td t))"
    using make_tmp_dirs_Ok [OF a3 [unfolded tmpDirsAppender_def prod.case]] 2 by auto
  have 4: "EnvOverrides e = EnvOverrides e3 @ map (\<lambda>v. v @ ''='' @ path_text (td @ [''cacerts.jks''])) (JksKeyStoreVars opts) \<and>
      fs_get w' (td @ [''cacerts.pem'']) = fs_get w3 (td @ [''cacerts.pem'']) \<and> (\<forall>q. dir_exists w' q \<longleftrightarrow> dir_exists w3 q) \<and>
      (JksKeyStoreVars opts \<noteq> [] \<longrightarrow> (\<exists>jks. pemToJks st pem = Ok jks \<and> fs_get w' (td @ [''cacerts.jks'']) = Some jks))"
    using a4 3
    by (auto simp: jksKeystoreAppender_def Let_def join_plain split: if_splits prod.splits option.splits res.splits dest!: os_WriteFile_None)
  from e1(4) 2 3 4 show ?thesis by simp
qed

definition sample_listener :: ListenerOptions where
  "sample_listener = \<lparr>lo_Subprocess = \<lparr>Process = ''make'', Args = []\<rparr>, ListenAddr = ''127.0.0.1:0'', TlsListenAddr = ''127.0.0.1:0'',
     Daemon = False, TlsCertPem = [], TlsKeyPem = [], lo_TlsGenerateIfMissing = False, TmpDirs = [''TMPDIR''],
     CertFileEnvVars = [''SSL_CERT_FILE''], JksKeyStoreVars = [''JKS''], HttpProxyEnvVars = [''http_proxy''], NoProxyEnvVars = [''no_proxy'']\<rparr>"

definition sample_stores :: "bytes stores" where
  "sample_stores = \<lparr>pem_Decode = (\<lambda>b. if b = [] then None else Some ((''CERTIFICATE'', b), [])),
     store_ParseCertificate = Ok, EncodeTrustStoreEntries = (\<lambda>es. Ok (concat (map (\<lambda>(c, n). n @ c) es)))\<rparr>"

lemma session_env_complete_witness:
  "\<exists>e w'. session_env sample_stores sample_listener ''p:1'' ''PEM'' [''t''] \<lparr>files = [], dirs = [[''t'']], faults = []\<rparr> = (Ok (), e, w') \<and>
     EnvOverrides e = [''http_proxy=http://p:1'', ''no_proxy='', ''SSL_CERT_FILE=/t/cacerts.pem'', ''TMPDIR=/t/TMPDIR'', ''JKS=/t/cacerts.jks''] \<and>
     fs_get w' [''t'', ''cacerts.pem''] = Some ''PEM'' \<and> dir_exists w' [''t'', ''TMPDIR'']"
proof -
  let ?r = "session_env sample_stores sample_listener ''p:1'' ''PEM'' [''t''] \<lparr>files = [], dirs = [[''t'']], faults = []\<rparr>"
  have "is_Ok (fst ?r)" by code_simp
  then obtain e w' where r: "?r = (Ok (), e, w')" by (cases ?r) (auto elim!: is_Ok.elims)
  from session_env_complete [OF r] r show ?thesis
    by (simp add: sample_listener_def path_text_def path_join_def)
qed

end
