(* ===== verification/ProxyServer.thy ===== *)
theory ProxyServer
  imports ServerKeys "HOL-Library.Sublist"
begin

text \<open>
  The proxy server around a child process (\<open>ServeUntilDone\<close> and \<open>handleConnect\<close> in
  internal/proxyserver/http_proxy.go). \<open>ServeUntilDone\<close> starts two servers, each with a goroutine that serves and
  one that shuts it down when the context ends, runs the child, and waits for both in its deferred calls. It is a
  state machine here, whose events are the steps of the main goroutine, of the four others, and a signal; the
  results of \<open>net.Listen\<close>, of the servers and of the child come with their events.
\<close>

section \<open>ServeUntilDone\<close>

text \<open>The deferred calls, named by what they do.\<close>

datatype deferred = CancelUnlessDone | CloseList | RecvMain | CloseList2 | RecvTls | CancelNow

datatype main_pc = AtListen | AtListen2 | AtChild | Returning | Returned

text \<open>A server: not started, in \<open>Serve\<close>, or with the error of \<open>Serve\<close> in its channel, which is never nil.\<close>

datatype serving = Idle | Serving | Served err

record serve =
  pc :: main_pc
  defers :: "deferred list"
  retErr :: "err option"
  ctx_done :: bool
  cancelled :: bool
  main_srv :: serving
  tls_srv :: serving
  main_shut :: bool
  tls_shut :: bool
  list_open :: bool
  list2_open :: bool

definition serve_init :: "bool \<Rightarrow> serve" where
  "serve_init par_done =
     \<lparr>pc = AtListen, defers = [CancelUnlessDone], retErr = None, ctx_done = par_done, cancelled = False,
      main_srv = Idle, tls_srv = Idle, main_shut = False, tls_shut = False, list_open = False, list2_open = False\<rparr>"

datatype serve_event =
    Listen "err option"
  | Listen2 "err option"
  | Child "err option"
  | Deferred
  | MainShutdown
  | TlsShutdown
  | MainServe err
  | TlsServe err
  | Signal

text \<open>The error of a server, unless it was shut down or there is one already.\<close>

definition pick_err :: "string \<Rightarrow> err \<Rightarrow> err option \<Rightarrow> err option" where
  "pick_err m e ret = (if ret = None \<and> \<not> err_is e ErrServerClosed then Some (wrap m e) else ret)"

fun run_deferred :: "deferred \<Rightarrow> serve \<Rightarrow> serve option" where
  "run_deferred CancelUnlessDone s = Some (if cancelled s then s else s\<lparr>ctx_done := True\<rparr>)"
| "run_deferred CloseList s = Some (s\<lparr>list_open := False\<rparr>)"
| "run_deferred RecvMain s =
     (case main_srv s of
        Served e \<Rightarrow> Some (s\<lparr>retErr := pick_err ''error from main server'' e (retErr s)\<rparr>)
      | _ \<Rightarrow> None)"
| "run_deferred CloseList2 s = Some (s\<lparr>list2_open := False\<rparr>)"
| "run_deferred RecvTls s =
     (case tls_srv s of
        Served e \<Rightarrow> Some (s\<lparr>retErr := pick_err ''error from tls server'' e (retErr s)\<rparr>)
      | _ \<Rightarrow> None)"
| "run_deferred CancelNow s = Some (s\<lparr>ctx_done := True, cancelled := True\<rparr>)"

text \<open>
  \<open>Serve\<close> ends with \<open>ErrServerClosed\<close> once its server is shut down, and with another error at any time before.
\<close>

definition serve_ends :: "bool \<Rightarrow> err \<Rightarrow> bool" where
  "serve_ends shut e \<longleftrightarrow> (if shut then e = ErrServerClosed else \<not> err_is e ErrServerClosed)"

fun serve_step :: "serve_event \<Rightarrow> serve \<Rightarrow> serve option" where
  "serve_step (Listen (Some e)) s =
     (if pc s = AtListen then Some (s\<lparr>pc := Returning, retErr := Some (wrap ''error making listener'' e)\<rparr>) else None)"
| "serve_step (Listen None) s =
     (if pc s = AtListen
      then Some (s\<lparr>pc := AtListen2, defers := RecvMain # CloseList # defers s, main_srv := Serving, list_open := True\<rparr>)
      else None)"
| "serve_step (Listen2 (Some e)) s =
     (if pc s = AtListen2 then Some (s\<lparr>pc := Returning, retErr := Some (wrap ''error making internal listener'' e)\<rparr>) else None)"
| "serve_step (Listen2 None) s =
     (if pc s = AtListen2
      then Some (s\<lparr>pc := AtChild, defers := CancelNow # RecvTls # CloseList2 # defers s, tls_srv := Serving, list2_open := True\<rparr>)
      else None)"
| "serve_step (Child r) s = (if pc s = AtChild then Some (s\<lparr>pc := Returning, retErr := r\<rparr>) else None)"
| "serve_step Deferred s =
     (if pc s = Returning then
        (case defers s of
           [] \<Rightarrow> Some (s\<lparr>pc := Returned\<rparr>)
         | d # ds \<Rightarrow> (case run_deferred d s of None \<Rightarrow> None | Some s1 \<Rightarrow> Some (s1\<lparr>defers := ds\<rparr>)))
      else None)"
| "serve_step MainShutdown s = (if ctx_done s \<and> main_srv s \<noteq> Idle \<and> \<not> main_shut s then Some (s\<lparr>main_shut := True\<rparr>) else None)"
| "serve_step TlsShutdown s = (if ctx_done s \<and> tls_srv s \<noteq> Idle \<and> \<not> tls_shut s then Some (s\<lparr>tls_shut := True\<rparr>) else None)"
| "serve_step (MainServe e) s = (if main_srv s = Serving \<and> serve_ends (main_shut s) e then Some (s\<lparr>main_srv := Served e\<rparr>) else None)"
| "serve_step (TlsServe e) s = (if tls_srv s = Serving \<and> serve_ends (tls_shut s) e then Some (s\<lparr>tls_srv := Served e\<rparr>) else None)"
| "serve_step Signal s = (if ctx_done s then None else Some (s\<lparr>ctx_done := True\<rparr>))"

fun serve_run :: "serve_event list \<Rightarrow> serve \<Rightarrow> serve option" where
  "serve_run [] s = Some s"
| "serve_run (e # es) s = (case serve_step e s of None \<Rightarrow> None | Some s1 \<Rightarrow> serve_run es s1)"

lemma serve_run_append: "serve_run (es @ fs) s = (case serve_run es s of None \<Rightarrow> None | Some t \<Rightarrow> serve_run fs t)"
  by (induction es arbitrary: s) (auto split: option.splits)

section \<open>The states of a run\<close>

definition all_defers :: "deferred list" where
  "all_defers = [CancelNow, RecvTls, CloseList2, RecvMain, CloseList, CancelUnlessDone]"

text \<open>
  The invariant: what is deferred is a part of the list that the code registers, and says what was started and what
  was waited for. The error to be returned is the child's, followed by those of the servers received so far.
\<close>

definition ended :: "serving \<Rightarrow> bool" where
  "ended v \<longleftrightarrow> (\<exists>e. v = Served e)"

definition after_recv :: "deferred \<Rightarrow> string \<Rightarrow> serving \<Rightarrow> deferred list \<Rightarrow> err option \<Rightarrow> err option" where
  "after_recv d m v ds ret = (case v of Served e \<Rightarrow> if d \<in> set ds then ret else pick_err m e ret | _ \<Rightarrow> ret)"

definition stack_ok :: "deferred list \<Rightarrow> bool" where
  "stack_ok ds \<longleftrightarrow> ds \<in> set (suffixes all_defers)"

lemma stack_ok_parts [simp]:
  "stack_ok []" "stack_ok [CancelUnlessDone]" "stack_ok [CloseList, CancelUnlessDone]" "stack_ok [RecvMain, CloseList, CancelUnlessDone]"
  "stack_ok [CloseList2, RecvMain, CloseList, CancelUnlessDone]" "stack_ok [RecvTls, CloseList2, RecvMain, CloseList, CancelUnlessDone]"
  "stack_ok [CancelNow, RecvTls, CloseList2, RecvMain, CloseList, CancelUnlessDone]"
  by (simp_all add: stack_ok_def all_defers_def)

lemma stack_ok_recv:
  "stack_ok (RecvMain # ds) \<longleftrightarrow> ds = [CloseList, CancelUnlessDone]"
  "stack_ok (RecvTls # ds) \<longleftrightarrow> ds = [CloseList2, RecvMain, CloseList, CancelUnlessDone]"
  by (auto simp: stack_ok_def all_defers_def)

definition stack_inv :: "serve \<Rightarrow> bool" where
  "stack_inv s \<longleftrightarrow> stack_ok (defers s) \<and>
     (case pc s of
        AtListen \<Rightarrow> defers s = [CancelUnlessDone] \<and> main_srv s = Idle \<and> tls_srv s = Idle
      | AtListen2 \<Rightarrow> defers s = [RecvMain, CloseList, CancelUnlessDone] \<and> main_srv s \<noteq> Idle \<and> tls_srv s = Idle
      | AtChild \<Rightarrow> defers s = all_defers \<and> main_srv s \<noteq> Idle \<and> tls_srv s \<noteq> Idle
      | Returning \<Rightarrow> True
      | Returned \<Rightarrow> defers s = [])"

definition started_inv :: "serve \<Rightarrow> bool" where
  "started_inv s \<longleftrightarrow>
     (if RecvMain \<in> set (defers s) then main_srv s \<noteq> Idle else main_srv s = Idle \<or> ended (main_srv s)) \<and>
     (if RecvTls \<in> set (defers s) then tls_srv s \<noteq> Idle else tls_srv s = Idle \<or> ended (tls_srv s))"

definition closed_inv :: "serve \<Rightarrow> bool" where
  "closed_inv s \<longleftrightarrow>
     (CloseList \<notin> set (defers s) \<longrightarrow> \<not> list_open s) \<and> (CloseList2 \<notin> set (defers s) \<longrightarrow> \<not> list2_open s) \<and>
     (cancelled s \<longrightarrow> ctx_done s) \<and> (CancelUnlessDone \<notin> set (defers s) \<longrightarrow> ctx_done s) \<and>
     (CancelNow \<notin> set (defers s) \<and> tls_srv s \<noteq> Idle \<longrightarrow> ctx_done s)"

definition result_inv :: "serve_event list \<Rightarrow> serve \<Rightarrow> bool" where
  "result_inv es s \<longleftrightarrow>
     (tls_srv s = Idle \<and> main_srv s \<noteq> Idle \<and> pc s \<noteq> AtListen2 \<longrightarrow> (\<exists>e. Listen2 (Some e) \<in> set es)) \<and>
     (\<forall>r. Child r \<in> set es \<longrightarrow> pc s \<in> {Returning, Returned} \<and> tls_srv s \<noteq> Idle \<and> main_srv s \<noteq> Idle \<and>
        retErr s = after_recv RecvMain ''error from main server'' (main_srv s) (defers s)
          (after_recv RecvTls ''error from tls server'' (tls_srv s) (defers s) r))"

definition serve_inv :: "serve_event list \<Rightarrow> serve \<Rightarrow> bool" where
  "serve_inv es s \<longleftrightarrow> stack_inv s \<and> started_inv s \<and> closed_inv s \<and> result_inv es s"

lemmas serve_defs = stack_inv_def started_inv_def closed_inv_def all_defers_def ended_def

lemma init_inv: "serve_inv [] (serve_init p)"
  by (simp add: serve_inv_def result_inv_def serve_defs serve_init_def)

text \<open>The steps, one property at a time; a deferred call is looked at for each part of the list.\<close>

lemma deferred_pc: "serve_step Deferred s = Some t \<Longrightarrow> pc s = Returning"
  by (auto split: if_splits)

lemma deferred_cases:
  assumes "serve_step Deferred s = Some t" and "stack_inv s"
  obtains "defers s = []" "t = s\<lparr>pc := Returned\<rparr>"
  | "defers s = [CancelUnlessDone]" "t = (if cancelled s then s else s\<lparr>ctx_done := True\<rparr>)\<lparr>defers := []\<rparr>"
  | "defers s = [CloseList, CancelUnlessDone]" "t = s\<lparr>list_open := False, defers := [CancelUnlessDone]\<rparr>"
  | e where "defers s = [RecvMain, CloseList, CancelUnlessDone]" "main_srv s = Served e"
      "t = s\<lparr>retErr := pick_err ''error from main server'' e (retErr s), defers := [CloseList, CancelUnlessDone]\<rparr>"
  | "defers s = [CloseList2, RecvMain, CloseList, CancelUnlessDone]"
      "t = s\<lparr>list2_open := False, defers := [RecvMain, CloseList, CancelUnlessDone]\<rparr>"
  | e where "defers s = [RecvTls, CloseList2, RecvMain, CloseList, CancelUnlessDone]" "tls_srv s = Served e"
      "t = s\<lparr>retErr := pick_err ''error from tls server'' e (retErr s), defers := [CloseList2, RecvMain, CloseList, CancelUnlessDone]\<rparr>"
  | "defers s = all_defers" "t = s\<lparr>ctx_done := True, cancelled := True, defers := [RecvTls, CloseList2, RecvMain, CloseList, CancelUnlessDone]\<rparr>"
proof -
  have pc: "pc s = Returning" using deferred_pc [OF assms(1)] .
  consider "defers s = []" | "defers s = [CancelUnlessDone]" | "defers s = [CloseList, CancelUnlessDone]"
    | "defers s = [RecvMain, CloseList, CancelUnlessDone]" | "defers s = [CloseList2, RecvMain, CloseList, CancelUnlessDone]"
    | "defers s = [RecvTls, CloseList2, RecvMain, CloseList, CancelUnlessDone]" | "defers s = all_defers"
    using assms(2) by (auto simp: stack_inv_def stack_ok_def all_defers_def)
  then show ?thesis
  proof cases
    case 1 then show ?thesis using that(1) assms(1) pc by simp
  next
    case 2 then show ?thesis using that(2) assms(1) pc by (cases "cancelled s") simp_all
  next
    case 3 then show ?thesis using that(3) assms(1) pc by simp
  next
    case 4 then show ?thesis using that(4) assms(1) pc by (cases "main_srv s") simp_all
  next
    case 5 then show ?thesis using that(5) assms(1) pc by simp
  next
    case 6 then show ?thesis using that(6) assms(1) pc by (cases "tls_srv s") simp_all
  next
    case 7 then show ?thesis using that(7) assms(1) pc by (simp add: all_defers_def)
  qed
qed

lemma deferred_inv:
  assumes "serve_inv es s" and "serve_step Deferred s = Some t"
  shows "serve_inv (es @ [Deferred]) t"
proof -
  have i: "stack_inv s" "started_inv s" "closed_inv s" "result_inv es s" using assms(1) by (simp_all add: serve_inv_def)
  note pc = deferred_pc [OF assms(2)]
  have "stack_inv t \<and> started_inv t"
    using assms(2) i(1) by (rule deferred_cases) (use i pc in \<open>auto simp: serve_defs split: if_splits\<close>)
  moreover have "closed_inv t"
    using assms(2) i(1) by (rule deferred_cases) (use i in \<open>auto simp: closed_inv_def all_defers_def\<close>)
  moreover have "result_inv (es @ [Deferred]) t"
    using assms(2) i(1) by (rule deferred_cases) (use i(2,4) pc in \<open>auto simp: result_inv_def after_recv_def all_defers_def split: serving.splits\<close>)
  ultimately show ?thesis by (simp add: serve_inv_def)
qed

lemma other_cases:
  assumes "serve_step ev s = Some t" and "ev \<noteq> Deferred"
  obtains e where "ev = Listen (Some e)" "pc s = AtListen" "t = s\<lparr>pc := Returning, retErr := Some (wrap ''error making listener'' e)\<rparr>"
  | "ev = Listen None" "pc s = AtListen"
      "t = s\<lparr>pc := AtListen2, defers := RecvMain # CloseList # defers s, main_srv := Serving, list_open := True\<rparr>"
  | e where "ev = Listen2 (Some e)" "pc s = AtListen2"
      "t = s\<lparr>pc := Returning, retErr := Some (wrap ''error making internal listener'' e)\<rparr>"
  | "ev = Listen2 None" "pc s = AtListen2"
      "t = s\<lparr>pc := AtChild, defers := CancelNow # RecvTls # CloseList2 # defers s, tls_srv := Serving, list2_open := True\<rparr>"
  | r where "ev = Child r" "pc s = AtChild" "t = s\<lparr>pc := Returning, retErr := r\<rparr>"
  | "ev = MainShutdown" "ctx_done s" "main_srv s \<noteq> Idle" "\<not> main_shut s" "t = s\<lparr>main_shut := True\<rparr>"
  | "ev = TlsShutdown" "ctx_done s" "tls_srv s \<noteq> Idle" "\<not> tls_shut s" "t = s\<lparr>tls_shut := True\<rparr>"
  | e where "ev = MainServe e" "main_srv s = Serving" "t = s\<lparr>main_srv := Served e\<rparr>"
  | e where "ev = TlsServe e" "tls_srv s = Serving" "t = s\<lparr>tls_srv := Served e\<rparr>"
  | "ev = Signal" "\<not> ctx_done s" "t = s\<lparr>ctx_done := True\<rparr>"
proof (cases ev)
  case (Listen e) then show ?thesis using assms that(1,2) by (cases e) (auto split: if_splits)
next
  case (Listen2 e) then show ?thesis using assms that(3,4) by (cases e) (auto split: if_splits)
next
  case (Child r) then show ?thesis using assms that(5) by (auto split: if_splits)
next
  case MainShutdown then show ?thesis using assms that(6) by (auto split: if_splits)
next
  case TlsShutdown then show ?thesis using assms that(7) by (auto split: if_splits)
next
  case (MainServe e) then show ?thesis using assms that(8) by (auto split: if_splits)
next
  case (TlsServe e) then show ?thesis using assms that(9) by (auto split: if_splits)
next
  case Signal then show ?thesis using assms that(10) by (auto split: if_splits)
qed (use assms in simp)

lemma other_stack_inv:
  assumes "stack_inv s" and "serve_step ev s = Some t" and "ev \<noteq> Deferred"
  shows "stack_inv t"
  using assms(2,3)
  by (rule other_cases) (use assms(1) in \<open>auto simp: stack_inv_def all_defers_def split: main_pc.splits\<close>)

lemma other_started_inv:
  assumes "stack_inv s" and "started_inv s" and "serve_step ev s = Some t" and "ev \<noteq> Deferred"
  shows "started_inv t"
  using assms(3,4)
  by (rule other_cases) (use assms(1,2) in \<open>auto simp: stack_inv_def started_inv_def ended_def all_defers_def\<close>)

lemma other_closed_inv:
  assumes "stack_inv s" and "closed_inv s" and "serve_step ev s = Some t" and "ev \<noteq> Deferred"
  shows "closed_inv t"
  using assms(3,4)
  by (rule other_cases) (use assms(1,2) in \<open>auto simp: stack_inv_def closed_inv_def all_defers_def\<close>)

lemma other_result_inv:
  assumes "stack_inv s" and "started_inv s" and "result_inv es s" and "serve_step ev s = Some t" and "ev \<noteq> Deferred"
  shows "result_inv (es @ [ev]) t"
  using assms(4,5)
  by (rule other_cases)
    (use assms(1-3) in \<open>auto simp: stack_inv_def started_inv_def ended_def result_inv_def after_recv_def all_defers_def split: serving.splits\<close>)

lemma run_inv:
  assumes "serve_run es (serve_init p) = Some s"
  shows "serve_inv es s"
  using assms
proof (induction es arbitrary: s rule: rev_induct)
  case Nil
  then show ?case using init_inv by auto
next
  case (snoc ev es)
  then obtain u where u: "serve_inv es u" and t: "serve_step ev u = Some s"
    by (auto simp: serve_run_append split: option.splits)
  show ?case
  proof (cases "ev = Deferred")
    case True
    then show ?thesis using deferred_inv u t by simp
  next
    case False
    then show ?thesis using u t other_stack_inv other_started_inv other_closed_inv other_result_inv
      unfolding serve_inv_def by metis
  qed
qed

section \<open>Every run is finite\<close>

fun pc_weight :: "main_pc \<Rightarrow> deferred list \<Rightarrow> nat" where
  "pc_weight AtListen ds = 10"
| "pc_weight AtListen2 ds = 9"
| "pc_weight AtChild ds = 8"
| "pc_weight Returning ds = Suc (length ds)"
| "pc_weight Returned ds = 0"

definition unserved :: "serving \<Rightarrow> nat" where
  "unserved v = (if ended v then 0 else 1)"

definition serve_weight :: "serve \<Rightarrow> nat" where
  "serve_weight s = pc_weight (pc s) (defers s) + unserved (main_srv s) + unserved (tls_srv s) +
     of_bool (\<not> main_shut s) + of_bool (\<not> tls_shut s) + of_bool (\<not> ctx_done s)"

lemmas weight_defs = serve_weight_def unserved_def ended_def stack_inv_def all_defers_def

lemma step_weight:
  assumes "stack_inv s" and "serve_step ev s = Some t"
  shows "serve_weight t < serve_weight s"
proof (cases "ev = Deferred")
  case True
  then have d: "serve_step Deferred s = Some t" using assms(2) by simp
  note pc = deferred_pc [OF d]
  show ?thesis using d assms(1) by (rule deferred_cases) (auto simp: weight_defs pc)
next
  case False
  with assms(2) show ?thesis
    by (rule other_cases) (use assms(1) in \<open>auto simp: weight_defs\<close>)
qed

lemma run_weight: "serve_run es (serve_init p) = Some s \<Longrightarrow> length es + serve_weight s \<le> serve_weight (serve_init p)"
proof (induction es arbitrary: s rule: rev_induct)
  case (snoc ev es)
  then obtain u where u: "serve_run es (serve_init p) = Some u" and t: "serve_step ev u = Some s"
    by (auto simp: serve_run_append split: option.splits)
  have "stack_inv u" using run_inv [OF u] by (simp add: serve_inv_def)
  from step_weight [OF this t] snoc.IH [OF u] show ?case by simp
qed simp

text \<open>What a run has done when it has returned after its child.\<close>

lemma serve_outcome:
  assumes "serve_run es (serve_init p) = Some s" and "pc s = Returned" and "Child r \<in> set es"
  shows "\<exists>te me. tls_srv s = Served te \<and> main_srv s = Served me \<and>
    retErr s = pick_err ''error from main server'' me (pick_err ''error from tls server'' te r) \<and>
    ctx_done s \<and> \<not> list_open s \<and> \<not> list2_open s"
proof -
  have i: "stack_inv s" "started_inv s" "closed_inv s" "result_inv es s" using run_inv [OF assms(1)] by (simp_all add: serve_inv_def)
  have d: "defers s = []" using i(1) assms(2) by (simp add: stack_inv_def)
  moreover obtain te me where "tls_srv s = Served te" "main_srv s = Served me"
    using i(2,4) d assms(3) by (auto simp: started_inv_def result_inv_def ended_def)
  ultimately show ?thesis using i(3,4) assms(3) by (auto simp: closed_inv_def result_inv_def after_recv_def)
qed

text \<open>The error of a server is one that its \<open>Serve\<close> ended with.\<close>

lemma served_events:
  "serve_run es (serve_init p) = Some s \<Longrightarrow>
     (\<forall>e. tls_srv s = Served e \<longrightarrow> TlsServe e \<in> set es) \<and> (\<forall>e. main_srv s = Served e \<longrightarrow> MainServe e \<in> set es)"
proof (induction es arbitrary: s rule: rev_induct)
  case Nil
  then show ?case by (auto simp: serve_init_def)
next
  case (snoc ev es)
  then obtain u where u: "serve_run es (serve_init p) = Some u" and t: "serve_step ev u = Some s"
    by (auto simp: serve_run_append split: option.splits)
  have i: "stack_inv u" using run_inv [OF u] by (simp add: serve_inv_def)
  show ?case
  proof (cases "ev = Deferred")
    case True
    then have d: "serve_step Deferred u = Some s" using t by simp
    show ?thesis using d i by (rule deferred_cases) (use snoc.IH [OF u] in \<open>auto split: if_splits\<close>)
  next
    case False
    with t show ?thesis by (rule other_cases) (use snoc.IH [OF u] in auto)
  qed
qed

section \<open>Properties\<close>

text \<open>Nothing that the program itself does is possible; what is left are results of the outside and signals.\<close>

definition quiescent :: "serve \<Rightarrow> bool" where
  "quiescent s \<longleftrightarrow> (\<forall>ev \<in> {Deferred, MainShutdown, TlsShutdown, MainServe ErrServerClosed, TlsServe ErrServerClosed}. serve_step ev s = None)"

text \<open>The state in which a failed second \<open>net.Listen\<close> leaves the program: it waits for a server that nobody shuts down.\<close>

definition hanging :: "serve \<Rightarrow> bool" where
  "hanging s \<longleftrightarrow> pc s = Returning \<and> defers s = [RecvMain, CloseList, CancelUnlessDone] \<and> main_srv s = Serving \<and> \<not> ctx_done s"

text \<open>
  C18. The server ends. Every run of the goroutines is finite, of at most fifteen steps; and where nothing of the
  program can move any more, \<open>ServeUntilDone\<close> has returned, or waits for a result of \<open>net.Listen\<close> or of the child,
  or hangs, which happens only after the second \<open>net.Listen\<close> failed. A hanging program moves only when a signal
  arrives or the first server fails by itself.
\<close>

theorem serve_returns:
  assumes "serve_run es (serve_init p) = Some s"
  shows "length es \<le> 15 \<and>
    (quiescent s \<longrightarrow> pc s \<in> {Returned, AtListen, AtListen2, AtChild} \<or> (hanging s \<and> (\<exists>e. Listen2 (Some e) \<in> set es))) \<and>
    (hanging s \<longrightarrow> (\<forall>ev. serve_step ev s \<noteq> None \<longrightarrow> ev = Signal \<or> (\<exists>e. ev = MainServe e)))"
proof -
  have i: "stack_inv s" "started_inv s" "closed_inv s" "result_inv es s" using run_inv [OF assms] by (simp_all add: serve_inv_def)
  have len: "length es \<le> 15"
    using run_weight [OF assms] by (cases p) (simp_all add: serve_weight_def serve_init_def unserved_def ended_def)
  have quiet: "pc s \<in> {Returned, AtListen, AtListen2, AtChild} \<or> (hanging s \<and> (\<exists>e. Listen2 (Some e) \<in> set es))" if q: "quiescent s"
  proof (rule ccontr)
    assume n: "\<not> ?thesis"
    then have r: "pc s = Returning" by (cases "pc s") auto
    have st: "serve_step Deferred s = None" and mn: "serve_step MainShutdown s = None" "serve_step (MainServe ErrServerClosed) s = None"
      and tl: "serve_step TlsShutdown s = None" "serve_step (TlsServe ErrServerClosed) s = None"
      using q by (simp_all add: quiescent_def)
    obtain d ds where ds: "defers s = d # ds" using st r by (cases "defers s") auto
    then have "d = RecvMain \<and> main_srv s = Serving \<or> d = RecvTls \<and> tls_srv s = Serving"
      using st r i(1,2) by (cases d) (auto simp: started_inv_def split: serving.splits)
    moreover have "\<not> ctx_done s" if "main_srv s = Serving" using that mn by (auto simp: serve_ends_def split: if_splits)
    moreover have "\<not> ctx_done s" if "tls_srv s = Serving" using that tl by (auto simp: serve_ends_def split: if_splits)
    ultimately have "d = RecvMain \<and> main_srv s = Serving \<and> \<not> ctx_done s \<and> tls_srv s = Idle"
      using i(1,3) r ds by (cases "tls_srv s") (auto simp: stack_inv_def closed_inv_def stack_ok_recv)
    moreover have "defers s = [RecvMain, CloseList, CancelUnlessDone]" using calculation i(1) ds by (auto simp: stack_inv_def stack_ok_recv)
    ultimately show False using n r i(4) by (auto simp: hanging_def result_inv_def)
  qed
  have "ev = Signal \<or> (\<exists>e. ev = MainServe e)" if h: "hanging s" and e: "serve_step ev s \<noteq> None" for ev
  proof -
    have "tls_srv s \<noteq> Serving" using h i(2) by (auto simp: hanging_def started_inv_def ended_def)
    then show ?thesis using h e by (cases "(ev, s)" rule: serve_step.cases) (auto simp: hanging_def)
  qed
  then show ?thesis using len quiet by blast
qed

text \<open>
  C30. What the server leaves and returns. When \<open>ServeUntilDone\<close> has returned after its child, the context is
  cancelled, both servers have ended and both listeners are closed. The error is the child's, if there is one;
  without one it is that of the TLS server, and without one of these that of the main server, each with its text,
  where a server that was shut down has none.
\<close>

theorem server_released:
  assumes "serve_run es (serve_init p) = Some s" and "pc s = Returned" and "Child r \<in> set es"
  shows "ctx_done s \<and> \<not> list_open s \<and> \<not> list2_open s \<and>
    (\<exists>te me. TlsServe te \<in> set es \<and> tls_srv s = Served te \<and> MainServe me \<in> set es \<and> main_srv s = Served me \<and>
       retErr s =
         (if r \<noteq> None then r
          else if \<not> err_is te ErrServerClosed then Some (wrap ''error from tls server'' te)
          else if \<not> err_is me ErrServerClosed then Some (wrap ''error from main server'' me)
          else None))"
  using serve_outcome [OF assms] served_events [OF assms(1)] by (auto simp: pick_err_def)

definition clean_run :: "serve_event list" where
  "clean_run = [Listen None, Listen2 None, Child None, Deferred, TlsShutdown, TlsServe ErrServerClosed, Deferred, Deferred,
     MainShutdown, MainServe ErrServerClosed, Deferred, Deferred, Deferred, Deferred]"

definition hang_run :: "serve_event list" where
  "hang_run = [Listen None, Listen2 (Some ErrInvalid)]"

lemma serve_returns_witness:
  "\<exists>s. serve_run hang_run (serve_init False) = Some s \<and> quiescent s \<and> hanging s \<and>
     (\<forall>ev. serve_step ev s \<noteq> None \<longrightarrow> ev = Signal \<or> (\<exists>e. ev = MainServe e))"
proof -
  obtain s where r: "serve_run hang_run (serve_init False) = Some s" and s: "quiescent s" "pc s = Returning"
    by (simp add: hang_run_def serve_init_def quiescent_def serve_ends_def)
  from serve_returns [OF r] r s show ?thesis by auto
qed

definition broken_run :: "serve_event list" where
  "broken_run = [Listen None, Listen2 None, TlsServe ErrInvalid, MainServe ErrInvalid, Child (Some ErrNotExist), Deferred, Deferred, Deferred,
     Deferred, Deferred, Deferred, Deferred]"

text \<open>The child's error is returned although both servers failed, and none after a clean run.\<close>

lemma server_released_witness:
  "(\<exists>s. serve_run broken_run (serve_init False) = Some s \<and> pc s = Returned \<and> retErr s = Some ErrNotExist \<and> \<not> list_open s) \<and>
   (\<exists>s. serve_run clean_run (serve_init False) = Some s \<and> pc s = Returned \<and> retErr s = None \<and> ctx_done s \<and> \<not> list_open s)"
proof
  obtain s where r: "serve_run broken_run (serve_init False) = Some s" and s: "pc s = Returned"
    by (simp add: broken_run_def serve_init_def serve_ends_def)
  have "Child (Some ErrNotExist) \<in> set broken_run" by (simp add: broken_run_def)
  from server_released [OF r s this] r s
  show "\<exists>s. serve_run broken_run (serve_init False) = Some s \<and> pc s = Returned \<and> retErr s = Some ErrNotExist \<and> \<not> list_open s"
    by auto
  obtain t where r: "serve_run clean_run (serve_init False) = Some t" and t: "pc t = Returned"
    by (simp add: clean_run_def serve_init_def serve_ends_def)
  have "Child None \<in> set clean_run" and ev: "TlsServe e \<in> set clean_run \<longrightarrow> e = ErrServerClosed" "MainServe e \<in> set clean_run \<longrightarrow> e = ErrServerClosed" for e
    by (simp_all add: clean_run_def)
  from server_released [OF r t this(1)] ev r t
  show "\<exists>s. serve_run clean_run (serve_init False) = Some s \<and> pc s = Returned \<and> retErr s = None \<and> ctx_done s \<and> \<not> list_open s"
    by fastforce
qed

section \<open>CONNECT requests\<close>

text \<open>
  What a CONNECT request meets: the dial to the TLS server of the program, whether the response writer can be
  hijacked, the result of that with the data buffered so far, what both connections deliver and how closing them
  ends (in the readers), and how the writes to them end.
\<close>

record tunnel =
  tn_dial :: "err option"
  tn_hijacker :: bool
  tn_hijack :: "bytes res"
  tn_client :: reader
  tn_server :: reader
  tn_to_client :: "fault list"
  tn_to_server :: "fault list"

text \<open>A connection as a destination: what was written to it, and the outcomes of further writes.\<close>

fun conn_Write :: "bytes \<Rightarrow> bytes \<times> fault list \<Rightarrow> (nat \<times> err option) \<times> bytes \<times> fault list" where
  "conn_Write p (d, []) = ((length p, None), d @ p, [])"
| "conn_Write p (d, Pass # fs) = ((length p, None), d @ p, fs)"
| "conn_Write p (d, FailAt n e # fs) = ((min n (length p), Some e), d @ take n p, fs)"

text \<open>
  The function literal in \<open>handleConnect\<close>: its result, whether the connection was hijacked, the response, and what
  the TLS server and the client received. Both copies run at the same time and do not touch each other's data.
\<close>

definition run_tunnel :: "tunnel \<Rightarrow> rw \<Rightarrow> unit res \<times> bool \<times> rw \<times> bytes \<times> bytes" where
  "run_tunnel tn r =
     (case tn_dial tn of
        Some e \<Rightarrow> (Err (wrap ''error dialing upstream'' e), False, r, [], [])
      | None \<Rightarrow>
          (let close_dest = (\<lambda>ret. defer_err ret (wrap_opt ''error closing dest conn'' (rd_close (tn_server tn))));
               r1 = rw_WriteHeader 200 r
           in
           if \<not> tn_hijacker tn
           then (close_dest (Err (Errorf ''oops, webserver does not support hijacking'' [])), False, r1, [], [])
           else
             (case tn_hijack tn of
                Err e \<Rightarrow> (close_dest (Err (wrap ''error hijacking conn'' e)), False, r1, [], [])
              | Panic p \<Rightarrow> (Panic p, False, r1, [], [])
              | Ok extraBufferedData \<Rightarrow>
                  (let (sendErr, (sent, _)) = io_Copy conn_Write (extraBufferedData # rd_chunks (tn_client tn))
                         (rd_err (tn_client tn)) ([], tn_to_server tn);
                       (recvErr, (received, _)) = io_Copy conn_Write (rd_chunks (tn_server tn)) (rd_err (tn_server tn)) ([], tn_to_client tn);
                       ret = of_err (wrap_opt ''error getting response from server'' recvErr);
                       ret = defer_err ret (wrap_opt ''error sending to dest'' sendErr);
                       ret = defer_err ret (wrap_opt ''error closing src conn'' (rd_close (tn_client tn)))
                   in (close_dest ret, True, r1, sent, received)))))"

text \<open>
  The handler: the error that is logged, the response, and what both sides received. A hijacked response takes no
  more. The text of an error (\<open>err.Error()\<close>) is the parameter \<open>err_text\<close>.
\<close>

definition handleConnect :: "(err \<Rightarrow> string) \<Rightarrow> tunnel \<Rightarrow> rw \<Rightarrow> err option \<times> rw \<times> bytes \<times> bytes" where
  "handleConnect err_text tn r =
     (case run_tunnel tn r of
        (Err e, hijacked, r1, sent, received) \<Rightarrow>
          (if err_is e ECONNRESET then (None, r1, sent, received)
           else (Some e, (if hijacked then r1 else http_Error (err_text e) 500 r1), sent, received))
      | (_, hijacked, r1, sent, received) \<Rightarrow> (None, r1, sent, received))"

text \<open>The handler of the main server: CONNECT requests go through a tunnel, other ones to the configured handler.\<close>

definition main_handler :: "(err \<Rightarrow> string) \<Rightarrow> (request \<Rightarrow> rw \<Rightarrow> 's \<Rightarrow> rw \<times> 's) \<Rightarrow> (request \<Rightarrow> tunnel) \<Rightarrow> request \<Rightarrow> rw \<Rightarrow> 's \<Rightarrow> rw \<times> 's" where
  "main_handler err_text handler tunnel_of q r s =
     (if rq_Method q = ''CONNECT'' then (fst (snd (handleConnect err_text (tunnel_of q) r)), s) else handler q r s)"

lemma copy_all: "io_Copy conn_Write cs None (d, []) = (None, (d @ concat cs, []))"
  by (induction cs arbitrary: d) auto

text \<open>A tunnel without faults carries both streams unchanged, and answers 200.\<close>

lemma tunnel_carries:
  assumes "tn_dial tn = None" and "tn_hijacker tn" and "tn_hijack tn = Ok b" and "tn_to_client tn = []" and "tn_to_server tn = []"
    and "rd_err (tn_client tn) = None" and "rd_err (tn_server tn) = None" and "rd_close (tn_client tn) = None" and "rd_close (tn_server tn) = None"
  shows "handleConnect err_text tn r = (None, rw_WriteHeader 200 r, b @ rd_content (tn_client tn), rd_content (tn_server tn))"
  using assms copy_all [of "b # rd_chunks (tn_client tn)" "[]"] copy_all [of "rd_chunks (tn_server tn)" "[]"]
  by (simp add: handleConnect_def run_tunnel_def rd_content_def)

end
