(* ===== verification/Session.thy ===== *)
theory Session
  imports Environment ProxyServer
begin

text \<open>
  A session (\<open>RunListenerWithSubprocess\<close> in htvend/flags_listener.go): the proxy server with, inside it, a temporary
  directory, the environment and the subprocess. What the subprocess does is a parameter, a function of the
  files and of everything else (\<open>'v\<close>: the handlers of the proxy, the manifest, the storage services, the network), so that
  the requests it makes of the proxy are part of it.
\<close>

section \<open>The child\<close>

text \<open>
  \<open>cmd_Run\<close> starts the process with its arguments and its environment; \<open>environ\<close> and \<open>shell\<close> are what the program
  found. A daemon without a subprocess waits for the end of its context, which is no error; \<open>until_Done\<close> is what
  happens meanwhile, such as the requests of others that the proxy answers. Neither \<open>ServeUntilDone\<close> nor the command
  waits for the handlers of requests that are still in flight when the child ends: \<open>Serve\<close> returns as soon as
  \<open>Shutdown\<close> is called, and nobody waits for \<open>Shutdown\<close>. \<open>in_flight\<close> is what they do before the command goes on.
\<close>

record ('c, 'v) surroundings =
  sd_stores :: "'c stores"
  sd_tmp :: path
  sd_environ :: "string list"
  sd_shell :: string
  cmd_Run :: "string \<Rightarrow> string list \<Rightarrow> string list \<Rightarrow> os \<times> 'v \<Rightarrow> err option \<times> os \<times> 'v"
  until_Done :: "os \<times> 'v \<Rightarrow> os \<times> 'v"
  in_flight :: "os \<times> 'v \<Rightarrow> os \<times> 'v"

definition session_child :: "('c, 'v) surroundings \<Rightarrow> ListenerOptions \<Rightarrow> string \<Rightarrow> string \<Rightarrow> bytes \<Rightarrow> os \<times> 'v \<Rightarrow> unit res \<times> os \<times> 'v" where
  "session_child sd opts prompt proxyAddr caPem =
     WithTempDir (sd_tmp sd) (\<lambda>tempDir (w, v).
       case session_env (sd_stores sd) opts proxyAddr caPem tempDir w of
         (Err e, _, w1) \<Rightarrow> (Err e, w1, v)
       | (Panic p, _, w1) \<Rightarrow> (Panic p, w1, v)
       | (Ok _, e, w1) \<Rightarrow>
           (if \<not> Daemon opts
            then RunSubprocess (cmd_Run sd) (sd_environ sd) (sd_shell sd) prompt (lo_Subprocess opts) (EnvOverrides e) (w1, v)
            else if Process (lo_Subprocess opts) \<noteq> []
            then (Err (Errorf (''if running as a daemon, no sub-process should be specified. Received: '' @ Process (lo_Subprocess opts)) []), w1, v)
            else (Ok (), until_Done sd (w1, v))))"

definition server_config :: "ListenerOptions \<Rightarrow> ProxyServerConfig" where
  "server_config opts = \<lparr>HttpListenAddr = ListenAddr opts, HttpsListenAddr = TlsListenAddr opts, TlsCertPath = TlsCertPem opts,
     TlsKeyPath = TlsKeyPem opts, TlsGenerateIfMissing = lo_TlsGenerateIfMissing opts\<rparr>"

section \<open>The session\<close>

text \<open>The error value of a result without a panic.\<close>

fun err_of :: "unit res \<Rightarrow> err option" where
  "err_of (Ok _) = None"
| "err_of (Err e) = Some e"
| "err_of (Panic p) = Some (Errorf p [])"

text \<open>
  The outcomes of a session that starts with the files \<open>w\<close>, the random source \<open>r\<close> and the rest \<open>v\<close>: the keys could not
  be made; the server returned without having run its child; the child ran, and what it returned was its event in
  the run of the server, while the handlers of requests in flight went on; or the child panicked, which ends the program. \<open>addr\<close> is the address that the first listener got.
\<close>

inductive RunListenerWithSubprocess :: "('k, 'p, 'c, 'r) crypto \<Rightarrow> path \<Rightarrow> ('c, 'v) surroundings \<Rightarrow> ListenerOptions \<Rightarrow> string \<Rightarrow>
    os \<times> 'r \<times> 'v \<Rightarrow> unit res \<Rightarrow> os \<times> 'r \<times> 'v \<Rightarrow> bool"
  for cr cwd sd opts prompt where
  no_keys: "newSelfSignedServer cr cwd (server_config opts) (w, r) = (x, w1, r1) \<Longrightarrow> \<not> is_Ok x \<Longrightarrow>
     ret = (case x of Err e \<Rightarrow> Err (wrap ''error creating keys for server'' e) | Panic p \<Rightarrow> Panic p | Ok _ \<Rightarrow> Ok ()) \<Longrightarrow>
     RunListenerWithSubprocess cr cwd sd opts prompt (w, r, v) ret (w1, r1, v)"
| no_child: "newSelfSignedServer cr cwd (server_config opts) (w, r) = (Ok hs, w1, r1) \<Longrightarrow>
     serve_run es (serve_init False) = Some s \<Longrightarrow> pc s = Returned \<Longrightarrow> (\<forall>ce. Child ce \<notin> set es) \<Longrightarrow>
     RunListenerWithSubprocess cr cwd sd opts prompt (w, r, v) (of_err (retErr s)) (w1, r1, v)"
| served: "newSelfSignedServer cr cwd (server_config opts) (w, r) = (Ok hs, w1, r1) \<Longrightarrow>
     session_child sd opts prompt addr (caPEM hs) (w1, v) = (x, w2, v2) \<Longrightarrow> \<not> is_Panic x \<Longrightarrow>
     serve_run es (serve_init False) = Some s \<Longrightarrow> pc s = Returned \<Longrightarrow> Child (err_of x) \<in> set es \<Longrightarrow>
     in_flight sd (w2, v2) = (w3, v3) \<Longrightarrow>
     RunListenerWithSubprocess cr cwd sd opts prompt (w, r, v) (of_err (retErr s)) (w3, r1, v3)"
| panicked: "newSelfSignedServer cr cwd (server_config opts) (w, r) = (Ok hs, w1, r1) \<Longrightarrow>
     session_child sd opts prompt addr (caPEM hs) (w1, v) = (Panic p, w2, v2) \<Longrightarrow>
     RunListenerWithSubprocess cr cwd sd opts prompt (w, r, v) (Panic p) (w2, r1, v2)"

inductive_cases RunListener_Ok: "RunListenerWithSubprocess cr cwd sd opts prompt (w, r, v) (Ok u) (w2, r1, v2)"

text \<open>\<open>RunUntilSignals\<close> and the deferred close of the command are around it.\<close>

section \<open>What a successful session has done\<close>

lemma WithTempDir_Ok:
  assumes "WithTempDir tmp f (w, v) = (Ok u, w3, v3)"
  shows "\<exists>td w1 w2. os_MkdirTemp tmp w = (Ok td, w1) \<and> f td (w1, v) = (Ok u, w2, v3) \<and> (\<forall>p \<in> set (used_names w3). \<not> below td p)"
proof -
  obtain td w1 ret w2 v2 d where m: "os_MkdirTemp tmp w = (Ok td, w1)" and f: "f td (w1, v) = (ret, w2, v2)"
    and d: "deleteDir td w2 = (d, w3)" and r: "defer_res ret d = Ok u" and v: "v2 = v3"
    using assms by (auto simp: WithTempDir_def split: prod.splits res.splits)
  from r have "ret = Ok u" and "is_Ok d" by (simp_all add: defer_res_Ok)
  moreover from this obtain y where "d = Ok y" by (cases d) auto
  ultimately have "ret = Ok u" "d = Ok y" by simp_all
  then show ?thesis using m f d v deleteDir_Ok by metis
qed

lemma session_child_Ok:
  assumes "session_child sd opts prompt addr pem (w1, v) = (Ok u, w2, v2)"
  shows "\<exists>td e wa wb wc. td \<notin> set (used_names w1) \<and> session_env (sd_stores sd) opts addr pem td wa = (Ok (), e, wb) \<and>
    fs_get wa = fs_get w1 \<and>
    (if Daemon opts then until_Done sd (wb, v) = (wc, v2)
     else \<exists>p args extra. subprocess_cmd (sd_shell sd) prompt (lo_Subprocess opts) (EnvOverrides e) = Ok (p, args, extra) \<and>
       cmd_Run sd p args (sd_environ sd @ extra) (wb, v) = (None, wc, v2)) \<and>
    (\<forall>p \<in> set (used_names w2). \<not> below td p)"
proof -
  from WithTempDir_Ok [OF assms [unfolded session_child_def]] obtain td wa wc where
    m: "os_MkdirTemp (sd_tmp sd) w1 = (Ok td, wa)"
    and f: "(case session_env (sd_stores sd) opts addr pem td wa of
         (Err e, _, w1) \<Rightarrow> (Err e, w1, v)
       | (Panic p, _, w1) \<Rightarrow> (Panic p, w1, v)
       | (Ok _, e, w1) \<Rightarrow>
           (if \<not> Daemon opts
            then RunSubprocess (cmd_Run sd) (sd_environ sd) (sd_shell sd) prompt (lo_Subprocess opts) (EnvOverrides e) (w1, v)
            else if Process (lo_Subprocess opts) \<noteq> []
            then (Err (Errorf (''if running as a daemon, no sub-process should be specified. Received: '' @ Process (lo_Subprocess opts)) []), w1, v)
            else (Ok (), until_Done sd (w1, v)))) = (Ok u, wc, v2)"
    and g: "\<forall>p \<in> set (used_names w2). \<not> below td p"
    by auto
  from f obtain e wb where e: "session_env (sd_stores sd) opts addr pem td wa = (Ok (), e, wb)"
    by (auto split: prod.splits res.splits)
  from f e have "if Daemon opts then until_Done sd (wb, v) = (wc, v2)
     else \<exists>p args extra. subprocess_cmd (sd_shell sd) prompt (lo_Subprocess opts) (EnvOverrides e) = Ok (p, args, extra) \<and>
       cmd_Run sd p args (sd_environ sd @ extra) (wb, v) = (None, wc, v2)"
    by (auto simp: RunSubprocess_def res_simps split: if_splits prod.splits res.splits)
  then show ?thesis using e g MkdirTemp_Ok [OF m] by blast
qed

text \<open>A server that returns without having run its child returns an error.\<close>

lemma run_without_child:
  assumes "serve_run es (serve_init p) = Some s" and "\<forall>r. Child r \<notin> set es" and "pc s \<in> {Returning, Returned}"
  shows "retErr s \<noteq> None"
  using assms
proof (induction es arbitrary: s rule: rev_induct)
  case Nil
  then show ?case by (auto simp: serve_init_def)
next
  case (snoc ev es)
  then obtain u where u: "serve_run es (serve_init p) = Some u" and t: "serve_step ev u = Some s"
    by (auto simp: serve_run_append split: option.splits)
  have IH: "pc u \<in> {Returning, Returned} \<Longrightarrow> retErr u \<noteq> None" using snoc.IH [OF u] snoc.prems(2) by simp
  show ?case
  proof (cases "ev = Deferred")
    case True
    then have d: "serve_step Deferred u = Some s" and "stack_inv u" using t run_inv [OF u] by (simp_all add: serve_inv_def)
    note pc = deferred_pc [OF d]
    from d \<open>stack_inv u\<close> show ?thesis by (rule deferred_cases) (use IH pc in \<open>auto simp: pick_err_def\<close>)
  next
    case False
    with t show ?thesis by (rule other_cases) (use IH snoc.prems(2,3) in auto)
  qed
qed

lemma pick_err_None: "pick_err m e r = None \<Longrightarrow> r = None"
  by (auto simp: pick_err_def split: if_splits)

section \<open>Properties\<close>

text \<open>
  C19. A successful session. When a session ends without an error, its subprocess was run, in the environment of the
  options, with the PEM text of the server's authority in a directory that did not exist before, it ended without
  an error, and after it nothing is left of that directory. A daemon has run no subprocess, and
  has waited for the end of its context. What comes after that is the work of requests in flight only.
\<close>

theorem session_success:
  assumes "RunListenerWithSubprocess cr cwd sd opts prompt (w, r, v) (Ok ()) (w2, r1, v2)"
  shows "\<exists>hs w1 td e wa wb wc addr w3 v3. newSelfSignedServer cr cwd (server_config opts) (w, r) = (Ok hs, w1, r1) \<and>
    td \<notin> set (used_names w1) \<and> session_env (sd_stores sd) opts addr (caPEM hs) td wa = (Ok (), e, wb) \<and> fs_get wa = fs_get w1 \<and>
    (if Daemon opts then until_Done sd (wb, v) = (wc, v3)
     else \<exists>p args extra. subprocess_cmd (sd_shell sd) prompt (lo_Subprocess opts) (EnvOverrides e) = Ok (p, args, extra) \<and>
       cmd_Run sd p args (sd_environ sd @ extra) (wb, v) = (None, wc, v3)) \<and>
    (\<forall>p \<in> set (used_names w3). \<not> below td p) \<and> in_flight sd (w3, v3) = (w2, v2)"
  using assms
proof (rule RunListener_Ok)
  fix x
  assume "\<not> is_Ok x" and "Ok () = (case x of Err e \<Rightarrow> Err (wrap ''error creating keys for server'' e) | Panic p \<Rightarrow> Panic p | Ok _ \<Rightarrow> Ok ())"
  then show ?thesis by (cases x) auto
next
  fix es s
  assume "serve_run es (serve_init False) = Some s" and "pc s = Returned" and "\<forall>ce. Child ce \<notin> set es" and "Ok () = of_err (retErr s)"
  then show ?thesis using run_without_child [of es False s] by (cases "retErr s") auto
next
  fix hs w1 addr x w3 v3 es s
  assume k: "newSelfSignedServer cr cwd (server_config opts) (w, r) = (Ok hs, w1, r1)"
    and c: "session_child sd opts prompt addr (caPEM hs) (w1, v) = (x, w3, v3)" and fl: "in_flight sd (w3, v3) = (w2, v2)"
    and s: "serve_run es (serve_init False) = Some s" "pc s = Returned" "Child (err_of x) \<in> set es" and r: "Ok () = of_err (retErr s)"
  obtain te me where "retErr s = pick_err ''error from main server'' me (pick_err ''error from tls server'' te (err_of x))"
    using serve_outcome [OF s] by blast
  moreover have "retErr s = None" using r by (cases "retErr s") simp_all
  ultimately have "err_of x = None" using pick_err_None by metis
  then have "x = Ok ()" by (cases x) auto
  then have "session_child sd opts prompt addr (caPEM hs) (w1, v) = (Ok (), w3, v3)" using c by simp
  from session_child_Ok [OF this] k fl show ?thesis by blast
qed

text \<open>A subprocess that counts its runs.\<close>

definition sample_sd :: "(string, nat) surroundings" where
  "sample_sd = \<lparr>sd_stores = sample_stores, sd_tmp = [''tmp''], sd_environ = [''PATH=/bin''], sd_shell = [],
     cmd_Run = (\<lambda>p args env (w, v). (None, w, v + 1)), until_Done = (\<lambda>x. x), in_flight = (\<lambda>x. x)\<rparr>"

definition sample_os :: os where
  "sample_os = \<lparr>files = [], dirs = [[''tmp'']], faults = []\<rparr>"

lemma session_success_witness:
  "\<exists>w2 r1. RunListenerWithSubprocess sample_crypto [] sample_sd sample_listener ''htvend'' (sample_os, 0, 0) (Ok ()) (w2, r1, 1) \<and>
     (\<exists>td. td \<notin> set (used_names sample_os) \<and> (\<forall>p \<in> set (used_names w2). \<not> below td p))"
proof -
  let ?k = "newSelfSignedServer sample_crypto [] (server_config sample_listener) (sample_os, 0)"
  have "is_Ok (fst ?k)" and kw: "fst (snd ?k) = sample_os" by code_simp+
  then obtain hs r1 where k: "?k = (Ok hs, sample_os, r1)" by (cases ?k) (auto elim!: is_Ok.elims)
  let ?c = "\<lambda>pem. session_child sample_sd sample_listener ''htvend'' ''p:1'' pem (sample_os, 0)"
  have "caPEM hs = pem_Encode ''CERTIFICATE'' ''cert''"
    using k by (auto simp: newSelfSignedServer_def obtain_keys_def server_config_def sample_listener_def sample_crypto_def
        generateKeyCert_def Let_def)
  moreover have "is_Ok (fst (?c (pem_Encode ''CERTIFICATE'' ''cert'')))" and "snd (snd (?c (pem_Encode ''CERTIFICATE'' ''cert''))) = 1"
    by code_simp+
  ultimately obtain w2 where c: "?c (caPEM hs) = (Ok (), w2, 1)" by (cases "?c (caPEM hs)") (auto elim!: is_Ok.elims)
  obtain s where r: "serve_run clean_run (serve_init False) = Some s" "pc s = Returned" and e: "retErr s = None"
    by (simp add: clean_run_def serve_init_def serve_ends_def pick_err_def)
  have "Child (err_of (Ok ())) \<in> set clean_run" by (simp add: clean_run_def)
  from RunListenerWithSubprocess.served [OF k c _ r this, of w2 1] e
  have run: "RunListenerWithSubprocess sample_crypto [] sample_sd sample_listener ''htvend'' (sample_os, 0, 0) (Ok ()) (w2, r1, 1)"
    by (simp add: sample_sd_def)
  have "in_flight sample_sd x = x" for x by (simp add: sample_sd_def)
  with session_success [OF run] k run show ?thesis by auto
qed

end
