(* ===== verification/SessionRun.thy ===== *)
theory SessionRun
  imports CommandRuns Session ServerThreads
begin

text \<open>
  A session seen from its manifest and its blob directory: requests that arrive, in any number and order, steps of their
  handlers, interleaved in any way, and between them what the session and its subprocess do beside them. Every outcome
  of a session (\<open>RunListenerWithSubprocess\<close>) is such a run, when its keys and its temporary directory are elsewhere
  and its subprocess leaves the two alone. At its end some handlers may not have finished.
\<close>

section \<open>What happens beside a manifest and a blob directory\<close>

text \<open>
  The manifest file \<open>p\<close> and the files in the directory \<open>d\<close> stay, no directory appears in \<open>d\<close>, and failures of the
  system are errors of its own.
\<close>

definition beside :: "path \<Rightarrow> path \<Rightarrow> os \<Rightarrow> os \<Rightarrow> bool" where
  "beside p d w w' \<longleftrightarrow> (\<forall>q. q = p \<or> butlast q = d \<longrightarrow> fs_get w' q = fs_get w q) \<and>
     (\<forall>q \<in> set (dirs w'). butlast q = d \<longrightarrow> q \<in> set (dirs w)) \<and> (\<forall>f \<in> set (faults w'). f \<in> set (faults w) \<or> fault_ok f)"

lemma beside_refl [simp]: "beside p d w w"
  by (simp add: beside_def)

lemma beside_trans: "beside p d w1 w2 \<Longrightarrow> beside p d w2 w3 \<Longrightarrow> beside p d w1 w3"
  unfolding beside_def by metis

lemma beside_env: "env_le w w' \<Longrightarrow> (\<And>q. q = p \<or> butlast q = d \<Longrightarrow> fs_get w' q = fs_get w q) \<Longrightarrow> beside p d w w'"
  by (auto simp: beside_def env_le_def)

lemma beside_keeps:
  assumes "beside p d w w'"
  shows "fs_get w' p = fs_get w p" and "dir_holds d w' = dir_holds d w" and "dir_inv d w \<Longrightarrow> dir_inv d w'"
  using assms by (auto simp: beside_def dir_holds_def fun_eq_iff dir_inv_def list_all_iff butlast_append)

text \<open>A place that is neither the manifest nor the blob directory or a part of it.\<close>

definition elsewhere :: "path \<Rightarrow> path \<Rightarrow> path \<Rightarrow> bool" where
  "elsewhere p d q \<longleftrightarrow> q \<noteq> p \<and> \<not> below d q"

lemma below_iff: "below a b \<longleftrightarrow> (\<exists>c. b = a @ c)"
  by (auto simp: below_def) (metis append_take_drop_id)

lemma below_self [simp]: "below d d"
  by (simp add: below_def)

lemma below_trans: "below a b \<Longrightarrow> below b c \<Longrightarrow> below a c"
  by (auto simp: below_iff)

lemma below_butlast: "butlast q = d \<Longrightarrow> below d q"
  by (cases q rule: rev_cases) (auto simp: below_iff)

lemma below_last:
  assumes "below a q"
  shows "a = q \<or> below a (butlast q)"
proof -
  obtain c where "q = a @ c" using assms by (auto simp: below_iff)
  then show ?thesis by (cases c rule: rev_cases) (auto simp: below_iff butlast_append)
qed

lemma prefix_below: "q \<in> set (prefixes_of r) \<Longrightarrow> below q r"
  by (auto simp: prefixes_of_def below_def min_def)

section \<open>Single operations\<close>

lemma beside_ReadFile: "os_ReadFile q w = (r, w') \<Longrightarrow> beside p d w w'"
  by (rule beside_env) (auto dest: os_ReadFile_env os_ReadFile_same)

lemma beside_WriteFile: "os_WriteFile q b w = (r, w') \<Longrightarrow> q \<noteq> p \<Longrightarrow> butlast q \<noteq> d \<Longrightarrow> beside p d w w'"
  by (rule beside_env) (auto dest: os_WriteFile_env os_WriteFile_frame)

lemma beside_MkdirAll:
  assumes "os_MkdirAll q w = (r, w')" and "\<not> below d q"
  shows "beside p d w w'"
proof -
  have "butlast x \<noteq> d" if "x \<in> set (prefixes_of q)" for x
    using that assms(2) prefix_below [OF that] below_butlast [of x d] below_trans [of d x q] by auto
  then show ?thesis using os_MkdirAll_fs [OF assms(1)] os_MkdirAll_faults [OF assms(1)] by (auto simp: beside_def)
qed

lemma beside_Mkdir:
  assumes "os_Mkdir q w = (r, w')" and "butlast q \<noteq> d"
  shows "beside p d w w'"
proof -
  obtain f w0 where pf: "pop_fault w = (f, w0)" by fastforce
  show ?thesis
    using assms pf pop_fault_same [OF pf] pop_fault_env [OF pf]
    by (auto simp: os_Mkdir_def beside_def fs_simps env_le_def split: fault.splits if_splits)
qed

text \<open>The temporary directory: a name that \<open>MkdirTemp\<close> may choose is not above the manifest or the blobs.\<close>

definition tmp_apart :: "path \<Rightarrow> path \<Rightarrow> path \<Rightarrow> bool" where
  "tmp_apart tmp p d \<longleftrightarrow> tmp \<noteq> d \<and> (\<forall>n. \<not> below (tmp @ [tmp_dir_name n]) p \<and> \<not> below (tmp @ [tmp_dir_name n]) d)"

lemma fresh_dir_shape: "\<exists>n. fresh_dir w tmp = tmp @ [tmp_dir_name n]"
  by (auto simp: fresh_dir_def split: option.splits)

lemma beside_MkdirTemp:
  assumes "os_MkdirTemp tmp w = (r, w')" and "tmp \<noteq> d"
  shows "beside p d w w' \<and> (\<forall>td. r = Ok td \<longrightarrow> (\<exists>n. td = tmp @ [tmp_dir_name n]))"
proof -
  obtain f w0 where pf: "pop_fault w = (f, w0)" by fastforce
  obtain n where n: "fresh_dir w0 tmp = tmp @ [tmp_dir_name n]" using fresh_dir_shape by blast
  show ?thesis
    using assms pf n pop_fault_same [OF pf] pop_fault_env [OF pf]
    by (auto simp: os_MkdirTemp_def beside_def fs_simps env_le_def split: fault.splits if_splits)
qed

lemma fold_fs_del: "q \<notin> set ps \<Longrightarrow> fs_get (fold fs_del ps w) q = fs_get w q"
  by (induction ps arbitrary: w) (auto simp: fs_simps)

lemma fold_fs_del_same: "dirs (fold fs_del ps w) = dirs w" "faults (fold fs_del ps w) = faults w"
  by (induction ps arbitrary: w) auto

lemma map_of_filter_fst: "(\<And>c. P (q, c)) \<Longrightarrow> map_of (filter P xs) q = map_of xs q"
  by (induction xs) auto

lemma beside_RemoveAll:
  assumes "os_RemoveAll q w = (r, w')" and "\<not> below q p" and "\<And>x. butlast x = d \<Longrightarrow> \<not> below q x"
  shows "beside p d w w'"
proof -
  obtain f w0 where pf: "pop_fault w = (f, w0)" by fastforce
  note w0 = pop_fault_same [OF pf] pop_fault_env [OF pf]
  show ?thesis
  proof (cases f)
    case Pass
    then have "w' = w0\<lparr>files := filter (\<lambda>(p, c). \<not> below q p) (files w0), dirs := filter (\<lambda>p. \<not> below q p) (dirs w0)\<rparr>"
      using assms(1) pf by (simp add: os_RemoveAll_def)
    moreover from this have "fs_get w' x = fs_get w0 x" if "\<not> below q x" for x
      using that map_of_filter_fst [of "\<lambda>(p, c). \<not> below q p" x "files w0"] by (simp add: fs_get_def)
    ultimately show ?thesis using w0 assms(2,3) by (auto simp: beside_def env_le_def)
  next
    case (FailAt n e)
    then have w': "w' = fold fs_del (take n (filter (below q) (map fst (files w0)))) w0"
      using assms(1) pf by (simp add: os_RemoveAll_def)
    have "fs_get w' x = fs_get w0 x" if "\<not> below q x" for x
      unfolding w' by (rule fold_fs_del) (use that in \<open>auto dest: in_set_takeD\<close>)
    then show ?thesis using w0 assms(2,3) by (auto simp: beside_def env_le_def w' fold_fs_del_same)
  qed
qed

lemma beside_deleteDir:
  assumes "deleteDir q w = (r, w')" and "\<not> below q p" and "\<And>x. butlast x = d \<Longrightarrow> \<not> below q x"
  shows "beside p d w w'"
proof -
  obtain e w1 where st: "os_Stat q w = (e, w1)" by fastforce
  have b1: "beside p d w w1" by (rule beside_env) (use os_Stat_env [OF st] os_Stat_same [OF st] in auto)
  obtain e2 w2 where rm: "os_RemoveAll q w1 = (e2, w2)" by fastforce
  show ?thesis
    using assms(1) st rm b1 beside_trans [OF b1 beside_RemoveAll [OF rm assms(2,3)]]
    by (cases e) (auto simp: deleteDir_def)
qed

section \<open>The keys and the environment\<close>

definition keys_elsewhere :: "path \<Rightarrow> path \<Rightarrow> path \<Rightarrow> ListenerOptions \<Rightarrow> bool" where
  "keys_elsewhere cwd p d opts \<longleftrightarrow> (TlsCertPem opts = [] \<longleftrightarrow> TlsKeyPem opts = []) \<and>
     (TlsCertPem opts \<noteq> [] \<longrightarrow> elsewhere p d (path_of cwd (TlsCertPem opts)) \<and> elsewhere p d (path_of cwd (TlsKeyPem opts)))"

lemma elsewhere_write: "elsewhere p d q \<Longrightarrow> q \<noteq> p \<and> butlast q \<noteq> d"
  using below_butlast [of q d] by (auto simp: elsewhere_def)

lemma elsewhere_parent: "elsewhere p d q \<Longrightarrow> \<not> below d (butlast q)"
proof -
  have "below (butlast q) q" by (rule below_butlast) simp
  then show "elsewhere p d q \<Longrightarrow> \<not> below d (butlast q)" using below_trans [of d "butlast q" q] by (auto simp: elsewhere_def)
qed

lemma name_ops_beside:
  "name_ReadFile cwd s w = (x, w') \<Longrightarrow> beside p d w w'"
  "name_WriteFile cwd s b w = (y, w') \<Longrightarrow> s \<noteq> [] \<Longrightarrow> elsewhere p d (path_of cwd s) \<Longrightarrow> beside p d w w'"
  "name_MkdirAll cwd s w = (z, w') \<Longrightarrow> s \<noteq> [] \<Longrightarrow> elsewhere p d (path_of cwd s) \<Longrightarrow> beside p d w w'"
  by (auto simp: name_ReadFile_def name_WriteFile_def name_MkdirAll_def split: if_splits dest: beside_ReadFile elsewhere_parent
      intro: beside_MkdirAll beside_WriteFile dest: elsewhere_write)

lemma readKeyCert_beside: "readKeyCert cr cwd k c w = (x, w') \<Longrightarrow> beside p d w w'"
  by (auto simp: readKeyCert_def LoadX509KeyPair_def split: prod.splits res.splits option.splits dest!: name_ops_beside(1) [where p = p and d = d]
      intro: beside_trans)

lemma save_keys_beside:
  assumes "save_keys cr cwd cfg k pem w = (x, w')" and "TlsKeyPath cfg \<noteq> []" and "TlsCertPath cfg \<noteq> []"
    and "elsewhere p d (path_of cwd (TlsKeyPath cfg))" and "elsewhere p d (path_of cwd (TlsCertPath cfg))"
  shows "beside p d w w'"
proof -
  note n = name_ops_beside(2) [OF _ assms(2,4)] name_ops_beside(3) [OF _ assms(2,4)]
    name_ops_beside(2) [OF _ assms(3,5)] name_ops_beside(3) [OF _ assms(3,5)]
  show ?thesis
    using assms(1) by (auto simp: save_keys_def split: res.splits prod.splits option.splits dest!: n intro: beside_trans)
qed

lemma keys_beside:
  assumes "newSelfSignedServer cr cwd (server_config opts) (w, r) = (x, w1, r1)" and "keys_elsewhere cwd p d opts"
  shows "beside p d w w1"
proof -
  let ?cfg = "server_config opts"
  obtain y wa ra where o: "obtain_keys cr cwd ?cfg (w, r) = (y, wa, ra)" by (metis prod_cases3)
  have ob: "beside p d w wa \<and> (TlsCertPem opts = [] \<longrightarrow> (\<forall>k c. y \<noteq> Ok (k, c, True)))"
    using o assms(2)
    by (auto simp: obtain_keys_def server_config_def keys_elsewhere_def split: if_splits prod.splits res.splits
        dest!: readKeyCert_beside [where p = p and d = d])
  have sv: "beside p d wa w2" if "save_keys cr cwd ?cfg k pem wa = (z, w2)" and "TlsCertPem opts \<noteq> []" for k pem z w2
    using save_keys_beside [OF that(1)] that(2) assms(2) by (auto simp: keys_elsewhere_def server_config_def)
  show ?thesis
    using assms(1) o ob beside_trans
    by (cases "TlsCertPem opts = []")
      (auto simp: newSelfSignedServer_def Let_def split: res.splits prod.splits option.splits if_splits dest!: sv)
qed

definition plain_name :: "string \<Rightarrow> bool" where
  "plain_name t \<longleftrightarrow> t \<noteq> [] \<and> t \<noteq> ''.'' \<and> t \<noteq> ''..'' \<and> CHR ''/'' \<notin> set t"

lemma str_split_plain: "c \<notin> set t \<Longrightarrow> str_split c t = [t]"
  by (induction t) auto

lemma path_join_plain: "plain_name t \<Longrightarrow> path_join p t = p @ [t]"
  by (simp add: path_join_def plain_name_def str_split_plain)

text \<open>A file in the temporary directory is neither the manifest nor a blob.\<close>

lemma in_temp:
  assumes "tmp_apart tmp p d" and "td = tmp @ [tmp_dir_name n]"
  shows "td @ [x] \<noteq> p" "butlast (td @ [x]) \<noteq> d" "\<not> below td p" "butlast y = d \<Longrightarrow> \<not> below td y"
proof -
  have "\<not> below td p" "\<not> below td d" "butlast td \<noteq> d" using assms by (auto simp: tmp_apart_def)
  then show "td @ [x] \<noteq> p" "butlast (td @ [x]) \<noteq> d" "\<not> below td p" "butlast y = d \<Longrightarrow> \<not> below td y"
    using below_last [of td y] by (auto simp: below_iff)
qed

text \<open>What an appender keeps, of the context and of the files.\<close>

definition env_beside :: "path \<Rightarrow> path \<Rightarrow> path \<Rightarrow> ListenerOptions \<Rightarrow> envCtx \<times> os \<Rightarrow> envCtx \<times> os \<Rightarrow> bool" where
  "env_beside p d td opts s s' \<longleftrightarrow>
     (TempDir (fst s) = td \<and> Options (fst s) = opts \<longrightarrow> TempDir (fst s') = td \<and> Options (fst s') = opts \<and> beside p d (snd s) (snd s'))"

lemma env_beside_trans: "env_beside p d td opts s1 s2 \<Longrightarrow> env_beside p d td opts s2 s3 \<Longrightarrow> env_beside p d td opts s1 s3"
  by (auto simp: env_beside_def intro: beside_trans)

lemma run_appenders_beside:
  assumes "\<And>f s r s'. f \<in> set fs \<Longrightarrow> f s = (r, s') \<Longrightarrow> env_beside p d td opts s s'"
  shows "run_appenders fs s = (r, s') \<Longrightarrow> env_beside p d td opts s s'"
  using assms
proof (induction fs arbitrary: s)
  case (Cons f fs)
  obtain x s1 where f: "f s = (x, s1)" by (metis surj_pair)
  have b: "env_beside p d td opts s s1" using Cons.prems(2) [of f s x s1] f by simp
  show ?case
  proof (cases x)
    case (Ok y)
    then have "run_appenders fs s1 = (r, s')" using Cons.prems(1) f by simp
    then have "env_beside p d td opts s1 s'" by (rule Cons.IH) (erule Cons.prems(2) [OF list.set_intros(2)])
    with b show ?thesis by (rule env_beside_trans)
  qed (use Cons.prems(1) f b in auto)
qed (simp add: env_beside_def)

lemma make_tmp_dirs_beside:
  assumes "tmp_apart tmp p d" and "td = tmp @ [tmp_dir_name n]" and "\<forall>t \<in> set ts. plain_name t"
  shows "make_tmp_dirs ts s = (r, s') \<Longrightarrow> env_beside p d td opts s s'"
  using assms(3)
proof (induction ts arbitrary: s)
  case Nil
  then show ?case by (cases s) (simp add: env_beside_def)
next
  case (Cons t ts)
  obtain e w where s: "s = (e, w)" by fastforce
  obtain y w1 where m: "os_Mkdir (path_join (TempDir e) t) w = (y, w1)" by fastforce
  have b: "beside p d w w1" if "TempDir e = td"
    using beside_Mkdir [OF m] that in_temp(2) [OF assms(1,2), of t] Cons.prems(2) by (simp add: path_join_plain)
  show ?case
  proof (cases y)
    case None
    let ?s1 = "(env_set [t] (path_text (path_join (TempDir e) t)) e, w1)"
    have "env_beside p d td opts s ?s1" using b by (simp add: env_beside_def s)
    moreover have "env_beside p d td opts ?s1 s'" by (rule Cons.IH) (use Cons.prems s m None in auto)
    ultimately show ?thesis by (rule env_beside_trans)
  qed (use Cons.prems(1) s m b in \<open>auto simp: env_beside_def\<close>)
qed

lemma session_env_beside:
  assumes "session_env st opts addr pem td w = (r, e, w')" and "tmp_apart tmp p d" and "td = tmp @ [tmp_dir_name n]"
    and "\<forall>t \<in> set (TmpDirs opts). plain_name t"
  shows "beside p d w w'"
proof -
  note tmp = in_temp(1,2) [OF assms(2,3)]
  have wr: "beside p d v v'" if "os_WriteFile (path_join t x) b v = (y, v')" and "t = td" and "x = ''cacerts.pem'' \<or> x = ''cacerts.jks''"
    for t x b v y v'
    by (rule beside_WriteFile [OF that(1)]) (use that(2,3) tmp in \<open>auto simp: join_plain\<close>)
  have "env_beside p d td opts s s'"
    if "f \<in> set [stdProxyVarsAppender, sslCertFileAppender, tmpDirsAppender, jksKeystoreAppender st]" and "f s = (x, s')" for f s x s'
  proof -
    obtain c v where s: "s = (c, v)" by fastforce
    from that consider "stdProxyVarsAppender s = (x, s')" | "sslCertFileAppender s = (x, s')" | "tmpDirsAppender s = (x, s')"
      | "jksKeystoreAppender st s = (x, s')" by auto
    then show ?thesis
    proof cases
      case 3
      then show ?thesis
        using make_tmp_dirs_beside [OF assms(2,3), of "TmpDirs (Options c)" s x s' opts] assms(4) s
        by (auto simp: tmpDirsAppender_def env_beside_def)
    qed (auto simp: s env_beside_def stdProxyVarsAppender_def sslCertFileAppender_def jksKeystoreAppender_def Let_def
        split: if_splits prod.splits option.splits res.splits intro: wr)
  qed
  from run_appenders_beside [of _ p d td opts, OF this assms(1) [unfolded session_env_def]] show ?thesis
    by (simp add: env_beside_def)
qed

section \<open>Runs\<close>

text \<open>The state of a session: the files and, beside them, the manifest, the services and the network.\<close>

definition srv_of :: "os \<times> 'h File \<times> 'm \<times> 'n \<times> nat \<Rightarrow> ('h, os \<times> 'm, 'n) srv" where
  "srv_of = (\<lambda>(w, f, m, n, k). \<lparr>sv_assets = f, sv_blobs = (w, m), sv_net = n, sv_missing = k\<rparr>)"

definition of_srv :: "('h, os \<times> 'm, 'n) srv \<Rightarrow> os \<times> 'h File \<times> 'm \<times> 'n \<times> nat" where
  "of_srv s = (fst (sv_blobs s), sv_assets s, snd (sv_blobs s), sv_net s, sv_missing s)"

lemma srv_of_srv [simp]: "srv_of (of_srv s) = s" "of_srv (srv_of v) = v"
  by (simp_all add: srv_of_def of_srv_def split: prod.split)

text \<open>The same with the handlers of the proxy, which belong to the state.\<close>

type_synonym ('b, 'h, 'm, 'n) session_rest = "'b threads \<times> 'h File \<times> 'm \<times> 'n \<times> nat"

definition cfg_of :: "os \<times> ('b, 'h, 'm, 'n) session_rest \<Rightarrow> 'b threads \<times> ('h, os \<times> 'm, 'n) srv" where
  "cfg_of = (\<lambda>(w, ts, v). (ts, srv_of (w, v)))"

lemma cfg_of_simps [simp]: "cfg_of (w, ts, v) = (ts, srv_of (w, v))"
  by (simp add: cfg_of_def)

inductive session_step :: "(os \<times> 'm, 'b) Store \<Rightarrow> (request \<Rightarrow> 'n \<Rightarrow> response res \<times> 'n) \<Rightarrow> listenerCtx \<Rightarrow> path \<Rightarrow> path \<Rightarrow>
    'b threads \<times> ('h, os \<times> 'm, 'n) srv \<Rightarrow> 'b threads \<times> ('h, os \<times> 'm, 'n) srv \<Rightarrow> bool"
  for st do_req lctx p d where
  serve: "threads_step st do_req lctx c c' \<Longrightarrow> session_step st do_req lctx p d c c'"
| elsewhere: "beside p d (fst (sv_blobs s)) w \<Longrightarrow>
     session_step st do_req lctx p d (ts, s) (ts, s\<lparr>sv_blobs := (w, m), sv_net := n\<rparr>)"

abbreviation session_run where
  "session_run st do_req lctx p d \<equiv> (session_step st do_req lctx p d)\<^sup>*\<^sup>*"

lemma serves_run: "(threads_step st do_req lctx)\<^sup>*\<^sup>* c c' \<Longrightarrow> session_run st do_req lctx p d c c'"
  by (induction rule: rtranclp_induct) (auto intro: session_step.serve rtranclp.rtrancl_into_rtrancl)

lemma beside_run:
  assumes "beside p d w w'"
  shows "session_run st do_req lctx p d (cfg_of (w, v)) (cfg_of (w', v))"
proof -
  obtain ts f m n k where v: "v = (ts, f, m, n, k)" by (metis prod_cases5)
  have "session_step st do_req lctx p d (ts, srv_of (w, f, m, n, k)) (ts, (srv_of (w, f, m, n, k))\<lparr>sv_blobs := (w', m), sv_net := n\<rparr>)"
    by (rule session_step.elsewhere) (use assms in \<open>simp add: srv_of_def\<close>)
  then show ?thesis by (simp add: srv_of_def v r_into_rtranclp)
qed

section \<open>What a run keeps\<close>

lemma handler_step_run:
  assumes "handler_step st do_req lctx t s = (t', s')"
  shows "file_run (sv_assets s) (sv_assets s')"
proof (cases t)
  case (H_Start r w)
  obtain g f where g: "GetBlob (extractReqFromURL r) (sv_assets s) = (g, f)" by (metis surj_pair)
  then have "sv_assets s' = sv_assets s \<or> sv_assets s' = f"
    using assms H_Start by (auto simp: Let_def split: if_splits res.splits option.splits)
  then show ?thesis using GetBlob_run [OF g] by auto
next
  case (H_Record u resp b digest w)
  show ?thesis
  proof (cases "filterHeaders (HeadersToCache lctx) (rs_Header resp)")
    case (Ok hs)
    obtain x f where a: "AddBlob u \<lparr>Sha256 = hex_encode digest, Headers = hs\<rparr> (sv_assets s) = (x, f)" by (metis surj_pair)
    then show ?thesis using assms H_Record Ok AddBlob_run [OF a] filterHeaders_wf [OF Ok] by auto
  qed (use assms H_Record in auto)
next
  case (H_Copy u resp b cs w)
  then show ?thesis using assms by (cases cs) (auto split: option.splits prod.splits simp del: io_CopyTee.simps)
qed (use assms in \<open>auto simp: Let_def split: if_splits res.splits option.splits prod.splits\<close>)

context store_frame begin

lemma handler_step_loc:
  assumes "handler_step st do_req lctx t s = (t', s')" and "\<And>b. pc_blob t = Some b \<Longrightarrow> bwf b"
  shows "loc (sv_blobs s) (sv_blobs s')"
proof (cases t)
  case (H_Found bi w)
  then show ?thesis using assms(1) by (auto split: prod.splits dest: serveFound_loc)
next
  case (H_Copy u resp b cs w)
  show ?thesis
  proof (cases cs)
    case Nil
    then show ?thesis using assms(1) H_Copy loc_refl by (auto split: option.splits)
  next
    case (Cons c cs')
    obtain x b1 v where wr: "Blob_Write st b c (sv_blobs s) = (x, b1, v)" by (metis surj_pair)
    then have "sv_blobs s' = v"
      using assms(1) H_Copy Cons by (auto simp: tee_blob_def blob_write_def tee_client_def split: option.splits if_splits prod.splits)
    then show ?thesis using loc_write [OF _ wr] assms(2) H_Copy by simp
  qed
next
  case (H_Response u resp w)
  then show ?thesis
    using assms(1) loc_refl by (auto simp: Let_def split: if_splits res.splits prod.splits dest: loc_put)
next
  case (H_Commit u resp b w)
  then show ?thesis using assms loc_commit [of b] by (auto split: res.splits prod.splits)
next
  case (H_Cleanup resp b x w)
  then show ?thesis using assms loc_cleanup [of b] by (auto split: prod.splits)
qed (use assms(1) loc_refl in \<open>auto simp: Let_def split: if_splits res.splits option.splits prod.splits\<close>)

end

text \<open>The invariant of the handlers over a blob directory, whose own temporary files nothing beside it touches.\<close>

abbreviation "dir_holds_at d \<equiv> \<lambda>v. dir_holds d (fst v)"
abbreviation "dir_inv_at d \<equiv> \<lambda>v. dir_inv d (fst v)"

definition dir_threads :: "path \<Rightarrow> listenerCtx \<Rightarrow> 'm any_blob threads \<times> ('h, os \<times> 'm, 'n) srv \<Rightarrow> bool" where
  "dir_threads d lctx c \<longleftrightarrow> threads_inv (\<lambda>c. \<exists>b. c = FileBlob b \<and> caf_wf d b) (\<lambda>c v. caf_alive (un_FileBlob c) (fst v))
     (\<lambda>c v. caf_pending (un_FileBlob c) (fst v)) (\<lambda>b c. caf_indep (un_FileBlob b) (un_FileBlob c)) (dir_holds_at d) (dir_inv_at d) lctx c"

lemma caf_beside:
  assumes "beside p d w w'" and "caf_wf d b"
  shows "caf_alive b w' = caf_alive b w \<and> caf_pending b w' = caf_pending b w"
proof (cases "caf_tf b")
  case (Some h)
  then have "butlast (h_name h) = d" using assms(2) by (auto simp: caf_wf_def)
  then have "fs_get w' (h_name h) = fs_get w (h_name h)" using assms(1) by (simp add: beside_def)
  then show ?thesis using Some by (simp add: caf_alive_def caf_pending_def)
qed (simp add: caf_alive_def caf_pending_def)

lemma threads_beside:
  assumes "dir_threads d lctx (ts, s)" and "beside p d (fst (sv_blobs s)) w" and "s' = s\<lparr>sv_blobs := (w, m), sv_net := n\<rparr>"
  shows "dir_threads d lctx (ts, s') \<and> srv_le (dir_holds_at d) s s'"
proof -
  note b = beside_keeps [OF assms(2)]
  have inv: "srv_inv (dir_inv_at d) (dir_holds_at d) s'" and le: "srv_le (dir_holds_at d) s s'"
    using assms(1) b by (simp_all add: assms(3) dir_threads_def threads_inv_def srv_inv_def srv_le_def fw_inv_def fw_le_def)
  have "handler_ok (\<lambda>c. \<exists>b. c = FileBlob b \<and> caf_wf d b) (\<lambda>c v. caf_alive (un_FileBlob c) (fst v))
      (\<lambda>c v. caf_pending (un_FileBlob c) (fst v)) (dir_holds_at d) lctx s' r t" (is "?ok s' r t")
    if "(r, t) \<in> set ts" for r t
  proof (rule handler_ok_stable [OF _ le])
    show ok: "?ok s r t" using assms(1) that by (auto simp: dir_threads_def threads_inv_def)
    fix c
    assume "pc_blob t = Some c"
    then obtain b where c: "c = FileBlob b" and wf: "caf_wf d b" and al: "caf_alive b (fst (sv_blobs s))" using ok by (cases t) auto
    then show "caf_alive (un_FileBlob c) (fst (sv_blobs s')) \<and>
        caf_pending (un_FileBlob c) (fst (sv_blobs s')) = caf_pending (un_FileBlob c) (fst (sv_blobs s))"
      using caf_beside [OF assms(2) wf] by (simp add: assms(3))
  qed
  then show ?thesis using assms(1) inv le by (auto simp: dir_threads_def threads_inv_def)
qed

lemma run_keeps:
  assumes "session_run (any_store pl (FileStore ds)) do_req lctx p (ds_dir ds) c c'" and "butlast p \<noteq> ds_dir ds"
    and "dir_threads (ds_dir ds) lctx c"
  shows "dir_threads (ds_dir ds) lctx c' \<and> srv_le (dir_holds_at (ds_dir ds)) (snd c) (snd c') \<and>
    file_run (sv_assets (snd c)) (sv_assets (snd c')) \<and> fs_get (fst (sv_blobs (snd c'))) p = fs_get (fst (sv_blobs (snd c))) p"
  using assms(1,3)
proof (induction rule: rtranclp_induct)
  case (step c1 c2)
  have IH: "dir_threads (ds_dir ds) lctx c1" "srv_le (dir_holds_at (ds_dir ds)) (snd c) (snd c1)"
    "file_run (sv_assets (snd c)) (sv_assets (snd c1))" "fs_get (fst (sv_blobs (snd c1))) p = fs_get (fst (sv_blobs (snd c))) p"
    using step.IH [OF step.prems] by auto
  have "dir_threads (ds_dir ds) lctx c2 \<and> srv_le (dir_holds_at (ds_dir ds)) (snd c1) (snd c2) \<and>
      file_run (sv_assets (snd c1)) (sv_assets (snd c2)) \<and> fs_get (fst (sv_blobs (snd c2))) p = fs_get (fst (sv_blobs (snd c1))) p"
    using step.hyps(2)
  proof cases
    case serve
    have k: "dir_threads (ds_dir ds) lctx c2 \<and> srv_le (dir_holds_at (ds_dir ds)) (snd c1) (snd c2)"
      using fls.lifted.threads_step_ok [OF serve IH(1) [unfolded dir_threads_def]] by (simp add: dir_threads_def)
    from serve show ?thesis
    proof cases
      case (arrive ts s r fs)
      then show ?thesis using k by simp
    next
      case (act i ts r t s t' s')
      have "(r, t) \<in> set ts" using act(3,4) by (metis nth_mem)
      then have "\<And>b. pc_blob t = Some b \<Longrightarrow> \<exists>c. b = FileBlob c \<and> caf_wf (ds_dir ds) c"
        using IH(1) act(1) by (cases t) (auto simp: dir_threads_def threads_inv_def)
      from fll.handler_step_loc [OF act(6) this] have "fs_get (fst (sv_blobs s')) p = fs_get (fst (sv_blobs s)) p"
        using file_loc_at assms(2) by blast
      then show ?thesis using k handler_step_run [OF act(6)] act(1,2) by simp
    qed
  next
    case (elsewhere s w ts m n)
    then show ?thesis using threads_beside [OF IH(1) [unfolded elsewhere(1)] elsewhere(3) refl] beside_keeps(1) [OF elsewhere(3)] by simp
  qed
  then show ?case using IH srv_le_trans [OF IH(2)] file_run_trans [OF IH(3)] by auto
qed simp

text \<open>
  A subprocess that does nothing but make requests and work beside the manifest and the blobs; and after it there are
  only the handlers, and others that do the same.
\<close>

definition only_requests :: "(os \<times> 'm, 'b) Store \<Rightarrow> (request \<Rightarrow> 'n \<Rightarrow> response res \<times> 'n) \<Rightarrow> listenerCtx \<Rightarrow> path \<Rightarrow> path \<Rightarrow>
    ('c, ('b, 'h, 'm, 'n) session_rest) surroundings \<Rightarrow> bool" where
  "only_requests st do_req lctx p d sd \<longleftrightarrow>
     (\<forall>prog args env v. session_run st do_req lctx p d (cfg_of v) (cfg_of (snd (cmd_Run sd prog args env v)))) \<and>
     (\<forall>v. session_run st do_req lctx p d (cfg_of v) (cfg_of (until_Done sd v))) \<and>
     (\<forall>v. session_run st do_req lctx p d (cfg_of v) (cfg_of (in_flight sd v)))"

lemma session_child_run:
  assumes "session_child sd opts prompt addr pem (w, v) = (x, w2, v2)" and "only_requests st do_req lctx p d sd"
    and "tmp_apart (sd_tmp sd) p d" and "\<forall>t \<in> set (TmpDirs opts). plain_name t"
  shows "session_run st do_req lctx p d (cfg_of (w, v)) (cfg_of (w2, v2))"
proof -
  let ?run = "session_run st do_req lctx p d"
  obtain y w1 where m: "os_MkdirTemp (sd_tmp sd) w = (y, w1)" by fastforce
  have "sd_tmp sd \<noteq> d" using assms(3) by (simp add: tmp_apart_def)
  note mk = beside_MkdirTemp [OF m this, of p]
  show ?thesis
  proof (cases y)
    case (Ok td)
    then obtain n where td: "td = sd_tmp sd @ [tmp_dir_name n]" using mk by blast
    obtain z e w3 where e: "session_env (sd_stores sd) opts addr pem td w1 = (z, e, w3)" by (metis prod_cases3)
    have r3: "?run (cfg_of (w, v)) (cfg_of (w3, v))"
      by (rule beside_run) (use mk session_env_beside [OF e assms(3) td assms(4)] beside_trans in blast)
    have sub: "?run (cfg_of (w3, v)) (cfg_of (snd (RunSubprocess (cmd_Run sd) en sh pr so ex (w3, v))))" for en sh pr so ex
    proof (cases "subprocess_cmd sh pr so ex")
      case (Ok a)
      obtain prog args extra where a: "a = (prog, args, extra)" by (metis prod_cases3)
      obtain er s1 where c: "cmd_Run sd prog args (en @ extra) (w3, v) = (er, s1)" by (metis surj_pair)
      have "?run (cfg_of (w3, v)) (cfg_of (snd (cmd_Run sd prog args (en @ extra) (w3, v))))"
        using assms(2) unfolding only_requests_def by blast
      then show ?thesis using Ok a c by (simp add: RunSubprocess_def)
    qed (simp_all add: RunSubprocess_def rtranclp.rtrancl_refl)
    have wait: "?run (cfg_of (w3, v)) (cfg_of (until_Done sd (w3, v)))" using assms(2) unfolding only_requests_def by blast
    obtain ret w4 v4 where f: "(case z of
         Err e \<Rightarrow> (Err e, w3, v)
       | Panic p \<Rightarrow> (Panic p, w3, v)
       | Ok u \<Rightarrow>
           (if \<not> Daemon opts
            then RunSubprocess (cmd_Run sd) (sd_environ sd) (sd_shell sd) prompt (lo_Subprocess opts) (EnvOverrides e) (w3, v)
            else if Process (lo_Subprocess opts) \<noteq> []
            then (Err (Errorf (''if running as a daemon, no sub-process should be specified. Received: '' @ Process (lo_Subprocess opts)) []), w3, v)
            else (Ok (), until_Done sd (w3, v)))) = (ret, w4, v4)"
      by (metis prod_cases3)
    have r4: "?run (cfg_of (w3, v)) (cfg_of (w4, v4))"
      using f sub wait by (cases z) (auto split: if_splits intro: rtranclp.rtrancl_refl, metis snd_conv)
    obtain dl w5 where dl: "deleteDir td w4 = (dl, w5)" by fastforce
    have r5: "?run (cfg_of (w4, v4)) (cfg_of (w5, v4))"
      by (rule beside_run) (rule beside_deleteDir [OF dl in_temp(3,4) [OF assms(3) td]])
    have "w2 = w5 \<and> v2 = v4"
      using assms(1) m Ok e f dl by (cases z) (auto simp: session_child_def WithTempDir_def split: prod.splits if_splits)
    then show ?thesis using rtranclp_trans [OF rtranclp_trans [OF r3 r4] r5] by simp
  qed (use assms(1) m mk in \<open>auto simp: session_child_def WithTempDir_def intro: beside_run\<close>)
qed

lemma session_is_run:
  assumes "RunListenerWithSubprocess cr cwd sd opts prompt (w, r, v) ret (w2, r2, v2)" and "only_requests st do_req lctx p d sd"
    and "tmp_apart (sd_tmp sd) p d" and "keys_elsewhere cwd p d opts" and "\<forall>t \<in> set (TmpDirs opts). plain_name t"
  shows "session_run st do_req lctx p d (cfg_of (w, v)) (cfg_of (w2, v2))"
proof -
  note k = beside_run [OF keys_beside [OF _ assms(4)]]
  note c = session_child_run [OF _ assms(2,3,5)]
  have fl: "in_flight sd a = b \<Longrightarrow> session_run st do_req lctx p d (cfg_of a) (cfg_of b)" for a b
    using assms(2) unfolding only_requests_def by blast
  from assms(1) show ?thesis
  proof cases
    case no_keys
    then show ?thesis using k [OF no_keys(2)] by simp
  next
    case no_child
    then show ?thesis using k [OF no_child(3)] by simp
  next
    case served
    from rtranclp_trans [OF rtranclp_trans [OF k [OF served(2)] c [OF served(3)]] fl [OF served(8)]] show ?thesis .
  next
    case panicked
    from rtranclp_trans [OF k [OF panicked(2)] c [OF panicked(3)]] show ?thesis .
  qed
qed

end
