(* ===== verification/Program.thy ===== *)
theory Program
  imports SessionRun CommandChecks
begin

text \<open>
  The program \<open>htvend\<close> (cmd/htvend/main.go): the common flags around one of its four commands, and what a build that
  ends with status 0 has left on the disk.
\<close>

section \<open>The main program\<close>

text \<open>
  What the program runs on: the parameters of its parts. The state of a run is what the process has set for itself, the
  files, the storage services and the network. \<open>h_around\<close> gives the surroundings of a session from what it serves,
  because what a subprocess does depends on the answers it gets.
\<close>

record ('l, 'k, 'p, 'c, 'r, 'm, 'h, 'n) host =
  h_log :: "'l logrus"
  h_LOG_LEVEL :: "string option"
  h_Gather :: "metric_family list res"
  h_platform :: "'m platform"
  h_lock :: "'h fslock"
  h_crypto :: "('k, 'p, 'c, 'r) crypto"
  h_random :: 'r
  h_around :: "listenerCtx \<times> 'm backend \<Rightarrow> ('c, ('m any_blob, 'h, 'm, 'n) session_rest) surroundings"
  h_net :: "request \<Rightarrow> 'n \<Rightarrow> response res \<times> 'n"
  h_append :: "err option \<Rightarrow> err \<Rightarrow> err"

type_synonym ('l, 'm, 'n) run_state = "'l process \<times> os \<times> 'm \<times> 'n"

datatype htvend_command =
    BuildCmd BuildCommand ListenerOptions
  | VerifyCmd VerifyCommand
  | ExportCmd ExportCommand
  | OfflineCmd OfflineCommand ListenerOptions

definition platform_at :: "('l, 'k, 'p, 'c, 'r, 'm, 'h, 'n) host \<Rightarrow> path \<Rightarrow> 'm platform" where
  "platform_at h cwd = (h_platform h)\<lparr>pl_cwd := cwd\<rparr>"

text \<open>
  A function that gives an outcome of a session for everything that may be opened. The session starts without a
  handler; those that have not finished at its end are left behind.
\<close>

definition listener_session :: "('l, 'k, 'p, 'c, 'r, 'm, 'h, 'n) host \<Rightarrow> path \<Rightarrow> ListenerOptions \<Rightarrow> string \<Rightarrow>
    (listenerCtx \<times> 'm backend \<Rightarrow> ('h, os \<times> 'm, 'n) srv \<Rightarrow> unit res \<times> ('h, os \<times> 'm, 'n) srv) \<Rightarrow> bool" where
  "listener_session h cwd lo prompt session \<longleftrightarrow>
     (\<forall>x w v ret s1. session x (srv_of (w, v)) = (ret, s1) \<longrightarrow>
       (\<exists>r1 ts. RunListenerWithSubprocess (h_crypto h) cwd (h_around h x) lo prompt (w, h_random h, [], v) ret
          (fst (of_srv s1), r1, ts, snd (of_srv s1))))"

inductive command_runs :: "('l, 'k, 'p, 'c, 'r, 'm, 'h, 'n) host \<Rightarrow> htvend_command \<Rightarrow> ('l, 'm, 'n) run_state \<Rightarrow> unit res \<Rightarrow>
    ('l, 'm, 'n) run_state \<Rightarrow> bool"
  for h where
  build: "listener_session h (proc_cwd p) lo ''htvend build'' session \<Longrightarrow>
     build_Execute (platform_at h (proc_cwd p)) (h_lock h) bc session (w, m) n = (ret, (w1, m1), n1) \<Longrightarrow>
     command_runs h (BuildCmd bc lo) (p, w, m, n) ret (p, w1, m1, n1)"
| verify: "verify_Execute (platform_at h (proc_cwd p)) (h_lock h) (h_net h) (h_append h) vc (w, m) n = (ret, (w1, m1), n1) \<Longrightarrow>
     command_runs h (VerifyCmd vc) (p, w, m, n) ret (p, w1, m1, n1)"
| export: "export_Execute (platform_at h (proc_cwd p)) (h_lock h) ec (w, m) ret (w1, m1) \<Longrightarrow>
     command_runs h (ExportCmd ec) (p, w, m, n) ret (p, w1, m1, n)"
| offline: "listener_session h (proc_cwd p) lo ''htvend offline'' session \<Longrightarrow>
     offline_Execute (platform_at h (proc_cwd p)) (h_lock h) oc session (w, m) n = (ret, (w1, m1), n1) \<Longrightarrow>
     command_runs h (OfflineCmd oc lo) (p, w, m, n) ret (p, w1, m1, n1)"

inductive_cases command_runs_build: "command_runs h (BuildCmd bc lo) (p, w, m, n) ret s"

definition main_init :: "('l, 'k, 'p, 'c, 'r, 'm, 'h, 'n) host \<Rightarrow> FlagsCommon \<Rightarrow> ('l, 'm, 'n) run_state \<Rightarrow> unit res \<times> ('l, 'm, 'n) run_state" where
  "main_init h fc = (\<lambda>(p, w, v). case Apply (h_log h) (h_LOG_LEVEL h) fc (p, w) of (r, p1, w1) \<Rightarrow> (r, p1, w1, v))"

definition main_shutdown :: "('l, 'k, 'p, 'c, 'r, 'm, 'h, 'n) host \<Rightarrow> FlagsCommon \<Rightarrow> ('l, 'm, 'n) run_state \<Rightarrow> unit res \<times> ('l, 'm, 'n) run_state" where
  "main_shutdown h fc = (\<lambda>(p, w, v). case OnShutdown (proc_cwd p) (h_Gather h) fc w of (r, w1) \<Rightarrow> (r, p, w1, v))"

text \<open>The outcomes of the program: a status and the state that it leaves.\<close>

definition htvend_main :: "('l, 'k, 'p, 'c, 'r, 'm, 'h, 'n) host \<Rightarrow> FlagsCommon \<Rightarrow> htvend_command option parsed \<Rightarrow> ('l, 'm, 'n) run_state \<Rightarrow>
    nat \<Rightarrow> ('l, 'm, 'n) run_state \<Rightarrow> bool" where
  "htvend_main h fc pr s code s' \<longleftrightarrow>
     (\<exists>c. (\<forall>cmd s1 ret s2. pr = Command (Some cmd) \<and> main_init h fc s = (Ok (), s1) \<and> c s1 = (ret, s2) \<longrightarrow> command_runs h cmd s1 ret s2) \<and>
        RunWithFlags (main_init h fc) (main_shutdown h fc) (map_parsed (map_option (\<lambda>_. c)) pr) s = (code, s'))"

section \<open>What ends with status 0\<close>

lemma RunWithFlags_0:
  assumes "RunWithFlags gi gs (Command (Some c)) s = (0, s')"
  shows "\<exists>s1 s2 d. gi s = (Ok (), s1) \<and> c s1 = (Ok (), s2) \<and> gs s2 = (d, s')"
proof -
  obtain x s1 where gi: "gi s = (x, s1)" by fastforce
  obtain ret s2 where c: "c s1 = (ret, s2)" by fastforce
  obtain d s3 where gs: "gs s2 = (d, s3)" by fastforce
  show ?thesis
  proof (cases x)
    case (Ok u)
    then have h: "command_handler gi gs (Some c) s = (defer_res ret d, s3)" by (simp add: command_handler_def gi c gs)
    then obtain y where "defer_res ret d = Ok y" and "s3 = s'"
      using assms by (cases "defer_res ret d") (simp_all add: RunWithFlags_def)
    then show ?thesis using gi c gs Ok by (simp add: defer_res_Ok)
  qed (use assms gi in \<open>simp_all add: RunWithFlags_def command_handler_def\<close>)
qed

lemma htvend_main_0:
  assumes "htvend_main h fc (Command (Some cmd)) s 0 s'"
  shows "\<exists>s1 s2 d. main_init h fc s = (Ok (), s1) \<and> command_runs h cmd s1 (Ok ()) s2 \<and> main_shutdown h fc s2 = (d, s')"
proof -
  obtain c where C: "\<forall>cmd' s1 ret s2. Command (Some cmd) = Command (Some cmd') \<and> main_init h fc s = (Ok (), s1) \<and> c s1 = (ret, s2) \<longrightarrow>
      command_runs h cmd' s1 ret s2"
    and R: "RunWithFlags (main_init h fc) (main_shutdown h fc) (map_parsed (map_option (\<lambda>_. c)) (Command (Some cmd))) s = (0, s')"
    using assms unfolding htvend_main_def by (elim exE conjE)
  have r: "RunWithFlags (main_init h fc) (main_shutdown h fc) (Command (Some c)) s = (0, s')" using R by simp
  have c: "command_runs h cmd s1 ret s2" if "main_init h fc s = (Ok (), s1)" and "c s1 = (ret, s2)" for s1 ret s2
    using C that by blast
  from RunWithFlags_0 [OF r] c show ?thesis by blast
qed

definition main_cwd :: "FlagsCommon \<Rightarrow> 'l process \<Rightarrow> path" where
  "main_cwd fc p = (if DirToChangeTo fc = ''.'' then proc_cwd p else path_of (proc_cwd p) (DirToChangeTo fc))"

lemma Apply_Ok:
  assumes "Apply lr lls fc (p, w) = (Ok u, p1, w1)"
  shows "env_le w w1 \<and> fs_get w1 = fs_get w \<and> proc_cwd p1 = main_cwd fc p"
proof -
  obtain e w' where c: "os_Chdir (main_cwd fc p) w = (e, w')" by fastforce
  obtain f w0 where pf: "pop_fault w = (f, w0)" by fastforce
  have w': "env_le w w' \<and> fs_get w' = fs_get w"
    using c pf pop_fault_env [OF pf] pop_fault_same [OF pf] by (auto simp: os_Chdir_def split: fault.splits if_splits)
  obtain ll where ll: "(case lls of None \<Rightarrow> Ok (InfoLevel lr) | Some s \<Rightarrow> ParseLevel lr s) = Ok ll"
    using assms by (cases "case lls of None \<Rightarrow> Ok (InfoLevel lr) | Some s \<Rightarrow> ParseLevel lr s") (simp_all add: Apply_def)
  show ?thesis
  proof (cases "DirToChangeTo fc = ''.''")
    case False
    then have m: "main_cwd fc p = path_of (proc_cwd p) (DirToChangeTo fc)" by (simp add: main_cwd_def)
    show ?thesis using assms False w' c m by (cases e) (auto simp: Apply_def ll Let_def)
  qed (use assms in \<open>auto simp: Apply_def ll Let_def main_cwd_def\<close>)
qed

lemma os_OpenAppend_beside:
  assumes "os_OpenAppend q w = (r, w')" and "q \<noteq> p" and "butlast q \<noteq> d"
  shows "beside p d w w' \<and> (\<forall>h. r = Ok h \<longrightarrow> h_name h = q)"
proof -
  obtain f w0 where pf: "pop_fault w = (f, w0)" by fastforce
  show ?thesis
    using assms pf pop_fault_same [OF pf] pop_fault_env [OF pf]
    by (auto simp: os_OpenAppend_def beside_def fs_simps env_le_def split: fault.splits if_splits)
qed

lemma beside_Write: "os_Write h b w = (r, w') \<Longrightarrow> h_name h \<noteq> p \<Longrightarrow> butlast (h_name h) \<noteq> d \<Longrightarrow> beside p d w w'"
  by (rule beside_env) (auto intro: os_Write_env os_Write_other)

lemma beside_Close: "os_Close h w = (r, h', w') \<Longrightarrow> beside p d w w'"
  by (rule beside_env) (auto dest: os_Close_env os_Close_fs)

lemma write_lines_beside: "write_lines h ls w = (r, w') \<Longrightarrow> h_name h \<noteq> p \<Longrightarrow> butlast (h_name h) \<noteq> d \<Longrightarrow> beside p d w w'"
  by (induction h ls w rule: write_lines.induct) (auto split: prod.splits option.splits dest!: beside_Write intro: beside_trans)

lemma OnShutdown_beside:
  assumes "OnShutdown cwd g fc w = (r, w')" and "GithubOutputPath fc = [] \<or> elsewhere p d (path_of cwd (GithubOutputPath fc))"
  shows "beside p d w w'"
proof (cases "GithubOutputPath fc = []")
  case False
  let ?q = "path_of cwd (GithubOutputPath fc)"
  have q: "?q \<noteq> p" "butlast ?q \<noteq> d" using False assms(2) elsewhere_write by blast+
  obtain x w1 where o: "os_OpenAppend ?q w = (x, w1)" by fastforce
  note b = os_OpenAppend_beside [OF o q]
  have wl: "beside p d w1 w2" if "write_lines fp ls w1 = (y, w2)" "x = Ok fp" for fp ls y w2
    using write_lines_beside [OF that(1)] b that(2) q by auto
  show ?thesis
    using assms(1) False o b
    by (auto simp: OnShutdown_def split: res.splits prod.splits dest!: wl dest: beside_Close intro: beside_trans)
qed (use assms(1) in \<open>simp add: OnShutdown_def\<close>)

section \<open>The build\<close>

text \<open>The blob directory that the options name.\<close>

definition blob_dir :: "'m platform \<Rightarrow> CacheOptions \<Rightarrow> path \<Rightarrow> bool" where
  "blob_dir pl co d \<longleftrightarrow> BlobsBackend co = ''filesystem'' \<and> (\<forall>w x w1. xdgIt pl (BlobsDir co) w = (Ok x, w1) \<longrightarrow> path_of (pl_cwd pl) x = d)"

lemma blob_dir_store:
  assumes "blob_dir pl co d" and "MakeBlobStore pl co wr w = (Ok bs, w1)"
  shows "bs = FileStore (NewDirectoryStore d wr)"
  using assms by (auto simp: blob_dir_def MakeBlobStore_def split: res.splits prod.splits)

text \<open>A manifest and a blob directory in order: content-addressed, and every entry of the manifest is there.\<close>

definition world_backed :: "path \<Rightarrow> path \<Rightarrow> os \<Rightarrow> bool" where
  "world_backed p d w \<longleftrightarrow> dir_inv d w \<and> content_addressed (dir_holds d w) \<and> (\<forall>mm. on_disk mm p w \<longrightarrow> backed (dir_holds d w) mm)"

lemma beside_world:
  assumes "beside p d w w'" and "world_backed p d w"
  shows "world_backed p d w'"
  using beside_keeps [OF assms(1)] assms(2) by (simp add: world_backed_def on_disk_def)

lemma load_blobs:
  assumes "load f w = (Ok u, f', w')"
  shows "blobs f' = gm_make \<or> on_disk (blobs f') (opt_Path (options f)) w"
proof -
  obtain r w1 where r: "os_ReadFile (opt_Path (options f)) w = (r, w1)" by fastforce
  show ?thesis
    using assms r os_ReadFile_Ok [of "opt_Path (options f)" w]
    by (cases r) (auto simp: load_def on_disk_def split: res.splits if_splits)
qed

lemma NewMapFile_blobs:
  assumes "NewMapFile lk opts w = (Ok f, w')" and "fslock_frames lk"
  shows "blobs f = gm_make \<or> on_disk (blobs f) (opt_Path opts) w"
proof (cases "Writable opts")
  case False
  then obtain u where "load (new_file opts) w = (Ok u, f, w')"
    using assms(1) by (auto simp: NewMapFile_def split: res.splits prod.splits)
  from load_blobs [OF this] show ?thesis by (simp add: new_file_def)
next
  case True
  let ?lp = "path_plus (opt_Path opts) ''.lock''"
  obtain h w1 u where l: "fslock_Lock lk ?lp w = (Ok h, w1)"
    and ld: "load (new_file opts\<lparr>lock := Some h, lockPath := ?lp\<rparr>) w1 = (Ok u, f, w')"
    using assms(1) True by (auto simp: NewMapFile_def split: res.splits prod.splits)
  have "fs_get w1 (opt_Path opts) = fs_get w (opt_Path opts)" using l assms(2) by (simp add: fslock_frames_def)
  then show ?thesis using load_blobs [OF ld] by (simp add: new_file_def on_disk_def)
qed

lemma build_opened_backed:
  assumes "build_open pl lk bc w0 = (Ok (bl, bs), Some f0, w1)" and "fslock_frames lk" and "xdg_ok pl"
    and "\<forall>mm. on_disk mm (manifest_path pl (bc_Manifest bc)) w0 \<longrightarrow> backed h mm"
  shows "file_backed h f0"
proof -
  let ?P = "manifest_path pl (bc_Manifest bc)"
  obtain wa nc mf u where o: "MakeBlobStore pl (mo_Cache (bc_Manifest bc)) True w0 = (Ok bs, wa)"
      "NewMapFile lk \<lparr>opt_Path = ?P, Writable = True, AllowOverwrite = False, NoCache = Some nc\<rparr> wa = (Ok mf, w1)"
      "Reset (ForceRefresh bc) mf = (Ok u, f0)"
    using assms(1) by (auto simp: build_open_def MakeManifestFile_def split: res.splits prod.splits)
  have "fs_get wa = fs_get w0" using MakeBlobStore_files [OF o(1) assms(3)] .
  then have "backed h (blobs mf)" using NewMapFile_blobs [OF o(2) assms(2)] assms(4) by (auto simp: on_disk_def)
  then show ?thesis using o(3) by (auto simp: Reset_def Let_def file_backed_def split: if_splits)
qed

lemma manifest_same_backed: "manifest_same m1 m2 \<Longrightarrow> backed h m1 \<Longrightarrow> backed h m2"
  unfolding manifest_same_def backed_def info_backed_def
  by (metis blobEquals_def option.rel_distinct(2) option.rel_cases option.inject)

lemma hex_decode_chars: "hex_decode s = Ok k \<Longrightarrow> c \<in> set s \<Longrightarrow> unhex c \<noteq> None"
  by (induction s arbitrary: k rule: hex_decode.induct) (auto split: option.splits res.splits if_splits)

lemma digests_backed:
  assumes "manifest_digests m1 m2" and "backed h m1"
  shows "backed h m2"
proof -
  have "utf8_coerce s = s" if "hex_decode s = Ok k" for s k
  proof -
    have "chr_nat c < 128" if "c \<in> set s" for c
      using hex_decode_chars [OF \<open>hex_decode s = Ok k\<close> that] by (auto simp: unhex_def Let_def split: if_splits)
    then show ?thesis by (simp add: ascii_coerce ascii_def list_all_iff)
  qed
  then show ?thesis
    using assms unfolding manifest_digests_def backed_def info_backed_def by metis
qed

text \<open>A run of a build that closes its manifest leaves the two in order.\<close>

lemma run_closed:
  assumes "build_open pl lk bc w0 = (Ok (bl, FileStore ds), Some f0, w1)" and "fslock_frames lk" and "xdg_ok pl"
    and "p = manifest_path pl (bc_Manifest bc)" and "butlast p \<noteq> ds_dir ds" and "world_backed p (ds_dir ds) w0"
    and "session_run (any_store pl (FileStore ds)) do_req lctx p (ds_dir ds) ([], srv_of (w1, f0, m, n, 0)) (ts, s)"
    and "close_deferred lk (sv_assets s) (Ok ()) (fst (sv_blobs s)) = (Ok (), w3)"
  shows "world_backed p (ds_dir ds) w3 \<and> (\<exists>mm. on_disk mm p w3) \<and> dom (dir_holds (ds_dir ds) w0) \<subseteq> dom (dir_holds (ds_dir ds) w3)"
proof -
  let ?d = "ds_dir ds" and ?s0 = "srv_of (w1, f0, m, n, 0)"
  note w0 = assms(6) [unfolded world_backed_def]
  note b = build_opened [OF assms(1-3) _ assms(5) [unfolded assms(4)]]
  have b: "opt_Path (options f0) = p \<and> Writable (options f0) \<and> lockPath f0 = path_plus p ''.lock'' \<and> file_wf f0 \<and> clean_synced w1 f0 \<and>
      dir_inv ?d w1 \<and> dir_holds ?d w1 = dir_holds ?d w0"
    using b w0 assms(4) by simp
  have fb: "file_backed (dir_holds ?d w0) f0" using build_opened_backed [OF assms(1-3)] w0 assms(4) by simp
  have s0: "sv_assets ?s0 = f0" "sv_blobs ?s0 = (w1, m)" by (simp_all add: srv_of_def)
  have i0: "dir_threads ?d lctx ([], ?s0)"
    using b w0 by (simp add: dir_threads_def threads_inv_def srv_inv_def fw_inv_def s0)
  from run_keeps [OF assms(7,5) i0]
  have s: "dir_inv ?d (fst (sv_blobs s))" "content_addressed (dir_holds ?d (fst (sv_blobs s)))" "file_run f0 (sv_assets s)"
      "fs_get (fst (sv_blobs s)) p = fs_get w1 p" "dom (dir_holds ?d w0) \<subseteq> dom (dir_holds ?d (fst (sv_blobs s)))"
      "file_backed (dir_holds ?d (fst (sv_blobs s))) (sv_assets s)"
    using b fb by (simp_all add: dir_threads_def threads_inv_def srv_inv_def fw_inv_def srv_le_def fw_le_def s0)
  have c: "(\<exists>mm. on_disk mm p w3 \<and> manifest_digests (blobs (sv_assets s)) mm \<and>
        (manifest_plain (blobs (sv_assets s)) \<longrightarrow> manifest_same (blobs (sv_assets s)) mm)) \<and>
      dir_inv ?d w3 \<and> dir_holds ?d w3 = dir_holds ?d (fst (sv_blobs s))"
    by (rule session_closed [OF assms(8,2) s(3,4)]) (use b assms(5) s(1) in simp_all)
  then obtain mm where mm: "on_disk mm p w3" "manifest_digests (blobs (sv_assets s)) mm" by blast
  have "backed (dir_holds ?d w3) mm" using digests_backed [OF mm(2)] s(6) c by (simp add: file_backed_def)
  then show ?thesis using c s(2,5) mm(1) on_disk_unique unfolding world_backed_def by metis
qed

lemma run_command_0:
  assumes "run_command lk opened body m n = (Ok (), (w1, m1), n1)"
  shows "(\<exists>x w. opened = (Ok x, None, w)) \<or>
    (\<exists>x f w s. opened = (Ok x, Some f, w) \<and> body x \<lparr>sv_assets = f, sv_blobs = (w, m), sv_net = n, sv_missing = 0\<rparr> = (Ok (), s) \<and>
       close_deferred lk (sv_assets s) (Ok ()) (fst (sv_blobs s)) = (Ok (), w1))"
proof -
  obtain y fo w where o: "opened = (y, fo, w)" by (metis prod_cases3)
  have cl: "r = Ok ()" if "close_deferred lk f r v = (Ok (), v1)" for f r v v1
    using that by (cases r) (auto simp: close_deferred_def split: res.splits prod.splits option.splits)
  show ?thesis
  proof (cases fo)
    case None
    then show ?thesis using assms o by (cases y) (auto simp: run_command_def)
  next
    case (Some f)
    show ?thesis
    proof (cases y)
      case (Ok x)
      obtain r s where b: "body x \<lparr>sv_assets = f, sv_blobs = (w, m), sv_net = n, sv_missing = 0\<rparr> = (r, s)" by fastforce
      then have "close_deferred lk (sv_assets s) r (fst (sv_blobs s)) = (Ok (), w1)"
        using assms o Some Ok by (auto simp: run_command_def split: prod.splits)
      then show ?thesis using cl b o Some Ok by metis
    qed (use assms o Some cl in \<open>auto simp: run_command_def split: prod.splits\<close>)
  qed
qed

section \<open>Properties\<close>

text \<open>
  What the theorem asks of the places of a build: the manifest is not in the blob directory, the keys, the temporary
  directory and the output of the metrics are elsewhere, and the names of the temporary directories are single names.
\<close>

definition apart :: "('l, 'k, 'p, 'c, 'r, 'm, 'h, 'n) host \<Rightarrow> FlagsCommon \<Rightarrow> ListenerOptions \<Rightarrow> path \<Rightarrow> path \<Rightarrow> path \<Rightarrow> bool" where
  "apart h fc lo cwd p d \<longleftrightarrow> butlast p \<noteq> d \<and> keys_elsewhere cwd p d lo \<and> (\<forall>x. tmp_apart (sd_tmp (h_around h x)) p d) \<and>
     list_all plain_name (TmpDirs lo) \<and> (GithubOutputPath fc = [] \<or> elsewhere p d (path_of cwd (GithubOutputPath fc)))"

text \<open>
  C1. A whole build. Let the manifest and the blob directory be in order, that is, every blob has its digest as its name
  and every entry of the manifest has its blob, and let the subprocess do nothing to them but make requests of
  the proxy. When \<open>htvend build\<close> ends with status 0, whatever requests were made, however their handlers interleaved,
  wherever those that had not finished stood when the manifest was closed, and whatever failed on the way, there is a
  manifest, the two are in order again, and no blob is lost.
\<close>

theorem build_leaves_order:
  assumes "htvend_main h fc (Command (Some (BuildCmd bc lo))) (p0, w0, m, n) 0 (p1, w1, m1, n1)"
    and "pl = platform_at h (main_cwd fc p0)" and "p = manifest_path pl (bc_Manifest bc)" and "ds = NewDirectoryStore d True"
    and "fslock_frames (h_lock h)" and "xdg_ok pl" and "blob_dir pl (mo_Cache (bc_Manifest bc)) d"
    and "apart h fc lo (main_cwd fc p0) p d"
    and "\<And>lctx. only_requests (any_store pl (FileStore ds)) (h_net h) lctx p d (h_around h (lctx, FileStore ds))"
    and "world_backed p d w0"
  shows "world_backed p d w1 \<and> (\<exists>mm. on_disk mm p w1) \<and> dom (dir_holds d w0) \<subseteq> dom (dir_holds d w1)"
proof -
  note ap = assms(8) [unfolded apart_def]
  have d: "ds_dir ds = d" by (simp add: assms(4) NewDirectoryStore_def)
  obtain s1 s2 e where i: "main_init h fc (p0, w0, m, n) = (Ok (), s1)" and c: "command_runs h (BuildCmd bc lo) s1 (Ok ()) s2"
    and e: "main_shutdown h fc s2 = (e, p1, w1, m1, n1)"
    using htvend_main_0 [OF assms(1)] by blast
  obtain q wa where a: "Apply (h_log h) (h_LOG_LEVEL h) fc (p0, w0) = (Ok (), q, wa)" and s1: "s1 = (q, wa, m, n)"
    using i by (auto simp: main_init_def split: prod.splits)
  note A = Apply_Ok [OF a]
  have wa: "world_backed p d wa" by (rule beside_world [OF beside_env assms(10)]) (use A in auto)
  from c [unfolded s1] show ?thesis
  proof (rule command_runs_build)
    fix session wc mc nc
    assume s2: "s2 = (q, wc, mc, nc)" and l: "listener_session h (proc_cwd q) lo ''htvend build'' session"
      and b: "build_Execute (platform_at h (proc_cwd q)) (h_lock h) bc session (wa, m) n = (Ok (), (wc, mc), nc)"
    have b: "run_command (h_lock h) (build_open pl (h_lock h) bc wa) session m n = (Ok (), (wc, mc), nc)"
      using b A assms(2) by (simp add: build_Execute_def)
    have no: "build_open pl (h_lock h) bc wa \<noteq> (Ok x, None, w)" for x w
      by (auto simp: build_open_def split: res.splits prod.splits)
    obtain x f wb s where o: "build_open pl (h_lock h) bc wa = (Ok x, Some f, wb)"
      and se: "session x (srv_of (wb, f, m, n, 0)) = (Ok (), s)"
      and cl: "close_deferred (h_lock h) (sv_assets s) (Ok ()) (fst (sv_blobs s)) = (Ok (), wc)"
      using run_command_0 [OF b] no unfolding srv_of_def prod.case by blast
    obtain lctx bs wx where x: "x = (lctx, bs)" and mk: "MakeBlobStore pl (mo_Cache (bc_Manifest bc)) True wa = (Ok bs, wx)"
      using o by (auto simp: build_open_def split: res.splits prod.splits)
    have bs: "bs = FileStore ds" using blob_dir_store [OF assms(7) mk] assms(4) by simp
    obtain r1 ts where r: "RunListenerWithSubprocess (h_crypto h) (proc_cwd q) (h_around h x) lo ''htvend build''
        (wb, h_random h, [], f, m, n, 0) (Ok ()) (fst (of_srv s), r1, ts, snd (of_srv s))"
      using l se unfolding listener_session_def by blast
    have "session_run (any_store pl (FileStore ds)) (h_net h) lctx p d (cfg_of (wb, [], f, m, n, 0)) (cfg_of (fst (of_srv s), ts, snd (of_srv s)))"
      by (rule session_is_run [OF r]) (use assms(9) ap A x bs in \<open>simp_all add: list_all_iff\<close>)
    then have run: "session_run (any_store pl (FileStore ds)) (h_net h) lctx p (ds_dir ds) ([], srv_of (wb, f, m, n, 0)) (ts, s)" by (simp add: d)
    have wc: "world_backed p d wc \<and> (\<exists>mm. on_disk mm p wc) \<and> dom (dir_holds d wa) \<subseteq> dom (dir_holds d wc)"
      using run_closed [OF o [unfolded x bs] assms(5,6,3) _ _ run cl] ap wa by (simp add: d)
    have "beside p d wc w1"
      using e s2 A ap by (auto simp: main_shutdown_def split: prod.splits intro: OnShutdown_beside)
    moreover have "dir_holds d wa = dir_holds d w0" using A by (simp add: dir_holds_def fun_eq_iff)
    ultimately show ?thesis using beside_world beside_keeps(1,2) wc unfolding on_disk_def by metis
  qed
qed

text \<open>A session whose servers close as they should: its outcome is that of its child.\<close>

definition clean_session :: "('l, 'k, 'p, 'c, 'r, 'm, 'h, 'n) host \<Rightarrow> path \<Rightarrow> ListenerOptions \<Rightarrow> string \<Rightarrow>
    listenerCtx \<times> 'm backend \<Rightarrow> ('h, os \<times> 'm, 'n) srv \<Rightarrow> unit res \<times> ('h, os \<times> 'm, 'n) srv" where
  "clean_session h cwd lo prompt x s =
     (case newSelfSignedServer (h_crypto h) cwd (server_config lo) (fst (of_srv s), h_random h) of
        (Ok hs, w1, r1) \<Rightarrow>
          (case session_child (h_around h x) lo prompt (ListenAddr lo) (caPEM hs) (w1, [], snd (of_srv s)) of
             (Panic p, v) \<Rightarrow> (Panic p, snd (cfg_of v))
           | (ret, v) \<Rightarrow> (ret, snd (cfg_of (in_flight (h_around h x) v))))
      | (Err e, w1, r1) \<Rightarrow> (Err (wrap ''error creating keys for server'' e), srv_of (w1, snd (of_srv s)))
      | (Panic p, w1, r1) \<Rightarrow> (Panic p, srv_of (w1, snd (of_srv s))))"

definition child_run :: "err option \<Rightarrow> serve_event list" where
  "child_run e = [Listen None, Listen2 None, Child e, Deferred, TlsShutdown, TlsServe ErrServerClosed, Deferred, Deferred,
     MainShutdown, MainServe ErrServerClosed, Deferred, Deferred, Deferred, Deferred]"

lemma child_run_ends: "\<exists>s. serve_run (child_run e) (serve_init False) = Some s \<and> pc s = Returned \<and> retErr s = e"
  by (cases e) (simp_all add: child_run_def serve_init_def serve_ends_def pick_err_def)

lemma clean_session_is: "listener_session h cwd lo prompt (clean_session h cwd lo prompt)"
  unfolding listener_session_def
proof (intro allI impI)
  fix x w v ret s1
  assume c: "clean_session h cwd lo prompt x (srv_of (w, v)) = (ret, s1)"
  obtain y w1 r1 where k: "newSelfSignedServer (h_crypto h) cwd (server_config lo) (w, h_random h) = (y, w1, r1)" by (metis prod_cases3)
  let ?R = "RunListenerWithSubprocess (h_crypto h) cwd (h_around h x) lo prompt (w, h_random h, [], v)"
  show "\<exists>r1 ts. ?R ret (fst (of_srv s1), r1, ts, snd (of_srv s1))"
  proof (cases y)
    case (Ok hs)
    obtain z w2 v2 where z: "session_child (h_around h x) lo prompt (ListenAddr lo) (caPEM hs) (w1, [], v) = (z, w2, v2)" by (metis prod_cases3)
    obtain s where s: "serve_run (child_run (err_of z)) (serve_init False) = Some s" "pc s = Returned" "retErr s = err_of z"
      using child_run_ends by blast
    obtain w3 v3 where fl: "in_flight (h_around h x) (w2, v2) = (w3, v3)" by (metis surj_pair)
    obtain ts2 u2 ts3 u3 where v: "v2 = (ts2, u2)" "v3 = (ts3, u3)" by (metis surj_pair)
    have "Child (err_of z) \<in> set (child_run (err_of z))" by (simp add: child_run_def)
    note served = RunListenerWithSubprocess.served [OF k [unfolded Ok] z _ s(1,2) this fl]
    show ?thesis
    proof (cases "is_Panic z")
      case True
      then obtain q where q: "z = Panic q" by (cases z) auto
      have "ret = Panic q" "of_srv s1 = (w2, u2)" using c k Ok z v q by (auto simp: clean_session_def)
      then show ?thesis using RunListenerWithSubprocess.panicked [OF k [unfolded Ok] z [unfolded q]] v
        by (intro exI [of _ r1] exI [of _ ts2]) simp
    next
      case False
      then have "ret = z" "of_srv s1 = (w3, u3)" using c k Ok z v fl by (cases z; auto simp: clean_session_def)+
      moreover have "of_err (err_of z) = z" using False by (cases z) auto
      ultimately show ?thesis using served [OF False] s(3) v by (intro exI [of _ r1] exI [of _ ts3]) simp
    qed
  next
    case (Err e)
    have "?R (Err (wrap ''error creating keys for server'' e)) (w1, r1, [], v)" by (rule RunListenerWithSubprocess.no_keys [OF k]) (simp_all add: Err)
    then show ?thesis using c k Err by (intro exI [of _ r1] exI [of _ "[]"]) (auto simp: clean_session_def)
  next
    case (Panic q)
    have "?R (Panic q) (w1, r1, [], v)" by (rule RunListenerWithSubprocess.no_keys [OF k]) (simp_all add: Panic)
    then show ?thesis using c k Panic by (intro exI [of _ r1] exI [of _ "[]"]) (auto simp: clean_session_def)
  qed
qed

text \<open>A subprocess that fetches the sample and makes a directory.\<close>

definition sample_work :: "listenerCtx \<times> unit backend \<Rightarrow> os \<times> (unit any_blob, path, unit, nat) session_rest \<Rightarrow>
    os \<times> (unit any_blob, path, unit, nat) session_rest" where
  "sample_work = (\<lambda>(lctx, bs) (w, ts, v).
     case handleMainServerRequest (any_store plain_platform bs) sample_net lctx sample_request (rw_new []) (srv_of (w, v)) of
       (x, r, s1) \<Rightarrow> let w1 = fst (sv_blobs s1)
         in (w1\<lparr>dirs := [''htvend''] # dirs w1\<rparr>, ts @ [(sample_request, H_Done x r)], snd (of_srv s1)))"

definition sample_host :: "(nat, nat, nat, string, nat, unit, path, nat) host" where
  "sample_host = \<lparr>h_log = \<lparr>ParseLevel = (\<lambda>s. Ok 0), InfoLevel = 1, DebugLevel = 2\<rparr>, h_LOG_LEVEL = None, h_Gather = Ok [],
     h_platform = plain_platform, h_lock = plain_fslock, h_crypto = sample_crypto, h_random = 0,
     h_around = (\<lambda>x. \<lparr>sd_stores = sample_stores, sd_tmp = [], sd_environ = [], sd_shell = [],
       cmd_Run = (\<lambda>prog args env v. (None, sample_work x v)), until_Done = (\<lambda>v. v), in_flight = (\<lambda>v. v)\<rparr>),
     h_net = sample_net, h_append = (\<lambda>_ e. e)\<rparr>"

definition sample_flags :: FlagsCommon where
  "sample_flags = \<lparr>DirToChangeTo = ''.'', Verbose = False, GithubOutputPath = []\<rparr>"

abbreviation sample_process :: "nat process" where
  "sample_process \<equiv> \<lparr>log_level = 1, proc_cwd = []\<rparr>"

lemma sample_only_requests:
  "only_requests (any_store plain_platform bs) (h_net sample_host) lctx p [''blobs''] (h_around sample_host (lctx, bs))"
proof -
  let ?step = "threads_step (any_store plain_platform bs) sample_net lctx"
  have "session_run (any_store plain_platform bs) sample_net lctx p [''blobs''] (cfg_of c) (cfg_of (sample_work (lctx, bs) c))" for c
  proof -
    obtain w ts v where c: "c = (w, ts, v)" by (metis prod_cases3)
    obtain x r s1 where h: "handleMainServerRequest (any_store plain_platform bs) sample_net lctx sample_request (rw_new []) (srv_of (w, v)) = (x, r, s1)"
      by (metis prod_cases3)
    let ?w = "fst (sv_blobs s1)" and ?ts = "ts @ [(sample_request, H_Done x r)]"
    obtain n where "handler_run (any_store plain_platform bs) sample_net lctx n (H_Start sample_request (rw_new [])) (srv_of (w, v)) = (H_Done x r, s1)"
      using handler_alone [OF h] by blast
    then have "?step\<^sup>*\<^sup>* (ts @ [(sample_request, H_Start sample_request (rw_new []))], srv_of (w, v)) (?ts, s1)" by (rule threads_run_list)
    moreover have "?step (ts, srv_of (w, v)) (ts @ [(sample_request, H_Start sample_request (rw_new []))], srv_of (w, v))"
      by (rule threads_step.arrive)
    ultimately have 1: "?step\<^sup>*\<^sup>* (cfg_of c) (?ts, s1)" by (simp add: c converse_rtranclp_into_rtranclp)
    have "beside p [''blobs''] ?w (?w\<lparr>dirs := [''htvend''] # dirs ?w\<rparr>)" by (simp add: beside_def fs_simps)
    then have 2: "session_run (any_store plain_platform bs) sample_net lctx p [''blobs''] (cfg_of (?w, ?ts, snd (of_srv s1)))
        (cfg_of (?w\<lparr>dirs := [''htvend''] # dirs ?w\<rparr>, ?ts, snd (of_srv s1)))" by (rule beside_run)
    have "of_srv s1 = (?w, snd (of_srv s1))" by (simp add: of_srv_def)
    then have "cfg_of (?w, ?ts, snd (of_srv s1)) = (?ts, s1)" using srv_of_srv(1) [of s1] by (metis cfg_of_simps)
    with 2 have "session_run (any_store plain_platform bs) sample_net lctx p [''blobs''] (?ts, s1)
        (cfg_of (?w\<lparr>dirs := [''htvend''] # dirs ?w\<rparr>, ?ts, snd (of_srv s1)))" by simp
    from rtranclp_trans [OF serves_run [OF 1] this] show ?thesis by (simp add: sample_work_def Let_def c h)
  qed
  then show ?thesis by (simp add: only_requests_def sample_host_def)
qed

text \<open>The files when the subprocess starts, and its run.\<close>

definition env_result :: "unit res \<times> envCtx \<times> os" where
  "env_result = session_env sample_stores sample_listener ''127.0.0.1:0'' (pem_Encode ''CERTIFICATE'' ''cert'') [''htvend'']
     (locked_os\<lparr>dirs := [[''htvend'']]\<rparr>)"

lemma env_result_facts:
  "is_Ok (fst env_result)" "dirs (snd (snd env_result)) = [[''htvend''], [''htvend'', ''TMPDIR'']]" "faults (snd (snd env_result)) = []"
  "map fst (files (snd (snd env_result))) = [[''assets.json.lock''], [''htvend'', ''cacerts.pem''], [''htvend'', ''cacerts.jks'']]"
  by code_simp+

lemma locked_session:
  "os_MkdirTemp [] locked_os = (Ok [''htvend''], locked_os\<lparr>dirs := [[''htvend'']]\<rparr>)"
  "\<exists>hs r1. newSelfSignedServer sample_crypto [] (server_config sample_listener) (locked_os, 0) = (Ok hs, locked_os, r1) \<and>
     caPEM hs = pem_Encode ''CERTIFICATE'' ''cert''"
proof -
  show "os_MkdirTemp [] locked_os = (Ok [''htvend''], locked_os\<lparr>dirs := [[''htvend'']]\<rparr>)" by code_simp
  let ?k = "newSelfSignedServer sample_crypto [] (server_config sample_listener) (locked_os, 0)"
  have "is_Ok (fst ?k)" and "fst (snd ?k) = locked_os" by code_simp+
  then obtain hs r1 where k: "?k = (Ok hs, locked_os, r1)" by (cases ?k) (auto elim!: is_Ok.elims)
  then have "caPEM hs = pem_Encode ''CERTIFICATE'' ''cert''"
    by (auto simp: newSelfSignedServer_def obtain_keys_def server_config_def sample_listener_def sample_crypto_def
        generateKeyCert_def Let_def)
  with k show "\<exists>hs r1. ?k = (Ok hs, locked_os, r1) \<and> caPEM hs = pem_Encode ''CERTIFICATE'' ''cert''" by blast
qed

abbreviation env_srv :: "(path, os, nat) srv" where
  "env_srv \<equiv> \<lparr>sv_assets = plain_file, sv_blobs = snd (snd env_result), sv_net = 0, sv_missing = 0\<rparr>"

lemma sample_work_done:
  "\<exists>z ts f n k. sample_work (plain_lctx, FileStore sample_store) (snd (snd env_result), [], plain_file, (), 0, 0)
      = (z\<lparr>dirs := [''htvend''] # dirs z\<rparr>, ts, f, (), n, k) \<and> file_run plain_file f \<and>
    dir_local (ds_dir sample_store) (snd (snd env_result)) z \<and> dir_holds (ds_dir sample_store) z hello_key = Some ''hello''"
proof -
  let ?d = "ds_dir sample_store" and ?wE = "snd (snd env_result)"
  have g: "fs_get ?wE q = None" if "q \<notin> set (map fst (files ?wE))" for q
    using that by (simp add: fs_get_def map_of_eq_None_iff)
  then have g1: "fs_get ?wE (?d @ [x]) = None" "fs_get ?wE [''blobs''] = None" for x
    unfolding env_result_facts by (simp_all add: sample_dir)
  have inv: "srv_inv (dir_inv ?d) (dir_holds ?d) env_srv"
    using g1 env_result_facts by (simp add: srv_inv_def fw_inv_def dir_inv_def file_wf_def plain_file_def manifest_wf_def gm_wf_def
        content_addressed_def dir_holds_def sample_dir)
  have rd: "dir_ready ?d (sv_blobs env_srv)"
    using g1 env_result_facts by (simp add: dir_ready_def dir_inv_def sample_dir prefixes_of_def)
  have net: "sample_net (sample_outgoing\<lparr>rq_Header := hdr_add_all (rq_Header sample_request) (rq_Header sample_outgoing)\<rparr>) (sv_net env_srv)
      = (Ok sample_response, 1)" by (simp add: sample_net_def)
  have pf: "Writable (options plain_file)" "blobs plain_file \<noteq> None" "FetchIfMissing plain_lctx" "DummyOK plain_lctx = None"
    by (simp_all add: plain_file_def plain_lctx_def)
  obtain wr1 z1 where h: "handleMainServerRequest (dir_store sample_store) sample_net plain_lctx sample_request (rw_new []) env_srv = (Ok (), wr1, z1)"
    and st: "dir_holds ?d (sv_blobs z1) hello_key = Some ''hello''"
    using fetch_ready [of sample_store env_srv plain_lctx sample_request sample_outgoing sample_net sample_response 1,
        OF inv rd _ _ _ _ _ _ _ sample_new_request net] plain_file_facts pf
    by (auto simp: sample_simps sample_response_simps)
  let ?up = "lift_srv (\<lambda>w v. (w, snd v)) (?wE, ())"
  have "?up env_srv = srv_of (?wE, plain_file, (), 0, 0)" by (simp add: lift_srv_def srv_of_def)
  then have "handleMainServerRequest plain_big sample_net plain_lctx sample_request (rw_new []) (srv_of (?wE, plain_file, (), 0, 0)) = (Ok (), wr1, ?up z1)"
    using fl.handle_lift [of plain_platform sample_store sample_net plain_lctx sample_request "rw_new []" "(?wE, ())" env_srv]
    by (simp add: h)
  then have w: "sample_work (plain_lctx, FileStore sample_store) (?wE, [], plain_file, (), 0, 0)
      = ((sv_blobs z1)\<lparr>dirs := [''htvend''] # dirs (sv_blobs z1)\<rparr>, [(sample_request, H_Done (Ok ()) wr1)],
         sv_assets z1, (), sv_net z1, sv_missing z1)"
    by (simp add: sample_work_def Let_def lift_srv_def of_srv_def)
  have "file_run plain_file (sv_assets z1)" using handle_run [OF h] by simp
  moreover have "dir_local ?d ?wE (sv_blobs z1)" using dl.handle_loc [OF h] by simp
  ultimately show ?thesis using w st by blast
qed

lemma sample_session_done:
  "\<exists>w f n k. clean_session sample_host [] sample_listener ''htvend build'' (plain_lctx, FileStore sample_store)
      (srv_of (locked_os, plain_file, (), 0, 0)) = (Ok (), srv_of (w, f, (), n, k)) \<and> file_run plain_file f \<and> faults w = [] \<and>
    fs_get w [''assets.json.lock''] \<noteq> None \<and> \<not> dir_exists w [''assets.json''] \<and> dir_holds (ds_dir sample_store) w hello_key = Some ''hello''"
proof -
  let ?d = "ds_dir sample_store" and ?wE = "snd (snd env_result)" and ?x = "(plain_lctx, FileStore sample_store)"
  obtain z ts f n k where wk: "sample_work ?x (?wE, [], plain_file, (), 0, 0) = (z\<lparr>dirs := [''htvend''] # dirs z\<rparr>, ts, f, (), n, k)"
    and f: "file_run plain_file f" and loc: "dir_local ?d ?wE z" and h: "dir_holds ?d z hello_key = Some ''hello''"
    using sample_work_done by blast
  obtain hs r1 where k: "newSelfSignedServer sample_crypto [] (server_config sample_listener) (locked_os, 0) = (Ok hs, locked_os, r1)"
    and pem: "caPEM hs = pem_Encode ''CERTIFICATE'' ''cert''" using locked_session(2) by blast
  have "fst env_result = Ok ()" using env_result_facts(1) by (cases "fst env_result") auto
  then obtain e wE where er: "env_result = (Ok (), e, wE)" by (metis prod.collapse)
  have fz: "faults z = []" using loc env_result_facts(3) by (simp add: dir_local_def)
  let ?w4 = "z\<lparr>dirs := [''htvend''] # dirs z\<rparr>"
  let ?w5 = "?w4\<lparr>files := filter (\<lambda>(p, c). \<not> below [''htvend''] p) (files ?w4), dirs := filter (\<lambda>p. \<not> below [''htvend''] p) (dirs ?w4)\<rparr>"
  have del: "deleteDir [''htvend''] ?w4 = (Ok (), ?w5)"
    using fz by (simp add: deleteDir_def os_Stat_def os_RemoveAll_def pop_fault_def dir_exists_def)
  have "session_child (h_around sample_host ?x) sample_listener ''htvend build'' ''127.0.0.1:0'' (caPEM hs) (locked_os, [], plain_file, (), 0, 0)
      = (Ok (), ?w5, ts, f, (), n, k)"
    using er wk del locked_session(1)
    by (simp add: session_child_def WithTempDir_def sample_host_def pem env_result_def sample_listener_def RunSubprocess_def
        subprocess_cmd_def)
  then have c: "clean_session sample_host [] sample_listener ''htvend build'' ?x (srv_of (locked_os, plain_file, (), 0, 0))
      = (Ok (), srv_of (?w5, f, (), n, k))"
    using k by (simp add: clean_session_def sample_host_def sample_listener_def cfg_of_def)
  have g: "fs_get ?w5 q = fs_get z q" if "\<not> below [''htvend''] q" for q
    using that map_of_filter_fst [of "\<lambda>(p, c). \<not> below [''htvend''] p" q "files z"] by (simp add: fs_get_def)
  have "[''assets.json.lock''] \<in> set (map fst (files ?wE))" unfolding env_result_facts(4) by simp
  then have "fs_get ?wE [''assets.json.lock''] \<noteq> None" by (simp add: fs_get_def map_of_eq_None_iff)
  then have "fs_get ?w5 [''assets.json.lock''] \<noteq> None"
    using g [of "[''assets.json.lock'']"] dir_local_at [OF loc, of "[''assets.json.lock'']"] by (simp add: below_def sample_dir)
  moreover have "\<not> dir_exists ?w5 [''assets.json'']"
    using loc env_result_facts(2) by (auto simp: dir_local_def dir_exists_def sample_dir prefixes_of_def)
  moreover have "dir_holds ?d ?w5 hello_key = Some ''hello''"
    using h g [of "?d @ [hex_encode hello_key]"] by (simp add: dir_holds_def below_def sample_dir)
  ultimately show ?thesis using c f fz by fastforce
qed

text \<open>The whole program on it.\<close>

lemma sample_status:
  assumes "command_runs sample_host cmd (sample_process, w, (), n) (Ok ()) (sample_process, w', (), n')"
  shows "htvend_main sample_host sample_flags (Command (Some cmd)) (sample_process, w, (), n) 0 (sample_process, w', (), n')"
proof -
  have "main_init sample_host sample_flags (sample_process, w, (), n) = (Ok (), sample_process, w, (), n)"
    by (simp add: main_init_def Apply_def sample_host_def sample_flags_def)
  moreover have "main_shutdown sample_host sample_flags (sample_process, w', (), n') = (Ok (), sample_process, w', (), n')"
    by (simp add: main_shutdown_def OnShutdown_def sample_flags_def)
  ultimately show ?thesis
    using assms unfolding htvend_main_def
    by (intro exI [of _ "\<lambda>_. (Ok (), sample_process, w', (), n')"]) (simp add: RunWithFlags_def command_handler_def)
qed

lemma sample_main:
  "\<exists>w n. htvend_main sample_host sample_flags (Command (Some (BuildCmd plain_build sample_listener))) (sample_process, work_os, (), 0) 0
      (sample_process, w, (), n) \<and> dir_holds (ds_dir sample_store) w hello_key = Some ''hello''"
proof -
  let ?ses = "clean_session sample_host [] sample_listener ''htvend build''"
  obtain w f n k where c: "?ses (plain_lctx, FileStore sample_store) (srv_of (locked_os, plain_file, (), 0, 0)) = (Ok (), srv_of (w, f, (), n, k))"
    and f: "file_run plain_file f" and w: "faults w = []" "fs_get w [''assets.json.lock''] \<noteq> None" "\<not> dir_exists w [''assets.json'']"
    and h: "dir_holds (ds_dir sample_store) w hello_key = Some ''hello''"
    using sample_session_done by blast
  note ff = file_run_facts [OF f]
  obtain f' w3 where cl: "Close plain_fslock f w = (Ok (), f', w3)"
    using Close_ready [of f "[''assets.json.lock'']" w] ff w by (auto simp: plain_file_def dir_exists_def)
  have lp: "lockPath f = path_plus (opt_Path (options f)) ''.lock''" using ff by (simp add: plain_file_def path_plus_def)
  have "dir_holds (ds_dir sample_store) w3 = dir_holds (ds_dir sample_store) w"
    using man_local_dir [OF Close_local [OF cl plain_fslock_frames lp]] ff by (simp add: plain_file_def sample_dir)
  moreover have pl: "platform_at sample_host [] = plain_platform" by (simp add: platform_at_def sample_host_def plain_platform_def)
  have b: "build_Execute plain_platform plain_fslock plain_build ?ses (work_os, ()) 0 = (Ok (), (w3, ()), n)"
    using c cl by (simp add: build_Execute_def plain_build_open run_command_def srv_of_def close_deferred_def)
  have "command_runs sample_host (BuildCmd plain_build sample_listener) (sample_process, work_os, (), 0) (Ok ()) (sample_process, w3, (), n)"
    by (rule command_runs.build [OF clean_session_is])
      (use b pl in \<open>simp_all add: sample_host_def\<close>)
  ultimately have "htvend_main sample_host sample_flags (Command (Some (BuildCmd plain_build sample_listener))) (sample_process, work_os, (), 0) 0
      (sample_process, w3, (), n)"
    using sample_status by blast
  then show ?thesis using \<open>dir_holds (ds_dir sample_store) w3 = dir_holds (ds_dir sample_store) w\<close> h by auto
qed

lemma build_leaves_order_witness:
  "\<exists>w n mm. htvend_main sample_host sample_flags (Command (Some (BuildCmd plain_build sample_listener))) (sample_process, work_os, (), 0) 0
      (sample_process, w, (), n) \<and> on_disk mm [''assets.json''] w \<and> backed (dir_holds [''blobs''] w) mm \<and>
      dir_holds [''blobs''] w hello_key = Some ''hello''"
proof -
  obtain w n where m: "htvend_main sample_host sample_flags (Command (Some (BuildCmd plain_build sample_listener))) (sample_process, work_os, (), 0) 0
      (sample_process, w, (), n)" and h: "dir_holds (ds_dir sample_store) w hello_key = Some ''hello''"
    using sample_main by blast
  have cwd: "main_cwd sample_flags sample_process = []" by (simp add: main_cwd_def sample_flags_def)
  have pl: "plain_platform = platform_at sample_host (main_cwd sample_flags sample_process)"
    unfolding cwd by (simp add: platform_at_def sample_host_def plain_platform_def)
  have P: "[''assets.json''] = manifest_path plain_platform (bc_Manifest plain_build)" by code_simp
  have ds: "sample_store = NewDirectoryStore [''blobs''] True" by code_simp
  have lk: "fslock_frames (h_lock sample_host)" using plain_fslock_frames by (simp add: sample_host_def)
  have "path_of [] ''/blobs'' = [''blobs'']" and "\<not> has_prefix ''/blobs'' xdg_home" by code_simp+
  then have bd: "blob_dir plain_platform (mo_Cache (bc_Manifest plain_build)) [''blobs'']"
    by (simp add: blob_dir_def plain_build_def plain_options_def plain_platform_def xdgIt_def)
  have ap: "apart sample_host sample_flags sample_listener (main_cwd sample_flags sample_process) [''assets.json''] [''blobs'']"
    by (simp add: apart_def keys_elsewhere_def tmp_apart_def below_def sample_listener_def sample_flags_def sample_host_def
        plain_name_def tmp_dir_name_def)
  have wb: "world_backed [''assets.json''] [''blobs''] work_os"
    by (simp add: world_backed_def dir_inv_def content_addressed_def dir_holds_def on_disk_def work_os_def fs_get_def)
  have req: "only_requests (any_store plain_platform (FileStore sample_store)) (h_net sample_host) lctx [''assets.json''] [''blobs'']
      (h_around sample_host (lctx, FileStore sample_store))" for lctx by (rule sample_only_requests)
  from build_leaves_order [OF m pl P ds lk plain_xdg bd ap req wb] m h show ?thesis
    by (auto simp: world_backed_def sample_dir)
qed

end
