(* ===== verification/ExportLift.thy ===== *)
theory ExportLift
  imports StoreLift Export Frame
begin

text \<open>
  The export between the interface values of the commands: it runs as between the directories themselves, and keeps what
  the export of directories keeps, and beside it whatever only depends on files outside of the destination.
\<close>

section \<open>The multitasker seen through other jobs and another world\<close>

definition mt_map :: "('t \<Rightarrow> 'u) \<Rightarrow> ('w \<Rightarrow> 'v) \<Rightarrow> ('t, 'w) MultiTasker \<Rightarrow> ('u, 'v) MultiTasker" where
  "mt_map f g s =
     \<lparr>wg = wg s, errors_closed = errors_closed s, mt_caller = map_caller f (mt_caller s), mt_tasks = map (map_task f) (mt_tasks s),
      mt_closer = mt_closer s, mt_world = g (mt_world s), mt_calls = mt_calls s, mt_recv = mt_recv s, mt_panic = mt_panic s\<rparr>"

lemma mt_map_simps [simp]:
  "wg (mt_map f g s) = wg s" "errors_closed (mt_map f g s) = errors_closed s" "mt_caller (mt_map f g s) = map_caller f (mt_caller s)"
  "mt_tasks (mt_map f g s) = map (map_task f) (mt_tasks s)" "mt_closer (mt_map f g s) = mt_closer s"
  "mt_world (mt_map f g s) = g (mt_world s)" "mt_calls (mt_map f g s) = mt_calls s" "mt_recv (mt_map f g s) = mt_recv s"
  "mt_panic (mt_map f g s) = mt_panic s"
  by (simp_all add: mt_map_def)

lemma mt_map_eqI:
  "wg a = wg b \<Longrightarrow> errors_closed a = errors_closed b \<Longrightarrow> mt_caller a = mt_caller b \<Longrightarrow> mt_tasks a = mt_tasks b \<Longrightarrow>
    mt_closer a = mt_closer b \<Longrightarrow> mt_world a = mt_world b \<Longrightarrow> mt_calls a = mt_calls b \<Longrightarrow> mt_recv a = mt_recv b \<Longrightarrow>
    mt_panic a = mt_panic b \<Longrightarrow> a = (b :: ('t, 'w) MultiTasker)"
  by simp

lemma mt_step_map:
  assumes st: "\<And>t w. step' (f t) (g w) = (case step t w of (t1, w1) \<Rightarrow> (f t1, g w1))" and oc: "\<And>t. outc' (f t) = outc t"
    and "mt_step step outc s s'"
  shows "mt_step step' outc' (mt_map f g s) (mt_map f g s')"
  using assms(3)
proof (cases rule: mt_step.cases)
  case (Queue j js)
  have "mt_step step' outc' (mt_map f g s) ((mt_map f g s)\<lparr>wg := wg (mt_map f g s) + 1,
      mt_tasks := mt_tasks (mt_map f g s) @ [Running (f j)], mt_caller := Queueing (map f js)\<rparr>)"
    by (rule mt_step.Queue) (simp_all add: Queue)
  then show ?thesis using Queue(1) by (simp add: mt_map_def)
next
  case Wait
  have "mt_step step' outc' (mt_map f g s) ((mt_map f g s)\<lparr>mt_closer := WgWait, mt_caller := Ranging None\<rparr>)"
    by (rule mt_step.Wait) (simp_all add: Wait)
  then show ?thesis using Wait(1) by (simp add: mt_map_def)
next
  case (Run i t t' w')
  have "mt_step step' outc' (mt_map f g s) ((mt_map f g s)\<lparr>mt_tasks := (mt_tasks (mt_map f g s))[i := Running (f t')], mt_world := g w'\<rparr>)"
    by (rule mt_step.Run [where t = "f t"]) (simp_all add: Run st oc)
  then show ?thesis using Run(1) by (simp add: mt_map_def map_update)
next
  case (Ret i t r e)
  have "mt_step step' outc' (mt_map f g s) ((mt_map f g s)\<lparr>mt_tasks := (mt_tasks (mt_map f g s))[i := Sending e]\<rparr>)"
    by (rule mt_step.Ret [where t = "f t"]) (simp_all add: Ret oc)
  then show ?thesis using Ret(1) by (simp add: mt_map_def map_update)
next
  case (JobPanic i t p)
  have "mt_step step' outc' (mt_map f g s) ((mt_map f g s)\<lparr>mt_panic := Some p\<rparr>)"
    by (rule mt_step.JobPanic [where t = "f t" and i = i]) (simp_all add: JobPanic oc)
  then show ?thesis using JobPanic(1) by (simp add: mt_map_def)
next
  case (Send i e rvErr rvErr' calls')
  have "mt_step step' outc' (mt_map f g s) ((mt_map f g s)\<lparr>mt_tasks := (mt_tasks (mt_map f g s))[i := Sent e],
      mt_caller := Ranging rvErr', mt_calls := calls', mt_recv := mt_recv (mt_map f g s) @ [e]\<rparr>)"
    by (rule mt_step.Send) (use Send in simp_all)
  then show ?thesis using Send(1) by (simp add: mt_map_def map_update)
next
  case (SendClosed i e)
  have "mt_step step' outc' (mt_map f g s) ((mt_map f g s)\<lparr>mt_panic := Some ''send on closed channel''\<rparr>)"
    by (rule mt_step.SendClosed [where i = i]) (simp_all add: SendClosed)
  then show ?thesis using SendClosed(1) by (simp add: mt_map_def)
next
  case (Done i e)
  have "mt_step step' outc' (mt_map f g s) ((mt_map f g s)\<lparr>mt_tasks := (mt_tasks (mt_map f g s))[i := Finished e],
      wg := wg (mt_map f g s) - 1\<rparr>)"
    by (rule mt_step.Done) (simp_all add: Done)
  then show ?thesis using Done(1) by (simp add: mt_map_def map_update)
next
  case (DoneNeg i e)
  have "mt_step step' outc' (mt_map f g s) ((mt_map f g s)\<lparr>mt_panic := Some ''sync: negative WaitGroup counter''\<rparr>)"
    by (rule mt_step.DoneNeg [where i = i]) (simp_all add: DoneNeg)
  then show ?thesis using DoneNeg(1) by (simp add: mt_map_def)
next
  case Wake
  have "mt_step step' outc' (mt_map f g s) ((mt_map f g s)\<lparr>mt_closer := Closing\<rparr>)" by (rule mt_step.Wake) (simp_all add: Wake)
  then show ?thesis using Wake(1) by (simp add: mt_map_def)
next
  case Close
  have "mt_step step' outc' (mt_map f g s) ((mt_map f g s)\<lparr>mt_closer := Closed, errors_closed := True\<rparr>)"
    by (rule mt_step.Close) (simp_all add: Close)
  then show ?thesis using Close(1) by (simp add: mt_map_def)
next
  case CloseClosed
  have "mt_step step' outc' (mt_map f g s) ((mt_map f g s)\<lparr>mt_panic := Some ''close of closed channel''\<rparr>)"
    by (rule mt_step.CloseClosed) (simp_all add: CloseClosed)
  then show ?thesis using CloseClosed(1) by (simp add: mt_map_def)
next
  case (RangeEnd rvErr)
  have "mt_step step' outc' (mt_map f g s) ((mt_map f g s)\<lparr>mt_caller := Returned rvErr\<rparr>)"
    by (rule mt_step.RangeEnd) (simp_all add: RangeEnd)
  then show ?thesis using RangeEnd(1) by (simp add: mt_map_def)
qed

lemma mt_reach_map:
  assumes "\<And>t w. step' (f t) (g w) = (case step t w of (t1, w1) \<Rightarrow> (f t1, g w1))" and "\<And>t. outc' (f t) = outc t"
    and "mt_reach step outc js w s"
  shows "mt_reach step' outc' (map f js) (g w) (mt_map f g s)"
  using assms(3)
proof (induction rule: mt_reach.induct)
  case start
  have "mt_map f g (NewMultiTasker js w) = NewMultiTasker (map f js) (g w)" by (simp add: mt_map_def NewMultiTasker_def)
  then show ?case using mt_reach.start [of step' outc' "map f js" "g w"] by simp
next
  case (step s s')
  have "mt_step step' outc' (mt_map f g s) (mt_map f g s')" by (rule mt_step_map [OF assms(1,2) step(2)])
  with step.IH show ?case by (rule mt_reach.step)
qed

section \<open>Directories behind the interface\<close>

lemma export_step_lift:
  "export_step (any_store pl (FileStore s1)) (any_store pl (FileStore s)) (map_export_pc FileBlob t) (w, m) =
     (case export_step (dir_store s1) (dir_store s) t w of (t1, w1) \<Rightarrow> (map_export_pc FileBlob t1, w1, m))"
proof (cases t)
  case (E_Copy k b cs e)
  then show ?thesis by (cases cs) (auto simp: any_lift_simps split: prod.splits option.splits)
qed (auto simp: any_lift_simps split: prod.splits res.splits)

lemma export_lift:
  assumes "export_execute (dir_store s1) (dir_store s) f w r w'"
  shows "export_execute (any_store pl (FileStore s1)) (any_store pl (FileStore s)) f (w, m) r (w', m)"
  using assms
proof (cases rule: export_execute.cases)
  case (bad_keys e)
  then show ?thesis by (simp add: export_execute.bad_keys)
next
  case (waited ks t rv)
  have oc: "export_outc (map_export_pc FileBlob t) = export_outc t" for t :: "caf export_pc" by (cases t) simp_all
  have "mt_reach (export_step (any_store pl (FileStore s1)) (any_store pl (FileStore s))) export_outc
      (map (map_export_pc FileBlob) (map E_Start ks)) (w, m) (mt_map (map_export_pc FileBlob) (\<lambda>w. (w, m)) t)"
    by (rule mt_reach_map [OF _ _ waited(4)]) (simp_all add: export_step_lift oc)
  then have t: "mt_reach (export_step (any_store pl (FileStore s1)) (any_store pl (FileStore s))) export_outc
      (map E_Start ks) (w, m) (mt_map (map_export_pc FileBlob) (\<lambda>w. (w, m)) t)" by (simp add: comp_def)
  show ?thesis using export_execute.waited [OF waited(3) t] waited(1,2,5) by simp
qed

text \<open>
  The contract of an export between two directories of a larger world; what else is there stays, but for the
  destination.
\<close>

interpretation exl: export_pair "any_store pl (FileStore s)" "\<lambda>v. dir_holds (ds_dir s) (fst v)" "\<lambda>v. dir_inv (ds_dir s) (fst v)"
    "\<lambda>c. \<exists>b. c = FileBlob b \<and> caf_wf (ds_dir s) b" "\<lambda>c v. caf_pending (un_FileBlob c) (fst v)"
    "\<lambda>c v. caf_alive (un_FileBlob c) (fst v)" "\<lambda>b c. caf_indep (un_FileBlob b) (un_FileBlob c)" "any_store pl (FileStore s1)"
    "\<lambda>v. source_inv (ds_dir s1) (ds_dir s) H (fst v) \<and> file_loc (ds_dir s) v0 v" for pl s s1 H v0
proof (unfold_locales, goal_cases)
  case (1 w k r w')
  obtain x w1 where g: "ds_Get s1 k (fst w) = (x, w1)" by fastforce
  have w': "w' = (w1, snd w)" using 1(3) g by (simp add: any_lift_simps split: prod.splits)
  have "file_loc (ds_dir s) v0 w'"
    using 1(1) dir_local_trans ds_Get_local [OF g] by (auto simp: w' file_loc_def)
  then show ?case using ex.src_get [of s1 s H "fst w" k x w1] 1 g by (simp add: w')
next
  case (2 k w m w')
  then show ?case using ex.src_no_panic [of s1 k "fst w" m "fst w'"] by (auto simp: any_lift_simps split: prod.splits)
next
  case (3 w k rx w')
  obtain x w1 where g: "ds_Exists s k (fst w) = (x, w1)" by fastforce
  have w': "w' = (w1, snd w)" using 3(3) g by (simp add: any_lift_simps split: prod.splits)
  have "file_loc (ds_dir s) v0 w'"
    using 3(1) dir_local_trans ds_Exists_local [OF g] by (auto simp: w' file_loc_def)
  then show ?case using ex.dst_exists [of s1 s H "fst w" k x w1] 3 g by (simp add: w')
next
  case (4 w rp w')
  obtain x w1 where g: "ds_Put s (fst w) = (x, w1)" by fastforce
  have w': "w' = (w1, snd w)" using 4(3) g by (simp add: any_lift_simps split: prod.splits)
  have "file_loc (ds_dir s) v0 w'"
    using 4(1) dir_local_trans ds_Put_local [OF g] by (auto simp: w' file_loc_def)
  then show ?case using ex.dst_put [of s1 s H "fst w" x w1] 4 g by (simp add: w')
next
  case (5 w b p rw b' w')
  obtain c where b: "b = FileBlob c" "caf_wf (ds_dir s) c" using 5(3) by blast
  obtain x c1 w1 where g: "caf_Write c p (fst w) = (x, c1, w1)" by (metis prod_cases3)
  have w': "w' = (w1, snd w)" using 5(4) g b by (simp add: any_lift_simps split: prod.splits)
  have "file_loc (ds_dir s) v0 w'"
    using 5(1) dir_local_trans caf_Write_local [OF g b(2)] by (auto simp: w' file_loc_def)
  then show ?case using ex.dst_write [of s1 s H "fst w" c p x c1 w1] 5 g b by (simp add: w')
next
  case (6 w b rc b' w')
  obtain c where b: "b = FileBlob c" "caf_wf (ds_dir s) c" using 6(3) by blast
  obtain x c1 w1 where g: "caf_Commit c (fst w) = (x, c1, w1)" by (metis prod_cases3)
  have w': "w' = (w1, snd w)" using 6(4) g b by (simp add: any_lift_simps split: prod.splits)
  have "file_loc (ds_dir s) v0 w'"
    using 6(1) dir_local_trans caf_Commit_local [OF g b(2)] by (auto simp: w' file_loc_def)
  then show ?case using ex.dst_commit [of s1 s H "fst w" c x c1 w1] 6 g b by (simp add: w')
next
  case (7 w b re b' w')
  obtain c where b: "b = FileBlob c" "caf_wf (ds_dir s) c" using 7(3) by blast
  obtain x c1 w1 where g: "caf_Cleanup c (fst w) = (x, c1, w1)" by (metis prod_cases3)
  have w': "w' = (w1, snd w)" using 7(4) g b by (simp add: any_lift_simps split: prod.splits)
  have "file_loc (ds_dir s) v0 w'"
    using 7(1) dir_local_trans caf_Cleanup_local [OF g b(2)] by (auto simp: w' file_loc_def)
  then show ?case using ex.dst_cleanup [of s1 s H "fst w" c x c1 w1] 7 g b by (simp add: w')
qed

end
