(* ===== verification/ProgramChecks.thy ===== *)
theory ProgramChecks
  imports Program ExportLift
begin

text \<open>
  What the exit status of \<open>htvend verify\<close> and \<open>htvend export\<close> says, from the parsed command line to the end of the
  program.
\<close>

section \<open>Opening for reading\<close>

text \<open>A manifest that is opened for reading is the one on the disk.\<close>

lemma readonly_opened:
  assumes "MakeManifestFile pl lk mo opts w = (Ok f, w')" and "\<not> mc_Writable opts"
  shows "on_disk (blobs f) (manifest_path pl mo) w \<and> \<not> Writable (options f) \<and> env_le w w' \<and> fs_get w' = fs_get w"
proof -
  obtain nc u where nm: "NewMapFile lk \<lparr>opt_Path = manifest_path pl mo, Writable = False, AllowOverwrite = mc_AllowOverwrite opts,
      NoCache = Some nc\<rparr> w = (Ok f, w')" (is "NewMapFile lk ?o w = _")
    using assms by (auto simp: MakeManifestFile_def split: res.splits)
  then have ld: "load (new_file ?o) w = (Ok (), f, w')"
    by (auto simp: NewMapFile_def split: res.splits prod.splits)
  obtain x w1 where r: "os_ReadFile (manifest_path pl mo) w = (x, w1)" by fastforce
  have "on_disk (blobs f) (manifest_path pl mo) w"
    using ld r os_ReadFile_Ok [of "manifest_path pl mo" w]
    by (cases x) (auto simp: load_def new_file_def on_disk_def split: res.splits)
  then show ?thesis using load_local [OF ld] by (simp add: new_file_def)
qed

lemma verify_opened:
  assumes "verify_open pl lk vc w = (Ok (vctx, bs), Some f, w')" and "\<not> Repair vc" and "\<not> Fetch vc" and "xdg_ok pl"
    and "blob_dir pl (mo_Cache (vc_Manifest vc)) d" and "dir_inv d w"
  shows "bs = FileStore (NewDirectoryStore d False) \<and> v_FailIfMissing vctx \<and> v_ValidateSHA256 vctx \<and>
    on_disk (blobs f) (manifest_path pl (vc_Manifest vc)) w \<and> \<not> Writable (options f) \<and> dir_inv d w' \<and> fs_get w' = fs_get w"
proof -
  obtain wa where m: "MakeManifestFile pl lk (vc_Manifest vc)
      \<lparr>mc_Writable = Repair vc, mc_AllowOverwrite = Repair vc, NoCacheList = fo_NoCache (vc_Fetch vc)\<rparr> w = (Ok f, wa)"
    and b: "MakeBlobStore pl (mo_Cache (vc_Manifest vc)) (Fetch vc) wa = (Ok bs, w')"
    and v: "v_FailIfMissing vctx" "v_ValidateSHA256 vctx"
    using assms(1-3) by (auto simp: verify_open_def split: res.splits prod.splits)
  note r = readonly_opened [OF m]
  have bs: "bs = FileStore (NewDirectoryStore d False)" using blob_dir_store [OF assms(5) b] assms(3) by simp
  have "dir_inv d wa" using r assms(2,6) dir_inv_env by auto
  then have "dir_inv d w'" using MakeBlobStore_inv [OF b [unfolded bs] assms(4)] by (simp add: NewDirectoryStore_def)
  then show ?thesis using r bs v assms(2) MakeBlobStore_files [OF b assms(4)] by simp
qed

text \<open>Making a directory store leaves other directories of blobs in order, and its own.\<close>

lemma prefix_butlast: "q \<in> set (prefixes_of (butlast d)) \<Longrightarrow> q \<in> set (prefixes_of d)"
proof (cases d rule: rev_cases)
  case (snoc x y)
  assume "q \<in> set (prefixes_of (butlast d))"
  then obtain n where "q = take n x" "1 \<le> n" "n \<le> length x" using snoc by (auto simp: prefixes_of_def)
  then have "q = take n d \<and> n \<in> {1..<Suc (length d)}" using snoc by simp
  then show ?thesis unfolding prefixes_of_def by auto
qed simp

lemma MakeBlobStore_apart:
  assumes "MakeBlobStore pl co wr w = (Ok (FileStore ds), w')" and "xdg_ok pl" and "dir_apart d (ds_dir ds)" and "dir_inv d w"
  shows "dir_inv d w'"
proof -
  obtain q where q: "gives_path (pl_cwd pl) (xdgIt pl (BlobsDir co)) q" using xdgIt_ok [OF assms(2)] .
  obtain x where x: "xdgIt pl (BlobsDir co) w = (Ok x, w')" "ds = NewDirectoryStore (path_of (pl_cwd pl) x) wr"
    using MakeBlobStore_file [OF assms(1)] by blast
  have "x = q" by (rule gives_pathD(4) [OF q x(1)]) simp
  then have "ds_dir ds = path_of (pl_cwd pl) q" using x(2) by (simp add: NewDirectoryStore_def)
  then have "d @ [hex_encode k] \<notin> set (dirs w')" for k
    using gives_pathD(3) [OF q x(1)] assms(3,4) prefix_butlast [of "d @ [hex_encode k]" "ds_dir ds"]
    unfolding dir_apart_def dir_inv_def by auto
  moreover have "list_all fault_ok (faults w')"
    using gives_pathD(2) [OF q x(1)] assms(4) by (auto simp: dir_inv_def list_all_iff)
  ultimately show ?thesis by (simp add: dir_inv_def)
qed

lemma export_opened:
  assumes "export_open pl lk ec w = (Ok (b1, b2), Some f, w')" and "xdg_ok pl"
    and "blob_dir pl (mo_Cache (ec_Manifest ec)) d1" and "blob_dir pl (ec_Dest ec) d" and "dir_inv d1 w" and "dir_inv d w"
    and "dir_apart d1 d" and "dir_apart d d1"
  shows "b1 = FileStore (NewDirectoryStore d1 False) \<and> b2 = FileStore (NewDirectoryStore d True) \<and>
    on_disk (blobs f) (manifest_path pl (ec_Manifest ec)) w \<and> \<not> Writable (options f) \<and> dir_inv d1 w' \<and> dir_inv d w' \<and>
    fs_get w' = fs_get w"
proof -
  obtain wa wb where m: "MakeManifestFile pl lk (ec_Manifest ec) mc_none w = (Ok f, wa)"
    and b1: "MakeBlobStore pl (mo_Cache (ec_Manifest ec)) False wa = (Ok b1, wb)" and b2: "MakeBlobStore pl (ec_Dest ec) True wb = (Ok b2, w')"
    using assms(1) by (auto simp: export_open_def split: res.splits prod.splits)
  have "\<not> mc_Writable mc_none" by (simp add: mc_none_def)
  note r = readonly_opened [OF m this]
  note s1 = blob_dir_store [OF assms(3) b1] and s2 = blob_dir_store [OF assms(4) b2]
  have d: "ds_dir (NewDirectoryStore d wr) = d" for d wr by (simp add: NewDirectoryStore_def)
  have "dir_inv d1 wa" "dir_inv d wa" using r assms(5,6) dir_inv_env by blast+
  then have "dir_inv d1 wb" "dir_inv d wb"
    using MakeBlobStore_inv [OF b1 [unfolded s1] assms(2), unfolded d] MakeBlobStore_apart [OF b1 [unfolded s1] assms(2), unfolded d] assms(8)
    by blast+
  then have "dir_inv d1 w'" "dir_inv d w'"
    using MakeBlobStore_inv [OF b2 [unfolded s2] assms(2), unfolded d] MakeBlobStore_apart [OF b2 [unfolded s2] assms(2), unfolded d] assms(7)
    by blast+
  then show ?thesis using r s1 s2 MakeBlobStore_files [OF b1 assms(2)] MakeBlobStore_files [OF b2 assms(2)] by simp
qed

lemma export_Execute_Ok:
  assumes "export_Execute pl lk ec (w, m) (Ok ()) (w3, m2)"
  obtains b1 b2 f w1 r w2 m1 where "export_open pl lk ec w = (Ok (b1, b2), Some f, w1)"
    and "export_execute (any_store pl b1) (any_store pl b2) f (w1, m) r (w2, m1)" and "close_deferred lk f r w2 = (Ok (), w3)"
  using assms
proof (cases rule: export_Execute.cases)
  case (not_opened x f w1 u)
  then have False by (cases x; cases f) (auto simp: run_command_def close_deferred_def split: res.splits prod.splits)
  then show ?thesis by blast
qed (use that in blast)

lemma export_execute_Ok:
  assumes "export_execute src dst f w (Ok ()) w'"
  obtains ks t where "export_keys f = Ok ks" and "w' = mt_world t" and "mt_caller t = caller.Returned None"
    and "mt_reach (export_step src dst) export_outc (map E_Start ks) w t"
  using assms
proof (cases rule: export_execute.cases)
  case (waited ks t rv)
  then show ?thesis using that by (cases rv) auto
qed

section \<open>Properties\<close>

inductive_cases command_runs_verify: "command_runs h (VerifyCmd vc) (p, w, m, n) ret s"

text \<open>
  C3. What a verification attests. When \<open>htvend verify\<close> without \<open>--fetch\<close> and \<open>--repair\<close> ends with status 0, whatever
  failed on the way and whatever the blob directory contained, every entry of the manifest on the disk has a URL that
  parses, a well-formed digest, and a blob whose content has this digest; and the manifest and the blobs are as before.
\<close>

theorem verify_status:
  assumes "htvend_main h fc (Command (Some (VerifyCmd vc))) (p0, w0, m, n) 0 (p1, w1, m1, n1)"
    and "pl = platform_at h (main_cwd fc p0)" and "p = manifest_path pl (vc_Manifest vc)" and "\<not> Fetch vc" and "\<not> Repair vc"
    and "xdg_ok pl" and "blob_dir pl (mo_Cache (vc_Manifest vc)) d" and "butlast p \<noteq> d"
    and "GithubOutputPath fc = [] \<or> elsewhere p d (path_of (main_cwd fc p0) (GithubOutputPath fc))"
    and "dir_inv d w0"
  shows "(\<exists>mm. on_disk mm p w0 \<and> list_all (entry_good (dir_holds d w0)) (gm_entries mm)) \<and>
    fs_get w1 p = fs_get w0 p \<and> dir_holds d w1 = dir_holds d w0"
proof -
  let ?ds = "NewDirectoryStore d False"
  obtain s1 s2 e where i: "main_init h fc (p0, w0, m, n) = (Ok (), s1)" and c: "command_runs h (VerifyCmd vc) s1 (Ok ()) s2"
    and e: "main_shutdown h fc s2 = (e, p1, w1, m1, n1)"
    using htvend_main_0 [OF assms(1)] by blast
  obtain q wa where a: "Apply (h_log h) (h_LOG_LEVEL h) fc (p0, w0) = (Ok (), q, wa)" and s1: "s1 = (q, wa, m, n)"
    using i by (auto simp: main_init_def split: prod.splits)
  note A = Apply_Ok [OF a]
  have i: "dir_inv d wa" using dir_inv_env assms(10) A by blast
  from c [unfolded s1] show ?thesis
  proof (rule command_runs_verify)
    fix wc mc nc
    assume s2: "s2 = (q, wc, mc, nc)"
      and v: "verify_Execute (platform_at h (proc_cwd q)) (h_lock h) (h_net h) (h_append h) vc (wa, m) n = (Ok (), (wc, mc), nc)"
    have v: "run_command (h_lock h) (verify_open pl (h_lock h) vc wa) (\<lambda>(vctx, bs). doValidate (any_store pl bs) (h_net h) (h_append h) vctx) m n
        = (Ok (), (wc, mc), nc)"
      using v A assms(2) by (simp add: verify_Execute_def)
    have no: "verify_open pl (h_lock h) vc wa \<noteq> (Ok x, None, w)" for x w
      by (auto simp: verify_open_def split: res.splits prod.splits)
    obtain x f wb s where o: "verify_open pl (h_lock h) vc wa = (Ok x, Some f, wb)"
      and dv: "(case x of (vctx, bs) \<Rightarrow> doValidate (any_store pl bs) (h_net h) (h_append h) vctx)
          \<lparr>sv_assets = f, sv_blobs = (wb, m), sv_net = n, sv_missing = 0\<rparr> = (Ok (), s)"
      and cl: "close_deferred (h_lock h) (sv_assets s) (Ok ()) (fst (sv_blobs s)) = (Ok (), wc)"
      using run_command_0 [OF v] no by blast
    obtain vctx bs where x: "x = (vctx, bs)" by fastforce
    note O = verify_opened [OF o [unfolded x] assms(5,4,6,7) i]
    have dv: "doValidate (any_store pl (FileStore ?ds)) (h_net h) (h_append h) vctx
        \<lparr>sv_assets = f, sv_blobs = (wb, m), sv_net = n, sv_missing = 0\<rparr> = (Ok (), s)"
      using dv x O by simp
    have d: "ds_dir ?ds = d" by (simp add: NewDirectoryStore_def)
    have hyps: "dir_inv (ds_dir ?ds) (fst (sv_blobs \<lparr>sv_assets = f, sv_blobs = (wb, m), sv_net = n, sv_missing = 0\<rparr>))"
        "v_FailIfMissing vctx" "v_ValidateSHA256 vctx"
      using O d by simp_all
    note V = fl.lifted.validate_sound [OF dv hyps, unfolded d srv.simps fst_conv]
    note V = V [THEN conjunct1] V [THEN conjunct2, THEN conjunct2, THEN conjunct1] V [THEN conjunct2, THEN conjunct2, THEN conjunct2]
    have "\<not> Writable (options f)" using O by blast
    then have wc: "wc = fst (sv_blobs s)" using cl close_readonly [of f "h_lock h" "Ok ()" "fst (sv_blobs s)"] V(1) by simp
    have loc: "dir_local d wb wc" using fll.doValidate_loc [OF dv] by (simp add: file_loc_def wc d)
    have wa: "dir_holds d wb = dir_holds d w0" "fs_get wb p = fs_get w0 p" "fs_get wa p = fs_get w0 p"
      using A O by (simp_all add: dir_holds_def fun_eq_iff)
    have "list_all (entry_good (dir_holds d w0)) (gm_entries (blobs f))"
      using V(3) by (fastforce simp: list_all_iff entry_good_def wa)
    moreover have "on_disk (blobs f) p w0" using O assms(3) wa by (simp add: on_disk_def)
    moreover have "beside p d wc w1"
      using e s2 A assms(9) by (auto simp: main_shutdown_def split: prod.splits intro: OnShutdown_beside)
    moreover have "fs_get wc p = fs_get w0 p" "dir_holds d wc = dir_holds d w0"
      using loc assms(8) V(2) wc by (simp_all add: dir_local_def wa)
    ultimately show ?thesis using beside_keeps by metis
  qed
qed

text \<open>A manifest on the disk with one entry, and its blob.\<close>

definition kept_blobs :: blobMap where
  "kept_blobs = Some [(url_Redacted sample_url, \<lparr>Sha256 = hex_encode hello_key, Headers = Some []\<rparr>)]"

definition kept_os :: os where
  "kept_os = \<lparr>files = [([''assets.json''], json_MarshalIndent kept_blobs), ([''blobs'', hex_encode hello_key], ''hello'')],
     dirs = [[''blobs'']], faults = []\<rparr>"

definition kept_file :: "path File" where
  "kept_file = \<lparr>options = \<lparr>opt_Path = [''assets.json''], Writable = False, AllowOverwrite = False, NoCache = Some \<lparr>mm_regexes = []\<rparr>\<rparr>,
     blobs = kept_blobs, previousBlobs = None, dirty = False, lock = None, lockPath = []\<rparr>"

definition plain_export :: ExportCommand where
  "plain_export = \<lparr>ec_Manifest = plain_options,
     ec_Dest = \<lparr>BlobsBackend = ''filesystem'', BlobsRegistry = [], BlobsDir = ''/dst'', BlobsBucket = [], BlobsPrefix = []\<rparr>\<rparr>"

lemma kept_on_disk: "on_disk kept_blobs [''assets.json''] kept_os"
proof -
  have a: "ascii (url_Redacted sample_url)" by code_simp
  have "manifest_wf kept_blobs" by (simp add: kept_blobs_def manifest_wf_def gm_wf_def gm_entries_def)
  moreover have "manifest_plain kept_blobs"
    using a by (simp add: kept_blobs_def manifest_plain_def gm_entries_def blob_plain_def ascii_valid ascii_hex)
  moreover have "canon_blobs kept_blobs = kept_blobs"
    by (simp add: kept_blobs_def canon_blobs_def canon_blob_def canon_headers_def)
  ultimately have "json_Unmarshal (json_MarshalIndent kept_blobs) gm_make = Ok kept_blobs" using unmarshal_marshal by metis
  then show ?thesis by (simp add: on_disk_def kept_os_def fs_get_def)
qed

lemma kept_manifest:
  "MakeManifestFile plain_platform plain_fslock plain_options
     \<lparr>mc_Writable = False, mc_AllowOverwrite = False, NoCacheList = []\<rparr> kept_os = (Ok kept_file, kept_os)"
proof -
  obtain bb where bb: "fs_get kept_os [''assets.json''] = Some bb" "json_Unmarshal bb gm_make = Ok kept_blobs"
    using kept_on_disk by (auto simp: on_disk_def)
  have "os_ReadFile [''assets.json''] kept_os = (Ok bb, kept_os)" using bb(1) by (simp add: os_ReadFile_def pop_fault_def kept_os_def)
  moreover have "path_of (pl_cwd plain_platform) (ManifestFile plain_options) = [''assets.json'']" by code_simp
  ultimately show ?thesis
    using bb(2) by (simp add: MakeManifestFile_def NewMultiRegexMatcher_def NewMapFile_def load_def new_file_def kept_file_def)
qed

lemma kept_store: "MakeBlobStore plain_platform (mo_Cache plain_options) False w = (Ok (FileStore (NewDirectoryStore [''blobs''] False)), w)"
  by (simp add: MakeBlobStore_def plain_options_def xdgIt_def plain_paths plain_platform_def)

lemma kept_ready: "dir_ready [''blobs''] kept_os" "dir_holds [''blobs''] kept_os hello_key = Some ''hello''"
  by (auto simp: dir_ready_def dir_inv_def kept_os_def prefixes_of_def dir_holds_def fs_get_def)

lemma kept_places: "plain_platform = platform_at sample_host (main_cwd sample_flags sample_process)"
    "manifest_path plain_platform plain_options = [''assets.json'']"
    "blob_dir plain_platform (mo_Cache plain_options) [''blobs'']"
    "blob_dir plain_platform (ec_Dest plain_export) [''dst'']"
proof -
  show "plain_platform = platform_at sample_host (main_cwd sample_flags sample_process)"
    by (simp add: platform_at_def sample_host_def plain_platform_def main_cwd_def sample_flags_def)
  show "manifest_path plain_platform plain_options = [''assets.json'']" by code_simp
  have "path_of [] ''/dst'' = [''dst'']" and "\<not> has_prefix ''/dst'' xdg_home" by code_simp+
  then show "blob_dir plain_platform (mo_Cache plain_options) [''blobs'']" "blob_dir plain_platform (ec_Dest plain_export) [''dst'']"
    by (simp_all add: blob_dir_def plain_options_def plain_platform_def xdgIt_def plain_paths plain_export_def)
qed

lemma kept_verified:
  "htvend_main sample_host sample_flags (Command (Some (VerifyCmd (plain_verify False)))) (sample_process, kept_os, (), 0) 0
    (sample_process, kept_os, (), 0)"
proof -
  let ?ds = "NewDirectoryStore [''blobs''] False"
  let ?ctx = "\<lparr>v_HeadersToCache = Some [], v_FailIfMissing = True, v_FetchIfMissing = False, v_RepairIfWrong = False, v_ValidateSHA256 = True\<rparr>"
  have o: "verify_open plain_platform plain_fslock (plain_verify False) kept_os = (Ok (?ctx, FileStore ?ds), Some kept_file, kept_os)"
    by (simp add: verify_open_def plain_verify_def kept_manifest kept_store CacheHeaderMap_def gm_make_def)
  have g: "ds_Get ?ds hello_key kept_os = (Ok (open_reader ''hello'' Pass Pass), kept_os)"
    using ready_Get [of ?ds kept_os hello_key "''hello''"] kept_ready by (simp add: NewDirectoryStore_def)
  have u: "url_Parse (url_Redacted sample_url) = Ok sample_url" by code_simp
  let ?st = "any_store plain_platform (FileStore ?ds)" and ?v0 = "\<lparr>vs_missing = [], vs_wrong = [], vs_world = (kept_os, ())\<rparr>"
  let ?s = "\<lparr>sv_assets = kept_file, sv_blobs = (kept_os, ()), sv_net = 0, sv_missing = 0\<rparr> :: (path, os \<times> unit, nat) srv"
  have "validate_entry ?st ?ctx sample_url \<lparr>Sha256 = hex_encode hello_key, Headers = Some []\<rparr> ?v0 = (Ok (), ?v0)"
    by (simp add: validate_entry_def any_lift_simps g open_reader_def hash_copy Let_def)
  then have "ForEach (validate_entry ?st ?ctx) kept_file ?v0 = (Ok (), ?v0)"
    by (simp add: ForEach_def kept_file_def kept_blobs_def gm_entries_def u)
  then have "doValidate ?st sample_net (\<lambda>_ e. e) ?ctx ?s = (Ok (), ?s)" by (simp add: doValidate_def)
  then have v: "verify_Execute plain_platform plain_fslock sample_net (\<lambda>_ e. e) (plain_verify False) (kept_os, ()) 0 = (Ok (), (kept_os, ()), 0)"
    by (simp add: verify_Execute_def o run_command_def close_readonly kept_file_def)
  have "command_runs sample_host (VerifyCmd (plain_verify False)) (sample_process, kept_os, (), 0) (Ok ()) (sample_process, kept_os, (), 0)"
    by (rule command_runs.verify) (use v kept_places(1) in \<open>simp add: sample_host_def main_cwd_def sample_flags_def\<close>)
  then show ?thesis by (rule sample_status)
qed

lemma verify_status_witness:
  "htvend_main sample_host sample_flags (Command (Some (VerifyCmd (plain_verify False)))) (sample_process, kept_os, (), 0) 0
    (sample_process, kept_os, (), 0) \<and> list_all (entry_good (dir_holds [''blobs''] kept_os)) (gm_entries kept_blobs)"
proof -
  have i: "dir_inv [''blobs''] kept_os" using kept_ready by (simp add: dir_ready_def)
  have "(\<exists>mm. on_disk mm [''assets.json''] kept_os \<and> list_all (entry_good (dir_holds [''blobs''] kept_os)) (gm_entries mm))"
    using verify_status [OF kept_verified kept_places(1) _ _ _ plain_xdg _ _ _ i, of "[''assets.json'']"] kept_places(2,3)
    by (simp add: plain_verify_def sample_flags_def)
  then show ?thesis using kept_verified kept_on_disk on_disk_unique by metis
qed

inductive_cases command_runs_export: "command_runs h (ExportCmd ec) (p, w, m, n) ret s"

text \<open>
  C4. What an export has done. When \<open>htvend export\<close> between two directories ends with status 0, however its goroutines
  interleaved and whatever failed on the way, the destination has, for every entry of the manifest on the disk, content
  of the entry's digest under this digest, and has lost nothing; the manifest is as before.
\<close>

theorem export_status:
  assumes "htvend_main h fc (Command (Some (ExportCmd ec))) (p0, w0, m, n) 0 (p1, w1, m1, n1)"
    and "pl = platform_at h (main_cwd fc p0)" and "p = manifest_path pl (ec_Manifest ec)" and "xdg_ok pl"
    and "blob_dir pl (mo_Cache (ec_Manifest ec)) d1" and "blob_dir pl (ec_Dest ec) d" and "dir_apart d1 d" and "dir_apart d d1"
    and "butlast p \<noteq> d" and "GithubOutputPath fc = [] \<or> elsewhere p d (path_of (main_cwd fc p0) (GithubOutputPath fc))"
    and "dir_inv d1 w0" and "dir_inv d w0" and "content_addressed (dir_holds d w0)"
  shows "(\<exists>mm. on_disk mm p w0 \<and> (\<forall>kv. kv \<in> set (gm_entries mm) \<longrightarrow>
      (\<exists>k c. hex_decode (Sha256 (snd kv)) = Ok k \<and> dir_holds d w1 k = Some c \<and> sha256 c = k))) \<and>
    fs_get w1 p = fs_get w0 p \<and> dom (dir_holds d w0) \<subseteq> dom (dir_holds d w1)"
proof -
  let ?s1 = "NewDirectoryStore d1 False" and ?s = "NewDirectoryStore d True"
  have d: "ds_dir ?s1 = d1" "ds_dir ?s = d" by (simp_all add: NewDirectoryStore_def)
  obtain s1 s2 e where i: "main_init h fc (p0, w0, m, n) = (Ok (), s1)" and c: "command_runs h (ExportCmd ec) s1 (Ok ()) s2"
    and e: "main_shutdown h fc s2 = (e, p1, w1, m1, n1)"
    using htvend_main_0 [OF assms(1)] by blast
  obtain q wa where a: "Apply (h_log h) (h_LOG_LEVEL h) fc (p0, w0) = (Ok (), q, wa)" and s1: "s1 = (q, wa, m, n)"
    using i by (auto simp: main_init_def split: prod.splits)
  note A = Apply_Ok [OF a]
  have i: "dir_inv d1 wa" "dir_inv d wa" using dir_inv_env assms(11,12) A by blast+
  from c [unfolded s1] show ?thesis
  proof (rule command_runs_export)
    fix wc mc
    assume s2: "s2 = (q, wc, mc, n)" and x: "export_Execute (platform_at h (proc_cwd q)) (h_lock h) ec (wa, m) (Ok ()) (wc, mc)"
    have "export_Execute pl (h_lock h) ec (wa, m) (Ok ()) (wc, mc)" using x A assms(2) by simp
    then obtain b1 b2 f wb r wd md where o: "export_open pl (h_lock h) ec wa = (Ok (b1, b2), Some f, wb)"
      and ex: "export_execute (any_store pl b1) (any_store pl b2) f (wb, m) r (wd, md)"
      and cl: "close_deferred (h_lock h) f r wd = (Ok (), wc)"
      by (rule export_Execute_Ok)
    note O = export_opened [OF o assms(4,5,6) i assms(7,8)]
    have nw: "\<not> Writable (options f)" using O by blast
    have rd: "r = Ok ()" "wc = wd" using cl close_readonly [OF nw, of "h_lock h" r wd] by simp_all
    have ex: "export_execute (any_store pl (FileStore ?s1)) (any_store pl (FileStore ?s)) f (wb, m) (Ok ()) (wd, md)"
      using ex O rd by simp
    have wb: "dir_holds x wb = dir_holds x w0" "fs_get wb p = fs_get w0 p" "fs_get wa p = fs_get w0 p" for x
      using A O by (simp_all add: dir_holds_def fun_eq_iff)
    from ex obtain ks t where ks: "export_keys f = Ok ks" and w: "(wd, md) = mt_world t" and rt: "mt_caller t = caller.Returned None"
      and mr: "mt_reach (export_step (any_store pl (FileStore ?s1)) (any_store pl (FileStore ?s))) export_outc (map E_Start ks) (wb, m) t"
      by (rule export_execute_Ok)
    let ?good = "\<lambda>v. dir_inv d (fst v) \<and> (source_inv d1 d (dir_holds d1 wb) (fst v) \<and> file_loc d (wb, m) v) \<and> content_addressed (dir_holds d (fst v))"
    have g: "?good (wb, m)" using O assms(7,13) by (simp add: source_inv_def file_loc_def wb)
    have g2: "?good (wd, md) \<and> dom (dir_holds d wb) \<subseteq> dom (dir_holds d wd) \<and>
        (mt_caller t = caller.Returned None \<longrightarrow> (\<forall>k \<in> set ks. \<exists>c. dir_holds d wd k = Some c \<and> sha256 c = k))"
      using exl.export_all [of pl ?s1 ?s, unfolded d, OF mr g] unfolding w [symmetric] fst_conv .
    have wd: "file_loc d (wb, m) (wd, md)" "dom (dir_holds d wb) \<subseteq> dom (dir_holds d wd)"
        "\<forall>k \<in> set ks. \<exists>c. dir_holds d wd k = Some c \<and> sha256 c = k"
      using g2 rt by blast+
    have "\<exists>k c. hex_decode (Sha256 (snd kv)) = Ok k \<and> dir_holds d wd k = Some c \<and> sha256 c = k"
      if kv: "kv \<in> set (gm_entries (blobs f))" for kv
      using export_keys_all [OF ks, of "fst kv" "snd kv"] kv wd(3) by auto
    moreover have "on_disk (blobs f) p w0" using O assms(3) wb by (simp add: on_disk_def)
    moreover have "beside p d wc w1"
      using e s2 A assms(10) by (auto simp: main_shutdown_def split: prod.splits intro: OnShutdown_beside)
    moreover have "fs_get wc p = fs_get w0 p" using wd(1) assms(9) rd by (simp add: file_loc_def dir_local_def wb)
    ultimately show ?thesis using beside_keeps wd(2) rd(2) by (metis wb(1))
  qed
qed

lemma kept_exported:
  "\<exists>w. htvend_main sample_host sample_flags (Command (Some (ExportCmd plain_export))) (sample_process, kept_os, (), 0) 0
    (sample_process, w, (), 0)"
proof -
  let ?s1 = "NewDirectoryStore [''blobs''] False" and ?s = "NewDirectoryStore [''dst''] True"
  let ?H = "dir_holds [''blobs''] kept_os"
  have d: "ds_dir ?s1 = [''blobs'']" "ds_dir ?s = [''dst'']" "ds_writable ?s" by (simp_all add: NewDirectoryStore_def)
  have "MakeBlobStore plain_platform (ec_Dest plain_export) True w = (Ok (FileStore ?s), w)" for w
  proof -
    have "path_of [] ''/dst'' = [''dst'']" and "\<not> has_prefix ''/dst'' xdg_home" by code_simp+
    then show ?thesis by (simp add: MakeBlobStore_def plain_export_def xdgIt_def plain_platform_def)
  qed
  then have o: "export_open plain_platform plain_fslock plain_export kept_os = (Ok (FileStore ?s1, FileStore ?s), Some kept_file, kept_os)"
    using kept_manifest kept_store by (simp add: export_open_def plain_export_def mc_none_def)
  have u: "url_Parse (url_Redacted sample_url) = Ok sample_url" by code_simp
  have ks: "export_keys kept_file = Ok [hello_key]"
    by (simp add: export_keys_def ForEach_def kept_file_def kept_blobs_def gm_entries_def u needed_entry_def gm_make_def)
  have dst: "dir_ready [''dst''] kept_os" "content_addressed (dir_holds [''dst''] kept_os)"
    by (auto simp: dir_ready_def dir_inv_def kept_os_def prefixes_of_def dir_holds_def fs_get_def content_addressed_def)
  have ap: "dir_apart [''blobs''] [''dst'']" by (simp add: dir_apart_def prefixes_of_def)
  have br: "both_ready [''blobs''] [''dst''] ?H kept_os" using kept_ready dst by (simp add: both_ready_def)
  have "dir_inv (ds_dir ?s) kept_os \<and> source_inv (ds_dir ?s1) (ds_dir ?s) ?H kept_os \<and> content_addressed (dir_holds (ds_dir ?s) kept_os)"
    using br dst ap by (simp add: d both_ready_def dir_ready_def source_inv_def)
  then obtain r w where x: "export_execute (dir_store ?s1) (dir_store ?s) kept_file kept_os r w" using dir_export_some ks by blast
  have "r = Ok ()"
    by (rule export_execute_ready [OF x _ _ _ ks]) (use br dst ap kept_ready(2) in \<open>auto simp: d prefixes_of_def\<close>)
  then have "export_Execute plain_platform plain_fslock plain_export (kept_os, ()) (Ok ()) (w, ())"
    using export_Execute.opened [OF o export_lift [OF x]] by (simp add: close_readonly kept_file_def)
  then have "command_runs sample_host (ExportCmd plain_export) (sample_process, kept_os, (), 0) (Ok ()) (sample_process, w, (), 0)"
    by (intro command_runs.export) (use kept_places(1) in \<open>simp add: sample_host_def main_cwd_def sample_flags_def\<close>)
  then show ?thesis using sample_status by blast
qed

lemma export_status_witness:
  "\<exists>w c. htvend_main sample_host sample_flags (Command (Some (ExportCmd plain_export))) (sample_process, kept_os, (), 0) 0
    (sample_process, w, (), 0) \<and> dir_holds [''dst''] w hello_key = Some c \<and> sha256 c = hello_key"
proof -
  obtain w where x: "htvend_main sample_host sample_flags (Command (Some (ExportCmd plain_export))) (sample_process, kept_os, (), 0) 0
    (sample_process, w, (), 0)" using kept_exported by blast
  have m: "ec_Manifest plain_export = plain_options" by (simp add: plain_export_def)
  have i: "dir_inv [''blobs''] kept_os" "dir_inv [''dst''] kept_os" "content_addressed (dir_holds [''dst''] kept_os)"
      "dir_apart [''blobs''] [''dst'']" "dir_apart [''dst''] [''blobs'']"
    by (auto simp: dir_inv_def kept_os_def dir_apart_def prefixes_of_def content_addressed_def dir_holds_def fs_get_def)
  obtain mm where mm: "on_disk mm [''assets.json''] kept_os" "\<forall>kv. kv \<in> set (gm_entries mm) \<longrightarrow>
      (\<exists>k c. hex_decode (Sha256 (snd kv)) = Ok k \<and> dir_holds [''dst''] w k = Some c \<and> sha256 c = k)"
    using export_status [OF x kept_places(1) _ plain_xdg _ kept_places(4) i(4,5) _ _ i(1-3), of "[''assets.json'']"] kept_places(2,3)
    by (auto simp: m sample_flags_def)
  have "mm = kept_blobs" using mm(1) kept_on_disk by (rule on_disk_unique)
  then show ?thesis using mm(2) x by (auto simp: kept_blobs_def gm_entries_def)
qed

end
