(* ===== verification/Spec2Isabelle.thy ===== *)
theory Spec2Isabelle
  imports CommandChecks SharedStore Jobs RegistryServer Export S3Store DownloadImage InFlight ProgramChecks
begin

text \<open>
  htvend records the HTTP downloads of a build in a manifest, keeps their bodies in a content-addressed store, and
  later serves them to the same build without the network. This development models the Go program under src/cli and
  proves what its parts promise.

  \<^bold>\<open>The program.\<close> A command (\<open>build\<close>, \<open>offline\<close>, \<open>verify\<close>, \<open>export\<close>) opens the manifest file and a blob store. \<open>build\<close>
  and \<open>offline\<close> run a session: a proxy server on two sockets with an authority of its own, and inside it a subprocess
  whose environment points to the proxy. The handler of the proxy looks a request up in the manifest and serves the
  blob, or fetches it, stores the body under its SHA-256 digest and records it. \<open>verify\<close> reads every blob and fetches
  missing ones; \<open>export\<close> copies the blobs to another store in parallel. A second program, \<open>download-image\<close>, requests
  what belongs to a container image, so that a build around it records that.

  \<^bold>\<open>Theories and sources\<close> (under src/cli/internal unless said otherwise).
  \<^item> \<open>Prelude\<close>: errors with the errors they wrap, outcomes (value, error or panic), Go maps, strings. \<open>Sha256\<close>,
    \<open>Hex\<close>, \<open>Url\<close>, \<open>GoJson\<close>, \<open>Regexp\<close>, \<open>Http\<close>, \<open>OS\<close>: what the program uses of Go's library, executable.
  \<^item> \<open>BlobStore\<close> (blobstore/store.go): the interface as a record of functions and its contract as locales
    (\<open>blob_store\<close> and extensions), which every store interprets and in which the clients' lemmas are proved once.
  \<^item> \<open>Caf\<close>, \<open>DirectoryStore\<close> (blobstore/directory), \<open>RegistryStore\<close>, \<open>RegistryServer\<close> (blobstore/registry),
    \<open>S3Store\<close> (blobstore/s3store): the stores. The registry and the S3 client are parameters with the laws of their
    specifications; \<open>RegistryServer\<close> shows the laws can be met by an executable server.
  \<^item> \<open>Lockfile\<close> (lockfile/lock_file.go): the manifest, with its lock and its JSON text.
  \<^item> \<open>Listener\<close> (htvend/flags_listener.go): the handler as a function of one request. \<open>ServerThreads\<close>: the same handler
    as a machine, one for each goroutine, whose steps interleave. \<open>InFlight\<close>: requests in flight when the command ends.
    \<open>Verify\<close> (htvend/command_verify.go).
  \<^item> \<open>Jobs\<close> (jobs/multitasker.go), \<open>SharedStore\<close>, \<open>Export\<close> (htvend/command_export.go): the goroutines of the parallel
    export as step relations; one call of a store is one step. \<open>SharedStore\<close> has the contract of a store that several
    goroutines use at once, for the export and for the handlers.
  \<^item> \<open>Backend\<close> (htvend/flags_manifest.go), \<open>Frame\<close>, \<open>StoreLift\<close>: the store that the options choose, what its
    operations leave alone, and contracts carried to a larger world. \<open>Commands\<close>, \<open>CommandRuns\<close>, \<open>CommandChecks\<close>
    (htvend/command_*.go): the commands and what holds from their start to their end.
  \<^item> \<open>RegistryAuth\<close> (registryauthclient): the transport that obtains and caches tokens. \<open>DownloadImage\<close>
    (cmd/download-image).
  \<^item> \<open>ServerKeys\<close>, \<open>ProxyServer\<close> (proxyserver/http_proxy.go): the authority, the goroutines of \<open>ServeUntilDone\<close>, CONNECT.
  \<^item> \<open>App\<close> (app), \<open>Environment\<close> (htvend/environment_*.go), \<open>Session\<close> (\<open>RunListenerWithSubprocess\<close>).
    \<open>SessionRun\<close>: a session as a run of the handlers of its requests. \<open>Program\<close> (cmd/htvend/main.go): the whole program.
    \<open>ExportLift\<close>, \<open>ProgramChecks\<close>: what status 0 of \<open>verify\<close> and \<open>export\<close> says.

  \<^bold>\<open>State and errors.\<close> The outside is explicit: the file system \<open>os\<close>, the state of the network and of the storage
  services, the clock. Every system call may fail as a script of faults says, over which the theorems quantify. A Go
  function that returns an error returns a value of \<open>res\<close>, whose third case is a panic; a deferred call that
  may replace the error is \<open>defer_err\<close>.

  \<^bold>\<open>What is shown.\<close> For the stores: round trips, content addressing under any fault, what RemoveExcept removes. For
  the manifest: persistence, pruning, no overwriting, what a read-only or damaged manifest does. For the handler:
  every entry stays backed by a blob under any requests and faults, in every interleaving of the handlers, and what
  clients got is what was recorded; an entry that was not there before is that of the whole body of a 200 answer to an
  arrived request; a fetch without failures succeeds; offline runs change nothing, and without failures they answer what a
  build recorded, also from disk to disk through the commands. The machine is shown to compute the function where one handler
  runs alone (\<open>handler_alone\<close> in \<open>ServerThreads\<close>), so that what is shown of the function carries over to a request that
  nobody disturbs. A client may have its answer before it is recorded,
  and the command does not wait: such an entry can be missing in the manifest. For the program: a build that exits with status 0 leaves a
  manifest on the disk every entry of which is backed, from the parsed command line through the common flags, the keys,
  the environment and the subprocess to the closing of the manifest; status 0 of \<open>verify\<close> and of \<open>export\<close> means that every
  entry of the manifest on the disk has its content, in the store and in the destination. For verify and export: exactness, completeness in every
  interleaving, termination without deadlock; the multitasker refines the interleaving of its jobs. For the proxy
  server: every run ends, with one exception (a failed second listener), what it has released then, and which error it
  returns. For the authentication: tokens stay with their repository, which is read off the text of a URL independently of
  the expression in the code, and how long they live. For uploads: the byte ranges of their parts. For a session: the environment,
  and that nothing of its temporary directory is left. Properties that show a defect (a panic, a hang, an overflow, an
  ineffective option) are stated as the code behaves.

  \<^bold>\<open>Assumptions.\<close> Outside of the repository and parameters: file locks (\<open>fslock\<close>), \<open>regexp.Compile\<close> (matching itself is
  modelled on expression trees), HTTP transports, registries, AWS, the cryptography of certificates, PEM
  decoding, go-multierror, go-flags, logrus, prometheus, xdg, the JSON of the OCI types, subprocesses. Names of
  files have no symbolic links and do not end in a slash. A step of a handler is one call of the
  manifest (which holds its mutex), of the store or of the transport, or one chunk of a copy; round trips of the
  authenticating transport are taken one after another. How a handler waits for the mutex or for the network is not in the
  model, and no property says that every request is answered in the end. Handlers that have not finished when the child of the server ends
  take any further steps before the manifest is closed, and are given up then: what they do later no longer reaches
  the manifest file. A daemon's wait for a signal is the time at which its child event happens;
  what others do meanwhile is a parameter of the session. The strings of a manifest are compared as valid UTF-8,
  because JSON replaces invalid bytes; digests survive in any case.

  \<^bold>\<open>Bounds.\<close> The recursions are structural or have a measure; no fuel is used. The depth limit of JSON values is Go's
  (10000). A run of \<open>ServeUntilDone\<close> has at most fifteen events. Durations of tokens are 64-bit words.

  \<^bold>\<open>Not modelled.\<close> Log messages; permissions of files, and with them the chmod walk before a temporary directory is
  deleted; timeouts; \<open>RunUntilSignals\<close>, which makes the context whose end is the \<open>Signal\<close> event.
\<close>

end
